(* ===== verification/Prelude.thy ===== *)
theory Prelude
  imports Main "HOL-Library.Word" "HOL-Library.FSet"
begin

text \<open>
  Shared vocabulary of the development.

  \<^item> Machine integers: Rust's \<^verbatim>\<open>u8\<close>, \<^verbatim>\<open>u32\<close> and \<^verbatim>\<open>u64\<close> are words of that width, whose
    \<open>+\<close> wraps exactly as the release build's \<^verbatim>\<open>+=\<close> does.
  \<^item> Time: \<^verbatim>\<open>std::time::Instant\<close> and \<^verbatim>\<open>std::time::Duration\<close> are natural numbers of
    nanoseconds; the sources only add a duration to an instant and compare instants.
  \<^item> Panics: a Rust function that can reach an \<^verbatim>\<open>expect\<close> on an absent value returns an
    \<open>option\<close>, with \<open>None\<close> for the panic.
  \<^item> Errors: a \<^verbatim>\<open>Result<T, E>\<close> is \<open>'e + 't\<close>, with \<open>Inl\<close> for \<^verbatim>\<open>Err\<close>.
  \<^item> The locale \<open>inductive_invariant\<close> is the contract between a state machine and a
    property of its reachable states; it is interpreted once per machine and invariant.
\<close>

type_synonym u8 = "8 word"
type_synonym u32 = "32 word"
type_synonym u64 = "64 word"
type_synonym instant = nat
type_synonym duration = nat

named_theorems wf_intros \<open>an operation keeps the well-formedness of its component\<close>
named_theorems denote_simps \<open>the abstract value of an operation's result\<close>

subsection \<open>Results\<close>

text \<open>\<^verbatim>\<open>let _ = self.part.op(..)\<close>: the operation's new part on success, the old one on error.\<close>

definition keep_on_err :: "'p \<Rightarrow> 'e + 'p \<Rightarrow> 'p" where
  "keep_on_err p res = (case res of Inl _ \<Rightarrow> p | Inr p' \<Rightarrow> p')"

lemma keep_on_err_simps [simp]:
  "keep_on_err p (Inl e) = p"
  "keep_on_err p (Inr q) = q"
  by (simp_all add: keep_on_err_def)

text \<open>The operator \<^verbatim>\<open>?\<close>: go on with the value, or return the error.\<close>

definition and_then :: "'e + 'a \<Rightarrow> ('a \<Rightarrow> 'e + 'b) \<Rightarrow> 'e + 'b" where
  "and_then r f = (case r of Inl e \<Rightarrow> Inl e | Inr x \<Rightarrow> f x)"

lemma and_then_simps [simp]:
  "and_then (Inl e) f = Inl e"
  "and_then (Inr x) f = f x"
  by (simp_all add: and_then_def)

lemma and_then_Inr: "and_then r f = Inr y \<longleftrightarrow> (\<exists>x. r = Inr x \<and> f x = Inr y)"
  by (cases r) simp_all

text \<open>A conversion of the error on the way out.\<close>

definition map_err :: "('e \<Rightarrow> 'f) \<Rightarrow> 'e + 'a \<Rightarrow> 'f + 'a" where
  "map_err g r = (case r of Inl e \<Rightarrow> Inl (g e) | Inr x \<Rightarrow> Inr x)"

lemma map_err_simps [simp]:
  "map_err g (Inl e) = Inl (g e)"
  "map_err g (Inr x) = Inr x"
  "map_err g r = Inr y \<longleftrightarrow> r = Inr y"
  by (simp_all add: map_err_def split: sum.splits)

text \<open>A \<^verbatim>\<open>for\<close> loop whose body may return an error, with the state it updates.\<close>

fun try_fold :: "('a \<Rightarrow> 's \<Rightarrow> 'e + 's) \<Rightarrow> 'a list \<Rightarrow> 's \<Rightarrow> 'e + 's" where
  "try_fold f [] s = Inr s"
| "try_fold f (x # xs) s = and_then (f x s) (try_fold f xs)"

lemma try_fold_unit: "try_fold (\<lambda>x _. f x) xs () = Inr () \<longleftrightarrow> (\<forall>x \<in> set xs. f x = Inr ())"
  by (induction xs) (auto simp: and_then_Inr)

lemma try_fold_invariant:
  assumes "try_fold f xs s = Inr t" "P s"
    and "\<And>x s s'. x \<in> set xs \<Longrightarrow> P s \<Longrightarrow> f x s = Inr s' \<Longrightarrow> P s'"
  shows "P t"
  using assms by (induction xs arbitrary: s) (auto simp: and_then_Inr)

subsection \<open>Lists updated at their end, as a \<^verbatim>\<open>Vec\<close> is\<close>

definition map_last :: "('a \<Rightarrow> 'a) \<Rightarrow> 'a list \<Rightarrow> 'a list" where
  "map_last f xs = (if xs = [] then [] else butlast xs @ [f (last xs)])"

lemma map_last_simps [simp]:
  "map_last f [] = []"
  "map_last f [x] = [f x]"
  "map_last f (xs @ [x]) = xs @ [f x]"
  "map_last f (xs @ [y, x]) = xs @ [y, f x]"
  by (simp_all add: map_last_def butlast_append)

lemma length_map_last [simp]: "length (map_last f xs) = length xs"
  by (simp add: map_last_def)

lemma map_last_eq_Nil [simp]: "map_last f xs = [] \<longleftrightarrow> xs = []"
  by (simp add: map_last_def)

lemma map_map_last:
  "map g (map_last f xs) = map_last (\<lambda>_. g (f (last xs))) (map g xs)"
  by (cases xs rule: rev_cases) simp_all

subsection \<open>Words as counters\<close>

lemma unat_Suc_word:
  fixes w :: "'a::len word"
  assumes "unat w < 2 ^ LENGTH('a) - 1"
  shows "unat (w + 1) = Suc (unat w)"
  using assms by (simp add: unat_word_ariths unat_of_nat)

subsection \<open>Invariants of a state machine\<close>

locale inductive_invariant =
  fixes start :: "'s \<Rightarrow> bool"
    and step :: "'s \<Rightarrow> 's \<Rightarrow> bool"
    and inv :: "'s \<Rightarrow> bool"
  assumes start_inv: "start s \<Longrightarrow> inv s"
    and step_inv: "inv s \<Longrightarrow> step s t \<Longrightarrow> inv t"
begin

lemma steps_inv: "step\<^sup>*\<^sup>* s t \<Longrightarrow> inv s \<Longrightarrow> inv t"
  by (induction rule: rtranclp_induct) (auto intro: step_inv)

lemma reachable_inv: "start s \<Longrightarrow> step\<^sup>*\<^sup>* s t \<Longrightarrow> inv t"
  by (auto intro: steps_inv start_inv)

end

end
