(* ===== verification/TxIdentity.thy ===== *)
theory TxIdentity
  imports Prelude
begin

text \<open>
  The lifecycle classifier of the transaction protocol
  (\<^verbatim>\<open>crates/zeroship-data-orm/src/transaction/reducer/identity.rs\<close>) and the denial
  vocabulary it shares with the backends (\<^verbatim>\<open>crates/zeroship-data-orm/src/error.rs\<close>).

  The lemmas show that the classifier is total with exactly the documented split (identity
  denies, lifecycle and epoch re-resolve), that no lifecycle fact of another subject leaks
  through a denial, and that the mask-ceiling fold is a greatest lower bound.
\<close>

subsection \<open>Data\<close>

record AuthorityIdentity =
  identity_key :: string
  identity_incarnation :: u64

definition for_app :: "string \<Rightarrow> u64 \<Rightarrow> AuthorityIdentity" where
  "for_app app_id incarnation = \<lparr>identity_key = app_id, identity_incarnation = incarnation\<rparr>"

record AuthorityDomain =
  system_identifier :: u64
  timeline_id :: u32

datatype SchemaEpoch = SchemaEpoch u64

datatype LifecycleState = Stable | Changing | Deprovisioned

record MaskCeiling =
  allowed :: "string fset"

record ExpectedAuthority =
  exp_identity :: AuthorityIdentity
  exp_domain :: AuthorityDomain
  exp_epoch :: SchemaEpoch

record ObservedAuthority =
  obs_identity :: AuthorityIdentity
  obs_domain :: AuthorityDomain
  obs_epoch :: SchemaEpoch
  obs_lifecycle :: LifecycleState
  obs_ceiling :: MaskCeiling

datatype DenyReason =
  AppDeprovisioned | StaleAppIncarnation | AuthorityDomainMismatch | GrantRevoked

datatype Verdict = Current MaskCeiling | ReResolve | Deny DenyReason

subsection \<open>Operations\<close>

fun deny_code :: "DenyReason \<Rightarrow> string" where
  "deny_code AppDeprovisioned = ''APP_DEPROVISIONED''"
| "deny_code StaleAppIncarnation = ''STALE_APP_INCARNATION''"
| "deny_code AuthorityDomainMismatch = ''AUTHORITY_DOMAIN_MISMATCH''"
| "deny_code GrantRevoked = ''GRANT_REVOKED''"

definition deny_retryable :: "DenyReason \<Rightarrow> bool" where
  "deny_retryable reason = False"

definition ceiling_of :: "string list \<Rightarrow> MaskCeiling" where
  "ceiling_of kinds = \<lparr>allowed = fset_of_list kinds\<rparr>"

definition meet :: "MaskCeiling \<Rightarrow> MaskCeiling \<Rightarrow> MaskCeiling" where
  "meet self other = \<lparr>allowed = allowed self |\<inter>| allowed other\<rparr>"

definition is_no_broader_than :: "MaskCeiling \<Rightarrow> MaskCeiling \<Rightarrow> bool" where
  "is_no_broader_than self other \<longleftrightarrow> allowed self |\<subseteq>| allowed other"

definition permits :: "MaskCeiling \<Rightarrow> string \<Rightarrow> bool" where
  "permits self kind \<longleftrightarrow> kind |\<in>| allowed self"

fun is_forcing :: "Verdict \<Rightarrow> bool" where
  "is_forcing (Current _) = False"
| "is_forcing _ = True"

definition classify :: "ObservedAuthority \<Rightarrow> ExpectedAuthority \<Rightarrow> Verdict" where
  "classify observed expected =
     (if obs_domain observed \<noteq> exp_domain expected then Deny AuthorityDomainMismatch
      else if obs_identity observed \<noteq> exp_identity expected then Deny StaleAppIncarnation
      else case obs_lifecycle observed of
             Deprovisioned \<Rightarrow> Deny AppDeprovisioned
           | Changing \<Rightarrow> ReResolve
           | Stable \<Rightarrow>
               (if obs_epoch observed \<noteq> exp_epoch expected then ReResolve
                else Current (obs_ceiling observed)))"

subsection \<open>The ceiling is a meet-semilattice\<close>

lemma no_broader_refl [simp]: "is_no_broader_than c c"
  by (simp add: is_no_broader_than_def)

lemma no_broader_trans [trans]:
  "is_no_broader_than a b \<Longrightarrow> is_no_broader_than b c \<Longrightarrow> is_no_broader_than a c"
  by (auto simp: is_no_broader_than_def)

lemma meet_no_broader [simp]:
  "is_no_broader_than (meet a b) a"
  "is_no_broader_than (meet a b) b"
  by (auto simp: is_no_broader_than_def meet_def)

lemma meet_greatest:
  "is_no_broader_than c a \<Longrightarrow> is_no_broader_than c b \<Longrightarrow> is_no_broader_than c (meet a b)"
  by (auto simp: is_no_broader_than_def meet_def)

lemma permits_meet [simp]: "permits (meet a b) k \<longleftrightarrow> permits a k \<and> permits b k"
  by (auto simp: permits_def meet_def)

lemma no_broader_permits: "is_no_broader_than a b \<longleftrightarrow> (\<forall>k. permits a k \<longrightarrow> permits b k)"
  by (auto simp: is_no_broader_than_def permits_def)

subsection \<open>What a verdict says about the observation\<close>

lemma classify_current_iff:
  "classify obs ex = Current c \<longleftrightarrow>
     obs_domain obs = exp_domain ex \<and> obs_identity obs = exp_identity ex \<and>
     obs_lifecycle obs = Stable \<and> obs_epoch obs = exp_epoch ex \<and> c = obs_ceiling obs"
  by (auto simp: classify_def split: LifecycleState.splits)

lemma classify_reresolve_iff:
  "classify obs ex = ReResolve \<longleftrightarrow>
     obs_domain obs = exp_domain ex \<and> obs_identity obs = exp_identity ex \<and>
     (obs_lifecycle obs = Changing \<or>
      obs_lifecycle obs = Stable \<and> obs_epoch obs \<noteq> exp_epoch ex)"
  by (auto simp: classify_def split: LifecycleState.splits)

lemma classify_deny_iff:
  "classify obs ex = Deny reason \<longleftrightarrow>
     (if obs_domain obs \<noteq> exp_domain ex then reason = AuthorityDomainMismatch
      else if obs_identity obs \<noteq> exp_identity ex then reason = StaleAppIncarnation
      else obs_lifecycle obs = Deprovisioned \<and> reason = AppDeprovisioned)"
  by (auto simp: classify_def split: LifecycleState.splits)

end
