(* ===== verification/TxDeadline.thy ===== *)
theory TxDeadline
  imports Prelude
begin

text \<open>
  The transaction's single deadline slot
  (\<^verbatim>\<open>crates/zeroship-data-orm/src/transaction/reducer/deadline.rs\<close>): a slot with exactly
  four mutators, each of which refuses with \<open>Stale\<close> and leaves the slot as it was.

  The locale \<open>one_shot_timer\<close> states what the reducer relies on: an armed timer is claimed
  by its own \<open>(kind, generation)\<close> pair and by no other, and a claim excludes every later
  delivery of the same expiry.
\<close>

subsection \<open>Data\<close>

datatype DeadlineKind = Execution | CancellationSql | TerminalSql

fun deadline_kind_as_str :: "DeadlineKind \<Rightarrow> string" where
  "deadline_kind_as_str Execution = ''execution''"
| "deadline_kind_as_str CancellationSql = ''cancellation_sql''"
| "deadline_kind_as_str TerminalSql = ''terminal_sql''"

datatype DeadlineGeneration = DeadlineGeneration (deadline_generation_get: u64)

record DeadlineGenerations =
  gen_next :: u64

datatype DeadlineState =
  Disarmed
| Armed DeadlineKind DeadlineGeneration instant
| Fired DeadlineKind DeadlineGeneration

datatype DeadlineError = Stale

fun deadline_error_code :: "DeadlineError \<Rightarrow> string" where
  "deadline_error_code Stale = ''stale_transaction_deadline''"

record ScheduleTimer =
  timer_kind :: DeadlineKind
  timer_generation :: DeadlineGeneration
  timer_at :: instant

record DeadlineSlot =
  slot_state :: DeadlineState

subsection \<open>Operations\<close>

definition mint_generation :: "DeadlineGenerations \<Rightarrow> DeadlineGenerations \<times> DeadlineGeneration" where
  "mint_generation self =
     (let self' = self\<lparr>gen_next := gen_next self + 1\<rparr>
      in (self', DeadlineGeneration (gen_next self')))"

definition deadline_slot_new :: DeadlineSlot where
  "deadline_slot_new = \<lparr>slot_state = Disarmed\<rparr>"

definition arm_initial ::
  "DeadlineSlot \<Rightarrow> DeadlineKind \<Rightarrow> DeadlineGeneration \<Rightarrow> instant \<Rightarrow>
     DeadlineError + (DeadlineSlot \<times> ScheduleTimer)" where
  "arm_initial self kind generation at =
     (if slot_state self \<noteq> Disarmed then Inl Stale
      else Inr (self\<lparr>slot_state := Armed kind generation at\<rparr>,
                \<lparr>timer_kind = kind, timer_generation = generation, timer_at = at\<rparr>))"

definition claim_fire ::
  "DeadlineSlot \<Rightarrow> DeadlineKind \<Rightarrow> DeadlineGeneration \<Rightarrow> DeadlineError + DeadlineSlot" where
  "claim_fire self kind generation =
     (case slot_state self of
        Armed armed_kind armed_generation _ \<Rightarrow>
          (if armed_kind = kind \<and> armed_generation = generation
           then Inr (self\<lparr>slot_state := Fired kind generation\<rparr>) else Inl Stale)
      | _ \<Rightarrow> Inl Stale)"

definition replace_current ::
  "DeadlineSlot \<Rightarrow> DeadlineKind \<Rightarrow> DeadlineKind \<Rightarrow> DeadlineGeneration \<Rightarrow> instant \<Rightarrow>
     DeadlineError + (DeadlineSlot \<times> ScheduleTimer)" where
  "replace_current self expected_kind next_kind next_generation next_at =
     (let replace = (\<lambda>current_kind.
        if current_kind \<noteq> expected_kind then Inl Stale
        else Inr (self\<lparr>slot_state := Armed next_kind next_generation next_at\<rparr>,
                  \<lparr>timer_kind = next_kind, timer_generation = next_generation,
                   timer_at = next_at\<rparr>))
      in case slot_state self of
           Armed kind _ _ \<Rightarrow> replace kind
         | Fired kind _ \<Rightarrow> replace kind
         | Disarmed \<Rightarrow> Inl Stale)"

definition disarm :: "DeadlineSlot \<Rightarrow> DeadlineSlot" where
  "disarm self = self\<lparr>slot_state := Disarmed\<rparr>"

subsection \<open>Behaviour of the mutators\<close>

definition armed_with :: "DeadlineSlot \<Rightarrow> DeadlineKind \<Rightarrow> DeadlineGeneration \<Rightarrow> bool" where
  "armed_with slot kind generation \<longleftrightarrow> (\<exists>at. slot_state slot = Armed kind generation at)"

lemma armed_with_unique:
  "armed_with slot k g \<Longrightarrow> armed_with slot k' g' \<Longrightarrow> k' = k \<and> g' = g"
  by (auto simp: armed_with_def)

lemma claim_fire_iff:
  "claim_fire slot k g = Inr slot' \<longleftrightarrow>
     armed_with slot k g \<and> slot' = slot\<lparr>slot_state := Fired k g\<rparr>"
  by (auto simp: claim_fire_def armed_with_def split: DeadlineState.splits)

lemma claim_fire_armed:
  "armed_with slot k g \<Longrightarrow> claim_fire slot k g = Inr (slot\<lparr>slot_state := Fired k g\<rparr>)"
  by (simp add: claim_fire_iff)

lemma claim_fire_refused: "\<not> armed_with slot k g \<Longrightarrow> claim_fire slot k g = Inl Stale"
  by (auto simp: claim_fire_def armed_with_def split: DeadlineState.splits)

lemma replace_current_Inr:
  "replace_current slot ek nk ng at' = Inr (slot', t) \<Longrightarrow>
     slot_state slot' = Armed nk ng at' \<and>
     t = \<lparr>timer_kind = nk, timer_generation = ng, timer_at = at'\<rparr>"
  by (auto simp: replace_current_def Let_def split: DeadlineState.splits if_splits)

lemma replace_current_armed:
  "slot_state slot = Armed ek g at \<Longrightarrow>
     replace_current slot ek nk ng at' =
       Inr (slot\<lparr>slot_state := Armed nk ng at'\<rparr>,
            \<lparr>timer_kind = nk, timer_generation = ng, timer_at = at'\<rparr>)"
  by (simp add: replace_current_def)

lemma replace_current_fired:
  "slot_state slot = Fired ek g \<Longrightarrow>
     replace_current slot ek nk ng at' =
       Inr (slot\<lparr>slot_state := Armed nk ng at'\<rparr>,
            \<lparr>timer_kind = nk, timer_generation = ng, timer_at = at'\<rparr>)"
  by (simp add: replace_current_def)

lemma arm_initial_fresh:
  "arm_initial deadline_slot_new k g at =
     Inr (\<lparr>slot_state = Armed k g at\<rparr>,
          \<lparr>timer_kind = k, timer_generation = g, timer_at = at\<rparr>)"
  by (simp add: arm_initial_def deadline_slot_new_def)

lemma slot_state_disarm [simp]: "slot_state (disarm slot) = Disarmed"
  by (simp add: disarm_def)

subsection \<open>The contract of a one-shot timer\<close>

locale one_shot_timer =
  fixes pending :: "'slot \<Rightarrow> 'key \<Rightarrow> bool"
    and claim :: "'slot \<Rightarrow> 'key \<Rightarrow> 'slot option"
  assumes one_pending: "pending s k \<Longrightarrow> pending s k' \<Longrightarrow> k' = k"
    and claim_iff: "claim s k \<noteq> None \<longleftrightarrow> pending s k"
    and claim_consumes: "claim s k = Some s' \<Longrightarrow> \<not> pending s' k'"
begin

lemma no_double_claim: "claim s k = Some s' \<Longrightarrow> claim s' k' = None"
  using claim_iff claim_consumes by blast

lemma foreign_key_refused: "pending s k \<Longrightarrow> k' \<noteq> k \<Longrightarrow> claim s k' = None"
  using claim_iff one_pending by blast

end

definition claim_option ::
  "DeadlineSlot \<Rightarrow> DeadlineKind \<times> DeadlineGeneration \<Rightarrow> DeadlineSlot option" where
  "claim_option slot key =
     (case claim_fire slot (fst key) (snd key) of Inl _ \<Rightarrow> None | Inr slot' \<Rightarrow> Some slot')"

interpretation deadline: one_shot_timer "\<lambda>slot (k, g). armed_with slot k g" claim_option
proof (unfold_locales, goal_cases)
  case (1 s k k')
  then show ?case by (cases k; cases k') (auto dest: armed_with_unique)
next
  case (2 s k)
  then show ?case
    by (cases k) (auto simp: claim_option_def claim_fire_iff claim_fire_armed split: sum.splits)
next
  case (3 s k s' k')
  then show ?case
    by (cases k; cases k')
       (auto simp: claim_option_def claim_fire_iff armed_with_def split: sum.splits)
qed

end
