(* ===== verification/Decimal.thy ===== *)
theory Decimal
  imports Prelude
begin

text \<open>
  Decimal text, as the sources use it from the Rust standard library: \<^verbatim>\<open>to_string\<close> and
  \<^verbatim>\<open>format!("{}")\<close> on unsigned and signed integers, and \<^verbatim>\<open>str::parse::<i64>\<close> with its
  optional sign, its refusal of the empty string, of a lone sign and of non-digits, and its
  refusal of values outside the 64-bit range.
\<close>

definition digit_char :: "nat \<Rightarrow> char" where
  "digit_char d = char_of (48 + d)"

definition char_digit :: "char \<Rightarrow> nat option" where
  "char_digit c = (let n = of_char c :: nat in if 48 \<le> n \<and> n \<le> 57 then Some (n - 48) else None)"

fun show_nat :: "nat \<Rightarrow> string" where
  "show_nat n = (if n < 10 then [digit_char n] else show_nat (n div 10) @ [digit_char (n mod 10)])"

declare show_nat.simps [simp del]

definition show_int :: "int \<Rightarrow> string" where
  "show_int i = (if i < 0 then CHR ''-'' # show_nat (nat (- i)) else show_nat (nat i))"

fun read_digits :: "nat \<Rightarrow> string \<Rightarrow> nat option" where
  "read_digits acc [] = Some acc"
| "read_digits acc (c # cs) =
     (case char_digit c of None \<Rightarrow> None | Some d \<Rightarrow> read_digits (10 * acc + d) cs)"

definition read_nat :: "string \<Rightarrow> nat option" where
  "read_nat s = (if s = [] then None else read_digits 0 s)"

definition i64_min :: int where "i64_min = - (2 ^ 63)"
definition i64_max :: int where "i64_max = 2 ^ 63 - 1"

definition in_i64 :: "int \<Rightarrow> bool" where
  "in_i64 i \<longleftrightarrow> i64_min \<le> i \<and> i \<le> i64_max"

definition check_i64 :: "int \<Rightarrow> int option" where
  "check_i64 i = (if in_i64 i then Some i else None)"

fun parse_i64 :: "string \<Rightarrow> int option" where
  "parse_i64 [] = None"
| "parse_i64 (c # cs) =
     (if c = CHR ''-'' then Option.bind (read_nat cs) (\<lambda>n. check_i64 (- int n))
      else if c = CHR ''+'' then Option.bind (read_nat cs) (\<lambda>n. check_i64 (int n))
      else Option.bind (read_nat (c # cs)) (\<lambda>n. check_i64 (int n)))"

subsection \<open>Reading back what was printed\<close>

lemma char_digit_digit_char: "d < 10 \<Longrightarrow> char_digit (digit_char d) = Some d"
  by (simp add: char_digit_def digit_char_def Let_def)

lemma digit_char_neq_sign:
  "d < 10 \<Longrightarrow> digit_char d \<noteq> CHR ''-''"
  "d < 10 \<Longrightarrow> digit_char d \<noteq> CHR ''+''"
proof -
  assume d: "d < 10"
  have "char_digit (CHR ''-'') = None" "char_digit (CHR ''+'') = None"
    by (simp_all add: char_digit_def)
  then show "digit_char d \<noteq> CHR ''-''" "digit_char d \<noteq> CHR ''+''"
    using char_digit_digit_char[OF d] by auto
qed

lemma read_digits_append:
  "read_digits acc (xs @ ys) = Option.bind (read_digits acc xs) (\<lambda>a. read_digits a ys)"
  by (induction xs arbitrary: acc) (auto split: option.splits)

lemma show_nat_nonempty: "show_nat n \<noteq> []"
  by (subst show_nat.simps) simp

lemma read_digits_show_nat: "read_digits 0 (show_nat n) = Some n"
proof (induction n rule: show_nat.induct)
  case (1 n)
  show ?case
  proof (cases "n < 10")
    case True
    then show ?thesis by (simp add: show_nat.simps[of n] char_digit_digit_char)
  next
    case False
    with "1.IH" show ?thesis
      by (simp add: show_nat.simps[of n] read_digits_append char_digit_digit_char)
  qed
qed

lemma read_nat_show_nat [simp]: "read_nat (show_nat n) = Some n"
  by (simp add: read_nat_def show_nat_nonempty read_digits_show_nat)

lemma show_nat_inject [simp]: "show_nat m = show_nat n \<longleftrightarrow> m = n"
  by (metis read_nat_show_nat option.inject)

lemma hd_show_nat: "\<exists>d<10. hd (show_nat n) = digit_char d"
proof (induction n rule: show_nat.induct)
  case (1 n)
  show ?case
  proof (cases "n < 10")
    case True
    then show ?thesis by (auto simp: show_nat.simps[of n])
  next
    case False
    with "1.IH" show ?thesis by (simp add: show_nat.simps[of n] show_nat_nonempty)
  qed
qed

lemma parse_i64_show_nat: "parse_i64 (show_nat n) = check_i64 (int n)"
proof -
  obtain c cs where s: "show_nat n = c # cs"
    using show_nat_nonempty by (cases "show_nat n") auto
  with hd_show_nat[of n] obtain d where "d < 10" "c = digit_char d" by auto
  then have "c \<noteq> CHR ''-''" "c \<noteq> CHR ''+''" by (simp_all add: digit_char_neq_sign)
  with s show ?thesis by (metis bind.bind_lunit parse_i64.simps(2) read_nat_show_nat)
qed

lemma parse_i64_show_int: "parse_i64 (show_int i) = check_i64 i"
  by (simp add: show_int_def parse_i64_show_nat)

lemma parse_i64_range: "parse_i64 s = Some i \<Longrightarrow> in_i64 i"
  by (cases s) (auto simp: check_i64_def split: if_splits Option.bind_splits)

end
