(* ===== verification/EffectBuffer.thy ===== *)
theory EffectBuffer
  imports Prelude
begin

text \<open>
  The interface of a buffer of change events with nested frames, and its abstract
  specification.

  A transaction body is a tree: it emits an effect, or it runs a nested transaction whose
  work survives (\<^verbatim>\<open>RELEASE\<close>) or is undone (\<^verbatim>\<open>ROLLBACK TO\<close>). The effects that survive are
  computed by \<open>surviving\<close> from the tree alone, with no buffer and no stack. The locale
  \<open>effect_buffer\<close> states the laws a buffer promises; the lemmas inside it show that a
  buffer that keeps them publishes exactly the surviving effects, in order.

  Two parts of the code implement the interface: the per-frame buffers of the reducer's
  frame stack (theory \<open>TxFrames\<close>) and the flat queue with watermarks of the transaction
  lane (theory \<open>TxLanes\<close>).
\<close>

datatype 'e body = Emit 'e | Sub bool "'e body list"

primrec surviving :: "'e body \<Rightarrow> 'e list" and surviving_all :: "'e body list \<Rightarrow> 'e list" where
  "surviving (Emit e) = [e]"
| "surviving (Sub released bs) = (if released then surviving_all bs else [])"
| "surviving_all [] = []"
| "surviving_all (b # bs) = surviving b @ surviving_all bs"

primrec nesting :: "'e body \<Rightarrow> nat" and nesting_all :: "'e body list \<Rightarrow> nat" where
  "nesting (Emit e) = 0"
| "nesting (Sub released bs) = Suc (nesting_all bs)"
| "nesting_all [] = 0"
| "nesting_all (b # bs) = max (nesting b) (nesting_all bs)"

text \<open>The abstract levels of a buffer are the effects of its open frames, outermost first.\<close>

locale effect_buffer =
  fixes invar :: "'s \<Rightarrow> bool"
    and cap :: "'s \<Rightarrow> nat"
    and levels :: "'s \<Rightarrow> 'e list list"
    and open_frame :: "'s \<Rightarrow> 's option"
    and emit :: "'e \<Rightarrow> 's \<Rightarrow> 's option"
    and release :: "'s \<Rightarrow> 's option"
    and rollback :: "'s \<Rightarrow> 's option"
    and drain :: "'s \<Rightarrow> 'e list"
  assumes levels_nonempty: "invar s \<Longrightarrow> levels s \<noteq> []"
    and open_law: "invar s \<Longrightarrow> length (levels s) \<le> cap s \<Longrightarrow>
      \<exists>s'. open_frame s = Some s' \<and> invar s' \<and> cap s' = cap s \<and> levels s' = levels s @ [[]]"
    and emit_law: "invar s \<Longrightarrow>
      \<exists>s'. emit e s = Some s' \<and> invar s' \<and> cap s' = cap s \<and>
        levels s' = map_last (\<lambda>es. es @ [e]) (levels s)"
    and release_law: "invar s \<Longrightarrow> levels s = ls @ [outer, inner] \<Longrightarrow>
      \<exists>s'. release s = Some s' \<and> invar s' \<and> cap s' = cap s \<and> levels s' = ls @ [outer @ inner]"
    and rollback_law: "invar s \<Longrightarrow> levels s = ls @ [outer, inner] \<Longrightarrow>
      \<exists>s'. rollback s = Some s' \<and> invar s' \<and> cap s' = cap s \<and> levels s' = ls @ [outer]"
    and drain_law: "invar s \<Longrightarrow> drain s = concat (levels s)"
begin

text \<open>Running a body against the buffer. \<open>None\<close> is a refusal of one of its operations.\<close>

primrec run_body :: "'e body \<Rightarrow> 's \<Rightarrow> 's option"
  and run_all :: "'e body list \<Rightarrow> 's \<Rightarrow> 's option" where
  "run_body (Emit e) s = emit e s"
| "run_body (Sub released bs) s =
     Option.bind (open_frame s) (\<lambda>s1.
       Option.bind (run_all bs s1) (\<lambda>s2. if released then release s2 else rollback s2))"
| "run_all [] s = Some s"
| "run_all (b # bs) s = Option.bind (run_body b s) (run_all bs)"

definition grows :: "'e list \<Rightarrow> 's \<Rightarrow> 's option \<Rightarrow> bool" where
  "grows es s res \<longleftrightarrow>
     (\<exists>s'. res = Some s' \<and> invar s' \<and> cap s' = cap s \<and>
           levels s' = map_last (\<lambda>top. top @ es) (levels s))"

lemma growsI:
  "invar s' \<Longrightarrow> cap s' = cap s \<Longrightarrow> levels s' = map_last (\<lambda>top. top @ es) (levels s) \<Longrightarrow>
   grows es s (Some s')"
  by (simp add: grows_def)

lemma grows_trans:
  assumes "grows es s (Some s1)" "grows fs s1 res"
  shows "grows (es @ fs) s res"
proof -
  from assms(1) have s1: "cap s1 = cap s" "levels s1 = map_last (\<lambda>top. top @ es) (levels s)"
    by (auto simp: grows_def)
  from assms(2) obtain s' where s': "res = Some s'" "invar s'" "cap s' = cap s1"
      "levels s' = map_last (\<lambda>top. top @ fs) (levels s1)"
    by (auto simp: grows_def)
  have "levels s' = map_last (\<lambda>top. top @ es @ fs) (levels s)"
    using s'(4) s1(2) by (cases "levels s" rule: rev_cases) auto
  with s' s1 show ?thesis by (auto intro!: growsI)
qed

lemma sub_grows:
  assumes inv: "invar s" and room: "length (levels s) \<le> cap s"
    and body: "\<And>s1. invar s1 \<Longrightarrow> cap s1 = cap s \<Longrightarrow> levels s1 = levels s @ [[]] \<Longrightarrow>
      grows (surviving_all bs) s1 (run_all bs s1)"
  shows "grows (surviving (Sub released bs)) s (run_body (Sub released bs) s)"
proof -
  from open_law[OF inv room] obtain s1 where s1: "open_frame s = Some s1" "invar s1"
    "cap s1 = cap s" "levels s1 = levels s @ [[]]" by blast
  from body[OF s1(2-4)] obtain s2 where s2: "run_all bs s1 = Some s2" "invar s2"
    "cap s2 = cap s1" "levels s2 = levels s @ [surviving_all bs]"
    by (auto simp: grows_def s1(4))
  obtain ls outer where ls: "levels s = ls @ [outer]"
    using levels_nonempty[OF inv] by (cases "levels s" rule: rev_cases) auto
  then have top: "levels s2 = ls @ [outer, surviving_all bs]" using s2(4) by simp
  show ?thesis
  proof (cases released)
    case True
    from release_law[OF s2(2) top] True ls s1 s2 show ?thesis by (auto simp: grows_def)
  next
    case False
    from rollback_law[OF s2(2) top] False ls s1 s2 show ?thesis by (auto simp: grows_def)
  qed
qed

lemma run_grows:
  "invar s \<Longrightarrow> length (levels s) + nesting b \<le> Suc (cap s) \<Longrightarrow>
     grows (surviving b) s (run_body b s)"
  "invar s \<Longrightarrow> length (levels s) + nesting_all bs \<le> Suc (cap s) \<Longrightarrow>
     grows (surviving_all bs) s (run_all bs s)"
proof (induction b and bs arbitrary: s and s rule: surviving.induct surviving_all.induct)
  case (Emit e)
  from emit_law[OF Emit(1), of e] show ?case by (auto simp: grows_def)
next
  case (Sub released bs)
  show ?case
  proof (rule sub_grows[OF Sub.prems(1)])
    show "length (levels s) \<le> cap s" using Sub.prems(2) by simp
  next
    fix s1 assume "invar s1" "cap s1 = cap s" "levels s1 = levels s @ [[]]"
    with Sub.prems(2) show "grows (surviving_all bs) s1 (run_all bs s1)"
      by (intro Sub.IH) auto
  qed
next
  case Nil_body
  then show ?case by (cases "levels s" rule: rev_cases) (auto simp: grows_def)
next
  case (Cons_body b bs)
  then have "grows (surviving b) s (run_body b s)" by simp
  then obtain s1 where s1: "run_body b s = Some s1" "grows (surviving b) s (Some s1)"
    by (auto simp: grows_def)
  then have "invar s1" "cap s1 = cap s" "length (levels s1) = length (levels s)"
    by (auto simp: grows_def)
  with Cons_body have "grows (surviving_all bs) s1 (run_all bs s1)" by simp
  with s1 show ?case using grows_trans by auto
qed

text \<open>From a buffer whose only frame is the root, a whole body publishes what survives of it.\<close>

theorem run_publishes:
  assumes "invar s" "levels s = [[]]" "nesting_all bs \<le> cap s"
  shows "\<exists>s'. run_all bs s = Some s' \<and> drain s' = surviving_all bs"
proof -
  from run_grows(2)[OF assms(1), of bs] assms(2,3) obtain s' where
    "run_all bs s = Some s'" "invar s'" "levels s' = [surviving_all bs]"
    by (auto simp: grows_def map_last_def)
  then show ?thesis by (simp add: drain_law)
qed

end

end
