(* ===== verification/TxFrames.thy ===== *)
theory TxFrames
  imports Decimal EffectBuffer
begin

text \<open>
  The strict last-in-first-out frame stack of a transaction
  (\<^verbatim>\<open>crates/zeroship-data-orm/src/transaction/reducer/frames.rs\<close>): the root frame opened by
  a confirmed \<^verbatim>\<open>BEGIN\<close>, one child per open savepoint, a buffer of effects per frame and a
  monotonic sequence that names frames and savepoints.

  The vector \<^verbatim>\<open>frames\<close> is a list whose last element is the top. A refused operation
  returns \<open>Inl\<close> and leaves the caller's stack as it was; \<open>close_top\<close> has one \<^verbatim>\<open>expect\<close>,
  modelled by \<open>None\<close>, which a well-formed stack never reaches.

  The lemmas show that every operation keeps the stack well formed (\<open>frames_wf\<close>), that a
  savepoint name is never minted twice, and, through the locale \<open>effect_buffer\<close>, that the
  stack publishes exactly the effects of the nested transactions that were not rolled back.
\<close>

subsection \<open>Data\<close>

datatype FrameId = FrameId (frame_id_get: u64)

datatype FrameStatus = Opening | Open | RolledBack

record Effect =
  effect_collection :: string
  effect_payload :: string

record Frame =
  frame_id :: FrameId
  frame_savepoint :: "string option"
  frame_status :: FrameStatus
  frame_effects :: "Effect list"

datatype FrameError =
  SavepointNotCurrent | SavepointDepthExceeded | SavepointRootCannotClose | NoOpenFrame

datatype FrameClose = Released | RolledBackTo

record FrameStack =
  stack_frames :: "Frame list"
  next_sequence :: u64
  minted_names :: "string fset"
  max_depth :: u32

fun frame_error_code :: "FrameError \<Rightarrow> string" where
  "frame_error_code SavepointNotCurrent = ''savepoint_not_current''"
| "frame_error_code SavepointDepthExceeded = ''savepoint_depth_exceeded''"
| "frame_error_code SavepointRootCannotClose = ''savepoint_root_cannot_close''"
| "frame_error_code NoOpenFrame = ''no_open_frame''"

subsection \<open>Operations\<close>

definition is_root :: "Frame \<Rightarrow> bool" where
  "is_root f \<longleftrightarrow> frame_savepoint f = None"

definition frame_stack_new :: "u32 \<Rightarrow> FrameStack" where
  "frame_stack_new depth =
     \<lparr>stack_frames = [], next_sequence = 0, minted_names = {||}, max_depth = depth\<rparr>"

definition depth :: "FrameStack \<Rightarrow> nat" where
  "depth self = length (stack_frames self)"

definition stack_top :: "FrameStack \<Rightarrow> Frame option" where
  "stack_top self = (if stack_frames self = [] then None else Some (last (stack_frames self)))"

definition stack_root :: "FrameStack \<Rightarrow> Frame option" where
  "stack_root self = (case stack_frames self of [] \<Rightarrow> None | f # _ \<Rightarrow> Some f)"

definition contains :: "FrameStack \<Rightarrow> u64 \<Rightarrow> bool" where
  "contains self fid = list_ex (\<lambda>f. frame_id_get (frame_id f) = fid) (stack_frames self)"

definition mint_id :: "FrameStack \<Rightarrow> FrameStack \<times> FrameId" where
  "mint_id self =
     (let self' = self\<lparr>next_sequence := next_sequence self + 1\<rparr>
      in (self', FrameId (next_sequence self')))"

definition open_root :: "FrameStack \<Rightarrow> FrameStack \<times> FrameId" where
  "open_root self =
     (let (self', fid) = mint_id self
      in (self'\<lparr>stack_frames := stack_frames self' @
            [\<lparr>frame_id = fid, frame_savepoint = None, frame_status = Open, frame_effects = []\<rparr>]\<rparr>,
          fid))"

definition savepoint_name :: "FrameId \<Rightarrow> string" where
  "savepoint_name fid = ''zs_sp_'' @ show_nat (unat (frame_id_get fid))"

definition open_child :: "FrameStack \<Rightarrow> FrameError + (FrameStack \<times> FrameId \<times> string)" where
  "open_child self =
     (case stack_top self of
        None \<Rightarrow> Inl NoOpenFrame
      | Some t \<Rightarrow>
          (if frame_status t \<noteq> Open then Inl SavepointNotCurrent
           else if length (stack_frames self) > unat (max_depth self)
           then Inl SavepointDepthExceeded
           else
             let (self', fid) = mint_id self; name = savepoint_name fid
             in Inr (self'\<lparr>minted_names := finsert name (minted_names self'),
                       stack_frames := stack_frames self' @
                         [\<lparr>frame_id = fid, frame_savepoint = Some name,
                           frame_status = Opening, frame_effects = []\<rparr>]\<rparr>,
                     fid, name)))"

definition confirm_child_open :: "FrameStack \<Rightarrow> FrameId \<Rightarrow> FrameError + FrameStack" where
  "confirm_child_open self fid =
     (case stack_top self of
        None \<Rightarrow> Inl NoOpenFrame
      | Some t \<Rightarrow>
          (if frame_id t \<noteq> fid then Inl SavepointNotCurrent
           else Inr (self\<lparr>stack_frames :=
                  map_last (\<lambda>f. f\<lparr>frame_status := Open\<rparr>) (stack_frames self)\<rparr>)))"

definition abandon_opening_child :: "FrameStack \<Rightarrow> FrameId \<Rightarrow> FrameError + FrameStack" where
  "abandon_opening_child self fid =
     (case stack_top self of
        None \<Rightarrow> Inl NoOpenFrame
      | Some t \<Rightarrow>
          (if frame_id t \<noteq> fid \<or> is_root t then Inl SavepointNotCurrent
           else Inr (self\<lparr>stack_frames := butlast (stack_frames self)\<rparr>)))"

definition mark_rolled_back :: "FrameStack \<Rightarrow> FrameId \<Rightarrow> FrameError + FrameStack" where
  "mark_rolled_back self fid =
     (case stack_top self of
        None \<Rightarrow> Inl NoOpenFrame
      | Some t \<Rightarrow>
          (if frame_id t \<noteq> fid then Inl SavepointNotCurrent
           else if is_root t then Inl SavepointRootCannotClose
           else Inr (self\<lparr>stack_frames :=
                  map_last (\<lambda>f. f\<lparr>frame_effects := [], frame_status := RolledBack\<rparr>)
                    (stack_frames self)\<rparr>)))"

definition queue_effect :: "FrameStack \<Rightarrow> Effect \<Rightarrow> FrameError + FrameStack" where
  "queue_effect self effect =
     (case stack_top self of
        None \<Rightarrow> Inl NoOpenFrame
      | Some t \<Rightarrow>
          (if frame_status t \<noteq> Open then Inl SavepointNotCurrent
           else Inr (self\<lparr>stack_frames :=
                  map_last (\<lambda>f. f\<lparr>frame_effects := frame_effects f @ [effect]\<rparr>)
                    (stack_frames self)\<rparr>)))"

text \<open>The outer \<open>None\<close> is the \<^verbatim>\<open>expect\<close> on the parent of a released child.\<close>

definition close_top ::
  "FrameStack \<Rightarrow> FrameId \<Rightarrow> FrameClose \<Rightarrow> (FrameError + (FrameStack \<times> FrameId)) option" where
  "close_top self fid close =
     (case stack_top self of
        None \<Rightarrow> Some (Inl NoOpenFrame)
      | Some t \<Rightarrow>
          (if frame_id t \<noteq> fid then Some (Inl SavepointNotCurrent)
           else if is_root t then Some (Inl SavepointRootCannotClose)
           else
             let rest = butlast (stack_frames self)
             in case close of
                  Released \<Rightarrow>
                    (if rest = [] then None
                     else Some (Inr (self\<lparr>stack_frames :=
                            map_last (\<lambda>p. p\<lparr>frame_effects :=
                              frame_effects p @ frame_effects t\<rparr>) rest\<rparr>, frame_id t)))
                | RolledBackTo \<Rightarrow> Some (Inr (self\<lparr>stack_frames := rest\<rparr>, frame_id t))))"

definition take_effects_for_confirmed_commit :: "FrameStack \<Rightarrow> FrameStack \<times> Effect list" where
  "take_effects_for_confirmed_commit self =
     (self\<lparr>stack_frames := map (\<lambda>f. f\<lparr>frame_effects := []\<rparr>) (stack_frames self)\<rparr>,
      concat (map frame_effects (stack_frames self)))"

definition discard_all_effects :: "FrameStack \<Rightarrow> FrameStack" where
  "discard_all_effects self =
     self\<lparr>stack_frames := map (\<lambda>f. f\<lparr>frame_effects := []\<rparr>) (stack_frames self)\<rparr>"

definition retained_effects :: "FrameStack \<Rightarrow> Effect list" where
  "retained_effects self = concat (map frame_effects (stack_frames self))"

lemmas frame_op_defs =
  open_child_def confirm_child_open_def abandon_opening_child_def mark_rolled_back_def
  queue_effect_def close_top_def mint_id_def open_root_def stack_top_def

subsection \<open>Well-formed stacks\<close>

text \<open>
  The root is the first frame and the only one without a savepoint; every other frame
  carries the name of its own id; ids increase from the root to the top and none exceeds
  the sequence; every name in use was minted, and every minted name belongs to an id the
  sequence has passed; the number of savepoints never exceeds the cap.
\<close>

definition names_wf :: "FrameStack \<Rightarrow> bool" where
  "names_wf s \<longleftrightarrow>
     (\<forall>n. n |\<in>| minted_names s \<longrightarrow>
        (\<exists>k \<le> unat (next_sequence s). n = ''zs_sp_'' @ show_nat k))"

definition shape_wf :: "Frame list \<Rightarrow> bool" where
  "shape_wf fs \<longleftrightarrow>
     (fs \<noteq> [] \<longrightarrow> is_root (hd fs)) \<and>
     (\<forall>f \<in> set (tl fs). frame_savepoint f = Some (savepoint_name (frame_id f)))"

definition frame_ids :: "FrameStack \<Rightarrow> nat list" where
  "frame_ids s = map (\<lambda>f. unat (frame_id_get (frame_id f))) (stack_frames s)"

definition ids_wf :: "FrameStack \<Rightarrow> bool" where
  "ids_wf s \<longleftrightarrow>
     sorted_wrt (<) (frame_ids s) \<and> (\<forall>k \<in> set (frame_ids s). k \<le> unat (next_sequence s))"

definition frames_wf :: "FrameStack \<Rightarrow> bool" where
  "frames_wf s \<longleftrightarrow>
     shape_wf (stack_frames s) \<and> names_wf s \<and> ids_wf s \<and>
     length (stack_frames s) \<le> Suc (unat (max_depth s))"

text \<open>The sequence has not reached the end of its 64-bit range.\<close>

definition sequence_room :: "FrameStack \<Rightarrow> bool" where
  "sequence_room s \<longleftrightarrow> unat (next_sequence s) < 2 ^ 64 - 1"

lemma shape_wf_simps:
  "shape_wf []"
  "shape_wf [f] \<longleftrightarrow> is_root f"
  "fs \<noteq> [] \<Longrightarrow> shape_wf (fs @ [f]) \<longleftrightarrow>
     shape_wf fs \<and> frame_savepoint f = Some (savepoint_name (frame_id f))"
  by (auto simp: shape_wf_def)

lemma shape_wf_butlast: "shape_wf fs \<Longrightarrow> shape_wf (butlast fs)"
proof (cases fs rule: rev_cases)
  case (snoc gs g)
  then show "shape_wf fs \<Longrightarrow> ?thesis"
    by (cases "gs = []") (auto simp: shape_wf_simps)
qed simp

lemma shape_wf_map_last:
  assumes "shape_wf fs"
    and "\<And>f. frame_id (g f) = frame_id f" "\<And>f. frame_savepoint (g f) = frame_savepoint f"
  shows "shape_wf (map_last g fs)"
proof (cases fs rule: rev_cases)
  case (snoc gs f)
  with assms show ?thesis
    by (cases "gs = []") (auto simp: shape_wf_simps is_root_def)
qed (simp add: shape_wf_simps)

lemma shape_wf_map:
  assumes "shape_wf fs"
    and "\<And>f. frame_id (g f) = frame_id f" "\<And>f. frame_savepoint (g f) = frame_savepoint f"
  shows "shape_wf (map g fs)"
  using assms by (cases fs) (auto simp: shape_wf_def is_root_def)

lemma last_root_singleton: "shape_wf fs \<Longrightarrow> fs \<noteq> [] \<Longrightarrow> is_root (last fs) \<Longrightarrow> fs = [last fs]"
  by (cases fs rule: rev_cases; cases "butlast fs = []") (auto simp: shape_wf_simps is_root_def)

lemma frame_ids_map_last:
  assumes "\<And>f. frame_id (g f) = frame_id f"
  shows "frame_ids (s\<lparr>stack_frames := map_last g (stack_frames s)\<rparr>) = frame_ids s"
  using assms by (cases "stack_frames s" rule: rev_cases) (auto simp: frame_ids_def)

lemma frame_ids_map:
  assumes "\<And>f. frame_id (g f) = frame_id f"
  shows "frame_ids (s\<lparr>stack_frames := map g (stack_frames s)\<rparr>) = frame_ids s"
  using assms by (simp add: frame_ids_def comp_def)

lemma frame_ids_butlast:
  "frame_ids (s\<lparr>stack_frames := butlast (stack_frames s)\<rparr>) = butlast (frame_ids s)"
  by (simp add: frame_ids_def map_butlast)

lemma sorted_wrt_butlast: "sorted_wrt P xs \<Longrightarrow> sorted_wrt P (butlast xs)"
  by (cases xs rule: rev_cases) (auto simp: sorted_wrt_append)

text \<open>An update of the top frame that keeps its id and its savepoint keeps the stack well formed.\<close>

lemma frames_wf_map_last:
  assumes "frames_wf s"
    and "\<And>f. frame_id (g f) = frame_id f" "\<And>f. frame_savepoint (g f) = frame_savepoint f"
  shows "frames_wf (s\<lparr>stack_frames := map_last g (stack_frames s)\<rparr>)"
  using assms by (auto simp: frames_wf_def names_wf_def ids_wf_def frame_ids_map_last
      intro: shape_wf_map_last)

lemma frames_wf_map:
  assumes "frames_wf s"
    and "\<And>f. frame_id (g f) = frame_id f" "\<And>f. frame_savepoint (g f) = frame_savepoint f"
  shows "frames_wf (s\<lparr>stack_frames := map g (stack_frames s)\<rparr>)"
  using assms by (auto simp: frames_wf_def names_wf_def ids_wf_def frame_ids_map
      intro: shape_wf_map)

lemma frames_wf_butlast:
  "frames_wf s \<Longrightarrow> frames_wf (s\<lparr>stack_frames := butlast (stack_frames s)\<rparr>)"
  by (auto simp: frames_wf_def names_wf_def ids_wf_def frame_ids_butlast
      intro: shape_wf_butlast sorted_wrt_butlast dest: in_set_butlastD)

subsection \<open>Every operation keeps the stack well formed\<close>

lemma frames_wf_new [wf_intros]: "frames_wf (frame_stack_new d)"
  by (simp add: frames_wf_def frame_stack_new_def shape_wf_def names_wf_def ids_wf_def
      frame_ids_def)

lemma next_sequence_Suc:
  "sequence_room s \<Longrightarrow> unat (next_sequence s + 1) = Suc (unat (next_sequence s))"
  by (rule unat_Suc_word) (simp add: sequence_room_def)

lemma frames_wf_open_root [wf_intros]:
  assumes "frames_wf s" "stack_frames s = []" "sequence_room s"
  shows "frames_wf (fst (open_root s))"
  using assms next_sequence_Suc[OF assms(3)]
  by (auto simp: frames_wf_def open_root_def mint_id_def Let_def shape_wf_simps is_root_def
      names_wf_def ids_wf_def frame_ids_def intro: le_SucI)

lemma frames_wf_open_child [wf_intros]:
  assumes wf: "frames_wf s" and room: "sequence_room s"
    and res: "open_child s = Inr (s', fid, name)"
  shows "frames_wf s'"
proof -
  from res have ne: "stack_frames s \<noteq> []"
    and depth: "length (stack_frames s) \<le> unat (max_depth s)"
    and fid: "fid = FrameId (next_sequence s + 1)"
    and s': "s' = s\<lparr>next_sequence := next_sequence s + 1,
        minted_names := finsert (savepoint_name fid) (minted_names s),
        stack_frames := stack_frames s @ [\<lparr>frame_id = fid,
          frame_savepoint = Some (savepoint_name fid), frame_status = Opening,
          frame_effects = []\<rparr>]\<rparr>"
    by (auto simp: frame_op_defs Let_def split: if_splits)
  have "shape_wf (stack_frames s')"
    using wf ne by (simp add: s' frames_wf_def shape_wf_simps)
  moreover have "names_wf s'"
    using wf next_sequence_Suc[OF room]
    by (auto simp: s' fid frames_wf_def names_wf_def savepoint_name_def intro: le_SucI)
  moreover have "ids_wf s'"
    using wf next_sequence_Suc[OF room]
    by (auto simp: s' fid frames_wf_def ids_wf_def frame_ids_def sorted_wrt_append le_SucI
        less_Suc_eq_le)
  ultimately show ?thesis using depth by (simp add: frames_wf_def s')
qed

lemma frames_wf_confirm [wf_intros]:
  "frames_wf s \<Longrightarrow> confirm_child_open s fid = Inr s' \<Longrightarrow> frames_wf s'"
  by (auto simp: confirm_child_open_def split: option.splits if_splits
      intro!: frames_wf_map_last)

lemma frames_wf_abandon [wf_intros]:
  "frames_wf s \<Longrightarrow> abandon_opening_child s fid = Inr s' \<Longrightarrow> frames_wf s'"
  by (auto simp: abandon_opening_child_def split: option.splits if_splits
      intro!: frames_wf_butlast)

lemma frames_wf_mark_rolled_back [wf_intros]:
  "frames_wf s \<Longrightarrow> mark_rolled_back s fid = Inr s' \<Longrightarrow> frames_wf s'"
  by (auto simp: mark_rolled_back_def split: option.splits if_splits
      intro!: frames_wf_map_last)

lemma frames_wf_queue_effect [wf_intros]:
  "frames_wf s \<Longrightarrow> queue_effect s e = Inr s' \<Longrightarrow> frames_wf s'"
  by (auto simp: queue_effect_def split: option.splits if_splits intro!: frames_wf_map_last)

lemma frames_wf_close_top [wf_intros]:
  assumes "frames_wf s" "close_top s fid close = Some (Inr (s', fid'))"
  shows "frames_wf s'"
proof -
  have "frames_wf (s\<lparr>stack_frames := map_last (\<lambda>p. p\<lparr>frame_effects := h p\<rparr>)
           (butlast (stack_frames s))\<rparr>)" for h
    using frames_wf_map_last[OF frames_wf_butlast[OF assms(1)],
        of "\<lambda>p. p\<lparr>frame_effects := h p\<rparr>"] by simp
  with assms show ?thesis
    by (auto simp: close_top_def Let_def split: option.splits if_splits FrameClose.splits
        intro: frames_wf_butlast)
qed

lemma frames_wf_take [wf_intros]:
  "frames_wf s \<Longrightarrow> frames_wf (fst (take_effects_for_confirmed_commit s))"
  by (auto simp: take_effects_for_confirmed_commit_def intro!: frames_wf_map)

lemma frames_wf_discard [wf_intros]: "frames_wf s \<Longrightarrow> frames_wf (discard_all_effects s)"
  by (auto simp: discard_all_effects_def intro!: frames_wf_map)

text \<open>The parent of a closed child exists, so the \<^verbatim>\<open>expect\<close> of \<open>close_top\<close> is never reached.\<close>

lemma close_top_no_panic:
  assumes "shape_wf (stack_frames s)"
  shows "close_top s fid close \<noteq> None"
proof (cases "stack_frames s" rule: rev_cases)
  case Nil
  then show ?thesis by (simp add: close_top_def stack_top_def)
next
  case (snoc fs f)
  with assms have "fs = [] \<Longrightarrow> is_root f" by (simp add: shape_wf_simps)
  with snoc show ?thesis
    by (auto simp: close_top_def stack_top_def Let_def split: FrameClose.splits)
qed

subsection \<open>A savepoint name is minted once\<close>

text \<open>
  (invariant 9 of the protocol). The savepoint name a new child frame receives was
  never minted before in the transaction, so no savepoint left behind on the server can
  shadow it. The sequence must not have reached the end of its 64-bit range.
\<close>

theorem open_child_name_is_fresh:
  assumes "frames_wf s" "sequence_room s" "open_child s = Inr (s', fid, name)"
  shows "name |\<notin>| minted_names s \<and> name |\<in>| minted_names s' \<and>
         minted_names s |\<subseteq>| minted_names s'"
proof -
  from assms(3) have name: "name = ''zs_sp_'' @ show_nat (unat (next_sequence s + 1))"
    and names: "minted_names s' = finsert name (minted_names s)"
    by (auto simp: frame_op_defs savepoint_name_def Let_def split: if_splits)
  have "name |\<notin>| minted_names s"
  proof
    assume "name |\<in>| minted_names s"
    with assms(1) obtain k where "k \<le> unat (next_sequence s)" "name = ''zs_sp_'' @ show_nat k"
      by (auto simp: frames_wf_def names_wf_def simp del: append_Cons)
    with name next_sequence_Suc[OF assms(2)] show False by simp
  qed
  with names show ?thesis by auto
qed

definition example_stack :: FrameStack where
  "example_stack = fst (open_root (frame_stack_new 8))"

lemma example_stack_wf: "frames_wf example_stack"
  unfolding example_stack_def
  by (rule frames_wf_open_root)
     (rule frames_wf_new, simp_all add: frame_stack_new_def sequence_room_def)

lemma open_child_name_is_fresh_witness:
  "\<exists>s' fid name. open_child example_stack = Inr (s', fid, name) \<and>
     name |\<notin>| minted_names example_stack"
proof -
  have room: "sequence_room example_stack"
    by (simp add: sequence_room_def example_stack_def open_root_def mint_id_def
        frame_stack_new_def)
  obtain s' fid name where "open_child example_stack = Inr (s', fid, name)"
    by (auto simp: example_stack_def frame_op_defs frame_stack_new_def Let_def)
  with open_child_name_is_fresh[OF example_stack_wf room this] show ?thesis by blast
qed

subsection \<open>The stack as an effect buffer\<close>

text \<open>
  The operations as the reducer composes them: a child is confirmed after its \<^verbatim>\<open>SAVEPOINT\<close>
  succeeded, and a rolled-back child leaves the stack when the \<^verbatim>\<open>RELEASE\<close> that follows its
  \<^verbatim>\<open>ROLLBACK TO\<close> succeeded.
\<close>

definition frames_open :: "FrameStack \<Rightarrow> FrameStack option" where
  "frames_open s =
     (case open_child s of Inl _ \<Rightarrow> None
      | Inr (s', fid, _) \<Rightarrow>
          (case confirm_child_open s' fid of Inl _ \<Rightarrow> None | Inr s'' \<Rightarrow> Some s''))"

definition frames_emit :: "Effect \<Rightarrow> FrameStack \<Rightarrow> FrameStack option" where
  "frames_emit e s = (case queue_effect s e of Inl _ \<Rightarrow> None | Inr s' \<Rightarrow> Some s')"

definition frames_release :: "FrameStack \<Rightarrow> FrameStack option" where
  "frames_release s =
     (case stack_top s of None \<Rightarrow> None
      | Some t \<Rightarrow>
          (case close_top s (frame_id t) Released of
             Some (Inr (s', _)) \<Rightarrow> Some s' | _ \<Rightarrow> None))"

definition frames_rollback :: "FrameStack \<Rightarrow> FrameStack option" where
  "frames_rollback s =
     (case stack_top s of None \<Rightarrow> None
      | Some t \<Rightarrow>
          (case mark_rolled_back s (frame_id t) of Inl _ \<Rightarrow> None
           | Inr s' \<Rightarrow> frames_release s'))"

definition frames_ready :: "FrameStack \<Rightarrow> bool" where
  "frames_ready s \<longleftrightarrow>
     stack_frames s \<noteq> [] \<and> shape_wf (stack_frames s) \<and>
     (\<forall>f \<in> set (stack_frames s). frame_status f = Open)"

definition frame_levels :: "FrameStack \<Rightarrow> Effect list list" where
  "frame_levels s = map frame_effects (stack_frames s)"

lemma frames_two:
  assumes "frames_ready s" "frame_levels s = ls @ [outer, inner]"
  obtains fs p c where "stack_frames s = fs @ [p, c]" "map frame_effects fs = ls"
    "frame_effects p = outer" "frame_effects c = inner"
    "frame_savepoint c = Some (savepoint_name (frame_id c))" "shape_wf (fs @ [p])"
proof -
  obtain fs p c where fs: "stack_frames s = fs @ [p, c]" "map frame_effects fs = ls"
    "frame_effects p = outer" "frame_effects c = inner"
    using assms(2) by (auto simp: frame_levels_def map_eq_append_conv)
  moreover have "shape_wf ((fs @ [p]) @ [c])"
    using assms(1) fs(1) by (simp add: frames_ready_def)
  then have "frame_savepoint c = Some (savepoint_name (frame_id c))" "shape_wf (fs @ [p])"
    using shape_wf_simps(3)[of "fs @ [p]" c] by blast+
  ultimately show ?thesis using that by blast
qed

interpretation stack: effect_buffer frames_ready "\<lambda>s. unat (max_depth s)" frame_levels
  frames_open frames_emit frames_release frames_rollback retained_effects
proof (unfold_locales, goal_cases)
  case (1 s)
  then show ?case by (simp add: frames_ready_def frame_levels_def)
next
  case (2 s)
  then show ?case
    by (auto simp: frames_ready_def frame_levels_def frames_open_def frame_op_defs Let_def
        shape_wf_simps)
next
  case (3 s e)
  then show ?case
    by (cases "stack_frames s" rule: rev_cases)
       (auto simp: frames_ready_def frame_levels_def frames_emit_def queue_effect_def
        stack_top_def intro: shape_wf_map_last[of "_ @ [_]", simplified]
        shape_wf_map_last[of "[_]", simplified])
next
  case (4 s ls outer inner)
  from 4 obtain fs p c where "stack_frames s = fs @ [p, c]" "map frame_effects fs = ls"
    "frame_effects p = outer" "frame_effects c = inner"
    "frame_savepoint c = Some (savepoint_name (frame_id c))" "shape_wf (fs @ [p])"
    by (rule frames_two)
  then show ?case using 4(1) shape_wf_map_last[of "fs @ [p]"]
    by (auto simp: frames_ready_def frame_levels_def frames_release_def close_top_def
        stack_top_def is_root_def Let_def butlast_append)
next
  case (5 s ls outer inner)
  from 5 obtain fs p c where "stack_frames s = fs @ [p, c]" "map frame_effects fs = ls"
    "frame_effects p = outer" "frame_effects c = inner"
    "frame_savepoint c = Some (savepoint_name (frame_id c))" "shape_wf (fs @ [p])"
    by (rule frames_two)
  then show ?case using 5(1) shape_wf_map_last[of "fs @ [p]"]
    by (auto simp: frames_ready_def frame_levels_def frames_rollback_def frames_release_def
        mark_rolled_back_def close_top_def stack_top_def is_root_def Let_def butlast_append)
next
  case (6 s)
  then show ?case by (simp add: retained_effects_def frame_levels_def)
qed

end
