(* ===== verification/TxReducer.thy ===== *)
theory TxReducer
  imports TxIdentity TxDeadline TxFrames
begin

text \<open>
  The transaction reducer
  (\<^verbatim>\<open>crates/zeroship-data-orm/src/transaction/reducer/mod.rs\<close>): the pure state machine that
  decides, event by event, which actions the driver performs for one database transaction.

  One definition per item of the source, in its order. A handler takes the reducer and
  returns the new reducer with the actions it emits; where it can reach an \<^verbatim>\<open>expect\<close> on an
  absent value it returns an \<open>option\<close>, with \<open>None\<close> for that panic. \<^verbatim>\<open>debug_assert!\<close> is not part
  of the release build and is not modelled as a check; that the asserted conditions hold is
  proved in \<open>TxDriver\<close>.

  Variants with the same name in several Rust enums keep their name here and are written
  with their type in front, as in the source (\<open>CleanupCause.Cancelled\<close>,
  \<open>TerminalOutcome.Cancelled\<close>). \<^verbatim>\<open>SessionOwnership::None\<close> is \<open>SessionNone\<close>.
\<close>

subsection \<open>The vocabulary shared with the backends (\<^verbatim>\<open>error.rs\<close>)\<close>

datatype SettleIntent = Commit | Rollback

datatype TerminalResult = Committed | RolledBack | Indeterminate

datatype CleanupAck = NoOpenTransaction | RolledBack | Indeterminate

subsection \<open>States\<close>

datatype TxState =
  Preparing | Starting | Idle | InFlight | Quiescing | Poisoned | Cancelling | Settling | Settled

definition admits_creator_sql :: "TxState \<Rightarrow> bool" where
  "admits_creator_sql self \<longleftrightarrow> self = Idle"

definition is_forceable :: "TxState \<Rightarrow> bool" where
  "is_forceable self \<longleftrightarrow>
     self = Preparing \<or> self = Starting \<or> self = Idle \<or> self = InFlight \<or> self = Quiescing \<or>
     self = Poisoned"

datatype CleanupGoal = NoTransaction | AbortIfOpened | OpenTransaction

fun goal_for_state :: "TxState \<Rightarrow> CleanupGoal" where
  "goal_for_state Preparing = NoTransaction"
| "goal_for_state Starting = AbortIfOpened"
| "goal_for_state Idle = OpenTransaction"
| "goal_for_state InFlight = OpenTransaction"
| "goal_for_state Quiescing = OpenTransaction"
| "goal_for_state Poisoned = OpenTransaction"
| "goal_for_state Cancelling = AbortIfOpened"
| "goal_for_state Settling = AbortIfOpened"
| "goal_for_state Settled = AbortIfOpened"

fun is_proved_by :: "CleanupGoal \<Rightarrow> CleanupAck \<Rightarrow> bool" where
  "is_proved_by NoTransaction ack = (ack = NoOpenTransaction)"
| "is_proved_by AbortIfOpened ack = (ack = NoOpenTransaction \<or> ack = CleanupAck.RolledBack)"
| "is_proved_by OpenTransaction ack = (ack = CleanupAck.RolledBack)"

datatype CleanupCause =
  Cancelled
| DeadlineExpired DeadlineKind
| Detached
| EpochChanged
| Denied DenyReason
| SessionSetupFailed
| BeginFailed
| BackendHealthUnknown

fun cleanup_cause_code :: "CleanupCause \<Rightarrow> string" where
  "cleanup_cause_code CleanupCause.Cancelled = ''transaction_cancelled''"
| "cleanup_cause_code (DeadlineExpired _) = ''transaction_deadline_expired''"
| "cleanup_cause_code Detached = ''transaction_detached''"
| "cleanup_cause_code CleanupCause.EpochChanged = ''SCHEMA_EPOCH_CHANGED''"
| "cleanup_cause_code (CleanupCause.Denied reason) = deny_code reason"
| "cleanup_cause_code SessionSetupFailed = ''session_setup_failed''"
| "cleanup_cause_code BeginFailed = ''begin_failed''"
| "cleanup_cause_code BackendHealthUnknown = ''transaction_health_unknown''"

definition cleanup_cause_retryable :: "CleanupCause \<Rightarrow> bool" where
  "cleanup_cause_retryable self \<longleftrightarrow> self = CleanupCause.EpochChanged"

record LatchedCleanup =
  latched_cause :: CleanupCause
  latched_goal :: CleanupGoal

datatype CommandToken = CommandToken u64

datatype BackendGeneration = BackendGeneration u64

datatype SessionOwnership = SessionNone | Registry | Command CommandToken | Withdrawn

datatype TerminalOutcome =
  Committed
| RolledBack
| Cancelled CleanupCause
| Indeterminate CleanupCause
| ResultMismatch

definition publishes :: "TerminalOutcome \<Rightarrow> bool" where
  "publishes self \<longleftrightarrow> self = TerminalOutcome.Committed"

subsection \<open>Events and actions\<close>

record EventAuthority =
  ev_identity :: AuthorityIdentity
  ev_domain :: AuthorityDomain

datatype BeginOutcome =
  Opened BackendGeneration | SetupFailed | ReResolve | Denied DenyReason | Failed

datatype TxEvent =
  AuthorityObserved EventAuthority ObservedAuthority
| BeginCompleted CommandToken BeginOutcome
| OperationRequested
| OperationCompleted CommandToken bool
| OpenFrame
| OpenFrameCompleted CommandToken FrameId bool
| CloseFrame FrameId FrameClose
| CloseFrameCompleted CommandToken FrameId FrameClose bool
| SettleRequested SettleIntent
| TerminalCompleted CommandToken TerminalResult
| Cancel EventAuthority
| DetachRequested EventAuthority
| DeadlineFired DeadlineKind DeadlineGeneration
| CancellationAcknowledged CommandToken CleanupAck

datatype TxReply =
  Began
| FrameOpened FrameId
| FrameClosed FrameId
| OperationAccepted
| Settled TerminalOutcome

datatype TxProtocolError =
  AppIncarnationMismatch
| StaleTransactionCompletion
| StaleTransactionDeadline
| StaleBackendGeneration
| TransactionNotReady
| TransactionConnectionBusy
| TransactionAlreadySettled
| SettleConflict
| Frame FrameError
| EpochChanged
| Denied DenyReason
| Cleanup CleanupCause

fun protocol_error_code :: "TxProtocolError \<Rightarrow> string" where
  "protocol_error_code AppIncarnationMismatch = ''app_incarnation_mismatch''"
| "protocol_error_code StaleTransactionCompletion = ''stale_transaction_completion''"
| "protocol_error_code StaleTransactionDeadline = ''stale_transaction_deadline''"
| "protocol_error_code StaleBackendGeneration = ''stale_backend_generation''"
| "protocol_error_code TransactionNotReady = ''transaction_not_ready''"
| "protocol_error_code TransactionConnectionBusy = ''transaction_connection_busy''"
| "protocol_error_code TransactionAlreadySettled = ''transaction_already_settled''"
| "protocol_error_code SettleConflict = ''settle_conflict''"
| "protocol_error_code (Frame error) = frame_error_code error"
| "protocol_error_code TxProtocolError.EpochChanged = ''SCHEMA_EPOCH_CHANGED''"
| "protocol_error_code (TxProtocolError.Denied reason) = deny_code reason"
| "protocol_error_code (Cleanup cause) = cleanup_cause_code cause"

datatype Action =
  ScheduleTimer ScheduleTimer
| IssueBegin CommandToken
| IssueDataSql CommandToken
| IssueSavepoint CommandToken string
| IssueRollbackTo CommandToken string
| IssueRelease CommandToken string
| IssueTerminal CommandToken SettleIntent
| IssueCancellation CommandToken CleanupGoal
| WithdrawSession
| ReleaseSession
| ReleaseAdmission
| PublishEffects "Effect list"
| DiscardEffects
| Reply "TxProtocolError + TxReply"

fun is_creator_data_sql :: "Action \<Rightarrow> bool" where
  "is_creator_data_sql (IssueDataSql _) = True"
| "is_creator_data_sql (IssueSavepoint _ _) = True"
| "is_creator_data_sql (IssueRollbackTo _ _) = True"
| "is_creator_data_sql (IssueRelease _ _) = True"
| "is_creator_data_sql (IssueBegin _) = True"
| "is_creator_data_sql _ = False"

subsection \<open>The reducer's state\<close>

record TxBudgets =
  execution :: duration
  cancellation_sql :: duration
  terminal_sql :: duration

definition budgets_default :: TxBudgets where
  "budgets_default =
     \<lparr>execution = 30 * 10 ^ 9, cancellation_sql = 5 * 10 ^ 9, terminal_sql = 10 * 10 ^ 9\<rparr>"

record TxReducer =
  state :: TxState
  expected :: ExpectedAuthority
  budgets :: TxBudgets
  begin_ceiling :: "MaskCeiling option"
  effective_ceiling :: "MaskCeiling option"
  session :: SessionOwnership
  generation :: "BackendGeneration option"
  frames :: FrameStack
  slot :: DeadlineSlot
  generations :: DeadlineGenerations
  next_token :: u64
  active :: "CommandToken option"
  cancellation_token :: "CommandToken option"
  cleanup :: "LatchedCleanup option"
  settle_intent :: "SettleIntent option"
  terminal_promised :: bool
  outcome :: "TerminalOutcome option"

datatype GateOutcome = ForceWon | Joined | LateCancel

type_synonym step_result = "TxReducer \<times> Action list"

text \<open>\<^verbatim>\<open>TxReducer::admit\<close>: \<open>None\<close> is its \<^verbatim>\<open>expect\<close>, which a fresh slot never reaches.\<close>

definition admit ::
  "ExpectedAuthority \<Rightarrow> TxBudgets \<Rightarrow> instant \<Rightarrow> u32 \<Rightarrow> step_result option" where
  "admit expected_authority time_budgets now depth_cap =
     (let reducer =
        \<lparr>state = Preparing, expected = expected_authority, budgets = time_budgets,
         begin_ceiling = None, effective_ceiling = None, session = SessionNone,
         generation = None, frames = frame_stack_new depth_cap, slot = deadline_slot_new,
         generations = \<lparr>gen_next = 0\<rparr>, next_token = 0, active = None,
         cancellation_token = None, cleanup = None, settle_intent = None,
         terminal_promised = False, outcome = None\<rparr>;
        (gens, gen) = mint_generation (generations reducer);
        reducer = reducer\<lparr>generations := gens\<rparr>
      in case arm_initial (slot reducer) Execution gen (now + execution (budgets reducer)) of
           Inl _ \<Rightarrow> None
         | Inr (slot', scheduled) \<Rightarrow>
             Some (reducer\<lparr>slot := slot'\<rparr>, [ScheduleTimer scheduled]))"

definition event_authority :: "TxEvent \<Rightarrow> EventAuthority option" where
  "event_authority event =
     (case event of
        AuthorityObserved authority _ \<Rightarrow> Some authority
      | Cancel authority \<Rightarrow> Some authority
      | DetachRequested authority \<Rightarrow> Some authority
      | _ \<Rightarrow> None)"

definition mint_token :: "TxReducer \<Rightarrow> TxReducer \<times> CommandToken" where
  "mint_token self =
     (let self' = self\<lparr>next_token := next_token self + 1\<rparr>
      in (self', CommandToken (next_token self')))"

subsection \<open>The gate\<close>

definition force ::
  "TxReducer \<Rightarrow> CleanupCause \<Rightarrow> instant \<Rightarrow> TxReducer \<times> GateOutcome \<times> Action list" where
  "force self cause now =
     (if terminal_promised self \<or> state self = Settling then (self, LateCancel, [])
      else if cleanup self \<noteq> None then (self, Joined, [])
      else
        let goal = goal_for_state (state self);
            self = self\<lparr>cleanup := Some \<lparr>latched_cause = cause, latched_goal = goal\<rparr>,
                        state := Cancelling\<rparr>;
            (self, token) = mint_token self;
            self = self\<lparr>cancellation_token := Some token\<rparr>;
            (gens, next) = mint_generation (generations self);
            self = self\<lparr>generations := gens\<rparr>
        in case replace_current (slot self) Execution CancellationSql next
                  (now + cancellation_sql (budgets self)) of
             Inr (slot', scheduled) \<Rightarrow>
               (self\<lparr>slot := slot'\<rparr>, ForceWon,
                [ScheduleTimer scheduled, IssueCancellation token goal])
           | Inl _ \<Rightarrow> (self, ForceWon, [IssueCancellation token goal]))"

definition force_actions :: "TxReducer \<Rightarrow> CleanupCause \<Rightarrow> instant \<Rightarrow> step_result" where
  "force_actions self cause now = (let (self', _, actions) = force self cause now in (self', actions))"

subsection \<open>Shared helpers\<close>

definition check_token :: "TxReducer \<Rightarrow> CommandToken \<Rightarrow> Action list option" where
  "check_token self token =
     (if active self = Some token then None
      else Some [Reply (Inl StaleTransactionCompletion)])"

definition refuse_if_cleaning_up :: "TxReducer \<Rightarrow> Action list option" where
  "refuse_if_cleaning_up self =
     (case cleanup self of
        None \<Rightarrow> None
      | Some latched \<Rightarrow> Some [Reply (Inl (Cleanup (latched_cause latched)))])"

definition command_returned_during_cleanup :: "TxReducer \<Rightarrow> step_result option" where
  "command_returned_during_cleanup self =
     (let self = self\<lparr>active := None, session := Registry\<rparr>
      in case cleanup self of
           None \<Rightarrow> None
         | Some latched \<Rightarrow> Some (self, [Reply (Inl (Cleanup (latched_cause latched)))]))"

definition settle_now :: "TxReducer \<Rightarrow> TerminalOutcome \<Rightarrow> bool \<Rightarrow> step_result" where
  "settle_now self end_outcome withdraw =
     (let self = self\<lparr>state := TxState.Settled, outcome := Some end_outcome, active := None,
                      slot := disarm (slot self)\<rparr>;
          (self, effects) =
            (if publishes end_outcome
             then let (fs, effects) = take_effects_for_confirmed_commit (frames self)
                  in (self\<lparr>frames := fs\<rparr>, [PublishEffects effects])
             else (self\<lparr>frames := discard_all_effects (frames self)\<rparr>, [DiscardEffects]));
          (self, disposal) =
            (if withdraw then (self\<lparr>session := Withdrawn\<rparr>, [WithdrawSession])
             else (self\<lparr>session := SessionNone\<rparr>, [ReleaseSession]))
      in (self, effects @ disposal @
                [ReleaseAdmission, Reply (Inr (TxReply.Settled end_outcome))]))"

definition begin_terminal :: "TxReducer \<Rightarrow> SettleIntent \<Rightarrow> instant \<Rightarrow> step_result" where
  "begin_terminal self intent now =
     (let command = (if state self = Poisoned then Rollback else intent);
          self = self\<lparr>settle_intent := Some intent, state := Settling\<rparr>;
          (self, token) = mint_token self;
          self = self\<lparr>active := Some token, session := Command token\<rparr>;
          (gens, next) = mint_generation (generations self);
          self = self\<lparr>generations := gens\<rparr>
      in case replace_current (slot self) Execution TerminalSql next
                (now + terminal_sql (budgets self)) of
           Inr (slot', scheduled) \<Rightarrow>
             (self\<lparr>slot := slot'\<rparr>, [ScheduleTimer scheduled, IssueTerminal token command])
         | Inl _ \<Rightarrow> (self, [IssueTerminal token command]))"

subsection \<open>Event handlers\<close>

definition on_verdict :: "TxReducer \<Rightarrow> Verdict \<Rightarrow> instant \<Rightarrow> step_result" where
  "on_verdict self verdict now =
     (case verdict of
        Current observed_ceiling \<Rightarrow>
          let self = self\<lparr>effective_ceiling := Some
                (case (begin_ceiling self, effective_ceiling self) of
                   (Some begin, Some effective) \<Rightarrow> meet (meet begin effective) observed_ceiling
                 | _ \<Rightarrow> observed_ceiling)\<rparr>
          in if state self = Preparing then
               let self = self\<lparr>begin_ceiling := Some observed_ceiling, state := Starting\<rparr>;
                   (self, token) = mint_token self
               in (self\<lparr>active := Some token\<rparr>, [IssueBegin token])
             else (self, [])
      | Verdict.ReResolve \<Rightarrow>
          let (self, _, actions) = force self CleanupCause.EpochChanged now
          in (self, actions @ [Reply (Inl TxProtocolError.EpochChanged)])
      | Deny reason \<Rightarrow>
          let (self, _, actions) = force self (CleanupCause.Denied reason) now
          in (self, actions @ [Reply (Inl (TxProtocolError.Denied reason))]))"

definition on_authority :: "TxReducer \<Rightarrow> ObservedAuthority \<Rightarrow> instant \<Rightarrow> step_result" where
  "on_authority self observed now = on_verdict self (classify observed (expected self)) now"

definition on_begin_completed ::
  "TxReducer \<Rightarrow> CommandToken \<Rightarrow> BeginOutcome \<Rightarrow> instant \<Rightarrow> step_result" where
  "on_begin_completed self token begin_outcome now =
     (case check_token self token of
        Some reply \<Rightarrow> (self, reply)
      | None \<Rightarrow>
          (if state self \<noteq> Starting then (self, [Reply (Inl TransactionNotReady)])
           else
             let self = self\<lparr>active := None\<rparr>
             in case begin_outcome of
                  Opened backend \<Rightarrow>
                    (self\<lparr>generation := Some backend, session := Registry,
                          frames := fst (open_root (frames self)), state := Idle\<rparr>,
                     [Reply (Inr Began)])
                | SetupFailed \<Rightarrow> force_actions self SessionSetupFailed now
                | BeginOutcome.ReResolve \<Rightarrow> on_verdict self Verdict.ReResolve now
                | BeginOutcome.Denied reason \<Rightarrow> on_verdict self (Deny reason) now
                | Failed \<Rightarrow> force_actions self BeginFailed now))"

definition on_operation_requested :: "TxReducer \<Rightarrow> step_result" where
  "on_operation_requested self =
     (case refuse_if_cleaning_up self of
        Some reply \<Rightarrow> (self, reply)
      | None \<Rightarrow>
          (case state self of
             Idle \<Rightarrow>
               let (self, token) = mint_token self
               in (self\<lparr>active := Some token, session := Command token, state := InFlight\<rparr>,
                   [IssueDataSql token])
           | InFlight \<Rightarrow> (self, [Reply (Inl TransactionConnectionBusy)])
           | Quiescing \<Rightarrow> (self, [Reply (Inl TransactionConnectionBusy)])
           | _ \<Rightarrow> (self, [Reply (Inl TransactionNotReady)])))"

definition on_operation_completed ::
  "TxReducer \<Rightarrow> CommandToken \<Rightarrow> bool \<Rightarrow> instant \<Rightarrow> step_result option" where
  "on_operation_completed self token errored now =
     (case check_token self token of
        Some reply \<Rightarrow> Some (self, reply)
      | None \<Rightarrow>
          (if state self = Cancelling then command_returned_during_cleanup self
           else
             let quiescing = (state self = Quiescing);
                 self = self\<lparr>active := None, session := Registry,
                             state := (if errored then Poisoned else Idle)\<rparr>;
                 reply = Reply (if errored then Inl TransactionNotReady
                                else Inr OperationAccepted)
             in if quiescing then
                  (case settle_intent self of
                     None \<Rightarrow> None
                   | Some intent \<Rightarrow>
                       let (self, actions) = begin_terminal self intent now
                       in Some (self, reply # actions))
                else Some (self, [reply])))"

definition busy_or_not_ready :: "TxState \<Rightarrow> TxProtocolError" where
  "busy_or_not_ready s =
     (if s = InFlight \<or> s = Quiescing then TransactionConnectionBusy else TransactionNotReady)"

definition on_open_frame :: "TxReducer \<Rightarrow> step_result" where
  "on_open_frame self =
     (case refuse_if_cleaning_up self of
        Some reply \<Rightarrow> (self, reply)
      | None \<Rightarrow>
          (if \<not> admits_creator_sql (state self)
           then (self, [Reply (Inl (busy_or_not_ready (state self)))])
           else case open_child (frames self) of
                  Inr (fs, frame, name) \<Rightarrow>
                    let self = self\<lparr>frames := fs\<rparr>;
                        (self, token) = mint_token self
                    in (self\<lparr>active := Some token, session := Command token,
                             state := InFlight\<rparr>,
                        [IssueSavepoint token name])
                | Inl error \<Rightarrow> (self, [Reply (Inl (Frame error))])))"

definition on_open_frame_completed ::
  "TxReducer \<Rightarrow> CommandToken \<Rightarrow> FrameId \<Rightarrow> bool \<Rightarrow> instant \<Rightarrow> step_result option" where
  "on_open_frame_completed self token frame ok now =
     (case check_token self token of
        Some reply \<Rightarrow> Some (self, reply)
      | None \<Rightarrow>
          (if state self = Cancelling then command_returned_during_cleanup self
           else
             let self = self\<lparr>active := None, session := Registry\<rparr>
             in if ok then
                  Some (self\<lparr>frames := keep_on_err (frames self)
                               (confirm_child_open (frames self) frame), state := Idle\<rparr>,
                        [Reply (Inr (FrameOpened frame))])
                else
                  Some (self\<lparr>frames := keep_on_err (frames self)
                               (abandon_opening_child (frames self) frame), state := Poisoned\<rparr>,
                        [Reply (Inl TransactionNotReady)])))"

definition on_close_frame :: "TxReducer \<Rightarrow> FrameId \<Rightarrow> FrameClose \<Rightarrow> step_result option" where
  "on_close_frame self frame close =
     (case refuse_if_cleaning_up self of
        Some reply \<Rightarrow> Some (self, reply)
      | None \<Rightarrow>
          let recovering = (state self = Poisoned \<and> close = RolledBackTo)
          in if \<not> admits_creator_sql (state self) \<and> \<not> recovering
             then Some (self, [Reply (Inl (busy_or_not_ready (state self)))])
             else case stack_top (frames self) of
                    None \<Rightarrow> Some (self, [Reply (Inl (Frame NoOpenFrame))])
                  | Some t \<Rightarrow>
                      (if frame_id t \<noteq> frame
                       then Some (self, [Reply (Inl (Frame SavepointNotCurrent))])
                       else if is_root t
                       then Some (self, [Reply (Inl (Frame SavepointRootCannotClose))])
                       else case frame_savepoint t of
                              None \<Rightarrow> None
                            | Some name \<Rightarrow>
                                let (self, token) = mint_token self
                                in Some (self\<lparr>active := Some token, session := Command token,
                                              state := InFlight\<rparr>,
                                         [case close of
                                            Released \<Rightarrow> IssueRelease token name
                                          | RolledBackTo \<Rightarrow> IssueRollbackTo token name])))"

definition on_close_frame_completed ::
  "TxReducer \<Rightarrow> CommandToken \<Rightarrow> FrameId \<Rightarrow> FrameClose \<Rightarrow> bool \<Rightarrow> instant \<Rightarrow>
     step_result option" where
  "on_close_frame_completed self token frame close ok now =
     (case check_token self token of
        Some reply \<Rightarrow> Some (self, reply)
      | None \<Rightarrow>
          (if state self = Cancelling then command_returned_during_cleanup self
           else
             let self = self\<lparr>active := None, session := Registry\<rparr>
             in if \<not> ok then Some (self\<lparr>state := Poisoned\<rparr>, [Reply (Inl TransactionNotReady)])
                else case close of
                  RolledBackTo \<Rightarrow>
                    let self = self\<lparr>frames := keep_on_err (frames self)
                                      (mark_rolled_back (frames self) frame)\<rparr>
                    in (case Option.bind (stack_top (frames self)) frame_savepoint of
                          None \<Rightarrow> None
                        | Some name \<Rightarrow>
                            let (self, release) = mint_token self
                            in Some (self\<lparr>active := Some release, session := Command release,
                                          state := InFlight\<rparr>,
                                     [IssueRelease release name]))
                | Released \<Rightarrow>
                    (case close_top (frames self) frame Released of
                       None \<Rightarrow> None
                     | Some (Inr (fs, closed)) \<Rightarrow>
                         Some (self\<lparr>frames := fs, state := Idle\<rparr>,
                               [Reply (Inr (FrameClosed closed))])
                     | Some (Inl error) \<Rightarrow>
                         (case stack_top (frames self) of
                            Some t \<Rightarrow>
                              (case close_top (frames self) (frame_id t) RolledBackTo of
                                 None \<Rightarrow> None
                               | Some res \<Rightarrow>
                                   Some (self\<lparr>frames := (case res of Inl _ \<Rightarrow> frames self
                                                          | Inr (fs, _) \<Rightarrow> fs), state := Idle\<rparr>,
                                         [Reply (Inr (FrameClosed (frame_id t)))]))
                          | None \<Rightarrow> Some (self, [Reply (Inl (Frame error))])))))"

definition on_settle_requested :: "TxReducer \<Rightarrow> SettleIntent \<Rightarrow> instant \<Rightarrow> step_result" where
  "on_settle_requested self intent now =
     (case refuse_if_cleaning_up self of
        Some reply \<Rightarrow> (self, reply)
      | None \<Rightarrow>
          (case state self of
             Idle \<Rightarrow> begin_terminal self intent now
           | Poisoned \<Rightarrow> begin_terminal self intent now
           | InFlight \<Rightarrow> (self\<lparr>state := Quiescing, settle_intent := Some intent\<rparr>, [])
           | Quiescing \<Rightarrow>
               (if settle_intent self = Some intent then (self, [])
                else (self, [Reply (Inl SettleConflict)]))
           | Settling \<Rightarrow>
               (if settle_intent self = Some intent then (self, [])
                else (self, [Reply (Inl SettleConflict)]))
           | _ \<Rightarrow> (self, [Reply (Inl TransactionNotReady)])))"

fun terminal_outcome :: "SettleIntent \<Rightarrow> TerminalResult \<Rightarrow> TerminalOutcome" where
  "terminal_outcome Commit TerminalResult.Committed = TerminalOutcome.Committed"
| "terminal_outcome Commit TerminalResult.RolledBack = TerminalOutcome.RolledBack"
| "terminal_outcome Rollback TerminalResult.RolledBack = TerminalOutcome.RolledBack"
| "terminal_outcome Rollback TerminalResult.Committed = ResultMismatch"
| "terminal_outcome _ TerminalResult.Indeterminate =
     TerminalOutcome.Indeterminate BackendHealthUnknown"

definition on_terminal_completed ::
  "TxReducer \<Rightarrow> CommandToken \<Rightarrow> TerminalResult \<Rightarrow> step_result option" where
  "on_terminal_completed self token result =
     (case check_token self token of
        Some reply \<Rightarrow> Some (self, reply)
      | None \<Rightarrow>
          (if state self \<noteq> Settling then Some (self, [Reply (Inl TransactionNotReady)])
           else
             let self = self\<lparr>active := None, terminal_promised := True\<rparr>
             in case settle_intent self of
                  None \<Rightarrow> None
                | Some intent \<Rightarrow>
                    let end_outcome = terminal_outcome intent result;
                        withdraw = (case end_outcome of
                          TerminalOutcome.Indeterminate _ \<Rightarrow> True | _ \<Rightarrow> False);
                        self = self\<lparr>slot := disarm (slot self)\<rparr>
                    in Some (settle_now self end_outcome withdraw)))"

definition on_deadline_fired ::
  "TxReducer \<Rightarrow> DeadlineKind \<Rightarrow> DeadlineGeneration \<Rightarrow> instant \<Rightarrow> step_result" where
  "on_deadline_fired self kind gen now =
     (let preflight_legal =
        (case kind of
           Execution \<Rightarrow> is_forceable (state self)
         | CancellationSql \<Rightarrow> state self = Cancelling
         | TerminalSql \<Rightarrow> state self = Settling)
      in if \<not> preflight_legal then (self, [])
         else case claim_fire (slot self) kind gen of
                Inl _ \<Rightarrow> (self, [])
              | Inr slot' \<Rightarrow>
                  let self = self\<lparr>slot := slot'\<rparr>
                  in if kind = Execution then force_actions self (DeadlineExpired kind) now
                     else
                       let cause = (case cleanup self of
                             None \<Rightarrow> DeadlineExpired kind
                           | Some latched \<Rightarrow> latched_cause latched);
                           self = self\<lparr>slot := disarm (slot self)\<rparr>
                       in settle_now self (TerminalOutcome.Indeterminate cause) True)"

definition on_cancellation_acknowledged ::
  "TxReducer \<Rightarrow> CommandToken \<Rightarrow> CleanupAck \<Rightarrow> step_result option" where
  "on_cancellation_acknowledged self token ack =
     (if cancellation_token self \<noteq> Some token
      then Some (self, [Reply (Inl StaleTransactionCompletion)])
      else if state self \<noteq> Cancelling then Some (self, [Reply (Inl TransactionNotReady)])
      else case cleanup self of
             None \<Rightarrow> None
           | Some latched \<Rightarrow>
               let self = self\<lparr>slot := disarm (slot self)\<rparr>
               in if is_proved_by (latched_goal latched) ack
                  then Some (settle_now self
                              (TerminalOutcome.Cancelled (latched_cause latched)) False)
                  else Some (settle_now self
                              (TerminalOutcome.Indeterminate (latched_cause latched)) True))"

definition reducer_queue_effect :: "TxReducer \<Rightarrow> Effect \<Rightarrow> FrameError + TxReducer" where
  "reducer_queue_effect self effect =
     (case queue_effect (frames self) effect of
        Inl error \<Rightarrow> Inl error
      | Inr fs \<Rightarrow> Inr (self\<lparr>frames := fs\<rparr>))"

subsection \<open>Applying one event\<close>

definition foreign_authority :: "TxReducer \<Rightarrow> TxEvent \<Rightarrow> bool" where
  "foreign_authority self event =
     (case event_authority event of
        None \<Rightarrow> False
      | Some authority \<Rightarrow>
          ev_identity authority \<noteq> exp_identity (expected self) \<or>
          ev_domain authority \<noteq> exp_domain (expected self))"

definition settled_reply :: "TxEvent \<Rightarrow> Action list" where
  "settled_reply event =
     (case event of
        Cancel _ \<Rightarrow> [] | DetachRequested _ \<Rightarrow> [] | DeadlineFired _ _ \<Rightarrow> []
      | _ \<Rightarrow> [Reply (Inl TransactionAlreadySettled)])"

definition dispatch :: "TxReducer \<Rightarrow> TxEvent \<Rightarrow> instant \<Rightarrow> step_result option" where
  "dispatch self event now =
     (case event of
        AuthorityObserved _ observed \<Rightarrow> Some (on_authority self observed now)
      | BeginCompleted token begin_outcome \<Rightarrow> Some (on_begin_completed self token begin_outcome now)
      | OperationRequested \<Rightarrow> Some (on_operation_requested self)
      | OperationCompleted token errored \<Rightarrow> on_operation_completed self token errored now
      | OpenFrame \<Rightarrow> Some (on_open_frame self)
      | OpenFrameCompleted token frame ok \<Rightarrow> on_open_frame_completed self token frame ok now
      | CloseFrame frame close \<Rightarrow> on_close_frame self frame close
      | CloseFrameCompleted token frame close ok \<Rightarrow>
          on_close_frame_completed self token frame close ok now
      | SettleRequested intent \<Rightarrow> Some (on_settle_requested self intent now)
      | TerminalCompleted token result \<Rightarrow> on_terminal_completed self token result
      | Cancel _ \<Rightarrow> Some (force_actions self CleanupCause.Cancelled now)
      | DetachRequested _ \<Rightarrow> Some (force_actions self Detached now)
      | DeadlineFired kind gen \<Rightarrow> Some (on_deadline_fired self kind gen now)
      | CancellationAcknowledged token ack \<Rightarrow> on_cancellation_acknowledged self token ack)"

definition apply_event :: "TxReducer \<Rightarrow> TxEvent \<Rightarrow> instant \<Rightarrow> step_result option" where
  "apply_event self event now =
     (if foreign_authority self event then Some (self, [Reply (Inl AppIncarnationMismatch)])
      else if state self = TxState.Settled then Some (self, settled_reply event)
      else dispatch self event now)"

end
