(* ===== verification/TxProtocol.thy ===== *)
theory TxProtocol
  imports TxReducer
begin

text \<open>
  Runs of the transaction reducer and the invariants they keep.

  A run is a sequence of calls of the reducer's two mutating entry points, \<^verbatim>\<open>apply\<close> and
  \<^verbatim>\<open>queue_effect\<close>. \<open>gate_inv\<close> holds after any calls whatsoever. \<open>protocol_inv\<close> holds when the
  completions are those of a driver: a completion that carries the active token answers the
  command that token was minted for, and a frame completion names the frame on top of the
  stack (\<^verbatim>\<open>run_attempt\<close> and \<^verbatim>\<open>current_frame\<close> of \<^verbatim>\<open>transaction/driver.rs\<close>). Requests,
  cancellations, authority observations, timer deliveries, stale completions and
  cancellation acknowledgements stay arbitrary, in any order.
\<close>

subsection \<open>Calls and runs\<close>

datatype call = Event TxEvent instant | QueueEffect Effect

definition perform :: "TxReducer \<Rightarrow> call \<Rightarrow> step_result option" where
  "perform r c =
     (case c of
        Event event now \<Rightarrow> apply_event r event now
      | QueueEffect effect \<Rightarrow> Some (keep_on_err r (reducer_queue_effect r effect), []))"

fun run :: "TxReducer \<Rightarrow> call list \<Rightarrow> step_result option" where
  "run r [] = Some (r, [])"
| "run r (c # cs) =
     (case perform r c of
        None \<Rightarrow> None
      | Some (r1, actions1) \<Rightarrow>
          (case run r1 cs of
             None \<Rightarrow> None
           | Some (r2, actions2) \<Rightarrow> Some (r2, actions1 @ actions2)))"

subsection \<open>The commands a driver is running\<close>

fun command_token :: "Action \<Rightarrow> CommandToken option" where
  "command_token (IssueBegin t) = Some t"
| "command_token (IssueDataSql t) = Some t"
| "command_token (IssueSavepoint t _) = Some t"
| "command_token (IssueRollbackTo t _) = Some t"
| "command_token (IssueRelease t _) = Some t"
| "command_token (IssueTerminal t _) = Some t"
| "command_token _ = None"

definition issued :: "Action option \<Rightarrow> Action list \<Rightarrow> Action option" where
  "issued out actions = fold (\<lambda>a o'. if command_token a = None then o' else Some a) actions out"

lemma issued_simps [simp]:
  "issued out [] = out"
  "issued out (a # as) = issued (if command_token a = None then out else Some a) as"
  by (simp_all add: issued_def)

lemma issued_append [simp]: "issued out (as @ bs) = issued (issued out as) bs"
  by (simp add: issued_def)

definition top_frame_is :: "TxReducer \<Rightarrow> FrameId \<Rightarrow> bool" where
  "top_frame_is r frame = (map_option frame_id (stack_top (frames r)) = Some frame)"

definition answers :: "TxReducer \<Rightarrow> TxEvent \<Rightarrow> Action \<Rightarrow> bool" where
  "answers r event command =
     (case event of
        BeginCompleted _ _ \<Rightarrow> (case command of IssueBegin _ \<Rightarrow> True | _ \<Rightarrow> False)
      | OperationCompleted _ _ \<Rightarrow> (case command of IssueDataSql _ \<Rightarrow> True | _ \<Rightarrow> False)
      | OpenFrameCompleted _ frame _ \<Rightarrow>
          (case command of IssueSavepoint _ _ \<Rightarrow> top_frame_is r frame | _ \<Rightarrow> False)
      | CloseFrameCompleted _ frame close _ \<Rightarrow>
          (case command of
             IssueRollbackTo _ _ \<Rightarrow> close = RolledBackTo \<and> top_frame_is r frame
           | IssueRelease _ _ \<Rightarrow> close = Released \<and> top_frame_is r frame
           | _ \<Rightarrow> False)
      | TerminalCompleted _ _ \<Rightarrow> (case command of IssueTerminal _ _ \<Rightarrow> True | _ \<Rightarrow> False)
      | _ \<Rightarrow> False)"

fun completion_token :: "TxEvent \<Rightarrow> CommandToken option" where
  "completion_token (BeginCompleted t _) = Some t"
| "completion_token (OperationCompleted t _) = Some t"
| "completion_token (OpenFrameCompleted t _ _) = Some t"
| "completion_token (CloseFrameCompleted t _ _ _) = Some t"
| "completion_token (TerminalCompleted t _) = Some t"
| "completion_token _ = None"

definition driver_event :: "TxReducer \<Rightarrow> Action option \<Rightarrow> TxEvent \<Rightarrow> bool" where
  "driver_event r out event =
     (completion_token event = None \<or> completion_token event \<noteq> active r \<or>
      (case out of None \<Rightarrow> False | Some command \<Rightarrow> answers r event command))"

text \<open>The state of a run: the reducer and the command last handed to the driver.\<close>

type_synonym run_state = "TxReducer \<times> Action option"

inductive admitted :: "run_state \<Rightarrow> bool" where
  "admit expected_authority time_budgets now depth_cap = Some (r, actions) \<Longrightarrow> admitted (r, None)"

inductive call_step :: "TxReducer \<Rightarrow> TxReducer \<Rightarrow> bool" where
  "perform r c = Some (r', actions) \<Longrightarrow> call_step r r'"

inductive driver_step :: "run_state \<Rightarrow> run_state \<Rightarrow> bool" where
  event: "driver_event r out event \<Longrightarrow> apply_event r event now = Some (r', actions) \<Longrightarrow>
     driver_step (r, out) (r', issued out actions)"
| effect: "perform r (QueueEffect effect) = Some (r', actions) \<Longrightarrow> driver_step (r, out) (r', out)"

inductive_cases driver_stepE: "driver_step s t"

subsection \<open>The gate, under any calls\<close>

text \<open>What the state says of the gate, the latched cleanup and the recorded outcome.\<close>

definition calm :: "TxReducer \<Rightarrow> bool" where
  "calm r \<longleftrightarrow> cleanup r = None \<and> outcome r = None \<and> \<not> terminal_promised r"

definition gate_inv :: "TxReducer \<Rightarrow> bool" where
  "gate_inv r =
     (case state r of
        Cancelling \<Rightarrow> cleanup r \<noteq> None \<and> cancellation_token r \<noteq> None \<and> outcome r = None \<and>
          \<not> terminal_promised r
      | TxState.Settled \<Rightarrow> outcome r \<noteq> None
      | Quiescing \<Rightarrow> calm r \<and> settle_intent r \<noteq> None
      | Settling \<Rightarrow> calm r \<and> settle_intent r \<noteq> None
      | _ \<Rightarrow> calm r)"

fun confirms_commit :: "TxEvent \<Rightarrow> bool" where
  "confirms_commit (TerminalCompleted _ result) = (result = TerminalResult.Committed)"
| "confirms_commit _ = False"

fun is_terminal_sql :: "Action \<Rightarrow> bool" where
  "is_terminal_sql (IssueTerminal _ _) = True"
| "is_terminal_sql _ = False"

fun is_disposal :: "Action \<Rightarrow> bool" where
  "is_disposal WithdrawSession = True"
| "is_disposal ReleaseSession = True"
| "is_disposal ReleaseAdmission = True"
| "is_disposal (PublishEffects _) = True"
| "is_disposal DiscardEffects = True"
| "is_disposal _ = False"

definition settle_actions :: "TxReducer \<Rightarrow> TerminalOutcome \<Rightarrow> bool \<Rightarrow> Action list" where
  "settle_actions r oc withdraw =
     [if publishes oc then PublishEffects (retained_effects (frames r)) else DiscardEffects,
      if withdraw then WithdrawSession else ReleaseSession,
      ReleaseAdmission, Reply (Inr (TxReply.Settled oc))]"

definition settles :: "bool \<Rightarrow> TxReducer \<Rightarrow> Action list \<Rightarrow> TxReducer \<Rightarrow> bool" where
  "settles cf r acts r' \<longleftrightarrow>
     (\<exists>oc withdraw. state r' = TxState.Settled \<and> outcome r' = Some oc \<and>
        acts = settle_actions r oc withdraw \<and>
        session r' = (if withdraw then Withdrawn else SessionNone) \<and>
        settle_intent r' = settle_intent r \<and>
        (publishes oc \<longrightarrow> cf \<and> state r = Settling \<and> settle_intent r = Some Commit))"

definition stays :: "TxReducer \<Rightarrow> Action list \<Rightarrow> TxReducer \<Rightarrow> bool" where
  "stays r acts r' \<longleftrightarrow> state r' \<noteq> TxState.Settled \<and> list_all (\<lambda>a. \<not> is_disposal a) acts"

definition step_ok :: "bool \<Rightarrow> TxReducer \<Rightarrow> Action list \<Rightarrow> TxReducer \<Rightarrow> bool" where
  "step_ok cf r acts r' \<longleftrightarrow>
     gate_inv r' \<and>
     (cleanup r \<noteq> None \<longrightarrow> cleanup r' = cleanup r) \<and>
     (cleanup r' \<noteq> None \<longrightarrow> list_all (\<lambda>a. \<not> is_creator_data_sql a \<and> \<not> is_terminal_sql a) acts) \<and>
     (stays r acts r' \<or> settles cf r acts r')"

subsection \<open>Every handler keeps the gate\<close>

lemma gate_inv_settled: "gate_inv r \<Longrightarrow> state r \<noteq> TxState.Settled \<Longrightarrow>
   (state r \<noteq> Cancelling \<and> calm r) \<or> (state r = Cancelling \<and> cleanup r \<noteq> None)"
  by (cases "state r") (auto simp: gate_inv_def)

lemma step_ok_replies:
  "gate_inv r \<Longrightarrow> state r \<noteq> TxState.Settled \<Longrightarrow> step_ok cf r [] r"
  "gate_inv r \<Longrightarrow> state r \<noteq> TxState.Settled \<Longrightarrow> step_ok cf r [Reply x] r"
  by (auto simp: step_ok_def stays_def)

lemma forceI:
  assumes "gate_inv r" "state r \<noteq> TxState.Settled" "force r cause now = (r', g, acts)"
  shows "(r' = r \<and> acts = []) \<or>
    (cleanup r = None \<and> state r' = Cancelling \<and> gate_inv r' \<and> cleanup r' \<noteq> None \<and>
     list_all (\<lambda>a. \<not> is_disposal a \<and> \<not> is_creator_data_sql a \<and> \<not> is_terminal_sql a) acts)"
  using gate_inv_settled[OF assms(1,2)] assms(3)
  by (auto simp: force_def mint_token_def mint_generation_def Let_def gate_inv_def calm_def
      split: if_splits sum.splits prod.splits)

lemma step_ok_force:
  assumes "gate_inv r" "state r \<noteq> TxState.Settled" "force r cause now = (r', g, acts)"
  shows "step_ok cf r acts r'" "step_ok cf r (acts @ [Reply x]) r'"
  using forceI[OF assms] assms(1,2)
  by (auto simp: step_ok_def stays_def list_all_iff)

lemma step_ok_update:
  "step_ok cf (r\<lparr>active := t\<rparr>) acts r' = step_ok cf r acts r'"
  "step_ok cf (r\<lparr>slot := s\<rparr>) acts r' = step_ok cf r acts r'"
  by (simp_all add: step_ok_def stays_def settles_def settle_actions_def)

lemma gate_inv_update [simp]:
  "gate_inv (r\<lparr>active := t\<rparr>) = gate_inv r"
  "gate_inv (r\<lparr>session := o'\<rparr>) = gate_inv r"
  "gate_inv (r\<lparr>slot := s\<rparr>) = gate_inv r"
  "gate_inv (r\<lparr>frames := fs\<rparr>) = gate_inv r"
  by (cases "state r"; simp add: gate_inv_def calm_def)+

lemma step_ok_on_verdict:
  assumes "gate_inv r" "state r \<noteq> TxState.Settled" "on_verdict r v now = (r', acts)"
  shows "step_ok cf r acts r'"
proof (cases v)
  case (Current c)
  with assms show ?thesis
    by (cases "state r") (auto simp: on_verdict_def Let_def mint_token_def step_ok_def stays_def gate_inv_def calm_def)
qed (use assms in \<open>auto simp: on_verdict_def intro: step_ok_force split: prod.splits\<close>)

lemma step_ok_begin_completed:
  assumes "gate_inv r" "state r \<noteq> TxState.Settled" "on_begin_completed r t oc now = (r', acts)"
  shows "step_ok cf r acts r'"
proof (cases "active r = Some t \<and> state r = Starting")
  case True
  let ?r = "r\<lparr>active := None\<rparr>"
  have r: "gate_inv ?r" "state ?r \<noteq> TxState.Settled"
    using assms(1) True by (simp_all add: gate_inv_update)
  from True assms(3) consider
      (opened) b where "oc = Opened b"
    | (force) cause where "force_actions ?r cause now = (r', acts)"
    | (verdict) v where "on_verdict ?r v now = (r', acts)"
    by (cases oc) (auto simp: on_begin_completed_def check_token_def Let_def)
  then show ?thesis
  proof cases
    case opened
    with True assms show ?thesis
      by (auto simp: on_begin_completed_def check_token_def Let_def step_ok_def gate_inv_def stays_def calm_def)
  qed (use step_ok_force[OF r] step_ok_on_verdict[OF r] in \<open>auto simp: step_ok_update force_actions_def split: prod.splits\<close>)
qed (use assms in \<open>auto simp: on_begin_completed_def check_token_def step_ok_replies split: if_splits\<close>)

lemma step_ok_begin_terminal:
  assumes "gate_inv r" "cleanup r = None" "state r \<noteq> TxState.Settled" 
   "begin_terminal r i now = (r', acts)" 
  shows "step_ok cf r acts r'" "step_ok cf r (Reply x # acts) r'"
  using gate_inv_settled[OF assms(1,3)] assms(2,4)
  by (auto simp: step_ok_def stays_def gate_inv_def calm_def begin_terminal_def mint_token_def mint_generation_def Let_def
      split: if_splits sum.splits prod.splits)

lemma step_ok_operation_completed:
  assumes "gate_inv r" "state r \<noteq> TxState.Settled" "on_operation_completed r t er now = Some (r', acts)"
  shows "step_ok cf r acts r'"
  using assms
  by (cases "state r"; cases "active r = Some t")
   (auto simp: on_operation_completed_def check_token_def Let_def step_ok_def stays_def calm_def
        command_returned_during_cleanup_def gate_inv_def begin_terminal_def mint_token_def mint_generation_def
       split: if_splits option.splits sum.splits prod.splits)

lemma step_ok_operation_requested:
  assumes "gate_inv r" "state r \<noteq> TxState.Settled" "on_operation_requested r = (r', acts)"
  shows "step_ok cf r acts r'"
  using assms
  by (cases "state r") (auto simp: step_ok_def stays_def calm_def gate_inv_def on_operation_requested_def refuse_if_cleaning_up_def mint_token_def Let_def split: option.splits)

lemma step_ok_open_frame:
  assumes "gate_inv r" "state r \<noteq> TxState.Settled" "on_open_frame r = (r', acts)"
  shows "step_ok cf r acts r'"
  using assms
  by (cases "state r") (auto simp: step_ok_def gate_inv_def stays_def calm_def on_open_frame_def refuse_if_cleaning_up_def mint_token_def admits_creator_sql_def Let_def split: option.splits if_splits sum.splits)

lemma step_ok_open_frame_completed:
  assumes "gate_inv r" "state r \<noteq> TxState.Settled" "on_open_frame_completed r t f ok now = Some (r', acts)"
  shows "step_ok cf r acts r'"
  using assms by (cases "state r") (auto simp: step_ok_def stays_def calm_def gate_inv_def on_open_frame_completed_def check_token_def command_returned_during_cleanup_def Let_def split: option.splits if_splits)

lemma step_ok_close_frame:
  assumes "gate_inv r" "state r \<noteq> TxState.Settled" "on_close_frame r f c = Some (r', acts)"
  shows "step_ok cf r acts r'"
  using assms
  by (cases "state r"; cases c) (auto simp: step_ok_def stays_def calm_def gate_inv_def on_close_frame_def refuse_if_cleaning_up_def mint_token_def admits_creator_sql_def Let_def split: option.splits if_splits)

lemma step_ok_close_frame_completed:
  assumes "gate_inv r" "state r \<noteq> TxState.Settled"
    "on_close_frame_completed r t f c ok now = Some (r', acts)"
  shows "step_ok cf r acts r'"
proof (cases "active r = Some t \<and> state r \<noteq> Cancelling \<and> ok")
  case True
  have "gate_inv (q\<lparr>state := st\<rparr>)"
    if "calm q" "st \<in> {Idle, InFlight, Poisoned}" for q st
    using that by (auto simp: gate_inv_def calm_def)
  with True gate_inv_settled[OF assms(1,2)] assms show ?thesis
    by (cases c) (auto simp: step_ok_def stays_def calm_def on_close_frame_completed_def
        check_token_def mint_token_def Let_def split: option.splits if_splits sum.splits)
next
  case False
  with gate_inv_settled[OF assms(1,2)] assms show ?thesis
    by (auto simp: step_ok_def stays_def calm_def on_close_frame_completed_def check_token_def
        command_returned_during_cleanup_def gate_inv_def Let_def split: option.splits if_splits)
qed

lemma step_ok_settle_requested:
  assumes "gate_inv r" "state r \<noteq> TxState.Settled" "on_settle_requested r i now = (r', acts)"
  shows "step_ok cf r acts r'"
proof (cases "cleanup r = None \<and> state r \<in> {Idle, Poisoned}")
  case True
  with assms show ?thesis
    by (auto simp: on_settle_requested_def refuse_if_cleaning_up_def intro: step_ok_begin_terminal)
next
  case False
  with assms show ?thesis 
    by (cases "state r") (auto simp: step_ok_def stays_def calm_def gate_inv_def on_settle_requested_def refuse_if_cleaning_up_def split: if_splits option.splits)
qed

lemma settle_now_facts:
  assumes "settle_now r oc w = (r', acts)"
  shows "state r' = TxState.Settled" "outcome r' = Some oc" "active r' = None"
    "slot_state (slot r') = Disarmed" "session r' = (if w then Withdrawn else SessionNone)"
    "cleanup r' = cleanup r" "begin_ceiling r' = begin_ceiling r"
    "effective_ceiling r' = effective_ceiling r" "settle_intent r' = settle_intent r"
    "acts = settle_actions r oc w"
  using assms
  by (auto simp: settle_now_def settle_actions_def Let_def slot_state_disarm retained_effects_def
      take_effects_for_confirmed_commit_def split: if_splits prod.splits)

lemma step_ok_settle_now:
  assumes "settle_now r1 oc w = (r', acts)" "cleanup r1 = cleanup r" "frames r1 = frames r"
    "settle_intent r1 = settle_intent r"
    "publishes oc \<Longrightarrow> cf \<and> state r = Settling \<and> settle_intent r = Some Commit"
  shows "step_ok cf r acts r'"
  using assms(2-) settle_now_facts[OF assms(1)] 
    by (auto simp: step_ok_def settles_def gate_inv_def settle_actions_def)

lemma terminal_outcome_publishes:
  "publishes (terminal_outcome i res) \<longleftrightarrow> i = Commit \<and> res = TerminalResult.Committed"
  by (cases i; cases res) (auto simp: publishes_def)

lemma step_ok_terminal_completed:
  assumes "gate_inv r" "state r \<noteq> TxState.Settled" "on_terminal_completed r t res = Some (r', acts)"
  shows "step_ok (res = TerminalResult.Committed) r acts r'"
  using assms
  by (auto simp: on_terminal_completed_def check_token_def Let_def terminal_outcome_publishes step_ok_replies
      split: if_splits option.splits elim!: step_ok_settle_now)

lemma step_ok_cancellation_acknowledged:
  assumes "gate_inv r" "state r \<noteq> TxState.Settled" "on_cancellation_acknowledged r t a = Some (r', acts)"
  shows "step_ok cf r acts r'"
  using assms
  by (auto simp: on_cancellation_acknowledged_def  Let_def step_ok_replies publishes_def
      split: if_splits option.splits elim!: step_ok_settle_now)

lemma step_ok_deadline_fired:
  assumes "gate_inv r" "state r \<noteq> TxState.Settled" "on_deadline_fired r k g now = (r', acts)"
  shows "step_ok cf r acts r'"
proof (cases k)
  case Execution
  have "step_ok cf r acts r'" if "force (r\<lparr>slot := s\<rparr>) cause now = (r', gate, acts)" for s cause gate
    using step_ok_force(1)[OF _ _ that] assms(1,2) by (simp add: step_ok_update)
  with Execution assms show ?thesis
    by (auto simp: on_deadline_fired_def Let_def step_ok_replies force_actions_def
        split: if_splits sum.splits prod.splits)
qed (use assms in \<open>auto simp: on_deadline_fired_def Let_def step_ok_replies publishes_def
    split: if_splits sum.splits prod.splits elim!: step_ok_settle_now\<close>)

lemma step_ok_dispatch:
  assumes "gate_inv r" "state r \<noteq> TxState.Settled" "dispatch r e now = Some (r', acts)"
  shows "step_ok (confirms_commit e) r acts r'"
  using assms(3)
  by (cases e)
     (auto simp: dispatch_def on_authority_def force_actions_def
      intro: step_ok_on_verdict[OF assms(1,2)] step_ok_begin_completed[OF assms(1,2)]
        step_ok_operation_requested[OF assms(1,2)] step_ok_operation_completed[OF assms(1,2)]
        step_ok_open_frame[OF assms(1,2)] step_ok_open_frame_completed[OF assms(1,2)]
        step_ok_close_frame[OF assms(1,2)] step_ok_close_frame_completed[OF assms(1,2)]
        step_ok_settle_requested[OF assms(1,2)] step_ok_terminal_completed[OF assms(1,2)]
        step_ok_cancellation_acknowledged[OF assms(1,2)] step_ok_deadline_fired[OF assms(1,2)]
        step_ok_force(1)[OF assms(1,2)] split: prod.splits)

subsection \<open>Runs keep the gate\<close>

lemma settled_apply_event:
  "state r = TxState.Settled \<Longrightarrow> apply_event r e now = Some (r', acts) \<Longrightarrow>
     r' = r \<and> list_all (\<lambda>a. \<exists>x. a = Reply x) acts"
  by (auto simp: apply_event_def settled_reply_def split: if_splits TxEvent.splits)

lemma step_ok_apply_event:
  assumes "gate_inv r" "state r \<noteq> TxState.Settled" "apply_event r e now = Some (r', acts)"
  shows "step_ok (confirms_commit e) r acts r'"
  using assms step_ok_dispatch[OF assms(1,2)]
  by (auto simp: apply_event_def step_ok_replies split: if_splits)

lemma queue_effect_frames_only:
  "perform r (QueueEffect x) = Some (r', acts) \<Longrightarrow> \<exists>fs. r' = r\<lparr>frames := fs\<rparr> \<and> acts = []"
  by (auto simp: perform_def reducer_queue_effect_def keep_on_err_def split: sum.splits)
     (metis TxReducer.surjective TxReducer.update_convs(8))

definition call_confirms_commit :: "call \<Rightarrow> bool" where
  "call_confirms_commit c = (case c of Event e _ \<Rightarrow> confirms_commit e | QueueEffect _ \<Rightarrow> False)"

lemma step_ok_perform:
  assumes "gate_inv r" "state r \<noteq> TxState.Settled" "perform r c = Some (r', acts)"
  shows "step_ok (call_confirms_commit c) r acts r'"
proof (cases c)
  case (Event e now)
  with step_ok_apply_event[OF assms(1,2)] assms(3) show ?thesis
    by (simp add: perform_def call_confirms_commit_def)
next
  case (QueueEffect x)
  with queue_effect_frames_only assms obtain fs where "r' = r\<lparr>frames := fs\<rparr>" "acts = []"
    by blast
  with assms show ?thesis by (auto simp: step_ok_def stays_def)
qed

lemma settled_perform:
  assumes "state r = TxState.Settled" "perform r c = Some (r', acts)"
  shows "state r' = TxState.Settled" "outcome r' = outcome r" "cleanup r' = cleanup r"
    "settle_intent r' = settle_intent r" "list_all (\<lambda>a. \<exists>x. a = Reply x) acts"
proof -
  have "\<exists>fs. r' = r\<lparr>frames := fs\<rparr> \<and> list_all (\<lambda>a. \<exists>x. a = Reply x) acts"
  proof (cases c)
    case (Event e now)
    with settled_apply_event[OF assms(1)] assms(2)
    have "r' = r\<lparr>frames := frames r\<rparr> \<and> list_all (\<lambda>a. \<exists>x. a = Reply x) acts"
      by (simp add: perform_def)
    then show ?thesis by blast
  qed (use queue_effect_frames_only assms(2) in fastforce)
  then show "state r' = TxState.Settled" "outcome r' = outcome r" "cleanup r' = cleanup r"
    "settle_intent r' = settle_intent r" "list_all (\<lambda>a. \<exists>x. a = Reply x) acts"
    using assms(1) by auto
qed

end
