(* ===== verification/TxGate.thy ===== *)
theory TxGate
  imports TxProtocol
begin

text \<open>
  What every run of the transaction reducer guarantees, whatever events arrive and in
  whatever order: a forced cleanup is final, the admission claim is released exactly once,
  effects are published at most once and only for a confirmed commit, the mask ceiling only
  tightens, and an event of another authority touches nothing.

  The runs used as witnesses are concrete call sequences; they also show two behaviours the
  protocol's documentation rules out.
\<close>

subsection \<open>Concrete runs\<close>

definition example_expected :: ExpectedAuthority where
  "example_expected =
     \<lparr>exp_identity = for_app ''app'' 7,
      exp_domain = \<lparr>system_identifier = 1, timeline_id = 1\<rparr>, exp_epoch = SchemaEpoch 3\<rparr>"

definition example_observed :: ObservedAuthority where
  "example_observed =
     \<lparr>obs_identity = exp_identity example_expected, obs_domain = exp_domain example_expected,
      obs_epoch = exp_epoch example_expected, obs_lifecycle = Stable,
      obs_ceiling = ceiling_of [''read'', ''write'']\<rparr>"

definition example_authority :: EventAuthority where
  "example_authority =
     \<lparr>ev_identity = exp_identity example_expected, ev_domain = exp_domain example_expected\<rparr>"

definition example_budgets :: TxBudgets where
  "example_budgets = \<lparr>execution = 30, cancellation_sql = 5, terminal_sql = 10\<rparr>"

definition example_admit :: TxReducer where
  "example_admit = fst (the (admit example_expected example_budgets 0 8))"

definition example_effect :: Effect where
  "example_effect = \<lparr>effect_collection = ''orders'', effect_payload = ''inserted''\<rparr>"

definition example_open :: "call list" where
  "example_open =
     [Event (AuthorityObserved example_authority example_observed) 1,
      Event (BeginCompleted (CommandToken 1) (Opened (BackendGeneration 1))) 2]"

definition example_commit :: "call list" where
  "example_commit = example_open @
     [Event OperationRequested 3, QueueEffect example_effect,
      Event (OperationCompleted (CommandToken 2) False) 4,
      Event (SettleRequested Commit) 5,
      Event (TerminalCompleted (CommandToken 3) TerminalResult.Committed) 6]"

definition example_cancel :: "call list" where
  "example_cancel = example_open @
     [Event OperationRequested 3, Event (Cancel example_authority) 4]"

definition example_after_cancel :: "call list" where
  "example_after_cancel =
     [Event (OperationCompleted (CommandToken 2) True) 5, Event OperationRequested 6,
      Event (SettleRequested Commit) 7,
      Event (CancellationAcknowledged (CommandToken 3) CleanupAck.RolledBack) 8]"

definition example_state :: "call list \<Rightarrow> TxReducer" where
  "example_state cs = fst (the (run example_admit cs))"

definition example_actions :: "call list \<Rightarrow> Action list" where
  "example_actions cs = snd (the (run example_admit cs))"

subsection \<open>The gate invariant on every reachable state\<close>

lemma admit_eq:
  "admit ex b now d = Some (r, acts) \<Longrightarrow>
     state r = Preparing \<and> calm r \<and> settle_intent r = None \<and> begin_ceiling r = None \<and>
     effective_ceiling r = None \<and> session r = SessionNone \<and> active r = None \<and> generation r = None \<and>
     cancellation_token r = None \<and> stack_frames (frames r) = [] \<and> expected r = ex \<and>
     budgets r = b \<and> gen_next (generations r) = 1 \<and>
     slot_state (slot r) = Armed Execution (DeadlineGeneration 1) (now + execution b)"
  by (auto simp: admit_def Let_def mint_generation_def arm_initial_def deadline_slot_new_def
      calm_def frame_stack_new_def split: sum.splits prod.splits)

lemma gate_inv_perform:
  "gate_inv r \<Longrightarrow> perform r c = Some (r', acts) \<Longrightarrow> gate_inv r'"
  using settled_perform[of r c r' acts] step_ok_perform[of r c r' acts]
  by (cases "state r = TxState.Settled") (auto simp: gate_inv_def[of r'] gate_inv_def[of r] step_ok_def)

interpretation gate: inductive_invariant "\<lambda>r. admitted (r, None)" call_step gate_inv
proof
  show "gate_inv r" if "admitted (r, None)" for r
    using that by (auto elim!: admitted.cases dest!: admit_eq simp: gate_inv_def)
  show "gate_inv r'" if "gate_inv r" "call_step r r'" for r r'
    using that by (auto elim!: call_step.cases intro: gate_inv_perform)
qed

lemma run_steps: "run r cs = Some (r', acts) \<Longrightarrow> call_step\<^sup>*\<^sup>* r r'"
proof (induction cs arbitrary: r acts)
  case (Cons c cs)
  then show ?case
    by (auto split: option.splits prod.splits
        intro: converse_rtranclp_into_rtranclp call_step.intros)
qed simp

lemma run_gate_inv:
  assumes "admit ex b now d = Some (r0, a0)" "run r0 cs = Some (r, acts)"
  shows "gate_inv r"
  using assms gate.reachable_inv admitted.intros run_steps by metis

lemma gate_inv_start: "admit ex b now d = Some (r0, a0) \<Longrightarrow> gate_inv r0"
  by (rule run_gate_inv[where cs = "[]"]) auto

lemma run_Cons_Some:
  "run r (c # cs) = Some (r', acts) \<longleftrightarrow>
     (\<exists>r1 as bs. perform r c = Some (r1, as) \<and> run r1 cs = Some (r', bs) \<and> acts = as @ bs)"
  by (auto split: option.splits prod.splits)

lemma settled_run:
  assumes "run r cs = Some (r', acts)" "state r = TxState.Settled"
  shows "state r' = TxState.Settled \<and> outcome r' = outcome r \<and> cleanup r' = cleanup r \<and>
     settle_intent r' = settle_intent r \<and> list_all (\<lambda>a. \<exists>x. a = Reply x) acts"
  using assms
proof (induction cs arbitrary: r acts)
  case (Cons c cs)
  then obtain r1 as bs where "perform r c = Some (r1, as)" "run r1 cs = Some (r', bs)"
      "acts = as @ bs"
    by (auto simp del: run.simps simp: run_Cons_Some)
  with Cons.IH[of r1 bs] Cons.prems settled_perform[of r c r1 as] show ?case by simp
qed simp

subsection \<open>A forced cleanup is final\<close>

lemma cleanup_run:
  assumes "run r cs = Some (r', acts)" "gate_inv r" "cleanup r = Some l"
  shows "cleanup r' = Some l \<and>
     list_all (\<lambda>a. \<not> is_creator_data_sql a \<and> \<not> is_terminal_sql a) acts"
  using assms
proof (induction cs arbitrary: r acts)
  case (Cons c cs)
  then obtain r1 as bs where step: "perform r c = Some (r1, as)" and rest: "run r1 cs = Some (r', bs)"
    and acts: "acts = as @ bs"
    by (auto simp del: run.simps simp: run_Cons_Some)
  have quiet: "cleanup r1 = Some l \<and>
      list_all (\<lambda>a. \<not> is_creator_data_sql a \<and> \<not> is_terminal_sql a) as"
  proof (cases "state r = TxState.Settled")
    case True
    with settled_perform[OF True step] Cons.prems show ?thesis by (auto simp: list_all_iff)
  next
    case False
    with step_ok_perform[OF Cons.prems(2) False step] Cons.prems show ?thesis
      by (auto simp: step_ok_def)
  qed
  with Cons.IH[OF rest] gate_inv_perform[OF Cons.prems(2) step] acts show ?case by simp
qed simp

lemma gate_inv_cleanup:
  "gate_inv r \<Longrightarrow> cleanup r \<noteq> None \<Longrightarrow> state r \<in> {Cancelling, TxState.Settled}"
  by (cases "state r") (auto simp: gate_inv_def calm_def)

text \<open>
  \<^bold>\<open>C3\<close> (invariant 16). Once any publisher has forced a transaction, whatever calls follow,
  the one latched cause and goal never change, the state is \<^verbatim>\<open>Cancelling\<close> or \<^verbatim>\<open>Settled\<close>, and
  neither creator data SQL nor terminal SQL is ever issued again.
\<close>

theorem forced_cleanup_is_final:
  assumes "admit ex b now d = Some (r0, a0)" "run r0 before = Some (r, acts)"
    and "cleanup r = Some latched" "run r after = Some (r', acts')"
  shows "cleanup r' = Some latched \<and> state r' \<in> {Cancelling, TxState.Settled} \<and>
    list_all (\<lambda>a. \<not> is_creator_data_sql a \<and> \<not> is_terminal_sql a) acts'"
proof -
  have "gate_inv r" by (rule run_gate_inv[OF assms(1,2)])
  with cleanup_run[OF assms(4) _ assms(3)] gate.steps_inv[OF run_steps[OF assms(4)]]
    gate_inv_cleanup[of r'] show ?thesis by auto
qed

theorem forced_cleanup_is_final_witness:
  "cleanup (example_state (example_cancel @ example_after_cancel)) =
     Some \<lparr>latched_cause = CleanupCause.Cancelled, latched_goal = OpenTransaction\<rparr> \<and>
   list_all (\<lambda>a. \<not> is_creator_data_sql a)
     (snd (the (run (example_state example_cancel) example_after_cancel)))"
proof -
  have "admit example_expected example_budgets 0 8 =
      Some (example_admit, snd (the (admit example_expected example_budgets 0 8)))"
    "run example_admit example_cancel =
      Some (example_state example_cancel, example_actions example_cancel)"
    "cleanup (example_state example_cancel) =
      Some \<lparr>latched_cause = CleanupCause.Cancelled, latched_goal = OpenTransaction\<rparr>"
    "run (example_state example_cancel) example_after_cancel =
      Some (example_state (example_cancel @ example_after_cancel),
        snd (the (run (example_state example_cancel) example_after_cancel)))"
    by code_simp+
  from forced_cleanup_is_final[OF this] show ?thesis by (auto simp: list_all_iff)
qed

subsection \<open>One release, at most one publication\<close>

definition is_publish :: "Action \<Rightarrow> bool" where
  "is_publish a = (case a of PublishEffects _ \<Rightarrow> True | _ \<Rightarrow> False)"

lemma quiet_counts:
  "list_all (\<lambda>a. \<not> is_disposal a) acts \<Longrightarrow>
     count_list acts ReleaseAdmission = 0 \<and> filter is_publish acts = []"
  by (induction acts) (auto simp: is_publish_def split: Action.splits)

lemma reply_counts:
  "list_all (\<lambda>a. \<exists>x. a = Reply x) acts \<Longrightarrow>
     count_list acts ReleaseAdmission = 0 \<and> filter is_publish acts = []"
  by (rule quiet_counts) (auto simp: list_all_iff)

lemma settle_counts:
  "count_list (settle_actions r oc w) ReleaseAdmission = 1"
  "filter is_publish (settle_actions r oc w) =
     (if publishes oc then [PublishEffects (retained_effects (frames r))] else [])"
  by (auto simp: settle_actions_def is_publish_def)

text \<open>
  What a run from a live state has done about the admission, the effects and the commit.
\<close>

definition run_ok :: "call list \<Rightarrow> Action list \<Rightarrow> TxReducer \<Rightarrow> bool" where
  "run_ok cs acts r \<longleftrightarrow>
     count_list acts ReleaseAdmission = (if state r = TxState.Settled then 1 else 0) \<and>
     length (filter is_publish acts) =
       (if outcome r = Some TerminalOutcome.Committed then 1 else 0) \<and>
     (outcome r = Some TerminalOutcome.Committed \<longrightarrow>
        settle_intent r = Some Commit \<and> list_ex call_confirms_commit cs)"

lemma gate_inv_outcome: "gate_inv r \<Longrightarrow> outcome r \<noteq> None \<longleftrightarrow> state r = TxState.Settled"
  by (cases "state r") (auto simp: gate_inv_def calm_def)

lemma run_ok_live:
  assumes "run r cs = Some (r', acts)" "gate_inv r" "state r \<noteq> TxState.Settled"
  shows "run_ok cs acts r'"
  using assms
proof (induction cs arbitrary: r acts)
  case Nil
  then show ?case using gate_inv_outcome[of r] by (auto simp: run_ok_def)
next
  case (Cons c cs)
  then obtain r1 as bs where step: "perform r c = Some (r1, as)" and rest: "run r1 cs = Some (r', bs)"
    and acts: "acts = as @ bs"
    by (auto simp del: run.simps simp: run_Cons_Some)
  have inv: "gate_inv r1" using gate_inv_perform[OF Cons.prems(2) step] .
  from step_ok_perform[OF Cons.prems(2,3) step]
  consider "stays r as r1" | "settles (call_confirms_commit c) r as r1"
    by (auto simp: step_ok_def)
  then show ?case
  proof cases
    case 1
    with Cons.IH[OF rest inv] quiet_counts[of as] acts show ?thesis
      by (auto simp: run_ok_def stays_def)
  next
    case 2
    then obtain oc w where "state r1 = TxState.Settled" "outcome r1 = Some oc"
        "as = settle_actions r oc w" "settle_intent r1 = settle_intent r"
        "publishes oc \<Longrightarrow> call_confirms_commit c \<and> settle_intent r = Some Commit"
      by (auto simp: settles_def)
    with settled_run[OF rest] reply_counts[of bs] acts settle_counts[of r oc w] show ?thesis
      by (auto simp: run_ok_def publishes_def)
  qed
qed

lemma run_ok_admitted:
  assumes "admit ex b now d = Some (r0, a0)" "run r0 cs = Some (r, acts)"
  shows "run_ok cs acts r"
  using run_ok_live[OF assms(2) gate_inv_start[OF assms(1)]] admit_eq[OF assms(1)] by simp

text \<open>
  \<^bold>\<open>C36\<close> (invariant 3). In any run from admission, the admission claim has been released
  exactly once if the transaction has settled, and never before it settles.
\<close>

theorem admission_released_exactly_once:
  assumes "admit ex b now d = Some (r0, a0)" "run r0 cs = Some (r, acts)"
  shows "count_list acts ReleaseAdmission = (if state r = TxState.Settled then 1 else 0)"
  using run_ok_admitted[OF assms] by (simp add: run_ok_def)

theorem admission_released_exactly_once_witness:
  "count_list (example_actions (example_cancel @ example_after_cancel)) ReleaseAdmission = 1"
proof -
  have "admit example_expected example_budgets 0 8 =
      Some (example_admit, snd (the (admit example_expected example_budgets 0 8)))"
    "run example_admit (example_cancel @ example_after_cancel) =
      Some (example_state (example_cancel @ example_after_cancel),
        example_actions (example_cancel @ example_after_cancel))"
    by code_simp+
  note admission_released_exactly_once[OF this]
  moreover have "state (example_state (example_cancel @ example_after_cancel)) = TxState.Settled"
    by code_simp
  ultimately show ?thesis by simp
qed

text \<open>
  \<^bold>\<open>C16\<close> (invariant 12). In any run from admission, effects are published exactly once if
  the recorded outcome is \<^verbatim>\<open>Committed\<close> and never otherwise, and that outcome is recorded only
  when the creator's intent was to commit and the backend answered that it committed.
\<close>

theorem published_only_for_confirmed_commit:
  assumes "admit ex b now d = Some (r0, a0)" "run r0 cs = Some (r, acts)"
  shows "length (filter is_publish acts) =
      (if outcome r = Some TerminalOutcome.Committed then 1 else 0) \<and>
    (outcome r = Some TerminalOutcome.Committed \<longrightarrow>
      settle_intent r = Some Commit \<and> list_ex call_confirms_commit cs)"
  using run_ok_admitted[OF assms] by (simp_all add: run_ok_def)

theorem published_only_for_confirmed_commit_witness:
  "filter is_publish (example_actions example_commit) = [PublishEffects [example_effect]] \<and>
   length (filter is_publish (example_actions example_commit)) = 1 \<and>
   list_ex call_confirms_commit example_commit"
proof -
  have run: "admit example_expected example_budgets 0 8 =
      Some (example_admit, snd (the (admit example_expected example_budgets 0 8)))"
    "run example_admit example_commit =
      Some (example_state example_commit, example_actions example_commit)"
    by code_simp+
  have "outcome (example_state example_commit) = Some TerminalOutcome.Committed"
    "filter is_publish (example_actions example_commit) = [PublishEffects [example_effect]]"
    by code_simp+
  with published_only_for_confirmed_commit[OF run] show ?thesis by simp
qed

subsection \<open>The ceiling only tightens\<close>

definition ceiling_inv :: "TxReducer \<Rightarrow> bool" where
  "ceiling_inv r \<longleftrightarrow>
     (state r = Preparing \<longrightarrow> begin_ceiling r = None) \<and>
     (\<forall>b. begin_ceiling r = Some b \<longrightarrow>
        (\<exists>e. effective_ceiling r = Some e \<and> is_no_broader_than e b))"

definition tightens :: "TxReducer \<Rightarrow> TxReducer \<Rightarrow> bool" where
  "tightens r r' \<longleftrightarrow>
     (\<forall>b e. begin_ceiling r = Some b \<longrightarrow> effective_ceiling r = Some e \<longrightarrow>
        begin_ceiling r' = Some b \<and>
        (\<exists>e'. effective_ceiling r' = Some e' \<and> is_no_broader_than e' e))"

definition keeps_ceilings :: "TxReducer \<Rightarrow> TxReducer \<Rightarrow> bool" where
  "keeps_ceilings r r' \<longleftrightarrow>
     begin_ceiling r' = begin_ceiling r \<and> effective_ceiling r' = effective_ceiling r \<and>
     (state r' = Preparing \<longrightarrow> state r = Preparing)"

lemma keeps_ceilings_ok:
  "keeps_ceilings r r' \<Longrightarrow> ceiling_inv r \<Longrightarrow> ceiling_inv r' \<and> tightens r r'"
  by (auto simp: keeps_ceilings_def ceiling_inv_def tightens_def)

lemma keeps_ceilings_same [simp]: "keeps_ceilings r r"
  by (simp add: keeps_ceilings_def)

lemma ceilings_force: "force r cause now = (r', g, acts) \<Longrightarrow> keeps_ceilings r r'"
  by (auto simp: force_def keeps_ceilings_def mint_token_def mint_generation_def Let_def
      split: if_splits sum.splits prod.splits)

lemma ceilings_settle_now:
  "settle_now r1 oc w = (r', acts) \<Longrightarrow> begin_ceiling r1 = begin_ceiling r \<Longrightarrow>
   effective_ceiling r1 = effective_ceiling r \<Longrightarrow> keeps_ceilings r r'"
  using settle_now_facts[of r1 oc w r' acts] by (simp add: keeps_ceilings_def)

lemma ceilings_begin_terminal:
  "begin_terminal r1 i now = (r', acts) \<Longrightarrow> begin_ceiling r1 = begin_ceiling r \<Longrightarrow>
   effective_ceiling r1 = effective_ceiling r \<Longrightarrow> keeps_ceilings r r'"
  by (auto simp: begin_terminal_def keeps_ceilings_def mint_token_def mint_generation_def Let_def
      split: sum.splits prod.splits)

lemma ceilings_update [simp]:
  "keeps_ceilings (r\<lparr>active := t\<rparr>) r' = keeps_ceilings r r'"
  "keeps_ceilings (r\<lparr>slot := s\<rparr>) r' = keeps_ceilings r r'"
  by (simp_all add: keeps_ceilings_def)

lemma ceilings_forcing_verdict:
  "is_forcing v \<Longrightarrow> on_verdict r v now = (r', acts) \<Longrightarrow> keeps_ceilings r r'"
  by (cases v) (auto simp: on_verdict_def split: prod.splits intro: ceilings_force)

lemma ceilings_begin_completed:
  assumes "on_begin_completed r t oc now = (r', acts)"
  shows "keeps_ceilings r r'"
proof -
  have verdict: "keeps_ceilings r r'"
    if "is_forcing v" "on_verdict (r\<lparr>active := None\<rparr>) v now = (r', acts)" for v
    using ceilings_forcing_verdict[OF that] by simp
  have force: "keeps_ceilings r r'" if "force (r\<lparr>active := None\<rparr>) c now = (r', g, acts)" for c g
    using ceilings_force[OF that] by simp
  show ?thesis
    using assms verdict[of Verdict.ReResolve] verdict[of "Deny reason" for reason] force
    by (cases oc) (auto simp: on_begin_completed_def check_token_def force_actions_def Let_def
        keeps_ceilings_def[of r "_\<lparr>state := _\<rparr>"] split: if_splits prod.splits)
qed

lemma ceilings_operations:
  "on_operation_requested r = (r', acts) \<Longrightarrow> keeps_ceilings r r'"
  "on_open_frame r = (r', acts) \<Longrightarrow> keeps_ceilings r r'"
  "on_settle_requested r i now = (r', acts) \<Longrightarrow> keeps_ceilings r r'"
  "on_open_frame_completed r t f ok now = Some (r', acts) \<Longrightarrow> keeps_ceilings r r'"
  "on_close_frame r f c = Some (r', acts) \<Longrightarrow> keeps_ceilings r r'"
  "on_operation_completed r t er now = Some (r', acts) \<Longrightarrow> keeps_ceilings r r'"
  subgoal
    by (cases "state r") (auto simp: on_operation_requested_def refuse_if_cleaning_up_def
      mint_token_def keeps_ceilings_def Let_def split: option.splits)
  subgoal
    by (auto simp: on_open_frame_def refuse_if_cleaning_up_def mint_token_def keeps_ceilings_def
      Let_def split: option.splits if_splits sum.splits)
  subgoal
    by (cases "state r") (auto simp: on_settle_requested_def refuse_if_cleaning_up_def
      keeps_ceilings_def[of r "_\<lparr>settle_intent := _\<rparr>"]
      split: option.splits if_splits intro: ceilings_begin_terminal)
  subgoal
    by (auto simp: on_open_frame_completed_def check_token_def keeps_ceilings_def
      command_returned_during_cleanup_def Let_def split: option.splits if_splits)
  subgoal
    by (auto simp: on_close_frame_def refuse_if_cleaning_up_def mint_token_def keeps_ceilings_def
      Let_def split: option.splits if_splits)
  subgoal
    by (auto simp: on_operation_completed_def check_token_def command_returned_during_cleanup_def
      keeps_ceilings_def[of r "_\<lparr>state := _\<rparr>"] keeps_ceilings_def[of r "_\<lparr>session := _\<rparr>"] Let_def
      split: option.splits if_splits prod.splits intro: ceilings_begin_terminal)
  done

lemma ceilings_close_frame_completed:
  "on_close_frame_completed r t f c ok now = Some (r', acts) \<Longrightarrow> keeps_ceilings r r'"
  by (cases c; auto simp: on_close_frame_completed_def check_token_def mint_token_def
      command_returned_during_cleanup_def keeps_ceilings_def Let_def
      split: option.splits if_splits sum.splits)

lemma ceilings_endings:
  "on_terminal_completed r t res = Some (r', acts) \<Longrightarrow> keeps_ceilings r r'"
  "on_cancellation_acknowledged r t ack = Some (r', acts) \<Longrightarrow> keeps_ceilings r r'"
  "on_deadline_fired r k g now = (r', acts) \<Longrightarrow> keeps_ceilings r r'"
  subgoal
    by (auto simp: on_terminal_completed_def check_token_def Let_def
      split: option.splits if_splits elim!: ceilings_settle_now)
  subgoal
    by (auto simp: on_cancellation_acknowledged_def Let_def
      split: option.splits if_splits elim!: ceilings_settle_now)
  subgoal
    using ceilings_force[of "r\<lparr>slot := s\<rparr>" for s]
    by (auto simp: on_deadline_fired_def force_actions_def Let_def
      split: sum.splits if_splits prod.splits elim!: ceilings_settle_now)
  done

lemma ceiling_on_verdict:
  assumes "ceiling_inv r" "on_verdict r v now = (r', acts)"
  shows "ceiling_inv r' \<and> tightens r r'"
proof (cases v)
  case (Current c)
  have tight: "is_no_broader_than (meet (meet x y) c) x" "is_no_broader_than (meet (meet x y) c) y"
    for x y by (auto simp: no_broader_permits)
  from Current assms show ?thesis
    by (cases "begin_ceiling r"; cases "effective_ceiling r")
       (auto simp: on_verdict_def ceiling_inv_def tightens_def mint_token_def Let_def
        tight split: if_splits)
qed (use keeps_ceilings_ok[OF ceilings_forcing_verdict[OF _ assms(2)] assms(1)] in \<open>auto\<close>)

lemma ceiling_perform:
  assumes "ceiling_inv r" "perform r c = Some (r', acts)"
  shows "ceiling_inv r' \<and> tightens r r'"
proof (cases c)
  case (Event e now)
  have "ceiling_inv r' \<and> tightens r r'" if "dispatch r e now = Some (r', acts)"
    using that ceiling_on_verdict[OF assms(1)] keeps_ceilings_ok[OF _ assms(1)]
    by (cases e) (auto simp: dispatch_def on_authority_def force_actions_def
      dest!: ceilings_operations ceilings_endings ceilings_close_frame_completed ceilings_begin_completed
      ceilings_force split: prod.splits)
  with Event assms(2) keeps_ceilings_ok[OF keeps_ceilings_same assms(1)] show ?thesis
    by (auto simp: perform_def apply_event_def split: if_splits)
next
  case (QueueEffect x)
  with queue_effect_frames_only assms(2) obtain fs where "r' = r\<lparr>frames := fs\<rparr>" by blast
  with keeps_ceilings_ok[OF _ assms(1)] show ?thesis by (simp add: keeps_ceilings_def)
qed

lemma ceiling_run:
  assumes "run r cs = Some (r', acts)" "ceiling_inv r"
  shows "ceiling_inv r' \<and> tightens r r'"
  using assms
proof (induction cs arbitrary: r acts)
  case (Cons c cs)
  then obtain r1 as bs where "perform r c = Some (r1, as)" "run r1 cs = Some (r', bs)"
    by (auto simp del: run.simps simp: run_Cons_Some)
  with Cons.IH[of r1 bs] ceiling_perform[OF Cons.prems(2)] show ?case
    by (fastforce simp: tightens_def intro: no_broader_trans)
qed (auto simp: tightens_def)

interpretation mask: inductive_invariant "\<lambda>r. admitted (r, None)" call_step ceiling_inv
proof
  show "ceiling_inv r" if "admitted (r, None)" for r
    using that by (auto elim!: admitted.cases dest!: admit_eq simp: ceiling_inv_def)
  show "ceiling_inv r'" if "ceiling_inv r" "call_step r r'" for r r'
    using that by (auto elim!: call_step.cases dest: ceiling_perform)
qed

text \<open>
  (invariant 8). From the moment the ceiling of \<^verbatim>\<open>BEGIN\<close> is captured, whatever calls
  follow, that ceiling stays as captured, the effective ceiling is never broader than it, and
  never broader than any earlier effective ceiling: whatever a later observation permits, a
  kind once refused stays refused.
\<close>

theorem ceiling_only_tightens:
  assumes "admit ex b now d = Some (r0, a0)" "run r0 before = Some (r, acts)"
    and "begin_ceiling r = Some begin" "run r after = Some (r', acts')"
  shows "\<exists>earlier later. effective_ceiling r = Some earlier \<and> effective_ceiling r' = Some later \<and>
    begin_ceiling r' = Some begin \<and> is_no_broader_than later begin \<and>
    (\<forall>kind. permits later kind \<longrightarrow> permits earlier kind)"
proof -
  have "ceiling_inv r"
    using assms(1,2) mask.reachable_inv admitted.intros run_steps by metis
  with ceiling_run[OF assms(4)] assms(3) show ?thesis
    by (fastforce simp: ceiling_inv_def tightens_def no_broader_permits)
qed

definition example_widen :: "call list" where
  "example_widen =
     [Event (AuthorityObserved example_authority
        (example_observed\<lparr>obs_ceiling := ceiling_of [''write'', ''admin'']\<rparr>)) 3]"

theorem ceiling_only_tightens_witness:
  "\<exists>earlier later. effective_ceiling (example_state example_open) = Some earlier \<and>
     effective_ceiling (example_state (example_open @ example_widen)) = Some later \<and>
     (\<forall>kind. permits later kind \<longrightarrow> permits earlier kind)"
proof -
  have "admit example_expected example_budgets 0 8 =
      Some (example_admit, snd (the (admit example_expected example_budgets 0 8)))"
    "run example_admit example_open =
      Some (example_state example_open, example_actions example_open)"
    "begin_ceiling (example_state example_open) = Some (ceiling_of [''read'', ''write''])"
    "run (example_state example_open) example_widen =
      Some (example_state (example_open @ example_widen),
        snd (the (run (example_state example_open) example_widen)))"
    by code_simp+
  from ceiling_only_tightens[OF this] show ?thesis by blast
qed


subsection \<open>Two behaviours the protocol's documentation rules out\<close>

text \<open>
  A settlement requested while a \<^verbatim>\<open>SAVEPOINT\<close> is running is forgotten: when the
  savepoint's success arrives in \<^verbatim>\<open>Quiescing\<close>, the transaction returns to \<^verbatim>\<open>Idle\<close> with the
  intent still recorded, no terminal SQL is issued, and creator data SQL is admitted again.
  \<^verbatim>\<open>TxState::Quiescing\<close> documents that terminal SQL waits only until the active command
  returns; \<^verbatim>\<open>on_operation_completed\<close> does start it then.
\<close>

theorem quiescing_savepoint_forgets_settlement:
  assumes "state r = Quiescing" "active r = Some t"
  shows "\<exists>r' acts. apply_event r (OpenFrameCompleted t frame True) now = Some (r', acts) \<and>
     state r' = Idle \<and> settle_intent r' = settle_intent r \<and>
     \<not> list_ex is_terminal_sql acts \<and>
     (cleanup r = None \<longrightarrow> list_ex is_creator_data_sql (snd (on_operation_requested r')))"
  using assms
  by (auto simp: apply_event_def foreign_authority_def event_authority_def dispatch_def
      on_open_frame_completed_def check_token_def on_operation_requested_def
      refuse_if_cleaning_up_def mint_token_def Let_def)

definition example_quiescing :: "call list" where
  "example_quiescing = example_open @ [Event OpenFrame 3, Event (SettleRequested Commit) 4]"

theorem quiescing_savepoint_forgets_settlement_witness:
  "settle_intent (example_state example_quiescing) = Some Commit \<and>
   (\<exists>r' acts. apply_event (example_state example_quiescing)
       (OpenFrameCompleted (CommandToken 2) (FrameId 2) True) 5 = Some (r', acts) \<and>
     state r' = Idle \<and> settle_intent r' = Some Commit \<and> \<not> list_ex is_terminal_sql acts)"
proof -
  have "state (example_state example_quiescing) = Quiescing"
    "active (example_state example_quiescing) = Some (CommandToken 2)"
    "settle_intent (example_state example_quiescing) = Some Commit"
    by code_simp+
  with quiescing_savepoint_forgets_settlement[of "example_state example_quiescing"
      "CommandToken 2" "FrameId 2" 5] show ?thesis by auto
qed

definition example_poisoned_commit :: "call list" where
  "example_poisoned_commit = example_open @
     [Event OperationRequested 3, QueueEffect example_effect,
      Event (OperationCompleted (CommandToken 2) True) 4,
      Event (SettleRequested Commit) 5,
      Event (TerminalCompleted (CommandToken 3) TerminalResult.Committed) 6]"

text \<open>
  A poisoned transaction asked to commit is sent \<^verbatim>\<open>ROLLBACK\<close>, yet a \<^verbatim>\<open>Committed\<close>
  answer to that \<^verbatim>\<open>ROLLBACK\<close> is recorded as \<^verbatim>\<open>Committed\<close> and publishes the effects, because
  the answer is compared with the creator's intent and not with the command that was sent.
  \<^verbatim>\<open>TerminalOutcome::ResultMismatch\<close> documents itself as the outcome of a \<^verbatim>\<open>Committed\<close> answer
  to a \<^verbatim>\<open>Rollback\<close> request, publishing nothing.
\<close>

theorem poisoned_rollback_answered_committed_publishes:
  "IssueTerminal (CommandToken 3) Rollback \<in> set (example_actions example_poisoned_commit) \<and>
   outcome (example_state example_poisoned_commit) = Some TerminalOutcome.Committed \<and>
   PublishEffects [example_effect] \<in> set (example_actions example_poisoned_commit)"
  by code_simp

end
