(* ===== verification/TxDriver.thy ===== *)
theory TxDriver
  imports TxGate
begin

text \<open>
  The transaction reducer under a driver: the invariant \<open>protocol_inv\<close> of every run in which
  completions answer the command they were minted for (\<open>driver_event\<close> of \<open>TxProtocol\<close>, the
  behaviour of \<^verbatim>\<open>run_attempt\<close> in \<^verbatim>\<open>transaction/driver.rs\<close>).

  It fixes, state by state, who owns the session, which command is running, what the frame
  stack looks like and which deadline is armed. From it follow: no handler panics, the
  conditions the source asserts with \<^verbatim>\<open>debug_assert!\<close> hold, at most one command is active,
  and two timer deliveries settle any transaction without the backend's cooperation.
\<close>

subsection \<open>The invariant\<close>

definition armed :: "DeadlineGenerations \<Rightarrow> DeadlineSlot \<Rightarrow> DeadlineKind \<Rightarrow> u64 \<Rightarrow> bool" where
  "armed gens sl kind n \<longleftrightarrow>
     gen_next gens = n \<and> (\<exists>at'. slot_state sl = Armed kind (DeadlineGeneration n) at')"

text \<open>The deadline is still the one of the given kind: armed, or fired and not yet replaced.\<close>

definition pending :: "DeadlineGenerations \<Rightarrow> DeadlineSlot \<Rightarrow> DeadlineKind \<Rightarrow> u64 \<Rightarrow> bool" where
  "pending gens sl kind n \<longleftrightarrow>
     armed gens sl kind n \<or>
     gen_next gens = n \<and> slot_state sl = Fired kind (DeadlineGeneration n)"

definition child_on_top :: "FrameStack \<Rightarrow> bool" where
  "child_on_top fs \<longleftrightarrow> (\<exists>f. stack_top fs = Some f \<and> \<not> is_root f)"

text \<open>The command that owns the session is the one last handed to the driver.\<close>

definition running ::
  "CommandToken option \<Rightarrow> SessionOwnership \<Rightarrow> FrameStack \<Rightarrow> Action option \<Rightarrow> bool" where
  "running token owner fs out =
     (case (token, out) of
        (Some t, Some command) \<Rightarrow>
          command_token command = Some t \<and> owner = Command t \<and>
          (case command of
             IssueDataSql _ \<Rightarrow> True
           | IssueSavepoint _ _ \<Rightarrow> child_on_top fs
           | IssueRollbackTo _ _ \<Rightarrow> child_on_top fs
           | IssueRelease _ _ \<Rightarrow> child_on_top fs
           | _ \<Rightarrow> False)
      | _ \<Rightarrow> False)"

definition well_rooted :: "FrameStack \<Rightarrow> bool" where
  "well_rooted fs \<longleftrightarrow> stack_frames fs \<noteq> [] \<and> shape_wf (stack_frames fs)"

definition protocol_inv :: "TxReducer \<Rightarrow> Action option \<Rightarrow> bool" where
  "protocol_inv r out =
     (case state r of
        Preparing \<Rightarrow> calm r \<and> session r = SessionNone \<and> active r = None \<and> generation r = None \<and>
          stack_frames (frames r) = [] \<and> armed (generations r) (slot r) Execution 1
      | Starting \<Rightarrow> calm r \<and> session r = SessionNone \<and> generation r = None \<and>
          (\<exists>t. active r = Some t \<and> out = Some (IssueBegin t)) \<and>
          stack_frames (frames r) = [] \<and> armed (generations r) (slot r) Execution 1
      | Idle \<Rightarrow> calm r \<and> session r = Registry \<and> active r = None \<and> well_rooted (frames r) \<and>
          armed (generations r) (slot r) Execution 1
      | Poisoned \<Rightarrow> calm r \<and> session r = Registry \<and> active r = None \<and> well_rooted (frames r) \<and>
          armed (generations r) (slot r) Execution 1
      | InFlight \<Rightarrow> calm r \<and> running (active r) (session r) (frames r) out \<and>
          well_rooted (frames r) \<and> armed (generations r) (slot r) Execution 1
      | Quiescing \<Rightarrow> calm r \<and> running (active r) (session r) (frames r) out \<and>
          well_rooted (frames r) \<and> settle_intent r \<noteq> None \<and>
          armed (generations r) (slot r) Execution 1
      | Cancelling \<Rightarrow> cleanup r \<noteq> None \<and> cancellation_token r \<noteq> None \<and> outcome r = None \<and>
          \<not> terminal_promised r \<and> session r \<noteq> Withdrawn \<and>
          (\<forall>t. session r = Command t \<longrightarrow> active r = Some t) \<and>
          (session r = SessionNone \<longrightarrow> generation r = None) \<and>
          armed (generations r) (slot r) CancellationSql 2
      | Settling \<Rightarrow> calm r \<and> settle_intent r \<noteq> None \<and>
          armed (generations r) (slot r) TerminalSql 2 \<and>
          (\<exists>t command. active r = Some t \<and> session r = Command t \<and>
             out = Some (IssueTerminal t command))
      | TxState.Settled \<Rightarrow> outcome r \<noteq> None \<and> active r = None \<and>
          slot_state (slot r) = Disarmed \<and> session r \<in> {SessionNone, Withdrawn})"

text \<open>A handler that returns, in a state that keeps the invariant.\<close>

definition keeps :: "Action option \<Rightarrow> step_result option \<Rightarrow> bool" where
  "keeps out res \<longleftrightarrow> (\<exists>r' acts. res = Some (r', acts) \<and> protocol_inv r' (issued out acts))"

lemma keepsI: "protocol_inv r' (issued out acts) \<Longrightarrow> keeps out (Some (r', acts))"
  by (simp add: keeps_def)

lemma keeps_pair: "keeps out (Some p) \<longleftrightarrow> protocol_inv (fst p) (issued out (snd p))"
  by (cases p) (simp add: keeps_def)

lemmas keeps_simps = keeps_pair protocol_inv_def calm_def

subsection \<open>Frames\<close>

lemma open_child_shape:
  assumes "open_child s = Inr (s', fid, name)" "well_rooted s"
  shows "well_rooted s' \<and> child_on_top s'"
  using assms by (auto simp: well_rooted_def frame_op_defs child_on_top_def is_root_def Let_def shape_wf_simps
      split: if_splits)

lemma confirm_shape:
  "well_rooted s \<Longrightarrow> well_rooted (keep_on_err s (confirm_child_open s fid))"
  by (auto simp: well_rooted_def confirm_child_open_def stack_top_def intro: shape_wf_map_last)

lemma child_has_parent:
  assumes "well_rooted s" "child_on_top s"
  obtains fs p c where "stack_frames s = fs @ [p, c]" "\<not> is_root c"
    "frame_savepoint c = Some (savepoint_name (frame_id c))"
proof -
  from assms(2) obtain gs c where gs: "stack_frames s = gs @ [c]" "\<not> is_root c"
    by (cases "stack_frames s" rule: rev_cases) (auto simp: child_on_top_def stack_top_def)
  with assms(1) have "gs \<noteq> []" by (auto simp: well_rooted_def shape_wf_simps)
  then obtain fs p where "gs = fs @ [p]" by (cases gs rule: rev_cases) auto
  with gs assms(1) \<open>gs \<noteq> []\<close> show thesis
    by (intro that[of fs p c]) (auto simp: well_rooted_def shape_wf_simps(3)[of "fs @ [p]" c, simplified])
qed

lemma abandon_shape:
  assumes "well_rooted s" "child_on_top s"
  shows "well_rooted (keep_on_err s (abandon_opening_child s fid))"
proof -
  obtain fs p c where s: "stack_frames s = fs @ [p, c]"
    using child_has_parent[OF assms] .
  with shape_wf_butlast[of "stack_frames s"] assms(1) have "shape_wf (fs @ [p])" by (simp add: well_rooted_def butlast_append)
  with s assms(1) show ?thesis
    by (auto simp: well_rooted_def abandon_opening_child_def stack_top_def butlast_append)
qed

lemma mark_shape:
  assumes "well_rooted s" "child_on_top s"
    "map_option frame_id (stack_top s) = Some fid"
  shows "well_rooted (keep_on_err s (mark_rolled_back s fid)) \<and>
    child_on_top (keep_on_err s (mark_rolled_back s fid)) \<and>
    Option.bind (stack_top (keep_on_err s (mark_rolled_back s fid))) frame_savepoint \<noteq> None"
proof -
  obtain fs p c where s: "stack_frames s = fs @ [p, c]" "\<not> is_root c"
    "frame_savepoint c = Some (savepoint_name (frame_id c))"
    using child_has_parent[OF assms(1,2)] .
  let ?c = "c\<lparr>frame_effects := [], frame_status := FrameStatus.RolledBack\<rparr>"
  have "keep_on_err s (mark_rolled_back s fid) = s\<lparr>stack_frames := fs @ [p, ?c]\<rparr>"
    using s assms(3) by (simp add: mark_rolled_back_def stack_top_def)
  moreover have "shape_wf (fs @ [p, ?c])"
    using shape_wf_map_last[of "stack_frames s" "\<lambda>f. f\<lparr>frame_effects := [], frame_status := FrameStatus.RolledBack\<rparr>"] s assms(1)
    by (simp add: well_rooted_def)
  ultimately show ?thesis using s by (auto simp: well_rooted_def child_on_top_def stack_top_def is_root_def)
qed

lemma close_shape:
  assumes "well_rooted s" "child_on_top s"
    "map_option frame_id (stack_top s) = Some fid"
  shows "\<exists>s'. close_top s fid Released = Some (Inr (s', fid)) \<and> well_rooted s'"
proof -
  obtain fs p c where s: "stack_frames s = fs @ [p, c]" "\<not> is_root c"
    using child_has_parent[OF assms(1,2)] .
  with shape_wf_butlast[of "stack_frames s"] assms(1) have "shape_wf (fs @ [p])" by (simp add: well_rooted_def butlast_append)
  then have "shape_wf (fs @ [p\<lparr>frame_effects := es\<rparr>])" for es
    using shape_wf_map_last[of "fs @ [p]" "\<lambda>f. f\<lparr>frame_effects := es\<rparr>"] by simp
  with s assms(3) show ?thesis
    by (simp add: well_rooted_def close_top_def stack_top_def butlast_append Let_def)
qed

lemma queue_effect_shape:
  assumes "queue_effect s e = Inr s'"
  shows "well_rooted s \<Longrightarrow> well_rooted s'" "child_on_top s' \<longleftrightarrow> child_on_top s"
    "stack_frames s \<noteq> []"
  using assms
  by (auto simp: well_rooted_def queue_effect_def stack_top_def child_on_top_def is_root_def map_last_def
      split: sum.splits if_splits
      dest: shape_wf_map_last[of _ "\<lambda>f. f\<lparr>frame_effects := frame_effects f @ [e]\<rparr>"])

subsection \<open>Every handler keeps the invariant and returns\<close>

lemma replace_pending:
  assumes "pending gens sl Execution n"
  shows "replace_current sl Execution kind g at' =
     Inr (\<lparr>slot_state = Armed kind g at'\<rparr>, \<lparr>timer_kind = kind, timer_generation = g, timer_at = at'\<rparr>)"
  using assms by (auto simp: pending_def armed_def replace_current_def)

lemma replace_armed:
  "armed gens sl Execution n \<Longrightarrow> replace_current sl Execution kind g at' =
     Inr (\<lparr>slot_state = Armed kind g at'\<rparr>, \<lparr>timer_kind = kind, timer_generation = g, timer_at = at'\<rparr>)"
  using replace_pending[of gens sl n] by (simp add: pending_def)

lemma issued_quiet [simp]: "list_all (\<lambda>a. command_token a = None) acts \<Longrightarrow> issued out acts = out"
  by (induction acts arbitrary: out) auto

lemma force_live:
  assumes "calm r" "is_forceable (state r)" "pending (generations r) (slot r) Execution 1"
    "session r \<noteq> Withdrawn" "\<And>t. session r = Command t \<Longrightarrow> active r = Some t"
    "session r = SessionNone \<Longrightarrow> generation r = None"
  shows "protocol_inv (fst (force r cause now)) out"
    "issued out (snd (snd (force r cause now))) = out"
  using assms replace_pending[OF assms(3)]
  by (auto simp: force_def calm_def is_forceable_def mint_token_def mint_generation_def Let_def
      pending_def armed_def protocol_inv_def)

lemma protocol_inv_forceable:
  assumes "protocol_inv r out" "is_forceable (state r)"
  shows "calm r" "armed (generations r) (slot r) Execution 1" "session r \<noteq> Withdrawn"
    "session r = Command t \<Longrightarrow> active r = Some t"
    "session r = SessionNone \<Longrightarrow> generation r = None"
  using assms by (cases "state r"; auto simp: protocol_inv_def running_def is_forceable_def
     split: option.splits)+

lemma force_late:
  assumes "protocol_inv r out" "state r \<in> {Cancelling, Settling}"
  shows "fst (force r cause now) = r" "snd (snd (force r cause now)) = []"
  using assms by (auto simp: protocol_inv_def force_def calm_def)

lemma force_keeps:
  assumes "protocol_inv r out" "state r \<noteq> TxState.Settled"
  shows "protocol_inv (fst (force r cause now)) out"
    "issued out (snd (snd (force r cause now))) = out"
proof -
  consider "state r \<in> {Cancelling, Settling}" | "is_forceable (state r)"
    using assms(2) by (cases "state r") (auto simp: is_forceable_def)
  then have "protocol_inv (fst (force r cause now)) out \<and>
      issued out (snd (snd (force r cause now))) = out"
  proof cases
    case 1
    with force_late[OF assms(1)] assms(1) show ?thesis by simp
  next
    case 2
    with force_live[of r] protocol_inv_forceable[OF assms(1)] show ?thesis by (simp add: pending_def)
  qed
  then show "protocol_inv (fst (force r cause now)) out"
    "issued out (snd (snd (force r cause now))) = out" by simp_all
qed

lemma forcing_keeps:
  assumes "protocol_inv (fst (force r cause now)) out"
    "issued out (snd (snd (force r cause now))) = out"
  shows "keeps out (Some (force_actions r cause now))"
    "keeps out (Some (case force r cause now of (self, _, actions) \<Rightarrow> (self, actions @ [Reply x])))"
  using assms by (auto simp: force_actions_def keeps_pair split: prod.splits)

lemma keeps_on_verdict:
  assumes "protocol_inv r out" "state r \<noteq> TxState.Settled"
  shows "keeps out (Some (on_verdict r v now))"
proof (cases v)
  case (Current c)
  with assms show ?thesis
    by (cases "state r") (auto simp: keeps_simps on_verdict_def mint_token_def Let_def)
qed (simp_all add: on_verdict_def Let_def forcing_keeps(2)[OF force_keeps[OF assms]])

lemma keeps_begin_completed:
  assumes "protocol_inv r out" "state r \<noteq> TxState.Settled" 
  shows "keeps out (Some (on_begin_completed r t oc now))"
proof (cases "active r = Some t \<and> state r = Starting")
  case True
  let ?r = "r\<lparr>active := None\<rparr>"
  have "calm ?r" "is_forceable (state ?r)" "pending (generations ?r) (slot ?r) Execution 1"
      "session ?r \<noteq> Withdrawn" "session ?r = Command u \<Longrightarrow> active ?r = Some u"
      "session ?r = SessionNone \<Longrightarrow> generation ?r = None" for u
    using True assms(1) by (auto simp: protocol_inv_def calm_def pending_def is_forceable_def)
  note force = forcing_keeps[OF force_live[OF this]]
  show ?thesis
  proof (cases oc)
    case (Opened g)
    with True assms(1) show ?thesis
      by (auto simp: on_begin_completed_def check_token_def keeps_simps well_rooted_def
          open_root_def mint_id_def shape_wf_simps is_root_def Let_def)
  qed (use True force in \<open>simp_all add: on_begin_completed_def check_token_def on_verdict_def Let_def\<close>)
qed (use assms in \<open>auto simp: on_begin_completed_def check_token_def keeps_pair\<close>)

lemma keeps_operation_requested:
  assumes "protocol_inv r out" "state r \<noteq> TxState.Settled" 
  shows "keeps out (Some (on_operation_requested r))"
  using assms
  by (cases "state r") (auto simp: keeps_simps on_operation_requested_def refuse_if_cleaning_up_def
      mint_token_def running_def Let_def split: option.splits)

lemma keeps_open_frame:
  assumes "protocol_inv r out" "state r \<noteq> TxState.Settled" 
  shows "keeps out (Some (on_open_frame r))"
proof (cases "state r = Idle")
  case True
  with assms show ?thesis
   by (auto simp: keeps_simps on_open_frame_def refuse_if_cleaning_up_def admits_creator_sql_def
      mint_token_def running_def Let_def split: option.splits sum.splits dest!: open_child_shape)
qed (use assms in \<open>auto simp: keeps_pair on_open_frame_def refuse_if_cleaning_up_def
     admits_creator_sql_def split: option.splits\<close>)

lemma keeps_close_frame:
  assumes "protocol_inv r out" "state r \<noteq> TxState.Settled" 
  shows "keeps out (on_close_frame r f c)"
proof (cases "state r \<in> {Idle, Poisoned}")
  case True
  have savepoint: "frame_savepoint t \<noteq> None" "child_on_top (frames r)"
    if "stack_top (frames r) = Some t" "\<not> is_root t" for t
    using that by (auto simp: is_root_def child_on_top_def)
  from True assms savepoint show ?thesis
   by (cases c) (auto simp: keeps_simps on_close_frame_def refuse_if_cleaning_up_def admits_creator_sql_def
      mint_token_def running_def Let_def split: option.splits)
qed (use assms in \<open>auto simp: keeps_pair on_close_frame_def refuse_if_cleaning_up_def
     admits_creator_sql_def split: option.splits\<close>)


lemma keeps_settle_now: "keeps out (Some (settle_now r oc w))"
proof (cases "settle_now r oc w")
  case (Pair r' acts)
  from settle_now_facts[OF this] show ?thesis
    by (auto simp: keeps_pair Pair protocol_inv_def settle_actions_def)
qed

lemma keeps_begin_terminal:
  assumes "calm r" "armed (generations r) (slot r) Execution 1"
  shows "keeps out (Some (begin_terminal r i now))"
    "keeps out (Some (case begin_terminal r i now of (self, actions) \<Rightarrow> (self, Reply x # actions)))"
  using assms(1) replace_armed[OF assms(2)] assms(2)
  by (auto simp: begin_terminal_def keeps_simps mint_token_def mint_generation_def armed_def Let_def)

lemma keeps_settle_requested:
  assumes "protocol_inv r out" "state r \<noteq> TxState.Settled" 
  shows "keeps out (Some (on_settle_requested r i now))"
proof (cases "state r \<in> {Idle, Poisoned}")
  case True
  with assms(1) keeps_begin_terminal(1)[of r out i now] show ?thesis
    by (auto simp: on_settle_requested_def refuse_if_cleaning_up_def protocol_inv_def calm_def)
next
  case False
  with assms show ?thesis
    by (cases "state r") (auto simp: keeps_simps on_settle_requested_def refuse_if_cleaning_up_def
       split: option.splits)
qed

lemma running_token: "running (active r) (session r) (frames r) out \<Longrightarrow> active r \<noteq> None"
  by (auto simp: running_def split: option.splits)

lemma keeps_cleanup_return:
  assumes "protocol_inv r out" "state r = Cancelling"
  shows "keeps out (command_returned_during_cleanup r)"
  using assms by (auto simp: command_returned_during_cleanup_def keeps_simps Let_def)

lemma driver_event_running:
  assumes "protocol_inv r out" "driver_event r out e" "completion_token e = active r"
    "state r \<notin> {Cancelling, TxState.Settled}" "active r \<noteq> None"
  shows "\<exists>command. out = Some command \<and> answers r e command \<and>
    (state r \<in> {InFlight, Quiescing} \<longrightarrow> running (active r) (session r) (frames r) (Some command)) \<and>
    (state r = Starting \<longrightarrow> (\<exists>t. command = IssueBegin t)) \<and>
    (state r = Settling \<longrightarrow> (\<exists>t i. command = IssueTerminal t i)) \<and>
    state r \<in> {Starting, InFlight, Quiescing, Settling}"
  using assms by (cases "state r"; cases out) (auto simp: driver_event_def protocol_inv_def)

lemma keeps_operation_completed:
  assumes "protocol_inv r out" "state r \<noteq> TxState.Settled" "driver_event r out (OperationCompleted t er)"
  shows "keeps out (on_operation_completed r t er now)"
proof (cases "active r = Some t \<and> state r \<noteq> Cancelling")
  case True
  with driver_event_running[OF assms(1,3)] assms(2)
  have st: "state r \<in> {InFlight, Quiescing}"
    by (auto simp: answers_def)
  let ?r = "r\<lparr>active := None, session := Registry, state := if er then Poisoned else Idle\<rparr>"
  have calm: "calm ?r" "armed (generations ?r) (slot ?r) Execution 1" "well_rooted (frames r)"
     "state r = Quiescing \<Longrightarrow> settle_intent r \<noteq> None"
    using assms(1) st by (auto simp: protocol_inv_def calm_def)
  show ?thesis
  proof (cases "state r = Quiescing")
    case q: True
    with calm(4) obtain i where i: "settle_intent r = Some i" by blast
    obtain r' acts where bt: "begin_terminal ?r i now = (r', acts)" by fastforce
    with keeps_begin_terminal(2)[OF calm(1,2), where i = i and now = now]
    have "keeps out (Some (r', Reply x # acts))" for x by simp
    with q True i bt show ?thesis
      by (cases er) (auto simp: on_operation_completed_def check_token_def Let_def)
  next
    case False
    with True st calm show ?thesis
      by (auto simp: on_operation_completed_def check_token_def keeps_simps Let_def)
  qed
next
  case False
  with assms keeps_cleanup_return show ?thesis
    by (auto simp: on_operation_completed_def check_token_def keeps_pair)
qed

lemma keeps_open_frame_completed:
  assumes "protocol_inv r out" "state r \<noteq> TxState.Settled"
    "driver_event r out (OpenFrameCompleted t f ok)"
  shows "keeps out (on_open_frame_completed r t f ok now)"
proof (cases "active r = Some t \<and> state r \<noteq> Cancelling")
  case True
  with driver_event_running[OF assms(1,3)] assms(2)
  have st: "state r \<in> {InFlight, Quiescing}" "child_on_top (frames r)"
    by (auto simp: answers_def running_def split: Action.splits)
  have "calm r" "armed (generations r) (slot r) Execution 1" "well_rooted (frames r)"
    using assms(1) st by (auto simp: protocol_inv_def)
  with True confirm_shape[of "frames r" f] abandon_shape[of "frames r" f] st(2) show ?thesis
    by (auto simp: on_open_frame_completed_def check_token_def keeps_simps Let_def)
next
  case False
  with assms keeps_cleanup_return show ?thesis
    by (auto simp: on_open_frame_completed_def check_token_def keeps_pair)
qed

lemma keeps_close_frame_completed:
  assumes "protocol_inv r out" "state r \<noteq> TxState.Settled"
    "driver_event r out (CloseFrameCompleted t f c ok)"
  shows "keeps out (on_close_frame_completed r t f c ok now)"
proof (cases "active r = Some t \<and> state r \<noteq> Cancelling")
  case True
  with driver_event_running[OF assms(1,3)] assms(2)
  have st: "state r \<in> {InFlight, Quiescing}" "child_on_top (frames r)"
      "map_option frame_id (stack_top (frames r)) = Some f"
    by (auto simp: answers_def running_def top_frame_is_def split: Action.splits)
  have ready: "calm r" "armed (generations r) (slot r) Execution 1" "well_rooted (frames r)"
    using assms(1) st by (auto simp: protocol_inv_def)
  obtain s' where "close_top (frames r) f Released = Some (Inr (s', f))" "well_rooted s'"
    using close_shape[OF ready(3) st(2,3)] by blast
  with True ready mark_shape[OF ready(3) st(2,3)] show ?thesis
    by (cases c) (auto simp: on_close_frame_completed_def check_token_def keeps_simps mint_token_def
        running_def Let_def)
next
  case False
  with assms keeps_cleanup_return show ?thesis
    by (auto simp: on_close_frame_completed_def check_token_def keeps_pair)
qed

lemma keeps_terminal_completed:
  assumes "protocol_inv r out" "state r \<noteq> TxState.Settled"
  shows "keeps out (on_terminal_completed r t res)"
  using assms
  by (auto simp: on_terminal_completed_def check_token_def Let_def keeps_settle_now
      keeps_pair[of out "(r, _)"] protocol_inv_def[of r] split: option.splits)

lemma keeps_cancellation_acknowledged:
  assumes "protocol_inv r out" "state r \<noteq> TxState.Settled"
  shows "keeps out (on_cancellation_acknowledged r t ack)"
  using assms
  by (auto simp: on_cancellation_acknowledged_def Let_def keeps_settle_now
      keeps_pair[of out "(r, _)"] protocol_inv_def[of r] split: option.splits)

lemma keeps_deadline_fired:
  assumes "protocol_inv r out" "state r \<noteq> TxState.Settled"
  shows "keeps out (Some (on_deadline_fired r k g now))"
proof (cases "k = Execution \<and> is_forceable (state r)")
  case True
  note live = protocol_inv_forceable[OF assms(1)]
  have pending: "pending (generations r) s Execution 1" if "claim_fire (slot r) Execution g = Inr s" for s
    using live(2) True that by (auto simp: armed_def pending_def claim_fire_def split: if_splits)
  have "keeps out (Some (force_actions (r\<lparr>slot := s\<rparr>) cause now))"
    if "claim_fire (slot r) Execution g = Inr s" for s cause
    by (rule forcing_keeps(1)[OF force_live]) (use live True pending[OF that] in \<open>auto simp: calm_def\<close>)
  with True assms show ?thesis
    by (auto simp: on_deadline_fired_def keeps_pair[of out "(r, _)"] Let_def split: sum.splits)
next
  case False
  with assms show ?thesis
    by (cases k) (auto simp: on_deadline_fired_def keeps_pair[of out "(r, _)"] Let_def keeps_settle_now
       split: sum.splits)
qed

lemma keeps_dispatch:
  assumes "protocol_inv r out" "state r \<noteq> TxState.Settled" "driver_event r out e"
  shows "keeps out (dispatch r e now)"
  using assms(3) forcing_keeps(1)[OF force_keeps[OF assms(1,2)]]
  by (cases e)
     (auto simp: dispatch_def on_authority_def
      intro: keeps_on_verdict[OF assms(1,2)] keeps_begin_completed[OF assms(1,2)]
        keeps_operation_requested[OF assms(1,2)] keeps_operation_completed[OF assms(1,2)]
        keeps_open_frame[OF assms(1,2)] keeps_open_frame_completed[OF assms(1,2)]
        keeps_close_frame[OF assms(1,2)] keeps_close_frame_completed[OF assms(1,2)]
        keeps_settle_requested[OF assms(1,2)] keeps_terminal_completed[OF assms(1,2)]
        keeps_cancellation_acknowledged[OF assms(1,2)] keeps_deadline_fired[OF assms(1,2)])

lemma keeps_apply_event:
  assumes "protocol_inv r out" "driver_event r out e"
  shows "keeps out (apply_event r e now)"
  using assms keeps_dispatch[OF assms(1) _ assms(2)]
  by (auto simp: apply_event_def keeps_pair settled_reply_def split: TxEvent.splits)

end
