(* ===== verification/TxRuns.thy ===== *)
theory TxRuns
  imports TxDriver
begin

text \<open>
  What a driver gets from the transaction reducer: no call panics, one command at a time
  owns the session, and the deadlines bound every transaction without the backend's help.
\<close>

subsection \<open>Runs of a driver\<close>

fun driven :: "TxReducer \<Rightarrow> Action option \<Rightarrow> call list \<Rightarrow> bool" where
  "driven r out [] = True"
| "driven r out (c # cs) =
     ((case c of Event e _ \<Rightarrow> driver_event r out e | QueueEffect _ \<Rightarrow> True) \<and>
      (case perform r c of
         None \<Rightarrow> True
       | Some (r', acts) \<Rightarrow> driven r' (issued out acts) cs))"

lemma queue_effect_keeps:
  assumes "protocol_inv r out"
  shows "protocol_inv (keep_on_err r (reducer_queue_effect r x)) out"
proof (cases "queue_effect (frames r) x")
  case (Inr fs)
  from queue_effect_shape[OF Inr] assms show ?thesis
    by (cases "state r")
       (auto simp: reducer_queue_effect_def Inr protocol_inv_def calm_def running_def
        split: option.splits Action.splits)
qed (use assms in \<open>simp add: reducer_queue_effect_def\<close>)

lemma perform_keeps:
  assumes "protocol_inv r out"
    and "case c of Event e _ \<Rightarrow> driver_event r out e | QueueEffect _ \<Rightarrow> True"
  shows "keeps out (perform r c)"
  using assms keeps_apply_event queue_effect_keeps
  by (cases c) (auto simp: perform_def keeps_pair)

lemma protocol_inv_admit:
  "admit ex b now d = Some (r, acts) \<Longrightarrow> protocol_inv r None"
  by (drule admit_eq) (auto simp: protocol_inv_def armed_def)

interpretation driver: inductive_invariant admitted driver_step "\<lambda>(r, out). protocol_inv r out"
proof
  show "case s of (r, out) \<Rightarrow> protocol_inv r out" if "admitted s" for s
    using that by (auto elim!: admitted.cases dest: protocol_inv_admit)
  show "case t of (r, out) \<Rightarrow> protocol_inv r out"
    if "case s of (r, out) \<Rightarrow> protocol_inv r out" "driver_step s t" for s t
    using that(2,1)
  proof cases
    case (event r out e now r' acts)
    with keeps_apply_event[of r out e now] that(1) show ?thesis by (auto simp: keeps_def)
  next
    case (effect r x r' acts out)
    with perform_keeps[of r out "QueueEffect x"] that(1) queue_effect_frames_only[OF effect(3)]
    show ?thesis by (auto simp: keeps_def)
  qed
qed

lemma driven_run:
  assumes "protocol_inv r out" "driven r out cs"
  shows "\<exists>r' acts. run r cs = Some (r', acts) \<and> protocol_inv r' (issued out acts)"
  using assms
proof (induction cs arbitrary: r out)
  case (Cons c cs)
  with perform_keeps[of r out c] obtain r1 as where
    step: "perform r c = Some (r1, as)" "protocol_inv r1 (issued out as)"
    by (auto simp: keeps_def)
  with Cons obtain r' bs where "run r1 cs = Some (r', bs)" "protocol_inv r' (issued (issued out as) bs)"
    by fastforce
  with step show ?case by auto
qed simp

lemma driven_inv:
  assumes "admit ex b now d = Some (r0, a0)" "driven r0 None cs" "run r0 cs = Some (r, acts)"
  shows "protocol_inv r (issued None acts)"
  using driven_run[OF protocol_inv_admit[OF assms(1)] assms(2)] assms(3) by auto

text \<open>
  \<^bold>\<open>C18\<close>. Under a driver the reducer never panics: whatever requests, cancellations,
  observations, timers, stale completions and acknowledgements arrive, and in whatever order,
  every call returns. None of the \<^verbatim>\<open>expect\<close>s on an intent, a cause, a savepoint name or a
  parent frame is reached.
\<close>

theorem driver_never_panics:
  assumes "admit ex b now d = Some (r0, a0)" "driven r0 None cs"
  shows "\<exists>r acts. run r0 cs = Some (r, acts)"
  using driven_run[OF protocol_inv_admit[OF assms(1)] assms(2)] by blast

definition example_nested :: "call list" where
  "example_nested = example_open @
     [Event OpenFrame 3, Event (OpenFrameCompleted (CommandToken 2) (FrameId 2) True) 4,
      Event OperationRequested 5, QueueEffect example_effect,
      Event (OperationCompleted (CommandToken 3) True) 6,
      Event (CloseFrame (FrameId 2) RolledBackTo) 7,
      Event (CloseFrameCompleted (CommandToken 4) (FrameId 2) RolledBackTo True) 8,
      Event (CloseFrameCompleted (CommandToken 5) (FrameId 2) Released True) 9,
      Event (SettleRequested Commit) 10]"

theorem driver_never_panics_witness:
  "(\<exists>r acts. run example_admit example_nested = Some (r, acts)) \<and>
   state (example_state example_nested) = Settling"
proof -
  have "admit example_expected example_budgets 0 8 =
      Some (example_admit, snd (the (admit example_expected example_budgets 0 8)))"
    "driven example_admit None example_nested"
    by code_simp+
  moreover have "state (example_state example_nested) = Settling" by code_simp
  ultimately show ?thesis using driver_never_panics by blast
qed

subsection \<open>One command at a time\<close>

definition no_command :: "Action list \<Rightarrow> bool" where
  "no_command acts \<longleftrightarrow> list_all (\<lambda>a. command_token a = None) acts"

lemma no_command_simps [simp]:
  "no_command []"
  "no_command (a # acts) \<longleftrightarrow> command_token a = None \<and> no_command acts"
  "no_command (acts @ acts') \<longleftrightarrow> no_command acts \<and> no_command acts'"
  by (simp_all add: no_command_def)

lemma no_command_force: "force r cause now = (r', g, acts) \<Longrightarrow> no_command acts"
  by (auto simp: force_def mint_token_def mint_generation_def Let_def
      split: if_splits sum.splits prod.splits)

lemma no_command_settle_now: "settle_now r oc w = (r', acts) \<Longrightarrow> no_command acts"
  by (drule settle_now_facts(10)) (simp add: settle_actions_def)

lemma active_states:
  "protocol_inv r out \<Longrightarrow> active r = Some t \<Longrightarrow>
     state r \<in> {Starting, InFlight, Quiescing, Cancelling, Settling}"
  by (cases "state r") (auto simp: protocol_inv_def)

lemma busy_requests:
  assumes "protocol_inv r out" "active r = Some t"
  shows "on_operation_requested r = (r', acts) \<Longrightarrow> no_command acts"
    "on_open_frame r = (r', acts) \<Longrightarrow> no_command acts"
    "on_settle_requested r i now = (r', acts) \<Longrightarrow> no_command acts"
    "on_close_frame r f c = Some (r', acts) \<Longrightarrow> no_command acts"
    "on_verdict r v now = (r', acts) \<Longrightarrow> no_command acts"
  using active_states[OF assms]
  by (auto simp: on_operation_requested_def on_open_frame_def on_settle_requested_def
      on_close_frame_def on_verdict_def refuse_if_cleaning_up_def admits_creator_sql_def Let_def
      split: option.splits if_splits Verdict.splits prod.splits dest: no_command_force)

lemma busy_dispatch:
  assumes "protocol_inv r out" "active r = Some t" "completion_token e \<noteq> Some t"
    "dispatch r e now = Some (r', acts)"
  shows "no_command acts"
  using assms(2-4)
  by (cases e)
     (auto simp: dispatch_def on_authority_def check_token_def force_actions_def
      on_begin_completed_def on_operation_completed_def on_open_frame_completed_def
      on_close_frame_completed_def on_terminal_completed_def on_deadline_fired_def
      on_cancellation_acknowledged_def Let_def
      split: if_splits option.splits prod.splits sum.splits DeadlineKind.splits
      dest: no_command_force no_command_settle_now busy_requests[OF assms(1,2)])

text \<open>
  (invariants 5 and 6). Under a driver, while a command is active nothing but that
  command's own completion makes the reducer issue another one: no data statement, no
  savepoint command and no terminal SQL overlaps a command in flight.
\<close>

theorem no_command_while_one_is_active:
  assumes "admit ex b t0 d = Some (r0, a0)" "driven r0 None cs" "run r0 cs = Some (r, acts)"
    and "active r = Some t" "completion_token e \<noteq> Some t"
    and "apply_event r e now = Some (r', acts')"
  shows "list_all (\<lambda>a. command_token a = None) acts'"
proof -
  have inv: "protocol_inv r (issued None acts)" by (rule driven_inv[OF assms(1-3)])
  then have "state r \<noteq> TxState.Settled" using active_states[OF _ assms(4)] by auto
  with assms(6) busy_dispatch[OF inv assms(4,5)] show ?thesis
    by (auto simp: apply_event_def no_command_def split: if_splits)
qed

theorem no_command_while_one_is_active_witness:
  "\<exists>r' acts'. apply_event (example_state example_quiescing) (SettleRequested Rollback) 5 =
      Some (r', acts') \<and> list_all (\<lambda>a. command_token a = None) acts'"
proof -
  have run: "admit example_expected example_budgets 0 8 =
      Some (example_admit, snd (the (admit example_expected example_budgets 0 8)))"
    "driven example_admit None example_quiescing"
    "run example_admit example_quiescing =
      Some (example_state example_quiescing, example_actions example_quiescing)"
    "active (example_state example_quiescing) = Some (CommandToken 2)"
    by code_simp+
  let ?res = "apply_event (example_state example_quiescing) (SettleRequested Rollback) 5"
  have res: "?res = Some (fst (the ?res), snd (the ?res))" by code_simp
  from no_command_while_one_is_active[OF run _ res]
  have "list_all (\<lambda>a. command_token a = None) (snd (the ?res))" by simp
  with res show ?thesis by blast
qed

text \<open>
  (invariant 4). Under a driver, from the confirmed \<^verbatim>\<open>BEGIN\<close> until the transaction
  settles the session has exactly one owner: the registry, or the command whose token is
  active. It is never silently absent, and it is withdrawn only by settling.
\<close>

theorem session_has_one_owner:
  assumes "admit ex b t0 d = Some (r0, a0)" "driven r0 None cs" "run r0 cs = Some (r, acts)"
    and "state r \<noteq> TxState.Settled" "generation r \<noteq> None"
  shows "session r = Registry \<or> (\<exists>t. session r = Command t \<and> active r = Some t)"
  using driven_inv[OF assms(1-3)] assms(4,5)
  by (cases "session r"; cases "state r")
     (auto simp: protocol_inv_def running_def split: option.splits)

theorem session_has_one_owner_witness:
  "session (example_state example_quiescing) = Registry \<or>
   (\<exists>t. session (example_state example_quiescing) = Command t \<and>
        active (example_state example_quiescing) = Some t)"
proof -
  have run: "admit example_expected example_budgets 0 8 =
      Some (example_admit, snd (the (admit example_expected example_budgets 0 8)))"
    "driven example_admit None example_quiescing"
    "run example_admit example_quiescing =
      Some (example_state example_quiescing, example_actions example_quiescing)"
    "state (example_state example_quiescing) \<noteq> TxState.Settled"
    "generation (example_state example_quiescing) \<noteq> None"
    by code_simp+
  show ?thesis by (rule session_has_one_owner[OF run])
qed

subsection \<open>Deadlines bound every transaction\<close>

definition current_timer :: "TxReducer \<Rightarrow> (DeadlineKind \<times> DeadlineGeneration) option" where
  "current_timer r = (case slot_state (slot r) of Armed kind gen _ \<Rightarrow> Some (kind, gen) | _ \<Rightarrow> None)"

text \<open>The delivery of the armed timer, as the timer task sends it.\<close>

definition fire_timer :: "TxReducer \<Rightarrow> instant \<Rightarrow> step_result option" where
  "fire_timer r now =
     (case current_timer r of
        None \<Rightarrow> Some (r, [])
      | Some (kind, gen) \<Rightarrow> apply_event r (DeadlineFired kind gen) now)"

lemma apply_deadline:
  "state r \<noteq> TxState.Settled \<Longrightarrow>
     apply_event r (DeadlineFired k g) now = Some (on_deadline_fired r k g now)"
  by (simp add: apply_event_def foreign_authority_def event_authority_def dispatch_def)

lemma second_stage_settles:
  assumes "protocol_inv r out" "state r \<in> {Cancelling, Settling}"
  shows "\<exists>r' acts. fire_timer r now = Some (r', acts) \<and> state r' = TxState.Settled \<and>
    slot_state (slot r') = Disarmed"
proof -
  obtain k g at' where slot: "slot_state (slot r) = Armed k g at'"
      "k = (if state r = Cancelling then CancellationSql else TerminalSql)"
    using assms by (auto simp: protocol_inv_def armed_def)
  then obtain oc r1 where "on_deadline_fired r k g now = settle_now r1 oc True"
    using assms(2) by (auto simp: on_deadline_fired_def claim_fire_def Let_def)
  then have "state (fst (on_deadline_fired r k g now)) = TxState.Settled \<and>
      slot_state (slot (fst (on_deadline_fired r k g now))) = Disarmed"
    by (metis prod.collapse settle_now_facts(1,4))
  with slot assms(2) show ?thesis
    by (cases "on_deadline_fired r k g now") (auto simp: fire_timer_def current_timer_def apply_deadline)
qed

lemma first_stage_forces:
  assumes "protocol_inv r out" "is_forceable (state r)"
  shows "\<exists>r' acts. fire_timer r now = Some (r', acts) \<and> protocol_inv r' (issued out acts) \<and>
    state r' = Cancelling"
proof -
  note live = protocol_inv_forceable[OF assms]
  from live(2) obtain at' where slot: "slot_state (slot r) = Armed Execution (DeadlineGeneration 1) at'"
    by (auto simp: armed_def)
  have live_state: "state r \<noteq> TxState.Settled" "state r \<noteq> Settling"
    using assms(2) by (auto simp: is_forceable_def)
  let ?e = "DeadlineFired Execution (DeadlineGeneration 1)"
  obtain r' acts where res: "apply_event r ?e now = Some (r', acts)" "protocol_inv r' (issued out acts)"
    using keeps_apply_event[OF assms(1), of ?e now] by (auto simp: keeps_def driver_event_def)
  from res(1) live_state assms(2) live(1) slot have "state r' = Cancelling"
    by (auto simp: apply_deadline on_deadline_fired_def claim_fire_def force_actions_def force_def
        calm_def mint_token_def mint_generation_def Let_def split: sum.splits prod.splits)
  with res slot show ?thesis by (auto simp: fire_timer_def current_timer_def)
qed

text \<open>
  \<^bold>\<open>C15\<close> (invariant 3: no cooperation of the backend is needed). From any state a driver can
  reach, delivering the armed timer, and then the timer that is armed after that, settles the
  transaction, whatever the backend does or fails to do and whenever the deliveries come.
\<close>

theorem two_timers_settle_any_transaction:
  assumes "admit ex b t0 d = Some (r0, a0)" "driven r0 None cs" "run r0 cs = Some (r, acts)"
  shows "\<exists>r1 acts1 r2 acts2. fire_timer r now1 = Some (r1, acts1) \<and>
    fire_timer r1 now2 = Some (r2, acts2) \<and> state r2 = TxState.Settled"
proof -
  have inv: "protocol_inv r (issued None acts)" by (rule driven_inv[OF assms])
  consider "is_forceable (state r)" | "state r \<in> {Cancelling, Settling}" | "state r = TxState.Settled"
    by (cases "state r") (auto simp: is_forceable_def)
  then show ?thesis
  proof cases
    case 1
    from first_stage_forces[OF inv 1, of now1] second_stage_settles show ?thesis by fastforce
  next
    case 2
    from second_stage_settles[OF inv 2, of now1] obtain r1 acts1 where
      fired: "fire_timer r now1 = Some (r1, acts1)" "state r1 = TxState.Settled"
        "slot_state (slot r1) = Disarmed" by blast
    from fired(3) have "fire_timer r1 now2 = Some (r1, [])"
      by (simp add: fire_timer_def current_timer_def)
    with fired show ?thesis by blast
  next
    case 3
    with inv have "slot_state (slot r) = Disarmed" by (simp add: protocol_inv_def)
    with 3 show ?thesis by (simp add: fire_timer_def current_timer_def)
  qed
qed

theorem two_timers_settle_any_transaction_witness:
  "\<exists>r1 acts1 r2 acts2. fire_timer (example_state example_quiescing) 30 = Some (r1, acts1) \<and>
    fire_timer r1 35 = Some (r2, acts2) \<and> state r2 = TxState.Settled"
proof -
  have run: "admit example_expected example_budgets 0 8 =
      Some (example_admit, snd (the (admit example_expected example_budgets 0 8)))"
    "driven example_admit None example_quiescing"
    "run example_admit example_quiescing =
      Some (example_state example_quiescing, example_actions example_quiescing)"
    by code_simp+
  show ?thesis by (rule two_timers_settle_any_transaction[OF run])
qed

subsection \<open>The armed timer was scheduled\<close>

definition schedules :: "TxReducer \<Rightarrow> Action list \<Rightarrow> TxReducer \<Rightarrow> bool" where
  "schedules r acts r' \<longleftrightarrow>
     (\<forall>k g at'. slot_state (slot r') = Armed k g at' \<longrightarrow>
        slot_state (slot r) = Armed k g at' \<or>
        ScheduleTimer \<lparr>timer_kind = k, timer_generation = g, timer_at = at'\<rparr> \<in> set acts)"

lemma schedules_same: "slot r' = slot r \<Longrightarrow> schedules r acts r'"
  by (simp add: schedules_def)

lemma schedules_replace:
  "replace_current sl ek k g at' = Inr (sl', timer) \<Longrightarrow>
     sl' = \<lparr>slot_state = Armed k g at'\<rparr> \<and> timer = \<lparr>timer_kind = k, timer_generation = g, timer_at = at'\<rparr>"
  by (auto simp: replace_current_def Let_def split: DeadlineState.splits if_splits)

lemma schedules_force:
  "force r cause now = (r', g, acts) \<Longrightarrow> schedules r acts r'"
  "force r cause now = (r', g, acts) \<Longrightarrow> schedules r (acts @ [Reply x]) r'"
  by (auto simp: force_def mint_token_def mint_generation_def schedules_def Let_def
      split: if_splits sum.splits prod.splits dest!: schedules_replace)

lemma schedules_begin_terminal:
  "begin_terminal r1 i now = (r', acts) \<Longrightarrow> slot r1 = slot r \<Longrightarrow> schedules r acts r'"
  "begin_terminal r1 i now = (r', acts) \<Longrightarrow> slot r1 = slot r \<Longrightarrow> schedules r (Reply x # acts) r'"
  by (auto simp: begin_terminal_def mint_token_def mint_generation_def schedules_def Let_def
      split: if_splits sum.splits prod.splits dest!: schedules_replace)

lemma schedules_settle_now: "settle_now r1 oc w = (r', acts) \<Longrightarrow> schedules r acts r'"
  by (drule settle_now_facts(4)) (simp add: schedules_def)

lemma schedules_on_verdict: "on_verdict r v now = (r', acts) \<Longrightarrow> schedules r acts r'"
  by (cases v) (auto simp: on_verdict_def mint_token_def Let_def
      split: if_splits prod.splits intro: schedules_same schedules_force)

lemma schedules_begin_completed:
  assumes "on_begin_completed r t oc now = (r', acts)"
  shows "schedules r acts r'"
proof -
  let ?r = "r\<lparr>active := None\<rparr>"
  have "schedules ?r as q = schedules r as q" for as q by (simp add: schedules_def)
  with schedules_force[of ?r] schedules_on_verdict[of ?r] assms show ?thesis
    by (cases oc) (auto simp: on_begin_completed_def check_token_def force_actions_def Let_def
        split: if_splits prod.splits intro: schedules_same)
qed

lemma schedules_requests:
  "on_operation_requested r = (r', acts) \<Longrightarrow> schedules r acts r'"
  "on_open_frame r = (r', acts) \<Longrightarrow> schedules r acts r'"
  "on_settle_requested r i now = (r', acts) \<Longrightarrow> schedules r acts r'"
  "on_close_frame r f c = Some (r', acts) \<Longrightarrow> schedules r acts r'"
  subgoal
    by (cases "state r") (auto simp: on_operation_requested_def refuse_if_cleaning_up_def
        mint_token_def Let_def split: option.splits intro: schedules_same)
  subgoal
    by (auto simp: on_open_frame_def refuse_if_cleaning_up_def mint_token_def Let_def
        split: option.splits if_splits sum.splits intro: schedules_same)
  subgoal
    by (cases "state r") (auto simp: on_settle_requested_def refuse_if_cleaning_up_def
        split: option.splits if_splits intro: schedules_same schedules_begin_terminal)
  subgoal
    by (auto simp: on_close_frame_def refuse_if_cleaning_up_def mint_token_def Let_def
        split: option.splits if_splits intro: schedules_same)
  done

lemma schedules_completions:
  "on_operation_completed r t er now = Some (r', acts) \<Longrightarrow> schedules r acts r'"
  "on_open_frame_completed r t f ok now = Some (r', acts) \<Longrightarrow> schedules r acts r'"
  "on_close_frame_completed r t f c ok now = Some (r', acts) \<Longrightarrow> schedules r acts r'"
  "on_terminal_completed r t res = Some (r', acts) \<Longrightarrow> schedules r acts r'"
  "on_cancellation_acknowledged r t ack = Some (r', acts) \<Longrightarrow> schedules r acts r'"
  subgoal
    by (auto simp: on_operation_completed_def check_token_def command_returned_during_cleanup_def
        Let_def split: option.splits if_splits prod.splits
        intro: schedules_same schedules_begin_terminal)
  subgoal
    by (auto simp: on_open_frame_completed_def check_token_def command_returned_during_cleanup_def
        Let_def split: option.splits if_splits intro: schedules_same)
  subgoal
    by (cases c) (auto simp: on_close_frame_completed_def check_token_def mint_token_def
        command_returned_during_cleanup_def Let_def split: option.splits if_splits sum.splits
        intro: schedules_same)
  subgoal
    by (auto simp: on_terminal_completed_def check_token_def Let_def
        split: option.splits if_splits intro: schedules_same schedules_settle_now)
  subgoal
    by (auto simp: on_cancellation_acknowledged_def Let_def
        split: option.splits if_splits intro: schedules_same schedules_settle_now)
  done

lemma schedules_deadline_fired:
  assumes "on_deadline_fired r k g now = (r', acts)"
  shows "schedules r acts r'"
proof -
  have "schedules r as q" if "claim_fire (slot r) k g = Inr s" "schedules (r\<lparr>slot := s\<rparr>) as q" for s as q
    using that by (auto simp: schedules_def claim_fire_def split: DeadlineState.splits if_splits)
  with schedules_force(1)[of "r\<lparr>slot := s\<rparr>" for s] assms show ?thesis
    by (auto simp: on_deadline_fired_def force_actions_def Let_def
        split: if_splits sum.splits prod.splits intro: schedules_same schedules_settle_now)
qed

lemma schedules_perform:
  assumes "perform r c = Some (r', acts)"
  shows "schedules r acts r'"
proof (cases c)
  case (Event e now)
  have "schedules r acts r'" if "dispatch r e now = Some (r', acts)"
    using that
    by (cases e) (auto simp: dispatch_def on_authority_def force_actions_def split: prod.splits
        intro: schedules_on_verdict schedules_begin_completed schedules_requests
          schedules_completions schedules_deadline_fired schedules_force)
  with Event assms show ?thesis
    by (auto simp: perform_def apply_event_def split: if_splits intro: schedules_same)
next
  case (QueueEffect x)
  with queue_effect_frames_only assms show ?thesis by (fastforce intro: schedules_same)
qed

lemma schedules_run: "run r cs = Some (r', acts) \<Longrightarrow> schedules r acts r'"
proof (induction cs arbitrary: r acts)
  case (Cons c cs)
  then obtain r1 as bs where "perform r c = Some (r1, as)" "run r1 cs = Some (r', bs)" "acts = as @ bs"
    by (auto simp del: run.simps simp: run_Cons_Some)
  with Cons.IH[of r1 bs] schedules_perform[of r c r1 as] show ?case
    by (auto simp: schedules_def)
qed (simp add: schedules_same)

text \<open>
  Whatever calls are made, a deadline that is armed is one the reducer has asked the
  driver to schedule, with that kind, generation and instant: no armed deadline lacks its timer.
\<close>

theorem armed_deadline_was_scheduled:
  assumes "admit ex b t0 d = Some (r0, a0)" "run r0 cs = Some (r, acts)"
    and "slot_state (slot r) = Armed k g at'"
  shows "ScheduleTimer \<lparr>timer_kind = k, timer_generation = g, timer_at = at'\<rparr> \<in> set (a0 @ acts)"
proof -
  have "ScheduleTimer \<lparr>timer_kind = k', timer_generation = g', timer_at = at''\<rparr> \<in> set a0"
    if "slot_state (slot r0) = Armed k' g' at''" for k' g' at''
    using assms(1) that by (auto simp: admit_def Let_def mint_generation_def arm_initial_def
        deadline_slot_new_def split: sum.splits prod.splits)
  with schedules_run[OF assms(2)] assms(3) show ?thesis by (auto simp: schedules_def)
qed

theorem armed_deadline_was_scheduled_witness:
  "ScheduleTimer \<lparr>timer_kind = CancellationSql, timer_generation = DeadlineGeneration 2,
     timer_at = 9\<rparr> \<in> set (example_actions example_cancel)"
proof -
  let ?a0 = "snd (the (admit example_expected example_budgets 0 8))"
  have run: "admit example_expected example_budgets 0 8 = Some (example_admit, ?a0)"
    "run example_admit example_cancel =
      Some (example_state example_cancel, example_actions example_cancel)"
    "slot_state (slot (example_state example_cancel)) =
      Armed CancellationSql (DeadlineGeneration 2) 9"
    by code_simp+
  have "ScheduleTimer \<lparr>timer_kind = CancellationSql, timer_generation = DeadlineGeneration 2,
     timer_at = 9\<rparr> \<notin> set ?a0" by code_simp
  with armed_deadline_was_scheduled[OF run] show ?thesis by simp
qed

end
