(* ===== verification/TxEffects.thy ===== *)
theory TxEffects
  imports TxRuns
begin

text \<open>
  Nested transactions end to end. A body of statements and nested transactions is driven
  through the reducer's events with a backend that answers every command with success
  (\<^verbatim>\<open>open_frame\<close>, \<^verbatim>\<open>close_frame\<close>, \<^verbatim>\<open>run_operation\<close> and \<^verbatim>\<open>settle_root\<close> of
  \<^verbatim>\<open>transaction/driver.rs\<close>). The reducer is an \<open>effect_buffer\<close> because its frame stack is
  one, so committing publishes exactly the effects that survive in the body, in order.
\<close>

subsection \<open>A driver whose backend succeeds\<close>

definition answered ::
  "instant \<Rightarrow> (TxReducer \<Rightarrow> CommandToken \<Rightarrow> TxEvent) \<Rightarrow> step_result option \<Rightarrow> step_result option" where
  "answered now completion res =
     (case res of
        None \<Rightarrow> None
      | Some (r, acts) \<Rightarrow>
          (case Option.bind (issued None acts) command_token of
             None \<Rightarrow> None
           | Some t \<Rightarrow> apply_event r (completion r t) now))"

definition current_frame :: "TxReducer \<Rightarrow> FrameId" where
  "current_frame r = (case stack_top (frames r) of None \<Rightarrow> FrameId 0 | Some f \<Rightarrow> frame_id f)"

definition tx_open :: "instant \<Rightarrow> TxReducer \<Rightarrow> TxReducer option" where
  "tx_open now r =
     map_option fst
       (answered now (\<lambda>r1 t. OpenFrameCompleted t (current_frame r1) True)
          (apply_event r OpenFrame now))"

definition tx_emit :: "instant \<Rightarrow> Effect \<Rightarrow> TxReducer \<Rightarrow> TxReducer option" where
  "tx_emit now x r =
     map_option fst
       (answered now (\<lambda>r1 t. OperationCompleted t False)
          (case apply_event r OperationRequested now of
             None \<Rightarrow> None
           | Some (r1, acts) \<Rightarrow>
               (case reducer_queue_effect r1 x of
                  Inl _ \<Rightarrow> None
                | Inr r2 \<Rightarrow> Some (r2, acts))))"

definition tx_release :: "instant \<Rightarrow> TxReducer \<Rightarrow> TxReducer option" where
  "tx_release now r =
     map_option fst
       (answered now (\<lambda>r1 t. CloseFrameCompleted t (current_frame r1) Released True)
          (apply_event r (CloseFrame (current_frame r) Released) now))"

definition tx_rollback :: "instant \<Rightarrow> TxReducer \<Rightarrow> TxReducer option" where
  "tx_rollback now r =
     map_option fst
       (answered now (\<lambda>r1 t. CloseFrameCompleted t (current_frame r1) Released True)
          (answered now (\<lambda>r1 t. CloseFrameCompleted t (current_frame r1) RolledBackTo True)
             (apply_event r (CloseFrame (current_frame r) RolledBackTo) now)))"

definition published :: "Action list \<Rightarrow> Effect list" where
  "published acts = concat (map (\<lambda>a. case a of PublishEffects es \<Rightarrow> es | _ \<Rightarrow> []) acts)"

definition tx_commit :: "instant \<Rightarrow> TxReducer \<Rightarrow> Effect list" where
  "tx_commit now r =
     (case answered now (\<lambda>r1 t. TerminalCompleted t TerminalResult.Committed)
             (apply_event r (SettleRequested Commit) now) of
        None \<Rightarrow> []
      | Some (_, acts) \<Rightarrow> published acts)"

primrec tx_body :: "instant \<Rightarrow> Effect body \<Rightarrow> TxReducer \<Rightarrow> TxReducer option"
  and tx_bodies :: "instant \<Rightarrow> Effect body list \<Rightarrow> TxReducer \<Rightarrow> TxReducer option" where
  "tx_body now (Emit x) r = tx_emit now x r"
| "tx_body now (Sub released bs) r =
     Option.bind (tx_open now r) (\<lambda>r1.
       Option.bind (tx_bodies now bs r1) (\<lambda>r2.
         if released then tx_release now r2 else tx_rollback now r2))"
| "tx_bodies now [] r = Some r"
| "tx_bodies now (b # bs) r = Option.bind (tx_body now b r) (tx_bodies now bs)"

subsection \<open>The reducer refines its frame stack\<close>

definition live :: "TxReducer \<Rightarrow> bool" where
  "live r \<longleftrightarrow> state r = Idle \<and> cleanup r = None \<and> frames_ready (frames r)"

lemma apply_live:
  "event_authority e = None \<Longrightarrow> state r \<noteq> TxState.Settled \<Longrightarrow> apply_event r e now = dispatch r e now"
  by (simp add: apply_event_def foreign_authority_def)

lemma tx_open_refines:
  assumes "live r" "frames_open (frames r) = Some fs"
  shows "\<exists>r'. tx_open now r = Some r' \<and> frames r' = fs \<and> state r' = Idle \<and> cleanup r' = None"
proof -
  from assms(2) obtain fs1 fid name where o: "open_child (frames r) = Inr (fs1, fid, name)"
      "confirm_child_open fs1 fid = Inr fs"
    by (auto simp: frames_open_def split: sum.splits prod.splits)
  then have "(case stack_top fs1 of None \<Rightarrow> FrameId 0 | Some f \<Rightarrow> frame_id f) = fid"
    by (auto simp: confirm_child_open_def split: option.splits if_splits)
  with assms(1) o show ?thesis
    by (auto simp: tx_open_def answered_def apply_live event_authority_def dispatch_def live_def
        on_open_frame_def refuse_if_cleaning_up_def admits_creator_sql_def mint_token_def
        on_open_frame_completed_def check_token_def current_frame_def Let_def)
qed

lemma tx_emit_refines:
  assumes "live r" "frames_emit x (frames r) = Some fs"
  shows "\<exists>r'. tx_emit now x r = Some r' \<and> frames r' = fs \<and> state r' = Idle \<and> cleanup r' = None"
  using assms
  by (auto simp: tx_emit_def frames_emit_def answered_def apply_live event_authority_def
      dispatch_def live_def on_operation_requested_def refuse_if_cleaning_up_def mint_token_def
      on_operation_completed_def check_token_def reducer_queue_effect_def Let_def
      split: sum.splits)

lemma tx_release_refines:
  assumes "live r" "frames_release (frames r) = Some fs"
  shows "\<exists>r'. tx_release now r = Some r' \<and> frames r' = fs \<and> state r' = Idle \<and> cleanup r' = None"
proof -
  from assms(2) obtain t fid where t: "stack_top (frames r) = Some t"
      "close_top (frames r) (frame_id t) Released = Some (Inr (fs, fid))"
    by (auto simp: frames_release_def split: option.splits sum.splits)
  then have "\<not> is_root t" by (auto simp: close_top_def split: if_splits)
  then obtain name where "frame_savepoint t = Some name" by (auto simp: is_root_def)
  with assms(1) t \<open>\<not> is_root t\<close> show ?thesis
    by (auto simp: tx_release_def answered_def apply_live event_authority_def dispatch_def live_def
        on_close_frame_def refuse_if_cleaning_up_def admits_creator_sql_def mint_token_def
        on_close_frame_completed_def check_token_def current_frame_def Let_def)
qed

lemma tx_rollback_refines:
  assumes "live r" "frames_rollback (frames r) = Some fs"
  shows "\<exists>r'. tx_rollback now r = Some r' \<and> frames r' = fs \<and> state r' = Idle \<and> cleanup r' = None"
proof -
  from assms(2) obtain t fs1 where t: "stack_top (frames r) = Some t"
      "mark_rolled_back (frames r) (frame_id t) = Inr fs1" "frames_release fs1 = Some fs"
    by (auto simp: frames_rollback_def split: option.splits sum.splits)
  then have "\<not> is_root t" by (auto simp: mark_rolled_back_def split: if_splits)
  then obtain name where name: "frame_savepoint t = Some name" by (auto simp: is_root_def)
  from t(3) obtain u fid where u: "stack_top fs1 = Some u"
      "close_top fs1 (frame_id u) Released = Some (Inr (fs, fid))"
    by (auto simp: frames_release_def split: option.splits sum.splits)
  then have "\<not> is_root u" by (auto simp: close_top_def split: if_splits)
  then obtain name' where "frame_savepoint u = Some name'" by (auto simp: is_root_def)
  with assms(1) t(1,2) u name \<open>\<not> is_root t\<close> show ?thesis
    by (auto simp: tx_rollback_def answered_def apply_live event_authority_def dispatch_def live_def
        on_close_frame_def refuse_if_cleaning_up_def admits_creator_sql_def mint_token_def
        on_close_frame_completed_def check_token_def current_frame_def Let_def)
qed

lemma tx_commit_publishes:
  assumes "live r"
  shows "tx_commit now r = retained_effects (frames r)"
  using assms
  by (auto simp: tx_commit_def answered_def apply_live event_authority_def dispatch_def live_def
      on_settle_requested_def refuse_if_cleaning_up_def begin_terminal_def mint_token_def
      mint_generation_def on_terminal_completed_def check_token_def settle_now_def publishes_def
      published_def take_effects_for_confirmed_commit_def retained_effects_def Let_def
      split: sum.splits)

interpretation reducer: effect_buffer live "\<lambda>r. unat (max_depth (frames r))"
  "\<lambda>r. frame_levels (frames r)" "tx_open now" "tx_emit now" "tx_release now" "tx_rollback now"
  "tx_commit now" for now
proof (unfold_locales, goal_cases)
  case (1 r)
  then show ?case using stack.levels_nonempty by (auto simp: live_def)
next
  case (2 r)
  with stack.open_law[of "frames r"] tx_open_refines[OF 2(1)] show ?case
    by (fastforce simp: live_def)
next
  case (3 r e)
  with stack.emit_law[of "frames r" e] tx_emit_refines[OF 3] show ?case
    by (fastforce simp: live_def)
next
  case (4 r ls outer inner)
  with stack.release_law[of "frames r" ls outer inner] tx_release_refines[OF 4(1)] show ?case
    by (fastforce simp: live_def)
next
  case (5 r ls outer inner)
  with stack.rollback_law[of "frames r" ls outer inner] tx_rollback_refines[OF 5(1)] show ?case
    by (fastforce simp: live_def)
next
  case (6 r)
  with stack.drain_law[of "frames r"] tx_commit_publishes[OF 6] show ?case
    by (simp add: live_def)
qed

lemma tx_body_run:
  "tx_body now b r = reducer.run_body now b r"
  "tx_bodies now bs r = reducer.run_all now bs r"
proof (induction b and bs arbitrary: r and r rule: tx_body.induct tx_bodies.induct)
  case (Sub released bs)
  have "tx_bodies now bs = reducer.run_all now bs" using Sub by auto
  then show ?case by simp
next
  case (Cons_body b bs)
  have "tx_bodies now bs = reducer.run_all now bs" using Cons_body by auto
  with Cons_body show ?case by simp
qed simp_all

subsection \<open>What a committed transaction publishes\<close>

lemma admit_frames: "admit ex b t0 d = Some (r, acts) \<Longrightarrow> frames r = frame_stack_new d"
  by (auto simp: admit_def mint_generation_def Let_def split: sum.splits prod.splits)

lemma force_keeps_frames: "force r cause now = (r', g, acts) \<Longrightarrow> frames r' = frames r"
  by (auto simp: force_def mint_token_def mint_generation_def Let_def
      split: if_splits sum.splits prod.splits)

lemma observe_keeps_frames:
  assumes "apply_event r (AuthorityObserved auth obs) now = Some (r', acts)"
  shows "frames r' = frames r"
  using assms
  by (auto simp: apply_event_def dispatch_def on_authority_def on_verdict_def mint_token_def Let_def
      split: if_splits Verdict.splits prod.splits dest: force_keeps_frames)

lemma begin_opens_root:
  assumes "apply_event r (BeginCompleted t (Opened g)) now = Some (r', acts)" "state r' = Idle"
    "state r \<noteq> Idle" "cleanup r = None"
  shows "frames r' = fst (open_root (frames r)) \<and> cleanup r' = None"
  using assms
  by (auto simp: apply_live event_authority_def apply_event_def foreign_authority_def dispatch_def
      on_begin_completed_def check_token_def Let_def split: if_splits)

lemma observe_result:
  assumes "apply_event r (AuthorityObserved auth obs) now = Some (r', acts)"
    "state r = Preparing" "calm r"
  shows "state r' \<noteq> Idle \<and> (cleanup r' = None \<or> state r' = Cancelling)"
  using assms
  by (auto simp: apply_event_def dispatch_def on_authority_def on_verdict_def mint_token_def
      force_def mint_generation_def calm_def Let_def
      split: if_splits Verdict.splits prod.splits sum.splits)

text \<open>
  \<^bold>\<open>C5\<close>. A transaction body of statements and nested transactions, nested no deeper than
  the depth cap, runs through the reducer without a refusal, and committing it publishes
  exactly the effects that survive in the body, in the order they were made: those of a
  released nested transaction where it stood, none of a rolled-back one.
\<close>

theorem nested_transaction_publishes_what_survives:
  assumes "admit ex b t0 d = Some (r0, a0)"
    and "apply_event r0 (AuthorityObserved auth obs) t1 = Some (r1, a1)"
    and "apply_event r1 (BeginCompleted tok (Opened g)) t2 = Some (r, a2)" "state r = Idle"
    and "nesting_all bs \<le> unat d"
  shows "\<exists>r'. tx_bodies now bs r = Some r' \<and> tx_commit now r' = surviving_all bs"
proof -
  have r1: "state r1 \<noteq> Idle" "cleanup r1 = None \<or> state r1 = Cancelling"
    using observe_result[OF assms(2)] admit_eq[OF assms(1)] by auto
  moreover have "state r1 \<noteq> Cancelling"
    using assms(3,4) by (auto simp: apply_event_def foreign_authority_def event_authority_def
        dispatch_def on_begin_completed_def check_token_def split: if_splits)
  ultimately have "frames r = fst (open_root (frame_stack_new d))" "cleanup r = None"
    using begin_opens_root[OF assms(3,4)] observe_keeps_frames[OF assms(2)] admit_frames[OF assms(1)]
    by auto
  with assms(4) have "live r" "frame_levels (frames r) = [[]]" "max_depth (frames r) = d"
    by (auto simp: live_def frames_ready_def frame_levels_def open_root_def mint_id_def
        frame_stack_new_def shape_wf_simps is_root_def Let_def)
  with reducer.run_publishes[of r bs now] assms(5) show ?thesis by (simp add: tx_body_run)
qed

definition example_body :: "Effect body list" where
  "example_body =
     [Emit example_effect,
      Sub False [Emit example_effect, Sub True [Emit example_effect]],
      Sub True [Sub False [Emit example_effect], Emit (example_effect\<lparr>effect_payload := ''updated''\<rparr>)]]"

theorem nested_transaction_publishes_what_survives_witness:
  "\<exists>r'. tx_bodies 3 example_body (example_state example_open) = Some r' \<and>
     tx_commit 3 r' = [example_effect, example_effect\<lparr>effect_payload := ''updated''\<rparr>]"
proof -
  let ?o = "AuthorityObserved example_authority example_observed"
  let ?b = "BeginCompleted (CommandToken 1) (Opened (BackendGeneration 1))"
  let ?r1 = "fst (the (apply_event example_admit ?o 1))"
  have "admit example_expected example_budgets 0 8 =
      Some (example_admit, snd (the (admit example_expected example_budgets 0 8)))"
    "apply_event example_admit ?o 1 = Some (?r1, snd (the (apply_event example_admit ?o 1)))"
    "apply_event ?r1 ?b 2 = Some (example_state example_open, snd (the (apply_event ?r1 ?b 2)))"
    "state (example_state example_open) = Idle" "nesting_all example_body \<le> unat (8 :: 32 word)"
    by code_simp+
  from nested_transaction_publishes_what_survives[OF this, of 3]
  show ?thesis by (simp add: example_body_def)
qed

end
