(* ===== verification/TxLanes.thy ===== *)
theory TxLanes
  imports TxEffects
begin

text \<open>
  The per-thread transaction lanes (\<^verbatim>\<open>crates/zeroship-data-orm/src/tx_lanes.rs\<close>): for every
  route, a tenant and a database together, the reducer of its open transaction, the pinned
  session, the parked wakers, the frame claims and the queue of change events with its
  savepoint watermarks, plus the tombstones of withdrawn sessions.

  Sessions, cancellers, wakers and completions are owned objects the lanes only move around;
  they are modelled by their identity. What an operation does to them is its list of
  outputs: a waker woken, a session destroyed, a completion abandoned. A fresh
  \<^verbatim>\<open>Completion::default()\<close> is an argument. \<^verbatim>\<open>Waker::will_wake\<close> is identity of wakers. Change
  events are opaque to the lanes and stay a type parameter.
\<close>

subsection \<open>Data\<close>

record DbRoute =
  route_app :: string
  route_database :: "string option"

datatype Session = Session nat
datatype Canceller = Canceller nat
datatype Waker = Waker nat
datatype Completion = Completion nat

record 'e TxLane =
  lane_reducer :: "TxReducer option"
  lane_completion :: "Completion option"
  lane_session :: "Session option"
  lane_canceller :: "Canceller option"
  claim_waiters :: "Waker list"
  slot_waiters :: "Waker list"
  emit_marks :: "nat list"
  pending_emits :: "'e list"
  claimed_frames :: "(u64 \<times> u64) set"
  frame_waiters :: "Waker list"
  settling_frames :: "(u64 \<times> u64) set"
  callback_polls :: u32

record 'e TxLanes =
  lanes :: "DbRoute \<rightharpoonup> 'e TxLane"
  withdrawn_tx_sessions :: "DbRoute set"

datatype lane_output = Woken Waker | Destroyed Session | Abandoned Completion

type_synonym 'e lanes_result = "'e TxLanes \<times> lane_output list"

definition lane_default :: "'e TxLane" where
  "lane_default =
     \<lparr>lane_reducer = None, lane_completion = None, lane_session = None, lane_canceller = None,
      claim_waiters = [], slot_waiters = [], emit_marks = [], pending_emits = [],
      claimed_frames = {}, frame_waiters = [], settling_frames = {}, callback_polls = 0\<rparr>"

definition lanes_default :: "'e TxLanes" where
  "lanes_default = \<lparr>lanes = Map.empty, withdrawn_tx_sessions = {}\<rparr>"

text \<open>\<^verbatim>\<open>self.lanes.get_mut(route)\<close> followed by an update, a no-op without a lane.\<close>

definition with_lane :: "DbRoute \<Rightarrow> ('e TxLane \<Rightarrow> 'e TxLane) \<Rightarrow> 'e TxLanes \<Rightarrow> 'e TxLanes" where
  "with_lane route f self =
     (case lanes self route of
        None \<Rightarrow> self
      | Some lane \<Rightarrow> self\<lparr>lanes := (lanes self)(route \<mapsto> f lane)\<rparr>)"

text \<open>\<^verbatim>\<open>self.lanes.entry(route).or_default()\<close> followed by an update.\<close>

definition entry_or_default :: "DbRoute \<Rightarrow> 'e TxLanes \<Rightarrow> 'e TxLane" where
  "entry_or_default route self = (case lanes self route of None \<Rightarrow> lane_default | Some lane \<Rightarrow> lane)"

definition with_entry :: "DbRoute \<Rightarrow> ('e TxLane \<Rightarrow> 'e TxLane) \<Rightarrow> 'e TxLanes \<Rightarrow> 'e TxLanes" where
  "with_entry route f self =
     self\<lparr>lanes := (lanes self)(route \<mapsto> f (entry_or_default route self))\<rparr>"

text \<open>\<^verbatim>\<open>TxLane::drop\<close>.\<close>

definition drop_lane :: "'e TxLane \<Rightarrow> lane_output list" where
  "drop_lane lane =
     (case lane_session lane of None \<Rightarrow> [] | Some s \<Rightarrow> [Destroyed s]) @
     (case lane_completion lane of None \<Rightarrow> [] | Some c \<Rightarrow> [Abandoned c])"

subsection \<open>Claims\<close>

definition has_tx_for :: "'e TxLanes \<Rightarrow> DbRoute \<Rightarrow> bool" where
  "has_tx_for self route =
     (case lanes self route of None \<Rightarrow> False | Some lane \<Rightarrow> lane_session lane \<noteq> None)"

definition try_claim_tx :: "'e TxLanes \<Rightarrow> DbRoute \<Rightarrow> Completion \<Rightarrow> 'e TxLanes \<times> bool" where
  "try_claim_tx self route fresh =
     (case lanes self route of
        Some _ \<Rightarrow> (self, False)
      | None \<Rightarrow>
          (self\<lparr>lanes := (lanes self)(route \<mapsto> lane_default\<lparr>lane_completion := Some fresh\<rparr>)\<rparr>,
           True))"

definition tx_claimed_by :: "'e TxLanes \<Rightarrow> DbRoute \<Rightarrow> bool" where
  "tx_claimed_by self route = (lanes self route \<noteq> None)"

definition release_tx_claim :: "'e TxLanes \<Rightarrow> DbRoute \<Rightarrow> 'e lanes_result" where
  "release_tx_claim self route =
     (case lanes self route of
        None \<Rightarrow> (self, [])
      | Some lane \<Rightarrow>
          (self\<lparr>lanes := (lanes self)(route := None)\<rparr>,
           map Woken (claim_waiters lane @ frame_waiters lane) @
           drop_lane (lane\<lparr>claim_waiters := [], frame_waiters := []\<rparr>)))"

definition push_tx_waiter :: "'e TxLanes \<Rightarrow> DbRoute \<Rightarrow> Waker \<Rightarrow> 'e lanes_result" where
  "push_tx_waiter self route waker =
     (if lanes self route = None then (self, [Woken waker])
      else (with_lane route (\<lambda>lane. lane\<lparr>claim_waiters := claim_waiters lane @ [waker]\<rparr>) self, []))"

subsection \<open>Callback markers and frame claims\<close>

definition enter_callback :: "'e TxLanes \<Rightarrow> DbRoute \<Rightarrow> 'e TxLanes" where
  "enter_callback self route =
     with_lane route (\<lambda>lane. lane\<lparr>callback_polls := callback_polls lane + 1\<rparr>) self"

definition exit_callback :: "'e TxLanes \<Rightarrow> DbRoute \<Rightarrow> 'e TxLanes" where
  "exit_callback self route =
     with_lane route (\<lambda>lane. lane\<lparr>callback_polls :=
       (if callback_polls lane = 0 then 0 else callback_polls lane - 1)\<rparr>) self"

definition callback_is_polling :: "'e TxLanes \<Rightarrow> DbRoute \<Rightarrow> bool" where
  "callback_is_polling self route =
     (case lanes self route of None \<Rightarrow> False | Some lane \<Rightarrow> callback_polls lane > 0)"

definition claim_frame :: "'e TxLanes \<Rightarrow> DbRoute \<Rightarrow> u64 \<Rightarrow> u64 \<Rightarrow> 'e TxLanes \<times> bool" where
  "claim_frame self route gen frame =
     (case lanes self route of
        None \<Rightarrow> (self, False)
      | Some lane \<Rightarrow>
          (with_lane route (\<lambda>l. l\<lparr>claimed_frames := insert (gen, frame) (claimed_frames l)\<rparr>) self,
           (gen, frame) \<notin> claimed_frames lane))"

definition release_frame_claim :: "'e TxLanes \<Rightarrow> DbRoute \<Rightarrow> u64 \<Rightarrow> u64 \<Rightarrow> 'e lanes_result" where
  "release_frame_claim self route gen frame =
     (case lanes self route of
        None \<Rightarrow> (self, [])
      | Some lane \<Rightarrow>
          (if (gen, frame) \<in> claimed_frames lane
           then (with_lane route (\<lambda>l. l\<lparr>claimed_frames := claimed_frames l - {(gen, frame)},
                                        frame_waiters := []\<rparr>) self,
                 map Woken (frame_waiters lane))
           else (self, [])))"

definition mark_frame_settling :: "'e TxLanes \<Rightarrow> DbRoute \<Rightarrow> u64 \<Rightarrow> u64 \<Rightarrow> 'e TxLanes" where
  "mark_frame_settling self route gen frame =
     with_lane route (\<lambda>l. l\<lparr>settling_frames := insert (gen, frame) (settling_frames l)\<rparr>) self"

definition clear_frame_settling :: "'e TxLanes \<Rightarrow> DbRoute \<Rightarrow> u64 \<Rightarrow> u64 \<Rightarrow> 'e TxLanes" where
  "clear_frame_settling self route gen frame =
     with_lane route (\<lambda>l. l\<lparr>settling_frames := settling_frames l - {(gen, frame)}\<rparr>) self"

definition frame_settling :: "'e TxLanes \<Rightarrow> DbRoute \<Rightarrow> u64 \<Rightarrow> u64 \<Rightarrow> bool" where
  "frame_settling self route gen frame =
     (case lanes self route of None \<Rightarrow> False | Some lane \<Rightarrow> (gen, frame) \<in> settling_frames lane)"

definition frame_claimed :: "'e TxLanes \<Rightarrow> DbRoute \<Rightarrow> u64 \<Rightarrow> u64 \<Rightarrow> bool" where
  "frame_claimed self route gen frame =
     (case lanes self route of None \<Rightarrow> False | Some lane \<Rightarrow> (gen, frame) \<in> claimed_frames lane)"

definition push_frame_waiter :: "'e TxLanes \<Rightarrow> DbRoute \<Rightarrow> Waker \<Rightarrow> 'e lanes_result" where
  "push_frame_waiter self route waker =
     (case lanes self route of
        None \<Rightarrow> (self, [Woken waker])
      | Some lane \<Rightarrow>
          (if waker \<in> set (frame_waiters lane) then (self, [])
           else (with_lane route (\<lambda>l. l\<lparr>frame_waiters := frame_waiters l @ [waker]\<rparr>) self, [])))"

subsection \<open>The session slot\<close>

definition install_tx_client ::
  "'e TxLanes \<Rightarrow> DbRoute \<Rightarrow> Session \<Rightarrow> 'e TxLanes \<times> Session option" where
  "install_tx_client self route client =
     (with_entry route (\<lambda>lane. lane\<lparr>lane_session := Some client\<rparr>) self,
      lane_session (entry_or_default route self))"

definition take_tx_client_for :: "'e TxLanes \<Rightarrow> DbRoute \<Rightarrow> 'e TxLanes \<times> Session option" where
  "take_tx_client_for self route =
     (case lanes self route of
        None \<Rightarrow> (self, None)
      | Some lane \<Rightarrow> (with_lane route (\<lambda>l. l\<lparr>lane_session := None\<rparr>) self, lane_session lane))"

definition wake_tx_slot_waiters :: "'e TxLanes \<Rightarrow> DbRoute \<Rightarrow> 'e lanes_result" where
  "wake_tx_slot_waiters self route =
     (case lanes self route of
        None \<Rightarrow> (self, [])
      | Some lane \<Rightarrow>
          (with_lane route (\<lambda>l. l\<lparr>slot_waiters := []\<rparr>) self, map Woken (slot_waiters lane)))"

definition put_tx_client_for :: "'e TxLanes \<Rightarrow> DbRoute \<Rightarrow> Session \<Rightarrow> 'e lanes_result" where
  "put_tx_client_for self route client =
     (if route \<in> withdrawn_tx_sessions self then (self, [Destroyed client])
      else case lanes self route of
             None \<Rightarrow> (self, [Destroyed client])
           | Some lane \<Rightarrow>
               (if lane_session lane \<noteq> None then (self, [Destroyed client])
                else wake_tx_slot_waiters
                       (with_lane route (\<lambda>l. l\<lparr>lane_session := Some client\<rparr>) self) route))"

definition push_tx_slot_waiter :: "'e TxLanes \<Rightarrow> DbRoute \<Rightarrow> Waker \<Rightarrow> 'e lanes_result" where
  "push_tx_slot_waiter self route waker =
     (case lanes self route of
        None \<Rightarrow> (self, [Woken waker])
      | Some lane \<Rightarrow>
          (if waker \<in> set (slot_waiters lane) then (self, [])
           else (with_lane route (\<lambda>l. l\<lparr>slot_waiters := slot_waiters l @ [waker]\<rparr>) self, [])))"

definition install_tx_canceller :: "'e TxLanes \<Rightarrow> DbRoute \<Rightarrow> Canceller \<Rightarrow> 'e TxLanes" where
  "install_tx_canceller self route canceller =
     with_entry route (\<lambda>lane. lane\<lparr>lane_canceller := Some canceller\<rparr>) self"

definition tx_canceller_for :: "'e TxLanes \<Rightarrow> DbRoute \<Rightarrow> Canceller option" where
  "tx_canceller_for self route = Option.bind (lanes self route) lane_canceller"

definition remove_tx_canceller :: "'e TxLanes \<Rightarrow> DbRoute \<Rightarrow> 'e TxLanes" where
  "remove_tx_canceller self route =
     with_lane route (\<lambda>lane. lane\<lparr>lane_canceller := None\<rparr>) self"

subsection \<open>The reducer of a lane\<close>

definition admit_transaction ::
  "'e TxLanes \<Rightarrow> DbRoute \<Rightarrow> ExpectedAuthority \<Rightarrow> TxBudgets \<Rightarrow> instant \<Rightarrow> u32 \<Rightarrow> Completion \<Rightarrow>
     ('e TxLanes \<times> Action list) option" where
  "admit_transaction self route expected_authority time_budgets now depth_cap fresh =
     (case admit expected_authority time_budgets now depth_cap of
        None \<Rightarrow> None
      | Some (reducer, actions) \<Rightarrow>
          let self = with_entry route (\<lambda>lane. lane\<lparr>lane_reducer := Some reducer,
                lane_completion := (case lane_completion lane of
                  None \<Rightarrow> Some fresh | Some c \<Rightarrow> Some c)\<rparr>) self
          in Some (self\<lparr>withdrawn_tx_sessions := withdrawn_tx_sessions self - {route}\<rparr>, actions))"

text \<open>
  The outer \<open>None\<close> is a panic of the reducer. In the result, \<open>None\<close> in place of the actions is
  the source's \<^verbatim>\<open>None\<close>: no transaction is admitted for the route.
\<close>

definition apply_transaction_event ::
  "'e TxLanes \<Rightarrow> DbRoute \<Rightarrow> TxEvent \<Rightarrow> instant \<Rightarrow>
     ('e TxLanes \<times> Action list option \<times> lane_output list) option" where
  "apply_transaction_event self route event now =
     (case lanes self route of
        None \<Rightarrow> Some (self, None, [])
      | Some lane \<Rightarrow>
          (case lane_reducer lane of
             None \<Rightarrow> Some (self, None, [])
           | Some reducer \<Rightarrow>
               (case apply_event reducer event now of
                  None \<Rightarrow> None
                | Some (reducer', actions) \<Rightarrow>
                    let self = with_lane route (\<lambda>l. l\<lparr>lane_reducer := Some reducer'\<rparr>) self
                    in if cleanup reducer' \<noteq> None
                       then Some (with_lane route (\<lambda>l. l\<lparr>frame_waiters := []\<rparr>) self,
                                  Some actions, map Woken (frame_waiters lane))
                       else Some (self, Some actions, []))))"

definition transaction_reducer :: "'e TxLanes \<Rightarrow> DbRoute \<Rightarrow> TxReducer option" where
  "transaction_reducer self route = Option.bind (lanes self route) lane_reducer"

definition transaction_completion :: "'e TxLanes \<Rightarrow> DbRoute \<Rightarrow> Completion option" where
  "transaction_completion self route = Option.bind (lanes self route) lane_completion"

definition is_current_in :: "Completion \<Rightarrow> 'e TxLanes \<Rightarrow> DbRoute \<Rightarrow> bool" where
  "is_current_in completion self route = (transaction_completion self route = Some completion)"

definition detach_transaction_completion :: "'e TxLanes \<Rightarrow> DbRoute \<Rightarrow> 'e TxLanes" where
  "detach_transaction_completion self route =
     with_lane route (\<lambda>lane. lane\<lparr>lane_completion := None\<rparr>) self"

definition transaction_expected_authority ::
  "'e TxLanes \<Rightarrow> DbRoute \<Rightarrow> ExpectedAuthority option" where
  "transaction_expected_authority self route =
     map_option expected (transaction_reducer self route)"

definition retire_transaction :: "'e TxLanes \<Rightarrow> DbRoute \<Rightarrow> 'e lanes_result" where
  "retire_transaction self route =
     (let (self, out) =
        (case lanes self route of
           None \<Rightarrow> (self, [])
         | Some lane \<Rightarrow>
             (with_lane route (\<lambda>l. l\<lparr>lane_reducer := None, emit_marks := [], lane_canceller := None,
                                     lane_completion := None, frame_waiters := []\<rparr>) self,
              (case lane_completion lane of None \<Rightarrow> [] | Some c \<Rightarrow> [Abandoned c]) @
              map Woken (frame_waiters lane)));
          (self, woken) = wake_tx_slot_waiters self route
      in (self, out @ woken))"

definition withdraw_tx_session :: "'e TxLanes \<Rightarrow> DbRoute \<Rightarrow> 'e TxLanes \<times> Session option" where
  "withdraw_tx_session self route =
     (let self = self\<lparr>withdrawn_tx_sessions := insert route (withdrawn_tx_sessions self)\<rparr>
      in take_tx_client_for self route)"

subsection \<open>Frame watermarks and pending change events\<close>

definition push_frame_emit_mark :: "'e TxLanes \<Rightarrow> DbRoute \<Rightarrow> 'e TxLanes" where
  "push_frame_emit_mark self route =
     with_entry route (\<lambda>lane. lane\<lparr>emit_marks := emit_marks lane @ [length (pending_emits lane)]\<rparr>) self"

definition pop_frame_emit_mark :: "'e TxLanes \<Rightarrow> DbRoute \<Rightarrow> 'e TxLanes \<times> nat option" where
  "pop_frame_emit_mark self route =
     (case lanes self route of
        None \<Rightarrow> (self, None)
      | Some lane \<Rightarrow>
          (with_lane route (\<lambda>l. l\<lparr>emit_marks := butlast (emit_marks l)\<rparr>) self,
           if emit_marks lane = [] then None else Some (last (emit_marks lane))))"

definition discard_frame_effects :: "'e TxLanes \<Rightarrow> DbRoute \<Rightarrow> 'e TxLanes" where
  "discard_frame_effects self route =
     (case lanes self route of
        None \<Rightarrow> self
      | Some lane \<Rightarrow>
          (if emit_marks lane \<noteq> [] \<and> last (emit_marks lane) \<le> length (pending_emits lane)
           then with_lane route
                  (\<lambda>l. l\<lparr>pending_emits := take (last (emit_marks l)) (pending_emits l)\<rparr>) self
           else self))"

definition push_pending_emit :: "'e TxLanes \<Rightarrow> DbRoute \<Rightarrow> 'e \<Rightarrow> 'e TxLanes" where
  "push_pending_emit self route ev =
     with_entry route (\<lambda>lane. lane\<lparr>pending_emits := pending_emits lane @ [ev]\<rparr>) self"

definition drain_pending_emits_for :: "'e TxLanes \<Rightarrow> DbRoute \<Rightarrow> 'e TxLanes \<times> 'e list" where
  "drain_pending_emits_for self route =
     (case lanes self route of
        None \<Rightarrow> (self, [])
      | Some lane \<Rightarrow>
          (with_lane route (\<lambda>l. l\<lparr>pending_emits := []\<rparr>) self, pending_emits lane))"

definition clear_pending_emits_for :: "'e TxLanes \<Rightarrow> DbRoute \<Rightarrow> 'e TxLanes" where
  "clear_pending_emits_for self route =
     with_lane route (\<lambda>lane. lane\<lparr>pending_emits := []\<rparr>) self"

subsection \<open>The guard of a session taken out of its slot\<close>

record TxClientSlotGuard =
  guard_route :: DbRoute
  guard_client :: Session
  guard_completion :: "Completion option"

datatype lanes_error = ConnectionLost

definition guard_take :: "'e TxLanes \<Rightarrow> DbRoute \<Rightarrow> 'e TxLanes \<times> (lanes_error + TxClientSlotGuard)" where
  "guard_take self route =
     (let (self', client) = take_tx_client_for self route;
          completion = transaction_completion self' route
      in (self', case client of
                   None \<Rightarrow> Inl ConnectionLost
                 | Some c \<Rightarrow> Inr \<lparr>guard_route = route, guard_client = c,
                                   guard_completion = completion\<rparr>))"

definition guard_drop :: "'e TxLanes \<Rightarrow> TxClientSlotGuard \<Rightarrow> 'e lanes_result" where
  "guard_drop self guard =
     (case guard_completion guard of
        Some completion \<Rightarrow>
          (if \<not> is_current_in completion self (guard_route guard)
           then (self, [Destroyed (guard_client guard)])
           else put_tx_client_for self (guard_route guard) (guard_client guard))
      | None \<Rightarrow> put_tx_client_for self (guard_route guard) (guard_client guard))"

end
