(* ===== verification/TxLaneRuns.thy ===== *)
theory TxLaneRuns
  imports TxLanes "HOL-Library.Multiset"
begin

text \<open>
  Runs of the transaction lanes: sequences of their operations, each on its own route.

  The lemmas show that a route is isolated from every other one (what its operations return
  and what its lane becomes depend on nothing another route does), that sessions are neither
  lost nor duplicated, that a condemned session never returns to its slot, that a caller
  parked on a claim is woken, and that the flat event queue with its watermarks publishes
  what the frame stack of the reducer publishes.
\<close>

subsection \<open>Operations as data\<close>

datatype 'e lane_op =
  TryClaim Completion
| ReleaseClaim
| PushClaimWaiter Waker
| EnterCallback
| ExitCallback
| ClaimFrame u64 u64
| ReleaseFrame u64 u64
| MarkSettling u64 u64
| ClearSettling u64 u64
| PushFrameWaiter Waker
| Install Session
| Take
| Put Session
| DropGuard Session "Completion option"
| PushSlotWaiter Waker
| InstallCanceller Canceller
| RemoveCanceller
| Admit ExpectedAuthority TxBudgets instant u32 Completion
| Apply TxEvent instant
| Detach
| Retire
| Withdraw
| PushMark
| PopMark
| Discard
| PushEmit 'e
| Drain
| Clear

text \<open>What a caller sees of an operation.\<close>

record 'e seen =
  seen_flag :: bool
  seen_outputs :: "lane_output list"
  seen_sessions :: "Session list"
  seen_events :: "'e list"
  seen_actions :: "Action list option"

definition nothing_seen :: "'e seen" where
  "nothing_seen = \<lparr>seen_flag = False, seen_outputs = [], seen_sessions = [], seen_events = [],
     seen_actions = None\<rparr>"

definition quiet :: "'e TxLanes \<Rightarrow> ('e TxLanes \<times> 'e seen) option" where
  "quiet ls = Some (ls, nothing_seen)"

definition flagged :: "'e TxLanes \<times> bool \<Rightarrow> ('e TxLanes \<times> 'e seen) option" where
  "flagged res = Some (fst res, nothing_seen\<lparr>seen_flag := snd res\<rparr>)"

definition outputs :: "'e lanes_result \<Rightarrow> ('e TxLanes \<times> 'e seen) option" where
  "outputs res = Some (fst res, nothing_seen\<lparr>seen_outputs := snd res\<rparr>)"

definition hands_out :: "'e TxLanes \<times> Session option \<Rightarrow> ('e TxLanes \<times> 'e seen) option" where
  "hands_out res =
     Some (fst res, nothing_seen\<lparr>seen_sessions := (case snd res of None \<Rightarrow> [] | Some s \<Rightarrow> [s])\<rparr>)"

fun lane_step :: "DbRoute \<Rightarrow> 'e lane_op \<Rightarrow> 'e TxLanes \<Rightarrow> ('e TxLanes \<times> 'e seen) option" where
  "lane_step q (TryClaim fresh) ls = flagged (try_claim_tx ls q fresh)"
| "lane_step q ReleaseClaim ls = outputs (release_tx_claim ls q)"
| "lane_step q (PushClaimWaiter w) ls = outputs (push_tx_waiter ls q w)"
| "lane_step q EnterCallback ls = quiet (enter_callback ls q)"
| "lane_step q ExitCallback ls = quiet (exit_callback ls q)"
| "lane_step q (ClaimFrame g f) ls = flagged (claim_frame ls q g f)"
| "lane_step q (ReleaseFrame g f) ls = outputs (release_frame_claim ls q g f)"
| "lane_step q (MarkSettling g f) ls = quiet (mark_frame_settling ls q g f)"
| "lane_step q (ClearSettling g f) ls = quiet (clear_frame_settling ls q g f)"
| "lane_step q (PushFrameWaiter w) ls = outputs (push_frame_waiter ls q w)"
| "lane_step q (Install s) ls = hands_out (install_tx_client ls q s)"
| "lane_step q Take ls = hands_out (take_tx_client_for ls q)"
| "lane_step q (Put s) ls = outputs (put_tx_client_for ls q s)"
| "lane_step q (DropGuard s c) ls =
     outputs (guard_drop ls \<lparr>guard_route = q, guard_client = s, guard_completion = c\<rparr>)"
| "lane_step q (PushSlotWaiter w) ls = outputs (push_tx_slot_waiter ls q w)"
| "lane_step q (InstallCanceller c) ls = quiet (install_tx_canceller ls q c)"
| "lane_step q RemoveCanceller ls = quiet (remove_tx_canceller ls q)"
| "lane_step q (Admit ex b now d fresh) ls =
     (case admit_transaction ls q ex b now d fresh of
        None \<Rightarrow> None
      | Some (ls', actions) \<Rightarrow> Some (ls', nothing_seen\<lparr>seen_actions := Some actions\<rparr>))"
| "lane_step q (Apply e now) ls =
     (case apply_transaction_event ls q e now of
        None \<Rightarrow> None
      | Some (ls', actions, out) \<Rightarrow>
          Some (ls', nothing_seen\<lparr>seen_actions := actions, seen_outputs := out\<rparr>))"
| "lane_step q Detach ls = quiet (detach_transaction_completion ls q)"
| "lane_step q Retire ls = outputs (retire_transaction ls q)"
| "lane_step q Withdraw ls = hands_out (withdraw_tx_session ls q)"
| "lane_step q PushMark ls = quiet (push_frame_emit_mark ls q)"
| "lane_step q PopMark ls = quiet (fst (pop_frame_emit_mark ls q))"
| "lane_step q Discard ls = quiet (discard_frame_effects ls q)"
| "lane_step q (PushEmit ev) ls = quiet (push_pending_emit ls q ev)"
| "lane_step q Drain ls =
     (let (ls', evs) = drain_pending_emits_for ls q
      in Some (ls', nothing_seen\<lparr>seen_events := evs\<rparr>))"
| "lane_step q Clear ls = quiet (clear_pending_emits_for ls q)"

fun lane_run ::
  "(DbRoute \<times> 'e lane_op) list \<Rightarrow> 'e TxLanes \<Rightarrow> ('e TxLanes \<times> (DbRoute \<times> 'e seen) list) option" where
  "lane_run [] ls = Some (ls, [])"
| "lane_run ((q, op) # ops) ls =
     (case lane_step q op ls of
        None \<Rightarrow> None
      | Some (ls', seen) \<Rightarrow>
          (case lane_run ops ls' of
             None \<Rightarrow> None
           | Some (ls'', seens) \<Rightarrow> Some (ls'', (q, seen) # seens)))"

lemmas lane_op_defs =
  try_claim_tx_def release_tx_claim_def push_tx_waiter_def enter_callback_def exit_callback_def
  claim_frame_def release_frame_claim_def mark_frame_settling_def clear_frame_settling_def
  push_frame_waiter_def install_tx_client_def take_tx_client_for_def put_tx_client_for_def
  guard_drop_def is_current_in_def transaction_completion_def push_tx_slot_waiter_def
  install_tx_canceller_def remove_tx_canceller_def admit_transaction_def
  apply_transaction_event_def detach_transaction_completion_def retire_transaction_def
  withdraw_tx_session_def push_frame_emit_mark_def pop_frame_emit_mark_def
  discard_frame_effects_def push_pending_emit_def drain_pending_emits_for_def
  clear_pending_emits_for_def wake_tx_slot_waiters_def with_entry_def entry_or_default_def
  quiet_def flagged_def outputs_def hands_out_def Let_def

subsection \<open>Isolation of routes\<close>

definition view :: "DbRoute \<Rightarrow> 'e TxLanes \<Rightarrow> 'e TxLane option \<times> bool" where
  "view q ls = (lanes ls q, q \<in> withdrawn_tx_sessions ls)"

lemma lane_step_other:
  assumes "lane_step p op ls = Some (ls', seen)" "p \<noteq> q"
  shows "view q ls' = view q ls"
  using assms
  by (cases op) (auto simp: view_def lane_op_defs with_lane_def split: option.splits if_splits prod.splits)

definition same_result ::
  "DbRoute \<Rightarrow> ('e TxLanes \<times> 'e seen) option \<Rightarrow> ('e TxLanes \<times> 'e seen) option \<Rightarrow> bool" where
  "same_result q = rel_option (\<lambda>(ls, seen) (ls', seen'). view q ls = view q ls' \<and> seen = seen')"

lemma lane_step_local:
  assumes "view q ls = view q ls2"
  shows "same_result q (lane_step q op ls) (lane_step q op ls2)"
  using assms
  by (cases op; cases "lanes ls q")
     (auto simp: same_result_def view_def lane_op_defs with_lane_def
      split: option.splits if_splits prod.splits)

lemma lane_run_isolated:
  assumes "view q ls = view q ls2" "lane_run ops ls = Some (ls', seens)"
  shows "\<exists>ls2'. lane_run (filter (\<lambda>x. fst x = q) ops) ls2 = Some (ls2', filter (\<lambda>x. fst x = q) seens) \<and>
     view q ls' = view q ls2'"
  using assms
proof (induction ops arbitrary: ls ls2 seens)
  case (Cons x ops)
  obtain p op where x: "x = (p, op)" by fastforce
  with Cons.prems(2) obtain ls1 seen rest where
    step: "lane_step p op ls = Some (ls1, seen)" "lane_run ops ls1 = Some (ls', rest)"
      "seens = (p, seen) # rest"
    by (auto split: option.splits prod.splits)
  show ?case
  proof (cases "p = q")
    case True
    with lane_step_local[OF Cons.prems(1), of op] step(1) obtain ls3 where
      "lane_step q op ls2 = Some (ls3, seen)" "view q ls1 = view q ls3"
      by (auto simp: same_result_def option_rel_Some1)
    with Cons.IH[OF _ step(2)] True x step(3) show ?thesis by fastforce
  next
    case False
    with lane_step_other[OF step(1)] Cons.prems(1) have "view q ls1 = view q ls2" by simp
    with Cons.IH[OF _ step(2)] False x step(3) show ?thesis by fastforce
  qed
qed simp

text \<open>
  \<^bold>\<open>C29\<close> (SEC-1). A route sees only itself: whatever other tenants or databases do on the
  same thread, interleaved in any way, the lane and the tombstone of a route, and everything
  its own operations return (claims won, sessions handed out, events drained, wakers woken,
  actions of its reducer), are those of the run that contains its own operations alone.
\<close>

theorem routes_do_not_interfere:
  assumes "lane_run ops ls = Some (ls', seens)"
  shows "\<exists>alone. lane_run (filter (\<lambda>(p, _). p = q) ops) ls =
      Some (alone, filter (\<lambda>(p, _). p = q) seens) \<and>
    lanes ls' q = lanes alone q \<and>
    (q \<in> withdrawn_tx_sessions ls' \<longleftrightarrow> q \<in> withdrawn_tx_sessions alone)"
  using lane_run_isolated[OF refl assms, of q] by (auto simp: view_def case_prod_unfold)

definition route_a :: DbRoute where
  "route_a = \<lparr>route_app = ''a'', route_database = Some ''db1''\<rparr>"

definition route_b :: DbRoute where
  "route_b = \<lparr>route_app = ''b'', route_database = Some ''db1''\<rparr>"

definition example_lane_ops :: "(DbRoute \<times> string lane_op) list" where
  "example_lane_ops =
     [(route_a, TryClaim (Completion 1)), (route_b, TryClaim (Completion 2)),
      (route_a, Install (Session 1)), (route_a, PushEmit ''row''), (route_b, Take),
      (route_b, Drain), (route_a, Drain)]"

theorem routes_do_not_interfere_witness:
  "\<exists>ls' seens alone. lane_run example_lane_ops lanes_default = Some (ls', seens) \<and>
     lane_run (filter (\<lambda>(p, _). p = route_b) example_lane_ops) lanes_default =
       Some (alone, filter (\<lambda>(p, _). p = route_b) seens) \<and>
     lanes ls' route_b = lanes alone route_b"
proof -
  have "\<exists>ls' seens. lane_run example_lane_ops lanes_default = Some (ls', seens)"
    by (simp add: example_lane_ops_def lane_op_defs with_lane_def lanes_default_def route_a_def
        route_b_def)
  then show ?thesis using routes_do_not_interfere[of example_lane_ops lanes_default] by fast
qed

subsection \<open>Sessions are conserved\<close>

definition slot_sessions :: "DbRoute \<Rightarrow> 'e TxLanes \<Rightarrow> Session multiset" where
  "slot_sessions q ls =
     (case lanes ls q of
        None \<Rightarrow> {#}
      | Some lane \<Rightarrow> (case lane_session lane of None \<Rightarrow> {#} | Some s \<Rightarrow> {#s#}))"

fun brought_in :: "'e lane_op \<Rightarrow> Session multiset" where
  "brought_in (Install s) = {#s#}"
| "brought_in (Put s) = {#s#}"
| "brought_in (DropGuard s _) = {#s#}"
| "brought_in _ = {#}"

fun destroyed :: "lane_output list \<Rightarrow> Session multiset" where
  "destroyed [] = {#}"
| "destroyed (Destroyed s # out) = add_mset s (destroyed out)"
| "destroyed (_ # out) = destroyed out"

definition went_out :: "'e seen \<Rightarrow> Session multiset" where
  "went_out seen = mset (seen_sessions seen) + destroyed (seen_outputs seen)"

lemma destroyed_append [simp]: "destroyed (as @ bs) = destroyed as + destroyed bs"
  by (induction as rule: destroyed.induct) auto

lemma destroyed_woken [simp]: "destroyed (map Woken ws) = {#}"
  by (induction ws) auto

lemma put_conserves:
  "slot_sessions q (fst (put_tx_client_for ls q s)) + destroyed (snd (put_tx_client_for ls q s)) =
     slot_sessions q ls + {#s#}"
  by (auto simp: slot_sessions_def put_tx_client_for_def wake_tx_slot_waiters_def with_lane_def
      split: option.splits)

lemma guard_conserves:
  "slot_sessions q (fst (guard_drop ls \<lparr>guard_route = q, guard_client = s, guard_completion = c\<rparr>)) +
   destroyed (snd (guard_drop ls \<lparr>guard_route = q, guard_client = s, guard_completion = c\<rparr>)) =
     slot_sessions q ls + {#s#}"
  using put_conserves[of q ls s] by (simp add: guard_drop_def split: option.splits)

lemma release_conserves:
  "slot_sessions q (fst (release_tx_claim ls q)) + destroyed (snd (release_tx_claim ls q)) =
     slot_sessions q ls"
  by (auto simp: slot_sessions_def release_tx_claim_def drop_lane_def split: option.splits)

lemma retire_conserves:
  "slot_sessions q (fst (retire_transaction ls q)) + destroyed (snd (retire_transaction ls q)) =
     slot_sessions q ls"
  by (cases "lanes ls q")
     (auto simp: slot_sessions_def retire_transaction_def wake_tx_slot_waiters_def with_lane_def
      Let_def split: option.splits)

lemma apply_conserves:
  "apply_transaction_event ls q e now = Some (ls', acts, out) \<Longrightarrow>
     slot_sessions q ls' = slot_sessions q ls \<and> destroyed out = {#}"
  by (auto simp: slot_sessions_def apply_transaction_event_def with_lane_def Let_def
      split: option.splits if_splits prod.splits)

lemma admit_conserves:
  "admit_transaction ls q ex b now d c = Some (ls', acts) \<Longrightarrow>
     slot_sessions q ls' = slot_sessions q ls"
  by (auto simp: slot_sessions_def admit_transaction_def with_entry_def entry_or_default_def
      lane_default_def Let_def split: option.splits prod.splits)

lemmas seen_defs = went_out_def nothing_seen_def quiet_def flagged_def outputs_def hands_out_def

lemma lane_step_conserves:
  assumes "lane_step q op ls = Some (ls', seen)"
  shows "slot_sessions q ls' + went_out seen = slot_sessions q ls + brought_in op"
proof (cases op)
  case (Put s)
  then show ?thesis using assms put_conserves by (auto simp: seen_defs)
next
  case (DropGuard s c)
  then show ?thesis using assms guard_conserves by (auto simp: seen_defs)
next
  case ReleaseClaim
  then show ?thesis using assms release_conserves by (auto simp: seen_defs)
next
  case Retire
  then show ?thesis using assms retire_conserves by (auto simp: seen_defs)
next
  case (Admit ex b now d c)
  then show ?thesis using assms admit_conserves[of ls q ex b now d c ls']
    by (auto simp: seen_defs split: option.splits)
next
  case (Apply e now)
  then show ?thesis using assms apply_conserves[of ls q e now ls']
    by (auto simp: seen_defs split: option.splits)
qed (use assms in \<open>auto simp: slot_sessions_def went_out_def nothing_seen_def lane_op_defs
    with_lane_def lane_default_def split: option.splits if_splits\<close>)

text \<open>
  No session is lost or duplicated: in any run, the sessions brought to a route
  together with the one in its slot at the start are, as a multiset, the ones handed out or
  destroyed there together with the one in its slot at the end.
\<close>

theorem sessions_are_conserved:
  assumes "lane_run ops ls = Some (ls', seens)"
  shows "slot_sessions q ls' + (\<Sum>(p, seen) \<leftarrow> seens. if p = q then went_out seen else {#}) =
    slot_sessions q ls + (\<Sum>(p, op) \<leftarrow> ops. if p = q then brought_in op else {#})"
  using assms
proof (induction ops arbitrary: ls seens)
  case (Cons x ops)
  obtain p op where x: "x = (p, op)" by fastforce
  with Cons.prems obtain ls1 seen rest where
    step: "lane_step p op ls = Some (ls1, seen)" "lane_run ops ls1 = Some (ls', rest)"
      "seens = (p, seen) # rest"
    by (auto split: option.splits prod.splits)
  show ?case
  proof (cases "p = q")
    case True
    let ?out = "\<Sum>(p, seen) \<leftarrow> rest. if p = q then went_out seen else {#}"
    let ?in = "\<Sum>(p, op) \<leftarrow> ops. if p = q then brought_in op else {#}"
    have "slot_sessions q ls' + (went_out seen + ?out) = (slot_sessions q ls1 + went_out seen) + ?in"
      using Cons.IH[OF step(2)] by (simp add: ac_simps)
    also have "\<dots> = slot_sessions q ls + (brought_in op + ?in)"
      using lane_step_conserves[of q op ls ls1 seen] step(1) True by (simp add: ac_simps)
    finally show ?thesis using step(3) x True by simp
  next
    case False
    with lane_step_other[OF step(1) False] have "slot_sessions q ls1 = slot_sessions q ls"
      by (simp add: view_def slot_sessions_def)
    with Cons.IH[OF step(2)] step(3) x False show ?thesis by simp
  qed
qed simp

definition example_race :: "(DbRoute \<times> string lane_op) list" where
  "example_race =
     [(route_a, TryClaim (Completion 1)), (route_a, Install (Session 1)), (route_a, Take),
      (route_a, Withdraw), (route_a, Retire), (route_a, ReleaseClaim), (route_a, Put (Session 1))]"

lemma example_race_runs: "\<exists>ls' seens. lane_run example_race lanes_default = Some (ls', seens)"
  by (simp add: example_race_def lane_op_defs with_lane_def lanes_default_def route_a_def)

theorem sessions_are_conserved_witness:
  "\<exists>ls' seens. lane_run example_race lanes_default = Some (ls', seens) \<and>
     slot_sessions route_a ls' +
       (\<Sum>(p, seen) \<leftarrow> seens. if p = route_a then went_out seen else {#}) =
     {#Session 1, Session 1#}"
proof -
  obtain ls' seens where run: "lane_run example_race lanes_default = Some (ls', seens)"
    using example_race_runs by blast
  have "slot_sessions route_a (lanes_default :: string TxLanes) +
      (\<Sum>(p, op) \<leftarrow> example_race. if p = route_a then brought_in op else {#}) =
    {#Session 1, Session 1#}"
    by (simp add: example_race_def slot_sessions_def lanes_default_def)
  with sessions_are_conserved[OF run, of route_a] run show ?thesis by metis
qed

subsection \<open>A condemned session\<close>

definition reopens :: "'e lane_op \<Rightarrow> bool" where
  "reopens op = (case op of Admit _ _ _ _ _ \<Rightarrow> True | Install _ \<Rightarrow> True | _ \<Rightarrow> False)"

definition condemned :: "DbRoute \<Rightarrow> 'e TxLanes \<Rightarrow> bool" where
  "condemned q ls \<longleftrightarrow> q \<in> withdrawn_tx_sessions ls \<and> slot_sessions q ls = {#}"

lemma condemned_view: "view q ls = view q ls' \<Longrightarrow> condemned q ls = condemned q ls'"
  by (simp add: condemned_def view_def slot_sessions_def)

lemma withdraw_condemns: "condemned q (fst (withdraw_tx_session ls q))"
  by (auto simp: condemned_def slot_sessions_def withdraw_tx_session_def take_tx_client_for_def
      with_lane_def Let_def split: option.splits)

lemma lane_step_withdrawn:
  assumes "lane_step q op ls = Some (ls', seen)" "\<not> reopens op" "q \<in> withdrawn_tx_sessions ls"
  shows "q \<in> withdrawn_tx_sessions ls'"
  using assms
  by (cases op) (auto simp: reopens_def lane_op_defs with_lane_def split: option.splits if_splits prod.splits)

lemma condemned_step:
  assumes "lane_step q op ls = Some (ls', seen)" "\<not> reopens op" "condemned q ls"
  shows "condemned q ls' \<and> brought_in op \<subseteq># went_out seen"
proof -
  have w: "q \<in> withdrawn_tx_sessions ls'"
    using lane_step_withdrawn[OF assms(1,2)] assms(3) by (simp add: condemned_def)
  have "slot_sessions q ls' = {#} \<and> brought_in op \<subseteq># went_out seen"
  proof (cases "brought_in op = {#}")
    case True
    with lane_step_conserves[OF assms(1)] assms(3) show ?thesis by (simp add: condemned_def)
  next
    case False
    then obtain s c where "op = Put s \<or> op = DropGuard s c"
      using assms(2) by (cases op) (auto simp: reopens_def)
    with assms show ?thesis
      by (auto simp: condemned_def lane_op_defs went_out_def nothing_seen_def split: option.splits if_splits)
  qed
  with w show ?thesis by (simp add: condemned_def)
qed

text \<open>
  Once a route's session has been withdrawn, until the next transaction is admitted
  there (or a session newly installed), whatever happens on the thread, every session that is
  returned to the route is handed out or destroyed and the slot stays empty: a condemned
  session cannot come back through a late return, even after its lane is gone.
\<close>

theorem condemned_session_never_returns:
  assumes "lane_run ops (fst (withdraw_tx_session ls q)) = Some (ls', seens)"
    and "\<forall>(p, op) \<in> set ops. p = q \<longrightarrow> \<not> reopens op"
  shows "slot_sessions q ls' = {#} \<and> q \<in> withdrawn_tx_sessions ls' \<and>
    (\<Sum>(p, op) \<leftarrow> ops. if p = q then brought_in op else {#}) \<subseteq>#
    (\<Sum>(p, seen) \<leftarrow> seens. if p = q then went_out seen else {#})"
proof -
  have "condemned q ls' \<and>
    (\<Sum>(p, op) \<leftarrow> ops. if p = q then brought_in op else {#}) \<subseteq>#
    (\<Sum>(p, seen) \<leftarrow> seens. if p = q then went_out seen else {#})"
    if "lane_run ops l0 = Some (ls', seens)" "condemned q l0" for l0
    using that assms(2)
  proof (induction ops arbitrary: l0 seens)
    case (Cons x ops)
    obtain p op where x: "x = (p, op)" by fastforce
    with Cons.prems(1) obtain l1 seen rest where
      step: "lane_step p op l0 = Some (l1, seen)" "lane_run ops l1 = Some (ls', rest)"
        "seens = (p, seen) # rest"
      by (auto split: option.splits prod.splits)
    have c: "condemned q l1 \<and> (p = q \<longrightarrow> brought_in op \<subseteq># went_out seen)"
    proof (cases "p = q")
      case True
      with condemned_step[of q op l0 l1 seen] step(1) Cons.prems x show ?thesis by auto
    next
      case False
      with lane_step_other[OF step(1) False] Cons.prems(2) condemned_view show ?thesis by blast
    qed
    with Cons.IH[OF step(2)] Cons.prems(3) step(3) x show ?case
      by (auto intro: subset_mset.add_mono)
  qed simp
  from this[OF assms(1) withdraw_condemns] show ?thesis by (simp add: condemned_def)
qed

theorem condemned_session_never_returns_witness:
  "\<exists>ls' seens. lane_run [(route_a, ReleaseClaim), (route_b, TryClaim (Completion 2)), (route_a, Put (Session 1))]
       (fst (withdraw_tx_session (lanes_default :: string TxLanes) route_a)) = Some (ls', seens) \<and>
     slot_sessions route_a ls' = {#}"
proof -
  let ?ops = "[(route_a, ReleaseClaim), (route_b, TryClaim (Completion 2)),
      (route_a, Put (Session 1))] :: (DbRoute \<times> string lane_op) list"
  let ?ls = "fst (withdraw_tx_session (lanes_default :: string TxLanes) route_a)"
  have "\<exists>ls' seens. lane_run ?ops ?ls = Some (ls', seens)"
    by (simp add: lane_op_defs with_lane_def lanes_default_def route_a_def route_b_def)
  moreover have "\<forall>(p, op) \<in> set ?ops. p = route_a \<longrightarrow> \<not> reopens op"
    by (simp add: reopens_def)
  ultimately show ?thesis using condemned_session_never_returns by blast
qed

subsection \<open>Claims\<close>

definition claim_parked :: "DbRoute \<Rightarrow> Waker \<Rightarrow> 'e TxLanes \<Rightarrow> bool" where
  "claim_parked q w ls =
     (case lanes ls q of None \<Rightarrow> False | Some lane \<Rightarrow> w \<in> set (claim_waiters lane))"

definition grants_claim :: "'e lane_op \<Rightarrow> 'e seen \<Rightarrow> bool" where
  "grants_claim op seen = (case op of TryClaim _ \<Rightarrow> seen_flag seen | _ \<Rightarrow> False)"

lemma claimed_step:
  assumes "lane_step q op ls = Some (ls', seen)" "tx_claimed_by ls q" "op \<noteq> ReleaseClaim"
  shows "tx_claimed_by ls' q \<and> \<not> grants_claim op seen \<and> (claim_parked q w ls \<longrightarrow> claim_parked q w ls')"
  using assms
  by (cases op)
     (auto simp: tx_claimed_by_def grants_claim_def claim_parked_def nothing_seen_def lane_op_defs
      with_lane_def split: option.splits if_splits prod.splits)

lemma claimed_run:
  assumes "lane_run ops ls = Some (ls', seens)" "tx_claimed_by ls q"
    and "\<forall>(p, op) \<in> set ops. p = q \<longrightarrow> op \<noteq> ReleaseClaim"
  shows "tx_claimed_by ls' q \<and> (claim_parked q w ls \<longrightarrow> claim_parked q w ls') \<and>
    list_all2 (\<lambda>(p, op) (_, seen). p = q \<longrightarrow> \<not> grants_claim op seen) ops seens"
  using assms
proof (induction ops arbitrary: ls seens)
  case (Cons x ops)
  obtain p op where x: "x = (p, op)" by fastforce
  with Cons.prems(1) obtain ls1 seen rest where
    step: "lane_step p op ls = Some (ls1, seen)" "lane_run ops ls1 = Some (ls', rest)"
      "seens = (p, seen) # rest"
    by (auto split: option.splits prod.splits)
  have "tx_claimed_by ls1 q \<and> (claim_parked q w ls \<longrightarrow> claim_parked q w ls1) \<and>
      (p = q \<longrightarrow> \<not> grants_claim op seen)"
  proof (cases "p = q")
    case True
    with claimed_step[of q op ls ls1 seen w] step(1) Cons.prems x show ?thesis by auto
  next
    case False
    with lane_step_other[OF step(1) False] Cons.prems(2) show ?thesis
      by (simp add: view_def tx_claimed_by_def claim_parked_def)
  qed
  with Cons.IH[OF step(2)] Cons.prems(3) step(3) x show ?case by auto
qed simp

text \<open>
  A route has at most one claim holder, and a caller parked on the claim is never
  forgotten: in any run without a release of that route's claim, no other claim on it is
  granted and a parked waker stays parked; and the release wakes it.
\<close>

theorem claim_is_exclusive_and_waiters_are_woken:
  assumes "lane_run ops ls = Some (ls', seens)" "tx_claimed_by ls q"
    and "\<forall>(p, op) \<in> set ops. p = q \<longrightarrow> op \<noteq> ReleaseClaim"
  shows "tx_claimed_by ls' q \<and>
    list_all2 (\<lambda>(p, op) (_, seen). p = q \<longrightarrow> \<not> grants_claim op seen) ops seens \<and>
    (claim_parked q w ls \<longrightarrow> Woken w \<in> set (snd (release_tx_claim ls' q)))"
  using claimed_run[OF assms, of w]
  by (auto simp: claim_parked_def release_tx_claim_def split: option.splits)

definition example_claimed :: "string TxLanes" where
  "example_claimed =
     fst (push_tx_waiter (fst (try_claim_tx lanes_default route_a (Completion 1))) route_a (Waker 5))"

theorem claim_is_exclusive_and_waiters_are_woken_witness:
  "\<exists>ls' seens. lane_run [(route_b, TryClaim (Completion 2)), (route_a, TryClaim (Completion 3))]
       example_claimed = Some (ls', seens) \<and>
     Woken (Waker 5) \<in> set (snd (release_tx_claim ls' route_a))"
proof -
  let ?ops = "[(route_b, TryClaim (Completion 2)), (route_a, TryClaim (Completion 3))]
     :: (DbRoute \<times> string lane_op) list"
  have "\<exists>ls' seens. lane_run ?ops example_claimed = Some (ls', seens)"
    by (simp add: flagged_def)
  moreover have "tx_claimed_by example_claimed route_a" "claim_parked route_a (Waker 5) example_claimed"
    by (simp_all add: example_claimed_def tx_claimed_by_def claim_parked_def push_tx_waiter_def
        try_claim_tx_def with_lane_def lanes_default_def)
  moreover have "\<forall>(p, op) \<in> set ?ops. p = route_a \<longrightarrow> op \<noteq> ReleaseClaim" by simp
  ultimately show ?thesis
    using claim_is_exclusive_and_waiters_are_woken[of ?ops example_claimed _ _ route_a "Waker 5"] by blast
qed

text \<open>
  Queueing a change event, marking a frame, installing a session or a canceller on a
  route with no lane opens one, which is a claim nobody holds: from then on every
  \<^verbatim>\<open>try_claim_tx\<close> on the route is refused. \<^verbatim>\<open>TxLane\<close> documents itself as created by
  \<^verbatim>\<open>try_claim_tx\<close>.
\<close>

theorem stray_event_claims_the_route:
  assumes "\<not> tx_claimed_by ls q"
  shows "tx_claimed_by (push_pending_emit ls q ev) q \<and>
    \<not> snd (try_claim_tx (push_pending_emit ls q ev) q fresh) \<and>
    tx_claimed_by (push_frame_emit_mark ls q) q \<and>
    tx_claimed_by (fst (install_tx_client ls q s)) q"
  by (simp add: tx_claimed_by_def push_pending_emit_def push_frame_emit_mark_def
      install_tx_client_def with_entry_def try_claim_tx_def)

theorem stray_event_claims_the_route_witness:
  "\<not> snd (try_claim_tx (push_pending_emit (lanes_default :: string TxLanes) route_a ''row'')
     route_a (Completion 1))"
  using stray_event_claims_the_route[of "lanes_default :: string TxLanes" route_a]
  by (simp add: tx_claimed_by_def lanes_default_def)

text \<open>
  While a guard holds the session out of its slot, \<^verbatim>\<open>has_tx_for\<close> answers that the
  route has no transaction, although its documentation says it answers true between a take
  and the matching return.
\<close>

theorem taken_session_reads_as_no_transaction:
  "\<not> has_tx_for (fst (take_tx_client_for ls q)) q"
  by (simp add: has_tx_for_def take_tx_client_for_def with_lane_def split: option.splits)

subsection \<open>The event queue of a lane as an effect buffer\<close>

text \<open>
  The watermarks cut the queue into the events of the open frames. Marks are given newest
  first.
\<close>

fun cut :: "nat list \<Rightarrow> 'e list \<Rightarrow> 'e list list" where
  "cut [] evs = [evs]"
| "cut (m # ms) evs = cut ms (take m evs) @ [drop m evs]"

fun marks_ok :: "nat list \<Rightarrow> nat \<Rightarrow> bool" where
  "marks_ok [] n = True"
| "marks_ok (m # ms) n = (m \<le> n \<and> marks_ok ms m)"

lemma cut_append:
  "marks_ok ms (length evs) \<Longrightarrow> cut ms (evs @ fs) = map_last (\<lambda>es. es @ fs) (cut ms evs)"
  by (cases ms) auto

lemma cut_nonempty [simp]: "cut ms evs \<noteq> []"
  by (cases ms) auto

lemma concat_cut [simp]: "marks_ok ms (length evs) \<Longrightarrow> concat (cut ms evs) = evs"
  by (induction ms evs rule: cut.induct) auto

lemma marks_ok_mono: "marks_ok ms n \<Longrightarrow> n \<le> n' \<Longrightarrow> marks_ok ms n'"
  by (cases ms) auto

definition lane_at :: "DbRoute \<Rightarrow> 'e TxLanes \<Rightarrow> 'e TxLane" where
  "lane_at q ls = entry_or_default q ls"

definition queue_ok :: "DbRoute \<Rightarrow> 'e TxLanes \<Rightarrow> bool" where
  "queue_ok q ls \<longleftrightarrow> lanes ls q \<noteq> None \<and>
     marks_ok (rev (emit_marks (lane_at q ls))) (length (pending_emits (lane_at q ls)))"

definition queue_levels :: "DbRoute \<Rightarrow> 'e TxLanes \<Rightarrow> 'e list list" where
  "queue_levels q ls = cut (rev (emit_marks (lane_at q ls))) (pending_emits (lane_at q ls))"

text \<open>The calls the driver makes once the statement of a frame command has succeeded.\<close>

definition queue_open :: "DbRoute \<Rightarrow> 'e TxLanes \<Rightarrow> 'e TxLanes option" where
  "queue_open q ls = Some (push_frame_emit_mark ls q)"

definition queue_emit :: "DbRoute \<Rightarrow> 'e \<Rightarrow> 'e TxLanes \<Rightarrow> 'e TxLanes option" where
  "queue_emit q ev ls = Some (push_pending_emit ls q ev)"

definition queue_release :: "DbRoute \<Rightarrow> 'e TxLanes \<Rightarrow> 'e TxLanes option" where
  "queue_release q ls = Some (fst (pop_frame_emit_mark ls q))"

definition queue_rollback :: "DbRoute \<Rightarrow> 'e TxLanes \<Rightarrow> 'e TxLanes option" where
  "queue_rollback q ls = queue_release q (discard_frame_effects ls q)"

definition queue_drain :: "DbRoute \<Rightarrow> 'e TxLanes \<Rightarrow> 'e list" where
  "queue_drain q ls = snd (drain_pending_emits_for ls q)"

lemma queue_two:
  assumes "queue_ok q ls" "queue_levels q ls = ls' @ [outer, inner]"
  obtains lane ms m where "lanes ls q = Some lane" "emit_marks lane = ms @ [m]"
    "m \<le> length (pending_emits lane)" "marks_ok (rev ms) m"
    "cut (rev ms) (take m (pending_emits lane)) = ls' @ [outer]" "drop m (pending_emits lane) = inner"
proof -
  from assms(1) obtain lane where lane: "lanes ls q = Some lane"
    "marks_ok (rev (emit_marks lane)) (length (pending_emits lane))"
    by (auto simp: queue_ok_def lane_at_def entry_or_default_def)
  with assms(2) have cut: "cut (rev (emit_marks lane)) (pending_emits lane) = ls' @ [outer, inner]"
    by (simp add: queue_levels_def lane_at_def entry_or_default_def)
  then obtain ms m where ms: "emit_marks lane = ms @ [m]"
    by (cases "emit_marks lane" rule: rev_cases) auto
  with cut have "cut (rev ms) (take m (pending_emits lane)) @ [drop m (pending_emits lane)] =
      (ls' @ [outer]) @ [inner]" by simp
  then have "cut (rev ms) (take m (pending_emits lane)) = ls' @ [outer]"
    "drop m (pending_emits lane) = inner" by (metis append1_eq_conv)+
  with lane ms that show thesis by simp
qed

lemmas queue_defs = queue_ok_def queue_levels_def queue_open_def queue_emit_def queue_release_def
  queue_rollback_def queue_drain_def lane_at_def entry_or_default_def with_entry_def with_lane_def
  push_frame_emit_mark_def push_pending_emit_def pop_frame_emit_mark_def discard_frame_effects_def
  drain_pending_emits_for_def

interpretation lane: effect_buffer "queue_ok q" "\<lambda>_. n" "queue_levels q" "queue_open q"
  "queue_emit q" "queue_release q" "queue_rollback q" "queue_drain q" for q n
proof (unfold_locales, goal_cases)
  case (1 s)
  then show ?case by (simp add: queue_levels_def)
next
  case (2 s)
  then show ?case by (auto simp: queue_defs)
next
  case (3 s e)
  then show ?case by (auto simp: queue_defs cut_append intro: marks_ok_mono)
next
  case (4 s ls outer inner)
  from 4 obtain lane ms m where q: "lanes s q = Some lane" "emit_marks lane = ms @ [m]"
    "m \<le> length (pending_emits lane)" "marks_ok (rev ms) m"
    "cut (rev ms) (take m (pending_emits lane)) = ls @ [outer]" "drop m (pending_emits lane) = inner"
    by (rule queue_two)
  have "cut (rev ms) (take m (pending_emits lane) @ drop m (pending_emits lane)) = ls @ [outer @ inner]"
    by (subst cut_append) (use q in simp_all)
  with q show ?case by (auto simp: queue_defs intro: marks_ok_mono)
next
  case (5 s ls outer inner)
  from 5 obtain lane ms m where q: "lanes s q = Some lane" "emit_marks lane = ms @ [m]"
    "m \<le> length (pending_emits lane)" "marks_ok (rev ms) m"
    "cut (rev ms) (take m (pending_emits lane)) = ls @ [outer]" "drop m (pending_emits lane) = inner"
    by (rule queue_two)
  then show ?case by (auto simp: queue_defs)
next
  case (6 s)
  then show ?case by (auto simp: queue_defs)
qed

primrec queue_body :: "DbRoute \<Rightarrow> 'e body \<Rightarrow> 'e TxLanes \<Rightarrow> 'e TxLanes option"
  and queue_bodies :: "DbRoute \<Rightarrow> 'e body list \<Rightarrow> 'e TxLanes \<Rightarrow> 'e TxLanes option" where
  "queue_body q (Emit x) ls = queue_emit q x ls"
| "queue_body q (Sub released bs) ls =
     Option.bind (queue_open q ls) (\<lambda>ls1.
       Option.bind (queue_bodies q bs ls1) (\<lambda>ls2.
         if released then queue_release q ls2 else queue_rollback q ls2))"
| "queue_bodies q [] ls = Some ls"
| "queue_bodies q (b # bs) ls = Option.bind (queue_body q b ls) (queue_bodies q bs)"

lemma queue_body_run:
  "queue_body q b ls = lane.run_body q b ls"
  "queue_bodies q bs ls = lane.run_all q bs ls"
proof (induction b and bs arbitrary: ls and ls rule: queue_body.induct queue_bodies.induct)
  case (Sub released bs)
  have "queue_bodies q bs = lane.run_all q bs" using Sub by auto
  then show ?case by simp
next
  case (Cons_body b bs)
  have "queue_bodies q bs = lane.run_all q bs" using Cons_body by auto
  with Cons_body show ?case by simp
qed simp_all

text \<open>
  \<^bold>\<open>C37\<close>. The two buffers agree: for a transaction body nested no deeper than the cap, the
  flat queue of the lane with its watermarks drains, on commit, exactly the effects the
  reducer's frame stack publishes for the same body.
\<close>

theorem lane_queue_agrees_with_the_reducer:
  assumes "live r" "frame_levels (frames r) = [[]]" "nesting_all bs \<le> unat (max_depth (frames r))"
    and "lanes ls q = Some lane" "emit_marks lane = []" "pending_emits lane = []"
  shows "\<exists>r' ls'. tx_bodies now bs r = Some r' \<and> queue_bodies q bs ls = Some ls' \<and>
    snd (drain_pending_emits_for ls' q) = tx_commit now r'"
proof -
  have "queue_ok q ls" "queue_levels q ls = [[]]" using assms(4-6) by (simp_all add: queue_defs)
  from lane.run_publishes[OF this, of bs "nesting_all bs"] obtain ls' where
    "queue_bodies q bs ls = Some ls'" "queue_drain q ls' = surviving_all bs"
    by (auto simp: queue_body_run)
  moreover obtain r' where "tx_bodies now bs r = Some r'" "tx_commit now r' = surviving_all bs"
    using reducer.run_publishes[OF assms(1-3), of now] by (auto simp: tx_body_run)
  ultimately show ?thesis by (auto simp: queue_drain_def)
qed

theorem lane_queue_agrees_with_the_reducer_witness:
  "\<exists>r' ls'. tx_bodies 3 example_body (example_state example_open) = Some r' \<and>
     queue_bodies route_a example_body (fst (try_claim_tx lanes_default route_a (Completion 1))) = Some ls' \<and>
     snd (drain_pending_emits_for ls' route_a) = tx_commit 3 r'"
proof -
  let ?r = "example_state example_open"
  have frames: "stack_frames (frames ?r) =
      [\<lparr>frame_id = FrameId 1, frame_savepoint = None, frame_status = Open, frame_effects = []\<rparr>]"
    "state ?r = Idle" "cleanup ?r = None" "nesting_all example_body \<le> unat (max_depth (frames ?r))"
    by code_simp+
  then have r: "live ?r" "frame_levels (frames ?r) = [[]]"
    by (simp_all add: live_def frames_ready_def frame_levels_def shape_wf_simps is_root_def)
  show ?thesis
    by (rule lane_queue_agrees_with_the_reducer[OF r frames(4),
          where lane = "lane_default\<lparr>lane_completion := Some (Completion 1)\<rparr>"])
       (simp_all add: try_claim_tx_def lanes_default_def lane_default_def)
qed

end
