(* ===== verification/PolGlob.thy ===== *)
theory PolGlob
  imports Prelude "HOL-Library.List_Lexorder" "HOL-Library.Product_Lexorder" "HOL-Library.Sublist"
begin

text \<open>
  Single-segment identifier globs of the migration policy
  (\<^verbatim>\<open>crates/zeroship-migrate-policy/src/scope/glob.rs\<close>). A segment is a list of bytes; a glob is
  a literal, or a prefix and a suffix around one star.

  \<^verbatim>\<open>BTreeSet<SegGlob>\<close> is a finite set over the derived lexicographic order, iterated in that
  order. \<^verbatim>\<open>from_utf8_lossy\<close> is only applied to pieces of valid text, where it is the identity.

  The lemmas show that \<open>seg_covers\<close> decides inclusion and that \<open>intersect_seg\<close> denotes the
  intersection, both exactly, with the matcher \<open>seg_matches\<close> as the ground truth.
\<close>

subsection \<open>Globs and their order\<close>

type_synonym bytes = "u8 list"

datatype SegGlob = SegGlob (seg_prefix: bytes) (seg_suffix: bytes) (seg_has_star: bool)

instantiation SegGlob :: linorder
begin

definition less_eq_SegGlob :: "SegGlob \<Rightarrow> SegGlob \<Rightarrow> bool" where
  "less_eq_SegGlob a b \<longleftrightarrow>
     (seg_prefix a, seg_suffix a, seg_has_star a) \<le> (seg_prefix b, seg_suffix b, seg_has_star b)"

definition less_SegGlob :: "SegGlob \<Rightarrow> SegGlob \<Rightarrow> bool" where
  "less_SegGlob a b \<longleftrightarrow>
     (seg_prefix a, seg_suffix a, seg_has_star a) < (seg_prefix b, seg_suffix b, seg_has_star b)"

instance
  by standard
     (auto simp: less_eq_SegGlob_def less_SegGlob_def less_le_not_le intro: SegGlob.expand)

end

subsection \<open>Constructors and accessors\<close>

definition literal :: "bytes \<Rightarrow> SegGlob" where
  "literal bs = SegGlob bs [] False"

definition star :: SegGlob where
  "star = SegGlob [] [] True"

definition infix_glob :: "bytes \<Rightarrow> bytes \<Rightarrow> SegGlob" where
  "infix_glob p s = SegGlob p s True"

definition star_byte :: u8 where
  "star_byte = 0x2A"

text \<open>The positions of the stars, as the source's iterator yields them.\<close>

definition star_positions :: "bytes \<Rightarrow> nat list" where
  "star_positions bs = filter (\<lambda>i. bs ! i = star_byte) [0..<length bs]"

definition seg_parse :: "bytes \<Rightarrow> SegGlob option" where
  "seg_parse bs =
     (case star_positions bs of
        [] \<Rightarrow> Some (literal bs)
      | [i] \<Rightarrow> Some (infix_glob (take i bs) (drop (i + 1) bs))
      | _ \<Rightarrow> None)"

definition is_star :: "SegGlob \<Rightarrow> bool" where
  "is_star self \<longleftrightarrow> seg_has_star self \<and> seg_prefix self = [] \<and> seg_suffix self = []"

definition is_literal :: "SegGlob \<Rightarrow> bool" where
  "is_literal self \<longleftrightarrow> \<not> seg_has_star self"

definition seg_render :: "SegGlob \<Rightarrow> bytes" where
  "seg_render self =
     (if seg_has_star self then seg_prefix self @ [star_byte] @ seg_suffix self
      else seg_prefix self)"

definition seg_matches :: "SegGlob \<Rightarrow> bytes \<Rightarrow> bool" where
  "seg_matches self w =
     (if seg_has_star self
      then length w \<ge> length (seg_prefix self) + length (seg_suffix self) \<and>
           prefix (seg_prefix self) w \<and> suffix (seg_suffix self) w
      else w = seg_prefix self)"

definition seg_covers :: "SegGlob \<Rightarrow> SegGlob \<Rightarrow> bool" where
  "seg_covers self other =
     (case (seg_has_star self, seg_has_star other) of
        (False, False) \<Rightarrow> seg_prefix self = seg_prefix other
      | (False, True) \<Rightarrow> False
      | (True, False) \<Rightarrow> seg_matches self (seg_prefix other)
      | (True, True) \<Rightarrow>
          prefix (seg_prefix self) (seg_prefix other) \<and>
          suffix (seg_suffix self) (seg_suffix other))"

subsection \<open>Intersection\<close>

definition longer_prefix :: "bytes \<Rightarrow> bytes \<Rightarrow> bytes option" where
  "longer_prefix x y =
     (if prefix y x then Some x else if prefix x y then Some y else None)"

definition longer_suffix :: "bytes \<Rightarrow> bytes \<Rightarrow> bytes option" where
  "longer_suffix x y =
     (if suffix y x then Some x else if suffix x y then Some y else None)"

definition enumerate_prefix_suffix ::
  "bytes \<Rightarrow> bytes \<Rightarrow> nat \<Rightarrow> SegGlob fset \<Rightarrow> SegGlob fset" where
  "enumerate_prefix_suffix p s min_len out =
     (let base = length p + length s;
          out = (if min_len \<le> base then finsert (infix_glob p s) out else out)
      in fold (\<lambda>o' out.
            if drop (length p - o') p = take o' s then
              let lit = p @ drop o' s
              in if length lit \<ge> min_len then finsert (literal lit) out else out
            else out)
          [1..<min (length p) (length s) + 1] out)"

definition subsume :: "SegGlob fset \<Rightarrow> SegGlob fset" where
  "subsume globs =
     (let v = sorted_list_of_fset globs
      in fset_of_list (filter (\<lambda>g. \<not> list_ex (\<lambda>h. h \<noteq> g \<and> seg_covers h g) v) v))"

definition intersect_seg :: "SegGlob \<Rightarrow> SegGlob \<Rightarrow> SegGlob fset" where
  "intersect_seg a b =
     (case (seg_has_star a, seg_has_star b) of
        (False, False) \<Rightarrow> subsume (if seg_prefix a = seg_prefix b then {|a|} else {||})
      | (False, True) \<Rightarrow> subsume (if seg_matches b (seg_prefix a) then {|a|} else {||})
      | (True, False) \<Rightarrow> subsume (if seg_matches a (seg_prefix b) then {|b|} else {||})
      | (True, True) \<Rightarrow>
          (case (longer_prefix (seg_prefix a) (seg_prefix b),
                 longer_suffix (seg_suffix a) (seg_suffix b)) of
             (Some p, Some s) \<Rightarrow>
               subsume (enumerate_prefix_suffix p s
                 (max (length (seg_prefix a) + length (seg_suffix a))
                      (length (seg_prefix b) + length (seg_suffix b))) {||})
           | _ \<Rightarrow> {||}))"

subsection \<open>Cover decides inclusion\<close>

lemma seg_matches_simps [simp]:
  "seg_matches (literal bs) w \<longleftrightarrow> w = bs"
  "seg_matches (infix_glob p s) w \<longleftrightarrow>
     length p + length s \<le> length w \<and> prefix p w \<and> suffix s w"
  "seg_matches star w"
  by (simp_all add: seg_matches_def literal_def infix_glob_def star_def)

lemma other_byte: "\<exists>b :: u8. b \<noteq> a"
  by (rule exI[of _ "a + 1"]) simp

lemma suffix_simps [simp]: "suffix s (p @ s)" "suffix s (p @ m @ s)" "suffix s (p @ b # s)"
  by (auto simp: suffix_def intro: exI[of _ p] exI[of _ "p @ m"] exI[of _ "p @ [b]"])

lemma prefix_of_all:
  fixes p s q :: bytes
  assumes "\<And>w. prefix p w \<Longrightarrow> suffix s w \<Longrightarrow> length p + length s \<le> length w \<Longrightarrow> prefix q w"
  shows "prefix q p"
proof (cases "length q \<le> length p")
  case True
  have "prefix q (p @ s)" by (rule assms) auto
  with True show ?thesis by (metis prefix_length_prefix prefixI)
next
  case False
  obtain b where b: "b \<noteq> q ! length p" using other_byte by blast
  have "prefix q (p @ b # s)" by (rule assms) auto
  then obtain r where "p @ b # s = q @ r" by (auto simp: prefix_def)
  then have "(p @ b # s) ! length p = q ! length p"
    using False by (metis linorder_not_le nth_append)
  with b show ?thesis by simp
qed

lemma suffix_of_all:
  fixes p s q :: bytes
  assumes "\<And>w. prefix p w \<Longrightarrow> suffix s w \<Longrightarrow> length p + length s \<le> length w \<Longrightarrow> suffix q w"
  shows "suffix q s"
proof -
  have "prefix (rev q) (rev s)"
  proof (rule prefix_of_all)
    fix w assume "prefix (rev s) w" "suffix (rev p) w" "length (rev s) + length (rev p) \<le> length w"
    then show "prefix (rev q) w"
      using assms[of "rev w"] by (simp add: suffix_to_prefix)
  qed
  then show ?thesis by (simp add: suffix_to_prefix)
qed

lemma seg_covers_matches:
  assumes "seg_covers a b" "seg_matches b w"
  shows "seg_matches a w"
proof (cases "seg_has_star a \<and> seg_has_star b")
  case True
  with assms have "prefix (seg_prefix a) (seg_prefix b)" "suffix (seg_suffix a) (seg_suffix b)"
      "prefix (seg_prefix b) w" "suffix (seg_suffix b) w"
      "length (seg_prefix b) + length (seg_suffix b) \<le> length w"
    by (simp_all add: seg_covers_def seg_matches_def)
  moreover from this have "length (seg_prefix a) \<le> length (seg_prefix b)"
      "length (seg_suffix a) \<le> length (seg_suffix b)"
    by (auto dest: prefix_length_le suffix_length_le)
  ultimately show ?thesis using True
    by (auto simp: seg_matches_def intro: prefix_order.trans suffix_order.trans)
qed (use assms in \<open>auto simp: seg_covers_def seg_matches_def split: if_splits bool.splits\<close>)

text \<open>\<^verbatim>\<open>SegGlob::covers\<close> is sound and exact.\<close>

lemma seg_covers_exact: "seg_covers a b \<longleftrightarrow> (\<forall>w. seg_matches b w \<longrightarrow> seg_matches a w)"
proof
  show "seg_covers a b \<Longrightarrow> \<forall>w. seg_matches b w \<longrightarrow> seg_matches a w"
    using seg_covers_matches by blast
  assume all: "\<forall>w. seg_matches b w \<longrightarrow> seg_matches a w"
  show "seg_covers a b"
  proof (cases "seg_has_star b")
    case False
    then have "seg_matches a (seg_prefix b)" using all by (simp add: seg_matches_def)
    with False show ?thesis by (auto simp: seg_covers_def seg_matches_def split: bool.splits if_splits)
  next
    case True
    let ?p = "seg_prefix b" and ?s = "seg_suffix b"
    have "seg_matches b (?p @ m @ ?s)" for m
      using True by (simp add: seg_matches_def)
    with all have mid: "seg_matches a (?p @ m @ ?s)" for m by blast
    have star: "seg_has_star a"
    proof (rule ccontr)
      assume "\<not> seg_has_star a"
      with mid[of "[]"] mid[of "[0]"] have "?p @ ?s = ?p @ 0 # ?s" by (simp add: seg_matches_def)
      then show False by simp
    qed
    have inside: "prefix (seg_prefix a) w \<and> suffix (seg_suffix a) w"
      if "prefix ?p w" "suffix ?s w" "length ?p + length ?s \<le> length w" for w
      using all that True star by (auto simp: seg_matches_def)
    have "prefix (seg_prefix a) ?p" by (rule prefix_of_all[of ?p ?s]) (use inside in blast)
    moreover have "suffix (seg_suffix a) ?s" by (rule suffix_of_all[of ?p ?s]) (use inside in blast)
    ultimately show ?thesis using star True by (simp add: seg_covers_def)
  qed
qed

lemma seg_nonempty: "\<exists>w. seg_matches g w"
  by (cases "seg_has_star g")
     (auto simp: seg_matches_def intro!: exI[of _ "seg_prefix g @ seg_suffix g"])

subsection \<open>Intersection is exact\<close>

definition seg_canonical :: "SegGlob \<Rightarrow> bool" where
  "seg_canonical g \<longleftrightarrow> seg_has_star g \<or> seg_suffix g = []"

definition seg_rank :: "SegGlob \<Rightarrow> nat" where
  "seg_rank g = (if seg_has_star g then length (seg_prefix g) + length (seg_suffix g)
                 else Suc (length (seg_prefix g)))"

lemma strict_cover_rank:
  assumes "seg_covers h g" "h \<noteq> g" "seg_canonical h" "seg_canonical g"
  shows "seg_rank h < seg_rank g"
proof (cases "seg_has_star h \<and> seg_has_star g")
  case True
  with assms(1) obtain r t where r: "seg_prefix g = seg_prefix h @ r" "seg_suffix g = t @ seg_suffix h"
    by (auto simp: seg_covers_def prefix_def suffix_def)
  with True assms(2) have "r \<noteq> [] \<or> t \<noteq> []" by (cases g; cases h) auto
  with r True show ?thesis by (auto simp: seg_rank_def)
qed (use assms in \<open>cases g; cases h; auto simp: seg_covers_def seg_rank_def seg_canonical_def
    seg_matches_def split: bool.splits\<close>)

lemma subsume_members:
  "g |\<in>| subsume S \<longleftrightarrow> g |\<in>| S \<and> \<not> (\<exists>h. h |\<in>| S \<and> h \<noteq> g \<and> seg_covers h g)"
  by (auto simp: subsume_def list_ex_iff fset_of_list_elem Let_def)

lemma subsume_objects:
  assumes "\<And>g. g |\<in>| S \<Longrightarrow> seg_canonical g"
  shows "(\<exists>g. g |\<in>| subsume S \<and> seg_matches g w) \<longleftrightarrow> (\<exists>g. g |\<in>| S \<and> seg_matches g w)"
proof
  assume "\<exists>g. g |\<in>| S \<and> seg_matches g w"
  then obtain g where g: "g |\<in>| S" "seg_matches g w"
    and least: "\<And>h. h |\<in>| S \<Longrightarrow> seg_matches h w \<Longrightarrow> seg_rank g \<le> seg_rank h"
    using ex_has_least_nat[of "\<lambda>g. g |\<in>| S \<and> seg_matches g w" _ seg_rank] by blast
  have "\<not> (\<exists>h. h |\<in>| S \<and> h \<noteq> g \<and> seg_covers h g)"
  proof safe
    fix h assume h: "h |\<in>| S" "h \<noteq> g" "seg_covers h g"
    then have "seg_rank h < seg_rank g" using strict_cover_rank assms g(1) by blast
    with least[OF h(1)] seg_covers_matches[OF h(3) g(2)] show False by simp
  qed
  with g show "\<exists>g. g |\<in>| subsume S \<and> seg_matches g w" by (auto simp: subsume_members)
qed (auto simp: subsume_members)

lemma subsume_single [simp]: "subsume {|g|} = {|g|}" "subsume {||} = {||}"
  by (auto simp: fset_eq_iff subsume_members)

lemma fold_finsert_if:
  "g |\<in>| fold (\<lambda>x out. if P x then if Q x then finsert (h x) out else out else out) xs S
     \<longleftrightarrow> g |\<in>| S \<or> (\<exists>x \<in> set xs. P x \<and> Q x \<and> g = h x)"
  by (induction xs arbitrary: S) auto

lemma enumerate_members:
  "g |\<in>| enumerate_prefix_suffix p s min_len {||} \<longleftrightarrow>
     (min_len \<le> length p + length s \<and> g = infix_glob p s) \<or>
     (\<exists>n \<in> {1..<min (length p) (length s) + 1}. drop (length p - n) p = take n s \<and>
        min_len \<le> length (p @ drop n s) \<and> g = literal (p @ drop n s))"
  unfolding enumerate_prefix_suffix_def Let_def fold_finsert_if set_upt
  by (intro arg_cong2[where f = "(\<or>)"] refl) simp

lemma overlap_literal:
  assumes "drop (length p - n) p = take n s"
  shows "suffix s (p @ drop n s)"
proof -
  have "p @ drop n s = take (length p - n) p @ (drop (length p - n) p @ drop n s)" by simp
  also have "\<dots> = take (length p - n) p @ s" by (simp only: assms append_take_drop_id)
  finally show ?thesis by (auto simp: suffix_def)
qed

lemma overlap_exists:
  assumes "prefix p w" "suffix s w" "length w < length p + length s"
  defines "n \<equiv> length p + length s - length w"
  shows "1 \<le> n \<and> n \<le> length p \<and> n \<le> length s \<and> drop (length p - n) p = take n s \<and> w = p @ drop n s"
proof -
  obtain r where w: "w = p @ r" using assms(1) by (auto simp: prefix_def)
  obtain q where q: "w = q @ s" using assms(2) by (auto simp: suffix_def)
  have len: "length p + length r = length q + length s" using w q by (metis length_append)
  then have n: "n = length s - length r" "length r \<le> length s" "length q \<le> length p"
      "length p - n = length q"
    using assms(3) w by (auto simp: n_def)
  have "s = drop (length q) p @ r"
    using w q n(3) by (metis append_eq_conv_conj drop_append diff_is_0_eq drop0)
  moreover have "length (drop (length q) p) = n" using n len by simp
  ultimately have "take n s = drop (length q) p" "drop n s = r"
    by (metis append_eq_conv_conj)+
  with n w len assms(3) show ?thesis by auto
qed

lemma enumerate_objects:
  assumes "min_len \<le> length p + length s"
  shows "(\<exists>g. g |\<in>| enumerate_prefix_suffix p s min_len {||} \<and> seg_matches g w) \<longleftrightarrow>
    prefix p w \<and> suffix s w \<and> min_len \<le> length w"
proof
  assume "\<exists>g. g |\<in>| enumerate_prefix_suffix p s min_len {||} \<and> seg_matches g w"
  then show "prefix p w \<and> suffix s w \<and> min_len \<le> length w"
    using assms by (auto simp: enumerate_members simp del: length_append intro: overlap_literal)
next
  assume w: "prefix p w \<and> suffix s w \<and> min_len \<le> length w"
  show "\<exists>g. g |\<in>| enumerate_prefix_suffix p s min_len {||} \<and> seg_matches g w"
  proof (cases "length p + length s \<le> length w")
    case True
    with w assms show ?thesis by (auto simp: enumerate_members intro!: exI[of _ "infix_glob p s"])
  next
    case False
    with w overlap_exists[of p w s] obtain n where n: "1 \<le> n" "n \<le> length p" "n \<le> length s"
        "drop (length p - n) p = take n s" "w = p @ drop n s"
      by (metis linorder_not_le)
    then have "literal w |\<in>| enumerate_prefix_suffix p s min_len {||}"
      using w by (auto simp: enumerate_members intro!: bexI[of _ n])
    then show ?thesis using seg_matches_simps(1) by blast
  qed
qed

lemma longer_prefix_spec:
  "(case longer_prefix x y of Some p \<Rightarrow> prefix p w | None \<Rightarrow> False) \<longleftrightarrow> prefix x w \<and> prefix y w"
  by (auto simp: longer_prefix_def intro: prefix_order.trans dest: prefix_same_cases)

lemma longer_suffix_spec:
  "(case longer_suffix x y of Some p \<Rightarrow> suffix p w | None \<Rightarrow> False) \<longleftrightarrow> suffix x w \<and> suffix y w"
  by (auto simp: longer_suffix_def intro: suffix_order.trans dest: suffix_same_cases)

lemma longer_lengths:
  "longer_prefix x y = Some p \<Longrightarrow> length x \<le> length p \<and> length y \<le> length p"
  "longer_suffix x y = Some s \<Longrightarrow> length x \<le> length s \<and> length y \<le> length s"
  by (auto simp: longer_prefix_def longer_suffix_def dest: prefix_length_le suffix_length_le
      split: if_splits)

text \<open>\<^verbatim>\<open>intersect_seg\<close> is exact.\<close>

lemma intersect_seg_exact:
  "(\<exists>g. g |\<in>| intersect_seg a b \<and> seg_matches g w) \<longleftrightarrow> seg_matches a w \<and> seg_matches b w"
proof (cases "seg_has_star a \<and> seg_has_star b")
  case True
  let ?lp = "longer_prefix (seg_prefix a) (seg_prefix b)"
  let ?ls = "longer_suffix (seg_suffix a) (seg_suffix b)"
  have both: "seg_matches a w \<and> seg_matches b w \<longleftrightarrow>
      (case ?lp of Some p \<Rightarrow> prefix p w | None \<Rightarrow> False) \<and>
      (case ?ls of Some s \<Rightarrow> suffix s w | None \<Rightarrow> False) \<and>
      max (length (seg_prefix a) + length (seg_suffix a))
          (length (seg_prefix b) + length (seg_suffix b)) \<le> length w"
    unfolding longer_prefix_spec longer_suffix_spec using True by (auto simp: seg_matches_def)
  show ?thesis
  proof (cases "?lp = None \<or> ?ls = None")
    case none: True
    with both have "\<not> (seg_matches a w \<and> seg_matches b w)" by auto
    moreover have "intersect_seg a b = {||}"
      using True none by (auto simp: intersect_seg_def split: option.splits)
    ultimately show ?thesis by simp
  next
    case False
    then obtain p s where ps: "?lp = Some p" "?ls = Some s" by auto
    let ?m = "max (length (seg_prefix a) + length (seg_suffix a))
        (length (seg_prefix b) + length (seg_suffix b))"
    have m: "?m \<le> length p + length s"
      using longer_lengths(1)[OF ps(1)] longer_lengths(2)[OF ps(2)] by simp
    have "intersect_seg a b = subsume (enumerate_prefix_suffix p s ?m {||})"
      using True ps by (simp add: intersect_seg_def)
    moreover have "seg_canonical g" if "g |\<in>| enumerate_prefix_suffix p s ?m {||}" for g
      using that by (auto simp: enumerate_members seg_canonical_def infix_glob_def literal_def)
    ultimately show ?thesis
      using subsume_objects[of "enumerate_prefix_suffix p s ?m {||}" w] enumerate_objects[OF m, of w]
        both ps by simp
  qed
qed (auto simp: intersect_seg_def seg_matches_def split: bool.splits)

lemma is_star_iff: "is_star g \<longleftrightarrow> g = star"
  by (cases g) (auto simp: is_star_def star_def)

lemma seg_covers_star: "seg_covers g star \<longleftrightarrow> is_star g"
  by (cases g) (auto simp: seg_covers_def star_def is_star_def split: bool.splits)

text \<open>Only the intersection of two full stars contains the full star.\<close>

lemma intersect_seg_star:
  "(\<exists>g. g |\<in>| intersect_seg a b \<and> is_star g) \<longleftrightarrow> is_star a \<and> is_star b"
proof
  assume "\<exists>g. g |\<in>| intersect_seg a b \<and> is_star g"
  then have "star |\<in>| intersect_seg a b" by (auto simp: is_star_iff)
  then have "seg_matches a w \<and> seg_matches b w" for w
    using intersect_seg_exact[of a b w] seg_matches_simps(3) by blast
  then show "is_star a \<and> is_star b"
    by (simp flip: seg_covers_star add: seg_covers_exact)
next
  assume "is_star a \<and> is_star b"
  then have "a = star" "b = star" by (auto simp: is_star_iff)
  moreover have "intersect_seg star star = {|star|}"
    by (simp add: intersect_seg_def star_def longer_prefix_def longer_suffix_def
        enumerate_prefix_suffix_def infix_glob_def)
  ultimately show "\<exists>g. g |\<in>| intersect_seg a b \<and> is_star g" by (auto simp: is_star_iff)
qed

lemma intersect_seg_empty:
  "intersect_seg a b = {||} \<longleftrightarrow> \<not> (\<exists>w. seg_matches a w \<and> seg_matches b w)"
proof -
  have "(\<exists>g. g |\<in>| intersect_seg a b) \<longleftrightarrow> (\<exists>w g. g |\<in>| intersect_seg a b \<and> seg_matches g w)"
    using seg_nonempty by blast
  then show ?thesis by (auto simp: intersect_seg_exact)
qed

subsection \<open>Parsing and rendering\<close>

lemma star_positions_rec [simp]:
  "star_positions [] = []"
  "star_positions (b # bs) = (if b = star_byte then [0] else []) @ map Suc (star_positions bs)"
proof -
  have "[0..<length (b # bs)] = 0 # map Suc [0..<length bs]"
    by (simp only: length_Cons map_Suc_upt upt_conv_Cons zero_less_Suc)
  then show "star_positions (b # bs) = (if b = star_byte then [0] else []) @ map Suc (star_positions bs)"
    by (simp only: star_positions_def filter.simps nth_Cons_0 filter_map comp_def nth_Cons_Suc) simp
qed (simp add: star_positions_def)

lemma star_positions_Nil: "star_positions bs = [] \<longleftrightarrow> star_byte \<notin> set bs"
  by (induction bs) auto

lemma star_positions_none: "star_byte \<notin> set as \<Longrightarrow>
  star_positions (as @ bs) = map (\<lambda>i. length as + i) (star_positions bs)"
  by (induction as) (auto simp: comp_def intro: map_idI[symmetric])

lemma seg_parse_render:
  assumes "seg_canonical g" "star_byte \<notin> set (seg_prefix g)" "star_byte \<notin> set (seg_suffix g)"
  shows "seg_parse (seg_render g) = Some g"
proof (cases "seg_has_star g")
  case True
  have "star_positions (seg_suffix g) = []" using assms(3) by (simp add: star_positions_Nil)
  with True assms(2) have "star_positions (seg_render g) = [length (seg_prefix g)]"
    by (simp add: seg_render_def star_positions_none)
  with True show ?thesis by (cases g) (simp add: seg_parse_def seg_render_def infix_glob_def)
next
  case False
  with assms have "star_positions (seg_render g) = []" by (simp add: seg_render_def star_positions_Nil)
  with False assms show ?thesis
    by (cases g) (auto simp: seg_parse_def seg_render_def literal_def seg_canonical_def)
qed

lemma star_position_nth: "i \<in> set (star_positions bs) \<Longrightarrow> i < length bs \<and> bs ! i = star_byte"
  by (auto simp: star_positions_def)

lemma seg_render_parse:
  assumes "seg_parse bs = Some g"
  shows "seg_render g = bs"
proof (cases "star_positions bs")
  case Nil
  with assms show ?thesis by (auto simp: seg_parse_def seg_render_def literal_def)
next
  case (Cons i rest)
  with assms have i: "rest = []" "g = infix_glob (take i bs) (drop (i + 1) bs)"
    by (auto simp: seg_parse_def split: list.splits)
  from Cons star_position_nth[of i bs] have "i < length bs" "bs ! i = star_byte" by auto
  with i show ?thesis
    using id_take_nth_drop[of i bs] by (simp add: seg_render_def infix_glob_def)
qed

end
