(* ===== verification/PolPattern.thy ===== *)
theory PolPattern
  imports PolGlob
begin

text \<open>
  Two-segment scope patterns and the object names they match
  (\<^verbatim>\<open>crates/zeroship-migrate-policy/src/scope/pattern.rs\<close>). A \<^verbatim>\<open>&str\<close> is its list of
  bytes; the two delimiters and the quote are ASCII, so splitting bytes and splitting
  characters agree. The scanner of \<^verbatim>\<open>split_normalize_segments\<close>, an index into the byte slice,
  is a function of the bytes not yet read.

  The lemmas show that a quoted name is read back as itself, that a pattern literal and an
  object name fold to the same bytes, and that cover and intersection of patterns are exact
  over all object names.
\<close>

subsection \<open>Object names and patterns\<close>

record ObjectName =
  obj_schema :: bytes
  obj_table :: "bytes option"

definition object_schema :: "bytes \<Rightarrow> ObjectName" where
  "object_schema s = \<lparr>obj_schema = s, obj_table = None\<rparr>"

definition object_table :: "bytes \<Rightarrow> bytes \<Rightarrow> ObjectName" where
  "object_table s t = \<lparr>obj_schema = s, obj_table = Some t\<rparr>"

datatype Pattern = Pattern (pat_schema: SegGlob) (pat_table: SegGlob)

instantiation Pattern :: linorder
begin

definition less_eq_Pattern :: "Pattern \<Rightarrow> Pattern \<Rightarrow> bool" where
  "less_eq_Pattern a b \<longleftrightarrow> (pat_schema a, pat_table a) \<le> (pat_schema b, pat_table b)"

definition less_Pattern :: "Pattern \<Rightarrow> Pattern \<Rightarrow> bool" where
  "less_Pattern a b \<longleftrightarrow> (pat_schema a, pat_table a) < (pat_schema b, pat_table b)"

instance
  by standard (auto simp: less_eq_Pattern_def less_Pattern_def less_le_not_le intro: Pattern.expand)

end

definition pattern_schema :: "SegGlob \<Rightarrow> Pattern" where
  "pattern_schema g = Pattern g star"

definition pattern_table :: "SegGlob \<Rightarrow> SegGlob \<Rightarrow> Pattern" where
  "pattern_table s t = Pattern s t"

definition universe :: Pattern where
  "universe = Pattern star star"

definition pattern_matches :: "Pattern \<Rightarrow> ObjectName \<Rightarrow> bool" where
  "pattern_matches self n =
     (if \<not> seg_matches (pat_schema self) (obj_schema n) then False
      else case obj_table n of
        Some t \<Rightarrow> seg_matches (pat_table self) t
      | None \<Rightarrow> is_star (pat_table self))"

subsection \<open>The blunt parser\<close>

definition dot :: u8 where
  "dot = 0x2E"

definition quote_byte :: u8 where
  "quote_byte = 0x22"

text \<open>\<^verbatim>\<open>str::split\<close> on one character: one piece more than there are separators.\<close>

fun split_on :: "u8 \<Rightarrow> bytes \<Rightarrow> bytes list" where
  "split_on c [] = [[]]"
| "split_on c (b # bs) =
     (if b = c then [] # split_on c bs
      else case split_on c bs of p # ps \<Rightarrow> (b # p) # ps | [] \<Rightarrow> [[b]])"

definition pattern_parse :: "bytes \<Rightarrow> Pattern option" where
  "pattern_parse s =
     (case split_on dot s of
        [schema] \<Rightarrow> map_option pattern_schema (seg_parse schema)
      | [schema, table] \<Rightarrow>
          (case seg_parse schema of
             None \<Rightarrow> None
           | Some sg \<Rightarrow> map_option (pattern_table sg) (seg_parse table))
      | _ \<Rightarrow> None)"

subsection \<open>Normalized segments\<close>

record NormalizedSegment =
  seg_bytes :: bytes
  seg_quoted :: bool

definition to_ascii_lowercase :: "u8 \<Rightarrow> u8" where
  "to_ascii_lowercase c = (if 0x41 \<le> c \<and> c \<le> 0x5A then c + 0x20 else c)"

definition finish_segment :: "bytes \<Rightarrow> bool \<Rightarrow> bool \<Rightarrow> NormalizedSegment option" where
  "finish_segment bs quoted unquoted =
     (if bs = [] then None
      else if quoted \<and> unquoted then None
      else Some \<lparr>seg_bytes = bs, seg_quoted = quoted\<rparr>)"

text \<open>
  The inner loop: from the byte after an opening quote, the current segment's bytes with the
  run appended and the bytes after the closing quote; \<open>None\<close> for an unterminated quote.
\<close>

fun quoted_run :: "bytes \<Rightarrow> bytes \<Rightarrow> (bytes \<times> bytes) option" where
  "quoted_run cur [] = None"
| "quoted_run cur (b # bs) =
     (if b = quote_byte then
        (case bs of
           c # cs \<Rightarrow> if c = quote_byte then quoted_run (cur @ [quote_byte]) cs else Some (cur, bs)
         | [] \<Rightarrow> Some (cur, bs))
      else quoted_run (cur @ [b]) bs)"

lemma quoted_run_shorter: "quoted_run cur bs = Some (cur', rest) \<Longrightarrow> length rest < length bs"
  by (induction cur bs arbitrary: cur' rest rule: quoted_run.induct)
     (fastforce split: list.splits if_splits)+

text \<open>The outer loop, with the test of \<^verbatim>\<open>out.len()\<close> that ends each of its rounds.\<close>

function split_segments ::
  "NormalizedSegment list \<Rightarrow> bytes \<Rightarrow> bool \<Rightarrow> bool \<Rightarrow> bytes \<Rightarrow> NormalizedSegment list option" where
  "split_segments out cur cur_quoted cur_unquoted [] =
     (case finish_segment cur cur_quoted cur_unquoted of
        None \<Rightarrow> None
      | Some seg \<Rightarrow>
          (let out = out @ [seg] in if out = [] \<or> length out > 2 then None else Some out))"
| "split_segments out cur cur_quoted cur_unquoted (b # bs) =
     (if b = quote_byte then
        (case quoted_run cur bs of
           None \<Rightarrow> None
         | Some (cur, bs) \<Rightarrow>
             if length out > 2 then None else split_segments out cur True cur_unquoted bs)
      else if b = dot then
        (case finish_segment cur cur_quoted cur_unquoted of
           None \<Rightarrow> None
         | Some seg \<Rightarrow>
             (let out = out @ [seg]
              in if length out > 2 then None else split_segments out [] False False bs))
      else
        (if length out > 2 then None
         else split_segments out (cur @ [to_ascii_lowercase b]) cur_quoted True bs))"
  by pat_completeness auto

termination
  by (relation "measure (\<lambda>(_, _, _, _, bs). length bs)") (auto dest: quoted_run_shorter)

definition split_normalize_segments :: "bytes \<Rightarrow> NormalizedSegment list option" where
  "split_normalize_segments s = split_segments [] [] False False s"

definition seg_from_normalized :: "NormalizedSegment \<Rightarrow> SegGlob option" where
  "seg_from_normalized seg =
     (if seg_quoted seg then Some (literal (seg_bytes seg)) else seg_parse (seg_bytes seg))"

definition parse_normalized :: "bytes \<Rightarrow> Pattern option" where
  "parse_normalized s =
     (case split_normalize_segments s of
        None \<Rightarrow> None
      | Some [schema] \<Rightarrow> map_option pattern_schema (seg_from_normalized schema)
      | Some [schema, table] \<Rightarrow>
          (case seg_from_normalized schema of
             None \<Rightarrow> None
           | Some sg \<Rightarrow> map_option (pattern_table sg) (seg_from_normalized table))
      | Some _ \<Rightarrow> None)"

definition normalize_object_name :: "bytes \<Rightarrow> ObjectName option" where
  "normalize_object_name s =
     (case split_normalize_segments s of
        None \<Rightarrow> None
      | Some [schema] \<Rightarrow> Some (object_schema (seg_bytes schema))
      | Some [schema, table] \<Rightarrow> Some (object_table (seg_bytes schema) (seg_bytes table))
      | Some _ \<Rightarrow> None)"

subsection \<open>Intersection and cover\<close>

definition intersect_pattern :: "Pattern \<Rightarrow> Pattern \<Rightarrow> Pattern fset" where
  "intersect_pattern a b =
     (let schemas = intersect_seg (pat_schema a) (pat_schema b)
      in if schemas = {||} then {||}
         else let tables = intersect_seg (pat_table a) (pat_table b)
           in if tables = {||} then {||}
              else fold (\<lambda>s out. fold (\<lambda>t out. finsert (Pattern s t) out)
                     (sorted_list_of_fset tables) out)
                   (sorted_list_of_fset schemas) {||})"

definition pattern_covers :: "Pattern \<Rightarrow> Pattern \<Rightarrow> bool" where
  "pattern_covers a b \<longleftrightarrow>
     seg_covers (pat_schema a) (pat_schema b) \<and> seg_covers (pat_table a) (pat_table b)"

subsection \<open>Cover and intersection are exact over object names\<close>

lemma fold_finsert: "x |\<in>| fold (\<lambda>t out. finsert (f t) out) ts S \<longleftrightarrow> x |\<in>| S \<or> x \<in> f ` set ts"
  by (induction ts arbitrary: S) auto

lemma fold_finsert2:
  "x |\<in>| fold (\<lambda>s out. fold (\<lambda>t out. finsert (f s t) out) ts out) ss S \<longleftrightarrow>
     x |\<in>| S \<or> (\<exists>s \<in> set ss. \<exists>t \<in> set ts. x = f s t)"
  by (induction ss arbitrary: S) (auto simp: fold_finsert)

lemma intersect_pattern_members:
  "p |\<in>| intersect_pattern a b \<longleftrightarrow>
     pat_schema p |\<in>| intersect_seg (pat_schema a) (pat_schema b) \<and>
     pat_table p |\<in>| intersect_seg (pat_table a) (pat_table b)"
proof -
  have "p |\<in>| intersect_pattern a b \<longleftrightarrow>
      (\<exists>s t. s |\<in>| intersect_seg (pat_schema a) (pat_schema b) \<and>
             t |\<in>| intersect_seg (pat_table a) (pat_table b) \<and> p = Pattern s t)"
    by (auto simp: intersect_pattern_def Let_def fold_finsert2)
  then show ?thesis by (metis Pattern.collapse Pattern.sel)
qed

lemma pattern_matches_simps [simp]:
  "pattern_matches p (object_table s t) \<longleftrightarrow> seg_matches (pat_schema p) s \<and> seg_matches (pat_table p) t"
  "pattern_matches p (object_schema s) \<longleftrightarrow> seg_matches (pat_schema p) s \<and> is_star (pat_table p)"
  "pattern_matches universe n"
  by (auto simp: pattern_matches_def object_table_def object_schema_def universe_def is_star_iff
      split: option.splits)

lemma object_simps [simp]:
  "object_schema s \<noteq> object_table s' t"
  "object_table s t = object_table s' t' \<longleftrightarrow> s = s' \<and> t = t'"
  "\<not> is_star (literal bs)"
  by (simp_all add: object_schema_def object_table_def is_star_def literal_def)

lemma object_cases:
  obtains s where "n = object_schema s" | s t where "n = object_table s t"
  by (cases n; cases "obj_table n") (auto simp: object_schema_def object_table_def)

lemma intersect_pattern_exact:
  "(\<exists>p. p |\<in>| intersect_pattern a b \<and> pattern_matches p n) \<longleftrightarrow> pattern_matches a n \<and> pattern_matches b n"
proof -
  let ?S = "intersect_seg (pat_schema a) (pat_schema b)"
  let ?T = "intersect_seg (pat_table a) (pat_table b)"
  have split: "(\<exists>p. p |\<in>| intersect_pattern a b \<and> P (pat_schema p) \<and> Q (pat_table p)) \<longleftrightarrow>
      (\<exists>s. s |\<in>| ?S \<and> P s) \<and> (\<exists>t. t |\<in>| ?T \<and> Q t)" for P Q
    by (metis Pattern.sel intersect_pattern_members)
  show ?thesis
  proof (cases n rule: object_cases)
    case (1 s)
    then show ?thesis
      using split[of "\<lambda>g. seg_matches g s" is_star] by (auto simp: intersect_seg_exact intersect_seg_star)
  next
    case (2 s t)
    then show ?thesis
      using split[of "\<lambda>g. seg_matches g s" "\<lambda>g. seg_matches g t"] by (auto simp: intersect_seg_exact)
  qed
qed

lemma pattern_nonempty: "\<exists>n. pattern_matches p n"
  using seg_nonempty by (metis pattern_matches_simps(1))

lemma intersect_pattern_empty:
  "intersect_pattern a b = {||} \<longleftrightarrow> \<not> (\<exists>n. pattern_matches a n \<and> pattern_matches b n)"
proof -
  have "(\<exists>p. p |\<in>| intersect_pattern a b) \<longleftrightarrow> (\<exists>n p. p |\<in>| intersect_pattern a b \<and> pattern_matches p n)"
    using pattern_nonempty by blast
  then show ?thesis by (auto simp: intersect_pattern_exact)
qed

lemma pattern_covers_matches:
  assumes "pattern_covers a b" "pattern_matches b n"
  shows "pattern_matches a n"
  using assms
  by (cases n rule: object_cases)
     (auto simp: pattern_covers_def intro: seg_covers_matches simp: is_star_iff seg_covers_star)

lemma pattern_covers_exact: "pattern_covers a b \<longleftrightarrow> (\<forall>n. pattern_matches b n \<longrightarrow> pattern_matches a n)"
proof
  show "pattern_covers a b \<Longrightarrow> \<forall>n. pattern_matches b n \<longrightarrow> pattern_matches a n"
    using pattern_covers_matches by blast
  assume all: "\<forall>n. pattern_matches b n \<longrightarrow> pattern_matches a n"
  then have both: "seg_matches (pat_schema b) s \<Longrightarrow> seg_matches (pat_table b) t \<Longrightarrow>
      seg_matches (pat_schema a) s \<and> seg_matches (pat_table a) t" for s t
    by (metis pattern_matches_simps(1))
  obtain s t where "seg_matches (pat_schema b) s" "seg_matches (pat_table b) t"
    using seg_nonempty by metis
  with both show "pattern_covers a b" by (auto simp: pattern_covers_def seg_covers_exact)
qed

subsection \<open>Quoted names are read back verbatim\<close>

text \<open>The quoting of an identifier: every inner quote doubled.\<close>

definition quote_ident :: "bytes \<Rightarrow> bytes" where
  "quote_ident bs =
     quote_byte # concat (map (\<lambda>b. if b = quote_byte then [b, b] else [b]) bs) @ [quote_byte]"

lemma quoted_run_quote:
  assumes "\<And>b bs. rest = b # bs \<Longrightarrow> b \<noteq> quote_byte"
  shows "quoted_run cur (concat (map (\<lambda>b. if b = quote_byte then [b, b] else [b]) bs) @ quote_byte # rest)
    = Some (cur @ bs, rest)"
  using assms by (induction bs arbitrary: cur) (auto split: list.splits)

lemma special_bytes [simp]: "dot \<noteq> quote_byte" "quote_byte \<noteq> dot"
  by (simp_all add: dot_def quote_byte_def)

lemmas quoted_run_quote_simps [simp] =
  quoted_run_quote[of "[]", simplified] quoted_run_quote[of "dot # bs" for bs, simplified]

lemma split_quoted:
  "split_normalize_segments (quote_ident s) =
     (if s = [] then None else Some [\<lparr>seg_bytes = s, seg_quoted = True\<rparr>])"
  "split_normalize_segments (quote_ident s @ dot # quote_ident t) =
     (if s = [] \<or> t = [] then None
      else Some [\<lparr>seg_bytes = s, seg_quoted = True\<rparr>, \<lparr>seg_bytes = t, seg_quoted = True\<rparr>])"
  by (simp_all add: split_normalize_segments_def quote_ident_def finish_segment_def)

subsection \<open>One fold for patterns and names\<close>

lemma seg_parse_matches: "seg_parse bs = Some g \<Longrightarrow> seg_matches g bs"
  using seg_render_parse[of bs g]
  by (auto simp: seg_render_def seg_matches_def split: if_splits)

lemma seg_from_normalized_matches:
  "seg_from_normalized seg = Some g \<Longrightarrow> seg_matches g (seg_bytes seg)"
  by (auto simp: seg_from_normalized_def seg_parse_matches split: if_splits)

lemma split_length: "split_segments out cur q u bs = Some segs \<Longrightarrow> 1 \<le> length segs \<and> length segs \<le> 2"
  by (induction out cur q u bs rule: split_segments.induct)
     (auto simp: Let_def split: option.splits if_splits)

lemma segments_cases:
  assumes "split_normalize_segments s = Some segs"
  obtains x where "segs = [x]" | x y where "segs = [x, y]"
proof -
  from assms have "1 \<le> length segs" "length segs \<le> 2"
    using split_length by (auto simp: split_normalize_segments_def)
  then show ?thesis using that by (cases segs; cases "tl segs") auto
qed

lemma parse_normalized_matches_name:
  assumes "parse_normalized s = Some p"
  shows "\<exists>n. normalize_object_name s = Some n \<and> pattern_matches p n"
proof -
  from assms obtain segs where segs: "split_normalize_segments s = Some segs"
    by (auto simp: parse_normalized_def split: option.splits)
  then show ?thesis
  proof (cases rule: segments_cases)
    case (1 x)
    with assms segs show ?thesis
      by (auto simp: parse_normalized_def normalize_object_name_def pattern_schema_def is_star_iff
          dest: seg_from_normalized_matches)
  next
    case (2 x y)
    with assms segs show ?thesis
      by (auto simp: parse_normalized_def normalize_object_name_def pattern_table_def
          dest: seg_from_normalized_matches split: option.splits)
  qed
qed

lemma lowercase_fixed:
  "to_ascii_lowercase b = quote_byte \<longleftrightarrow> b = quote_byte"
  "to_ascii_lowercase b = dot \<longleftrightarrow> b = dot"
  "to_ascii_lowercase (to_ascii_lowercase b) = to_ascii_lowercase b"
  unfolding to_ascii_lowercase_def quote_byte_def dot_def by (auto, unat_arith+)

lemma split_lowercase:
  "quote_byte \<notin> set s \<Longrightarrow>
     split_segments out cur q u (map to_ascii_lowercase s) = split_segments out cur q u s"
  by (induction s arbitrary: out cur q u)
     (auto simp: lowercase_fixed Let_def split: option.splits)

lemma split_spelling:
  assumes "map to_ascii_lowercase s = map to_ascii_lowercase s'"
    and "quote_byte \<notin> set s" and "quote_byte \<notin> set s'"
  shows "split_normalize_segments s = split_normalize_segments s'"
  using split_lowercase[OF assms(2)] split_lowercase[OF assms(3)] assms(1)
  unfolding split_normalize_segments_def by metis

lemma normalize_spelling:
  assumes "map to_ascii_lowercase s = map to_ascii_lowercase s'"
    and "quote_byte \<notin> set s" and "quote_byte \<notin> set s'"
  shows "normalize_object_name s = normalize_object_name s'"
  by (simp add: normalize_object_name_def split_spelling[OF assms])

subsection \<open>Properties\<close>

definition pattern_objects :: "Pattern \<Rightarrow> ObjectName set" where
  "pattern_objects p = {n. pattern_matches p n}"

text \<open>
  \<^bold>\<open>C34\<close>: Pattern arithmetic is exact. For every two patterns, one covers the other exactly when
  its objects contain the other's, and the patterns computed as their intersection denote
  together exactly the objects both match, schema objects included; the result is empty only
  when no object matches both.
\<close>

theorem pattern_arithmetic_is_exact:
  "(pattern_covers a b \<longleftrightarrow> pattern_objects b \<subseteq> pattern_objects a) \<and>
   (\<Union>p \<in> fset (intersect_pattern a b). pattern_objects p) = pattern_objects a \<inter> pattern_objects b \<and>
   (intersect_pattern a b = {||} \<longleftrightarrow> pattern_objects a \<inter> pattern_objects b = {})"
  unfolding pattern_objects_def
  using pattern_covers_exact[of a b] intersect_pattern_exact[of a b] intersect_pattern_empty[of a b] by blast

text \<open>
  A quoted name is read back verbatim. Quoting any schema and table name, whatever
  dots, stars, quotes or capitals they hold, and normalizing the text gives the object with
  these names, and parsing it as a pattern gives the literal pattern that matches this object
  only; an empty name is refused by both.
\<close>

theorem quoted_names_round_trip:
  "normalize_object_name (quote_ident s @ dot # quote_ident t) =
     (if s = [] \<or> t = [] then None else Some (object_table s t)) \<and>
   parse_normalized (quote_ident s @ dot # quote_ident t) =
     (if s = [] \<or> t = [] then None else Some (pattern_table (literal s) (literal t))) \<and>
   pattern_objects (pattern_table (literal s) (literal t)) = {object_table s t}"
proof (intro conjI)
  show "pattern_objects (pattern_table (literal s) (literal t)) = {object_table s t}"
  proof -
    have "pattern_matches (pattern_table (literal s) (literal t)) n \<longleftrightarrow> n = object_table s t" for n
      by (cases n rule: object_cases) (auto simp: pattern_table_def)
    then show ?thesis by (auto simp: pattern_objects_def)
  qed
qed (simp_all add: normalize_object_name_def parse_normalized_def split_quoted seg_from_normalized_def)

text \<open>
  A pattern and an object name are folded the same way. If an unquoted text parses as a
  pattern, then every spelling of it that differs only in the case of ASCII letters
  normalizes to an object name, and the pattern matches that object: a rule written for
  \<^verbatim>\<open>app.users\<close> also governs the table spelled \<^verbatim>\<open>App.Users\<close>.
\<close>

theorem pattern_governs_every_spelling:
  assumes "parse_normalized s = Some p"
    and "map to_ascii_lowercase s = map to_ascii_lowercase s'"
    and "quote_byte \<notin> set s" and "quote_byte \<notin> set s'"
  shows "\<exists>n. normalize_object_name s' = Some n \<and> pattern_matches p n"
  using parse_normalized_matches_name[OF assms(1)] normalize_spelling[OF assms(2-4)] by simp

theorem pattern_governs_every_spelling_witness:
  "\<exists>n. normalize_object_name [0x41, 0x2E, 0x55] = Some n \<and>
     pattern_matches (pattern_table (literal [0x61]) (literal [0x75])) n"
  by (rule pattern_governs_every_spelling[where s = "[0x61, 0x2E, 0x75]"]) code_simp+

end
