(* ===== verification/PolScope.thy ===== *)
theory PolScope
  imports PolPattern
begin

text \<open>
  The scope lattice of the migration policy
  (\<^verbatim>\<open>crates/zeroship-migrate-policy/src/scope/mod.rs\<close>): the bottom scope, the top scope, and
  proper scopes given by included and excluded patterns.

  The object set of a scope, \<open>objects\<close>, is what the source calls its ground truth: the
  names for which \<^verbatim>\<open>Scope::objects_membership\<close> answers true. The lemmas relate every
  operation to it: the meet is exact, containment is sound, the join is an upper bound, and
  the difference never loses an object. The locale \<open>scope_algebra\<close> collects these promises for
  the composition of policies, which relies on nothing else.
\<close>

subsection \<open>Scopes\<close>

datatype Scope =
    Nothing
  | All_scope
  | Of (scope_include: "Pattern list") (scope_exclude: "Pattern list")

datatype ScopeError = EmptyInclude

datatype Difference = Scope_diff Scope | NotRepresentable

definition objects_membership :: "Scope \<Rightarrow> ObjectName \<Rightarrow> bool" where
  "objects_membership self n =
     (case self of
        Nothing \<Rightarrow> False
      | All_scope \<Rightarrow> True
      | Of incl excl \<Rightarrow>
          list_ex (\<lambda>p. pattern_matches p n) incl \<and> \<not> list_ex (\<lambda>p. pattern_matches p n) excl)"

text \<open>The filter of \<^verbatim>\<open>dedup\<close>, with the set of patterns seen so far.\<close>

fun dedup_from :: "Pattern fset \<Rightarrow> Pattern list \<Rightarrow> Pattern list" where
  "dedup_from seen [] = []"
| "dedup_from seen (p # ps) =
     (if p |\<in>| seen then dedup_from seen ps else p # dedup_from (finsert p seen) ps)"

definition dedup :: "Pattern list \<Rightarrow> Pattern list" where
  "dedup patterns = dedup_from {||} patterns"

definition normalize :: "Scope \<Rightarrow> Scope" where
  "normalize self =
     (case self of
        Nothing \<Rightarrow> Nothing
      | All_scope \<Rightarrow> All_scope
      | Of incl excl \<Rightarrow>
          if incl = [] then Nothing
          else let live = filter (\<lambda>inc. \<not> list_ex (\<lambda>exc. pattern_covers exc inc) excl) incl
            in if live = [] then Nothing
               else let incl = dedup live;
                        excl = filter (\<lambda>exc. list_ex (\<lambda>inc. intersect_pattern inc exc \<noteq> {||}) incl)
                                 (dedup excl)
                    in Of incl excl)"

definition scope_of :: "Pattern list \<Rightarrow> Pattern list \<Rightarrow> ScopeError + Scope" where
  "scope_of incl excl =
     (if incl = [] then Inl EmptyInclude else Inr (normalize (Of incl excl)))"

definition scope_including :: "Pattern list \<Rightarrow> ScopeError + Scope" where
  "scope_including incl = scope_of incl []"

definition denotes_universe :: "Scope \<Rightarrow> bool" where
  "denotes_universe self =
     (case self of
        All_scope \<Rightarrow> True
      | Nothing \<Rightarrow> False
      | Of incl excl \<Rightarrow>
          list_ex (\<lambda>p. pattern_covers p universe \<and> pattern_covers universe p) incl \<and> excl = [])"

subsection \<open>Containment\<close>

definition region_covered_and_clear ::
  "Pattern \<Rightarrow> Pattern list \<Rightarrow> Pattern list \<Rightarrow> Pattern list \<Rightarrow> bool" where
  "region_covered_and_clear d de ci ce =
     (if list_ex (\<lambda>e. pattern_covers e d) de then True
      else if \<not> list_ex (\<lambda>c. pattern_covers c d) ci then False
      else list_all (\<lambda>e.
             let overlap = intersect_pattern d e
             in overlap = {||} \<or>
                list_all (\<lambda>o'. list_ex (\<lambda>dexc. pattern_covers dexc o') de) (sorted_list_of_fset overlap))
           ce)"

fun scope_subset :: "Scope \<Rightarrow> Scope \<Rightarrow> bool" where
  "scope_subset Nothing _ = True"
| "scope_subset _ All_scope = True"
| "scope_subset All_scope other = denotes_universe other"
| "scope_subset (Of _ _) Nothing = False"
| "scope_subset (Of di de) (Of ci ce) = list_all (\<lambda>d. region_covered_and_clear d de ci ce) di"

subsection \<open>Meet, scope_join and difference\<close>

fun scope_meet :: "Scope \<Rightarrow> Scope \<Rightarrow> Scope" where
  "scope_meet Nothing _ = Nothing"
| "scope_meet _ Nothing = Nothing"
| "scope_meet All_scope s = s"
| "scope_meet s All_scope = s"
| "scope_meet (Of ai ae) (Of bi be) =
     (let incl = concat (map (\<lambda>a. concat (map (\<lambda>b. sorted_list_of_fset (intersect_pattern a b)) bi)) ai)
      in normalize (Of (dedup incl) (dedup (ae @ be))))"

fun scope_join :: "Scope \<Rightarrow> Scope \<Rightarrow> Scope" where
  "scope_join All_scope _ = All_scope"
| "scope_join _ All_scope = All_scope"
| "scope_join Nothing s = s"
| "scope_join s Nothing = s"
| "scope_join (Of ai ae) (Of bi be) =
     (let incl = dedup (ai @ bi);
          excl = concat (map (\<lambda>a. concat (map (\<lambda>b. sorted_list_of_fset (intersect_pattern a b)) be)) ae);
          excl = filter (\<lambda>exc. \<not> list_ex (\<lambda>inc. intersect_pattern inc exc \<noteq> {||}) incl) (dedup excl)
      in normalize (Of incl excl))"

fun difference :: "Scope \<Rightarrow> Scope \<Rightarrow> Difference" where
  "difference _ All_scope = Scope_diff Nothing"
| "difference self Nothing = Scope_diff self"
| "difference Nothing _ = Scope_diff Nothing"
| "difference All_scope _ = NotRepresentable"
| "difference (Of ai ae) (Of bi be) =
     (let term1 = normalize (Of ai (dedup (ae @ bi)));
          term2 = (if be = [] then Nothing
                   else case scope_including be of
                     Inr b_holes \<Rightarrow> scope_meet (Of ai ae) b_holes
                   | Inl _ \<Rightarrow> Nothing)
      in Scope_diff (scope_join term1 term2))"

subsection \<open>Membership of the results\<close>

lemma objects_membership_simps [simp]:
  "\<not> objects_membership Nothing n"
  "objects_membership All_scope n"
  "objects_membership (Of incl excl) n \<longleftrightarrow>
     (\<exists>p \<in> set incl. pattern_matches p n) \<and> \<not> (\<exists>p \<in> set excl. pattern_matches p n)"
  by (auto simp: objects_membership_def list_ex_iff)

lemma set_dedup_from: "set (dedup_from seen ps) = set ps - fset seen"
  by (induction ps arbitrary: seen) auto

lemma set_dedup [simp]: "set (dedup ps) = set ps"
  by (simp add: dedup_def set_dedup_from)

lemma distinct_dedup: "distinct (dedup ps)"
proof -
  have "distinct (dedup_from seen ps)" for seen
    by (induction ps arbitrary: seen) (auto simp: set_dedup_from)
  then show ?thesis by (simp add: dedup_def)
qed

lemma dedup_distinct: "distinct ps \<Longrightarrow> dedup ps = ps"
proof -
  have "distinct ps \<Longrightarrow> set ps \<inter> fset seen = {} \<Longrightarrow> dedup_from seen ps = ps" for seen
    by (induction ps arbitrary: seen) auto
  then show "distinct ps \<Longrightarrow> dedup ps = ps" by (simp add: dedup_def)
qed

lemma dedup_eq_Nil [simp]: "dedup ps = [] \<longleftrightarrow> ps = []"
  by (metis set_dedup set_empty)

lemma overlap_nonempty:
  "pattern_matches a n \<Longrightarrow> pattern_matches b n \<Longrightarrow> intersect_pattern a b \<noteq> {||}"
  using intersect_pattern_empty by blast

lemma normalize_membership [denote_simps]: "objects_membership (normalize s) n = objects_membership s n"
proof (cases s)
  case (Of incl excl)
  let ?live = "filter (\<lambda>inc. \<not> list_ex (\<lambda>exc. pattern_covers exc inc) excl) incl"
  let ?excl = "filter (\<lambda>exc. list_ex (\<lambda>inc. intersect_pattern inc exc \<noteq> {||}) ?live) excl"
  have live: "p \<in> set ?live" if "p \<in> set incl" "pattern_matches p n" "\<forall>e \<in> set excl. \<not> pattern_matches e n" for p
    using that pattern_covers_matches by (auto simp: list_ex_iff)
  have "objects_membership (Of ?live ?excl) n = objects_membership s n"
  proof
    assume l: "objects_membership (Of ?live ?excl) n"
    then obtain p where p: "p \<in> set ?live" "pattern_matches p n" by auto
    have "\<not> pattern_matches e n" if "e \<in> set excl" for e
      using l that p overlap_nonempty[OF p(2)] by (auto simp: list_ex_iff)
    with p show "objects_membership s n" by (auto simp: Of)
  next
    assume "objects_membership s n"
    with live show "objects_membership (Of ?live ?excl) n" by (auto simp: Of)
  qed
  moreover have "objects_membership (normalize s) n = objects_membership (Of ?live ?excl) n"
    by (simp add: Of normalize_def Let_def list_ex_iff) (auto simp: filter_empty_conv list_ex_iff)
  ultimately show ?thesis by simp
qed (simp_all add: normalize_def)

lemma set_intersections [simp]:
  "set (concat (map (\<lambda>a. concat (map (\<lambda>b. sorted_list_of_fset (intersect_pattern a b)) bs)) as)) =
     {p. \<exists>a \<in> set as. \<exists>b \<in> set bs. p |\<in>| intersect_pattern a b}"
  by auto

lemma meet_membership [denote_simps]:
  "objects_membership (scope_meet a b) n \<longleftrightarrow> objects_membership a n \<and> objects_membership b n"
proof (cases "(a, b)" rule: scope_meet.cases)
  case (5 ai ae bi be)
  have "(\<exists>p. (\<exists>x \<in> set ai. \<exists>y \<in> set bi. p |\<in>| intersect_pattern x y) \<and> pattern_matches p n) \<longleftrightarrow>
      (\<exists>x \<in> set ai. pattern_matches x n) \<and> (\<exists>y \<in> set bi. pattern_matches y n)"
    using intersect_pattern_exact by metis
  with 5 show ?thesis by (auto simp: denote_simps Let_def simp del: set_concat set_map)
qed auto

lemma join_Of: "objects_membership (scope_join (Of ai ae) (Of bi be)) n \<longleftrightarrow>
  (\<exists>p \<in> set ai \<union> set bi. pattern_matches p n)"
  by (auto simp: denote_simps Let_def list_ex_iff simp del: set_concat set_map dest: overlap_nonempty)

lemma join_upper: "objects_membership a n \<or> objects_membership b n \<Longrightarrow> objects_membership (scope_join a b) n"
proof (cases "(a, b)" rule: scope_join.cases)
  case (5 ai ae bi be)
  then show "objects_membership a n \<or> objects_membership b n \<Longrightarrow> ?thesis"
    by (simp del: scope_join.simps add: join_Of) blast
qed auto

lemma difference_upper:
  assumes "difference a b = Scope_diff d" "objects_membership a n" "\<not> objects_membership b n"
  shows "objects_membership d n"
proof (cases "(a, b)" rule: difference.cases)
  case (5 ai ae bi be)
  let ?term1 = "normalize (Of ai (dedup (ae @ bi)))"
  let ?term2 = "if be = [] then Nothing else scope_meet (Of ai ae) (normalize (Of be []))"
  have d: "d = scope_join ?term1 ?term2"
    using assms(1) 5 by (auto simp: Let_def scope_including_def scope_of_def)
  have "objects_membership ?term1 n \<or> objects_membership ?term2 n"
    using assms(2,3) 5 by (auto simp: denote_simps simp del: scope_meet.simps)
  then show ?thesis unfolding d by (rule join_upper)
qed (use assms in auto)

lemma join_Nothing [simp]: "scope_join s Nothing = s"
  by (cases s) auto

lemma difference_exact:
  assumes "difference a b = Scope_diff d" "case b of Of bi be \<Rightarrow> be = [] | _ \<Rightarrow> True"
  shows "objects_membership d n \<longleftrightarrow> objects_membership a n \<and> \<not> objects_membership b n"
  using assms by (cases "(a, b)" rule: difference.cases) (auto simp: denote_simps)

subsection \<open>Containment is sound\<close>

lemma region_sound:
  assumes "region_covered_and_clear d de ci ce" "pattern_matches d n"
    and "\<forall>e \<in> set de. \<not> pattern_matches e n"
  shows "objects_membership (Of ci ce) n"
proof -
  have "\<not> list_ex (\<lambda>e. pattern_covers e d) de"
    using assms(2,3) pattern_covers_matches by (auto simp: list_ex_iff)
  with assms(1) have cover: "\<exists>c \<in> set ci. pattern_covers c d"
    and clear: "\<And>e. e \<in> set ce \<Longrightarrow> intersect_pattern d e = {||} \<or>
      (\<forall>o'. o' |\<in>| intersect_pattern d e \<longrightarrow> (\<exists>x \<in> set de. pattern_covers x o'))"
    by (auto simp: region_covered_and_clear_def list_ex_iff list_all_iff Let_def split: if_splits)
  have "\<not> pattern_matches e n" if "e \<in> set ce" for e
  proof
    assume e: "pattern_matches e n"
    then obtain o' where "o' |\<in>| intersect_pattern d e" "pattern_matches o' n"
      using intersect_pattern_exact assms(2) by blast
    with clear[OF that] assms(3) show False by (auto dest: pattern_covers_matches)
  qed
  with cover assms(2) show ?thesis by (auto dest: pattern_covers_matches)
qed

lemma covers_universe: "pattern_covers p universe \<Longrightarrow> pattern_matches p n"
  using pattern_covers_matches pattern_matches_simps(3) by blast

lemma subset_sound:
  assumes "scope_subset a b" "objects_membership a n"
  shows "objects_membership b n"
proof (cases "(a, b)" rule: scope_subset.cases)
  case (5 ci ce di de)
  with assms show ?thesis by (auto simp: list_all_iff simp del: objects_membership_simps(3)
      simp: objects_membership_simps(3)[of ci ce] intro: region_sound)
qed (use assms in \<open>auto simp: denotes_universe_def list_ex_iff split: Scope.splits intro: covers_universe\<close>)

subsection \<open>Normal form\<close>

definition normalized :: "Scope \<Rightarrow> bool" where
  "normalized s \<longleftrightarrow> normalize s = s"

lemma filter_dedup_commute: "distinct ps \<Longrightarrow> dedup (filter P ps) = filter P ps"
  by (simp add: dedup_distinct)

lemma normalize_idem: "normalize (normalize s) = normalize s"
proof (cases s)
  case (Of incl excl)
  let ?live = "filter (\<lambda>inc. \<not> list_ex (\<lambda>exc. pattern_covers exc inc) excl) incl"
  let ?incl = "dedup ?live"
  let ?excl = "filter (\<lambda>exc. list_ex (\<lambda>inc. intersect_pattern inc exc \<noteq> {||}) ?incl) (dedup excl)"
  show ?thesis
  proof (cases "incl = [] \<or> ?live = []")
    case False
    then have n: "normalize s = Of ?incl ?excl" by (simp add: Of normalize_def Let_def)
    have "filter (\<lambda>inc. \<not> list_ex (\<lambda>exc. pattern_covers exc inc) ?excl) ?incl = ?incl"
      by (rule filter_True) (auto simp: list_ex_iff)
    moreover have "dedup ?incl = ?incl" "dedup ?excl = ?excl"
      by (simp_all add: dedup_distinct distinct_dedup)
    moreover have "?incl \<noteq> []" using False by (metis dedup_eq_Nil)
    ultimately show ?thesis unfolding n by (simp add: normalize_def Let_def)
  qed (auto simp: Of normalize_def Let_def)
qed (simp_all add: normalize_def)

lemma normalized_include: "normalized (Of incl excl) \<Longrightarrow> incl \<noteq> []"
  by (auto simp: normalized_def normalize_def)

lemma normalized_normalize [wf_intros]: "normalized (normalize s)"
  by (simp add: normalized_def normalize_idem)

lemma normalized_meet [wf_intros]: "normalized a \<Longrightarrow> normalized b \<Longrightarrow> normalized (scope_meet a b)"
  by (cases "(a, b)" rule: scope_meet.cases) (simp_all add: normalized_normalize Let_def)

lemma normalized_join [wf_intros]: "normalized a \<Longrightarrow> normalized b \<Longrightarrow> normalized (scope_join a b)"
  by (cases "(a, b)" rule: scope_join.cases) (simp_all add: normalized_normalize Let_def)

lemma normalized_difference [wf_intros]:
  "normalized a \<Longrightarrow> difference a b = Scope_diff d \<Longrightarrow> normalized d"
proof (cases "(a, b)" rule: difference.cases)
  case (5 ai ae bi be)
  assume "normalized a" "difference a b = Scope_diff d"
  with 5 show ?thesis
    by (auto simp: Let_def scope_including_def scope_of_def normalized_def[of Nothing] normalize_def[of Nothing]
        intro!: normalized_join normalized_normalize normalized_meet simp del: scope_meet.simps)
qed (auto simp: normalized_def normalize_def)

subsection \<open>The contract of the lattice\<close>

text \<open>What the composition of policies relies on.\<close>

locale scope_algebra =
  fixes mem :: "'s \<Rightarrow> 'o \<Rightarrow> bool"
    and bot :: 's
    and meet_op join_op :: "'s \<Rightarrow> 's \<Rightarrow> 's"
    and minus_op :: "'s \<Rightarrow> 's \<Rightarrow> 's option"
    and within :: "'s \<Rightarrow> 's \<Rightarrow> bool"
  assumes bot_empty: "\<not> mem bot n"
    and meet_exact: "mem (meet_op a b) n \<longleftrightarrow> mem a n \<and> mem b n"
    and join_covers: "mem a n \<or> mem b n \<Longrightarrow> mem (join_op a b) n"
    and minus_covers: "minus_op a b = Some d \<Longrightarrow> mem a n \<Longrightarrow> \<not> mem b n \<Longrightarrow> mem d n"
    and within_sound: "within a b \<Longrightarrow> mem a n \<Longrightarrow> mem b n"
begin

lemma empty_minus_contained: "minus_op a b = Some bot \<Longrightarrow> mem a n \<Longrightarrow> mem b n"
  using minus_covers bot_empty by blast

lemma joins_cover: "mem acc n \<or> (\<exists>s \<in> set ss. mem s n) \<Longrightarrow> mem (fold (\<lambda>s acc. join_op acc s) ss acc) n"
  by (induction ss arbitrary: acc) (auto simp: join_covers)

lemma overlap_of_empty_meet: "meet_op a b = bot \<Longrightarrow> \<not> (mem a n \<and> mem b n)"
  using meet_exact bot_empty by metis

end

definition representable :: "Difference \<Rightarrow> Scope option" where
  "representable d = (case d of Scope_diff s \<Rightarrow> Some s | NotRepresentable \<Rightarrow> None)"

lemma representable_simps [simp]:
  "representable d = Some s \<longleftrightarrow> d = Scope_diff s"
  "representable d = None \<longleftrightarrow> d = NotRepresentable"
  by (cases d; simp add: representable_def)+

interpretation scope: scope_algebra objects_membership Nothing scope_meet scope_join
  "\<lambda>a b. representable (difference a b)" scope_subset
  by unfold_locales (auto simp: meet_membership join_upper difference_upper subset_sound)

subsection \<open>Properties\<close>

definition objects :: "Scope \<Rightarrow> ObjectName set" where
  "objects s = {n. objects_membership s n}"

text \<open>
  The scope operations implement the algebra of object sets. Normalizing keeps the
  objects and is idempotent, the meet is exactly the intersection, and the join contains the
  union; the empty scope has no objects and the top scope all.
\<close>

theorem scope_operations_refine_object_sets:
  "objects (normalize a) = objects a \<and> normalize (normalize a) = normalize a \<and>
   objects (scope_meet a b) = objects a \<inter> objects b \<and>
   objects a \<union> objects b \<subseteq> objects (scope_join a b) \<and>
   objects Nothing = {} \<and> objects All_scope = UNIV"
  by (auto simp: objects_def denote_simps normalize_idem intro: join_upper)

text \<open>
  \<^bold>\<open>C33\<close>: The difference never loses an object. When it is representable it contains every
  object of the first scope that the second lacks, and nothing else when the second scope
  excludes nothing; in particular an empty difference proves containment.
\<close>

theorem difference_never_under_approximates:
  assumes "difference a b = Scope_diff d"
  shows "objects a - objects b \<subseteq> objects d \<and>
    ((case b of Of bi be \<Rightarrow> be = [] | _ \<Rightarrow> True) \<longrightarrow> objects d = objects a - objects b)"
  using difference_exact[OF assms] difference_upper[OF assms] by (auto simp: objects_def)

text \<open>One schema pattern.\<close>

definition schema_scope :: "SegGlob \<Rightarrow> Scope" where
  "schema_scope g = Of [pattern_schema g] []"

theorem difference_never_under_approximates_witness:
  "objects (Of [pattern_schema (infix_glob [0x61] [])] [pattern_schema (literal [0x61])]) =
     objects (schema_scope (infix_glob [0x61] [])) - objects (schema_scope (literal [0x61]))"
proof -
  have "difference (schema_scope (infix_glob [0x61] [])) (schema_scope (literal [0x61])) =
      Scope_diff (Of [pattern_schema (infix_glob [0x61] [])] [pattern_schema (literal [0x61])])"
    by code_simp
  from difference_never_under_approximates[OF this] show ?thesis by (simp add: schema_scope_def)
qed

text \<open>The tables of one name, by the first byte of their schema.\<close>

definition first_byte_patterns :: "bytes \<Rightarrow> Pattern list" where
  "first_byte_patterns t =
     pattern_table (literal []) (literal t) #
     map (\<lambda>i. pattern_table (infix_glob [word_of_nat i] []) (literal t)) [0..<256]"

text \<open>
  Containment is decided soundly: a scope accepted as a subset has no object outside the
  other. It is not decided completely, although the module's summary says that it holds
  exactly when one object set is contained in the other: the tables of one name in any schema
  are covered by the empty schema name and the globs for each first byte together, but by no
  single one of them, and the test answers false.
\<close>

theorem containment_is_sound_but_not_complete:
  "(scope_subset a b \<longrightarrow> objects a \<subseteq> objects b) \<and>
   objects (Of [pattern_table star (literal t)] []) \<subseteq> objects (Of (first_byte_patterns t) []) \<and>
   \<not> scope_subset (Of [pattern_table star (literal t)] []) (Of (first_byte_patterns t) [])"
proof (intro conjI)
  show "scope_subset a b \<longrightarrow> objects a \<subseteq> objects b"
    using subset_sound by (auto simp: objects_def)
  show "objects (Of [pattern_table star (literal t)] []) \<subseteq> objects (Of (first_byte_patterns t) [])"
  proof
    fix n assume n: "n \<in> objects (Of [pattern_table star (literal t)] [])"
    then obtain s where s: "n = object_table s t"
      by (cases n rule: object_cases) (auto simp: objects_def pattern_table_def)
    show "n \<in> objects (Of (first_byte_patterns t) [])"
    proof (cases s)
      case (Cons b bs)
      have "unat b < 2 ^ 8" using unsigned_less[of b] by simp
      then have "unat b \<in> set [0..<256]" by simp
      then have "pattern_table (infix_glob [word_of_nat (unat b)] []) (literal t) \<in> set (first_byte_patterns t)"
        unfolding first_byte_patterns_def set_map list.set by blast
      moreover have "pattern_matches (pattern_table (infix_glob [word_of_nat (unat b)] []) (literal t)) n"
        by (simp add: s Cons pattern_table_def)
      ultimately have "\<exists>p \<in> set (first_byte_patterns t). pattern_matches p n" by blast
      then show ?thesis by (simp add: objects_def)
    qed (simp add: s objects_def first_byte_patterns_def pattern_table_def)
  qed
  have "\<not> pattern_covers p (pattern_table star (literal t))" if "p \<in> set (first_byte_patterns t)" for p
    using that
    by (auto simp: first_byte_patterns_def pattern_covers_def pattern_table_def seg_covers_star is_star_def
        infix_glob_def literal_def)
  then show "\<not> scope_subset (Of [pattern_table star (literal t)] []) (Of (first_byte_patterns t) [])"
    by (auto simp: region_covered_and_clear_def list_ex_iff)
qed

theorem containment_is_sound_but_not_complete_witness:
  "objects (schema_scope (literal [0x61])) \<subseteq> objects (schema_scope (infix_glob [0x61] []))"
proof -
  have "scope_subset (schema_scope (literal [0x61])) (schema_scope (infix_glob [0x61] []))" by code_simp
  then show ?thesis
    using containment_is_sound_but_not_complete[of "schema_scope (literal [0x61])"
        "schema_scope (infix_glob [0x61] [])"] by blast
qed

end
