(* ===== verification/PolKnob.thy ===== *)
theory PolKnob
  imports PolPattern
begin

text \<open>
  Knobs, their values, and the registry of the migration policy
  (\<^verbatim>\<open>crates/zeroship-migrate-policy/src/{knob,value_order,registry}.rs\<close>). A Rust \<^verbatim>\<open>String\<close> is its
  list of bytes, and a \<^verbatim>\<open>BTreeMap\<close> is an association list sorted by key.

  The lemmas show that the order of each kind of value is a lattice order: \<open>leq_value\<close> is a
  preorder, \<open>join_value\<close> the least upper bound and \<open>meet_value\<close> the greatest lower bound, with a
  value of the wrong shape an error and never an answer. The locale \<open>value_lattice\<close> is that
  contract; it is interpreted for every kind.
\<close>

type_synonym rstring = bytes

subsection \<open>Keys, kinds and values\<close>

type_synonym KnobKey = rstring

datatype KnobKeyError = Malformed | IllegalChar

definition key_byte :: "u8 \<Rightarrow> bool" where
  "key_byte b \<longleftrightarrow> (0x61 \<le> b \<and> b \<le> 0x7A) \<or> (0x30 \<le> b \<and> b \<le> 0x39) \<or> b = 0x5F"

definition knob_key_parse :: "rstring \<Rightarrow> KnobKeyError + KnobKey" where
  "knob_key_parse s =
     (case split_on dot s of
        [ns, name] \<Rightarrow>
          if ns = [] \<or> name = [] then Inl Malformed
          else if \<not> list_all key_byte ns \<or> \<not> list_all key_byte name then Inl IllegalChar
          else Inr s
      | _ \<Rightarrow> Inl Malformed)"

datatype KnobKind =
    Bool
  | StrSet
  | UintCharter (hard_floor: u64)
  | OrderedEnum (variants: "rstring list")
  | Digest

datatype KnobValue = Bool bool | Uint u64 | StrSet "rstring list" | Str rstring

datatype KnobValueError = TypeMismatch | BelowHardFloor u64 u64 | UnknownVariant

definition validate_for :: "KnobValue \<Rightarrow> KnobKind \<Rightarrow> KnobValueError + unit" where
  "validate_for self kind =
     (case (kind, self) of
        (KnobKind.Bool, KnobValue.Bool _) \<Rightarrow> Inr ()
      | (KnobKind.StrSet, KnobValue.StrSet _) \<Rightarrow> Inr ()
      | (UintCharter fl, Uint v) \<Rightarrow> if v < fl then Inl (BelowHardFloor v fl) else Inr ()
      | (OrderedEnum vs, Str s) \<Rightarrow> if list_ex (\<lambda>v. v = s) vs then Inr () else Inl UnknownVariant
      | (Digest, Str _) \<Rightarrow> Inr ()
      | _ \<Rightarrow> Inl TypeMismatch)"

datatype Polarity = Grant_pol | Require_pol | Pinned (delegable: bool)

datatype Enforcement = Enforced | DeclaredOnly | HostEnforced

definition forbids_nondefault_on_enforced_path :: "Enforcement \<Rightarrow> bool" where
  "forbids_nondefault_on_enforced_path self \<longleftrightarrow> self = DeclaredOnly"

datatype ObjectModel = PerTable | PerSchema | Global

record KnobDef =
  knob_key :: KnobKey
  knob_kind :: KnobKind
  polarity :: Polarity
  knob_default :: KnobValue
  enforcement :: Enforcement
  object_model :: ObjectModel
  requires_db_privilege :: bool
  inherit :: bool
  docs :: rstring

subsection \<open>The order of values\<close>

datatype ValueOrderError = ShapeMismatch | UnknownVariantOrder

definition as_bool :: "KnobValue \<Rightarrow> ValueOrderError + bool" where
  "as_bool v = (case v of KnobValue.Bool b \<Rightarrow> Inr b | _ \<Rightarrow> Inl ShapeMismatch)"

definition as_uint :: "KnobValue \<Rightarrow> ValueOrderError + u64" where
  "as_uint v = (case v of Uint u \<Rightarrow> Inr u | _ \<Rightarrow> Inl ShapeMismatch)"

definition as_str :: "KnobValue \<Rightarrow> ValueOrderError + rstring" where
  "as_str v = (case v of Str s \<Rightarrow> Inr s | _ \<Rightarrow> Inl ShapeMismatch)"

definition as_strset :: "KnobValue \<Rightarrow> ValueOrderError + rstring fset" where
  "as_strset v = (case v of KnobValue.StrSet xs \<Rightarrow> Inr (fset_of_list xs) | _ \<Rightarrow> Inl ShapeMismatch)"

text \<open>\<^verbatim>\<open>Iterator::position\<close>: the index of the first element equal to the one sought.\<close>

fun position :: "'a \<Rightarrow> 'a list \<Rightarrow> nat option" where
  "position x [] = None"
| "position x (y # ys) = (if y = x then Some 0 else map_option Suc (position x ys))"

definition rank :: "rstring list \<Rightarrow> KnobValue \<Rightarrow> ValueOrderError + nat" where
  "rank vs v =
     and_then (as_str v) (\<lambda>s.
       case position s vs of Some i \<Rightarrow> Inr i | None \<Rightarrow> Inl UnknownVariantOrder)"

definition a_or_b_by_rank :: "KnobValue \<Rightarrow> KnobValue \<Rightarrow> bool \<Rightarrow> KnobValue" where
  "a_or_b_by_rank a b take_a = (if take_a then a else b)"

definition leq_value :: "KnobKind \<Rightarrow> KnobValue \<Rightarrow> KnobValue \<Rightarrow> ValueOrderError + bool" where
  "leq_value kind a b =
     (case kind of
        KnobKind.Bool \<Rightarrow>
          and_then (as_bool a) (\<lambda>x. and_then (as_bool b) (\<lambda>y. Inr (\<not> x \<or> y)))
      | KnobKind.StrSet \<Rightarrow>
          and_then (as_strset a) (\<lambda>x. and_then (as_strset b) (\<lambda>y. Inr (x |\<subseteq>| y)))
      | UintCharter _ \<Rightarrow>
          and_then (as_uint a) (\<lambda>x. and_then (as_uint b) (\<lambda>y. Inr (x \<le> y)))
      | OrderedEnum vs \<Rightarrow>
          and_then (rank vs a) (\<lambda>x. and_then (rank vs b) (\<lambda>y. Inr (x \<le> y)))
      | Digest \<Rightarrow>
          and_then (as_str a) (\<lambda>x. and_then (as_str b) (\<lambda>y. Inr (x = y))))"

definition join_value :: "KnobKind \<Rightarrow> KnobValue \<Rightarrow> KnobValue \<Rightarrow> ValueOrderError + KnobValue" where
  "join_value kind a b =
     (case kind of
        KnobKind.Bool \<Rightarrow>
          and_then (as_bool a) (\<lambda>x.
            if x then Inr (KnobValue.Bool True)
            else and_then (as_bool b) (\<lambda>y. Inr (KnobValue.Bool y)))
      | KnobKind.StrSet \<Rightarrow>
          and_then (as_strset a) (\<lambda>x. and_then (as_strset b) (\<lambda>y.
            Inr (KnobValue.StrSet (sorted_list_of_fset (x |\<union>| y)))))
      | UintCharter _ \<Rightarrow>
          and_then (as_uint a) (\<lambda>x. and_then (as_uint b) (\<lambda>y. Inr (Uint (max x y))))
      | OrderedEnum vs \<Rightarrow>
          and_then (rank vs a) (\<lambda>ra. and_then (rank vs b) (\<lambda>rb. Inr (a_or_b_by_rank a b (ra \<ge> rb))))
      | Digest \<Rightarrow>
          and_then (as_str a) (\<lambda>x. and_then (as_str b) (\<lambda>y.
            if x = y then Inr a else Inl ShapeMismatch)))"

definition meet_value :: "KnobKind \<Rightarrow> KnobValue \<Rightarrow> KnobValue \<Rightarrow> ValueOrderError + KnobValue" where
  "meet_value kind a b =
     (case kind of
        KnobKind.Bool \<Rightarrow>
          and_then (as_bool a) (\<lambda>x.
            if \<not> x then Inr (KnobValue.Bool False)
            else and_then (as_bool b) (\<lambda>y. Inr (KnobValue.Bool y)))
      | KnobKind.StrSet \<Rightarrow>
          and_then (as_strset a) (\<lambda>x. and_then (as_strset b) (\<lambda>y.
            Inr (KnobValue.StrSet (sorted_list_of_fset (x |\<inter>| y)))))
      | UintCharter _ \<Rightarrow>
          and_then (as_uint a) (\<lambda>x. and_then (as_uint b) (\<lambda>y. Inr (Uint (min x y))))
      | OrderedEnum vs \<Rightarrow>
          and_then (rank vs a) (\<lambda>ra. and_then (rank vs b) (\<lambda>rb. Inr (a_or_b_by_rank a b (ra \<le> rb))))
      | Digest \<Rightarrow>
          and_then (as_str a) (\<lambda>x. and_then (as_str b) (\<lambda>y.
            if x = y then Inr a else Inl ShapeMismatch)))"

subsection \<open>The registry\<close>

text \<open>A \<^verbatim>\<open>BTreeMap\<close>: \<open>bt_get\<close> is its \<^verbatim>\<open>get\<close> and \<open>bt_put\<close> its \<^verbatim>\<open>insert\<close>.\<close>

definition bt_get :: "('k \<times> 'v) list \<Rightarrow> 'k \<Rightarrow> 'v option" where
  "bt_get m k = map_of m k"

fun bt_put :: "'k::linorder \<Rightarrow> 'v \<Rightarrow> ('k \<times> 'v) list \<Rightarrow> ('k \<times> 'v) list" where
  "bt_put k v [] = [(k, v)]"
| "bt_put k v ((l, w) # m) =
     (if k < l then (k, v) # (l, w) # m else if k = l then (k, v) # m else (l, w) # bt_put k v m)"

type_synonym PolicyRegistry = "(KnobKey \<times> KnobDef) list"

datatype RegistryError = DuplicateKey KnobKey

definition registry_empty :: PolicyRegistry where
  "registry_empty = []"

definition registry_with :: "PolicyRegistry \<Rightarrow> KnobDef list \<Rightarrow> RegistryError + PolicyRegistry" where
  "registry_with self defs =
     try_fold (\<lambda>d self.
         if bt_get self (knob_key d) \<noteq> None then Inl (DuplicateKey (knob_key d))
         else Inr (bt_put (knob_key d) d self))
       defs self"

definition registry_get :: "PolicyRegistry \<Rightarrow> KnobKey \<Rightarrow> KnobDef option" where
  "registry_get self key = bt_get self key"

definition registry_iter :: "PolicyRegistry \<Rightarrow> KnobDef list" where
  "registry_iter self = map snd self"

lemma bt_get_put: "sorted_wrt (<) (map fst m) \<Longrightarrow> bt_get (bt_put k v m) l = (if l = k then Some v else bt_get m l)"
  unfolding bt_get_def by (induction k v m rule: bt_put.induct) (auto dest: not_less_iff_gr_or_eq[THEN iffD1])

lemma set_bt_put: "set (map fst (bt_put k v m)) = insert k (set (map fst m))"
  by (induction k v m rule: bt_put.induct) auto

lemma sorted_bt_put: "sorted_wrt (<) (map fst m) \<Longrightarrow> sorted_wrt (<) (map fst (bt_put k v m))"
  by (induction k v m rule: bt_put.induct) (auto simp: set_bt_put[simplified])

definition registry_ok :: "PolicyRegistry \<Rightarrow> bool" where
  "registry_ok reg \<longleftrightarrow> sorted_wrt (<) (map fst reg) \<and> list_all (\<lambda>(k, d). knob_key d = k) reg"

lemma registry_empty_ok: "registry_ok registry_empty"
  by (simp add: registry_ok_def registry_empty_def)

lemma set_bt_put_subset: "set (bt_put k v m) \<subseteq> insert (k, v) (set m)"
  by (induction k v m rule: bt_put.induct) auto

lemma registry_with_ok:
  assumes "registry_with reg defs = Inr reg'" "registry_ok reg"
  shows "registry_ok reg' \<and>
    (\<forall>k. registry_get reg' k = (case registry_get reg k of Some d \<Rightarrow> Some d | None \<Rightarrow> find (\<lambda>d. knob_key d = k) defs))"
  using assms unfolding registry_with_def
proof (induction defs arbitrary: reg)
  case (Cons d defs)
  let ?reg = "bt_put (knob_key d) d reg"
  from Cons.prems(1) have d: "bt_get reg (knob_key d) = None"
    and rest: "try_fold (\<lambda>d self. if bt_get self (knob_key d) \<noteq> None then Inl (DuplicateKey (knob_key d))
        else Inr (bt_put (knob_key d) d self)) defs ?reg = Inr reg'"
    by (auto split: if_splits)
  have ok: "registry_ok ?reg"
    using Cons.prems(2) sorted_bt_put[of reg] set_bt_put_subset[of "knob_key d" d reg]
    by (auto simp: registry_ok_def list_all_iff)
  have "registry_get ?reg k = (if k = knob_key d then Some d else registry_get reg k)" for k
    using Cons.prems(2) by (simp add: registry_get_def registry_ok_def bt_get_put)
  with Cons.IH[OF rest ok] d show ?case by (auto simp: registry_get_def split: option.splits)
qed (auto split: option.splits)

subsection \<open>The order is a lattice order\<close>

definition fits :: "KnobKind \<Rightarrow> KnobValue \<Rightarrow> bool" where
  "fits kind v =
     (case (kind, v) of
        (KnobKind.Bool, KnobValue.Bool _) \<Rightarrow> True
      | (KnobKind.StrSet, KnobValue.StrSet _) \<Rightarrow> True
      | (UintCharter _, Uint _) \<Rightarrow> True
      | (OrderedEnum vs, Str s) \<Rightarrow> position s vs \<noteq> None
      | (Digest, Str _) \<Rightarrow> True
      | _ \<Rightarrow> False)"

lemma position_None: "position x ys = None \<longleftrightarrow> x \<notin> set ys"
  by (induction ys) auto

lemma validate_fits: "validate_for v kind = Inr () \<Longrightarrow> fits kind v"
  by (auto simp: validate_for_def fits_def position_None list_ex_iff
      split: KnobKind.splits KnobValue.splits if_splits)

locale value_lattice =
  fixes ok :: "'v \<Rightarrow> bool"
    and leq :: "'v \<Rightarrow> 'v \<Rightarrow> 'e + bool"
    and join_op meet_op :: "'v \<Rightarrow> 'v \<Rightarrow> 'e + 'v"
  assumes leq_ok: "leq a b = Inr True \<Longrightarrow> ok a \<and> ok b"
    and leq_decides: "ok a \<Longrightarrow> ok b \<Longrightarrow> \<exists>x. leq a b = Inr x"
    and leq_refl: "ok a \<Longrightarrow> leq a a = Inr True"
    and leq_trans: "leq a b = Inr True \<Longrightarrow> leq b c = Inr True \<Longrightarrow> leq a c = Inr True"
    and join_ok: "ok a \<Longrightarrow> ok b \<Longrightarrow> join_op a b = Inr j \<Longrightarrow> ok j"
    and join_above: "ok a \<Longrightarrow> ok b \<Longrightarrow> join_op a b = Inr j \<Longrightarrow> leq a j = Inr True \<and> leq b j = Inr True"
    and join_least: "join_op a b = Inr j \<Longrightarrow> leq a c = Inr True \<Longrightarrow> leq b c = Inr True \<Longrightarrow> leq j c = Inr True"
    and meet_ok: "ok a \<Longrightarrow> ok b \<Longrightarrow> meet_op a b = Inr m \<Longrightarrow> ok m"
    and meet_below: "ok a \<Longrightarrow> ok b \<Longrightarrow> meet_op a b = Inr m \<Longrightarrow> leq m a = Inr True \<and> leq m b = Inr True"
    and meet_greatest: "meet_op a b = Inr m \<Longrightarrow> leq c a = Inr True \<Longrightarrow> leq c b = Inr True \<Longrightarrow> leq c m = Inr True"
begin

text \<open>A loop that joins the values of some of the items into an accumulator.\<close>

lemma joins_ok:
  assumes "try_fold (\<lambda>x acc. if P x then join_op acc (f x) else Inr acc) xs acc = Inr v"
    and "ok acc" "\<And>x. x \<in> set xs \<Longrightarrow> ok (f x)"
  shows "ok v \<and> leq acc v = Inr True \<and> (\<forall>x \<in> set xs. P x \<longrightarrow> leq (f x) v = Inr True)"
  using assms
proof (induction xs arbitrary: acc)
  case (Cons x xs)
  show ?case
  proof (cases "P x")
    case True
    with Cons.prems(1) obtain j where j: "join_op acc (f x) = Inr j"
      "try_fold (\<lambda>x acc. if P x then join_op acc (f x) else Inr acc) xs j = Inr v"
      by (auto simp: and_then_Inr)
    with join_ok[OF _ _ j(1)] join_above[OF _ _ j(1)] Cons.prems(2,3)
    have "ok j" "leq acc j = Inr True" "leq (f x) j = Inr True" by auto
    with Cons.IH[OF j(2)] Cons.prems(3) show ?thesis by (auto intro: leq_trans)
  next
    case False
    with Cons show ?thesis by auto
  qed
qed (simp add: leq_refl)

lemma joins_least:
  assumes "try_fold (\<lambda>x acc. if P x then join_op acc (f x) else Inr acc) xs acc = Inr v"
    and "leq acc c = Inr True" "\<And>x. x \<in> set xs \<Longrightarrow> P x \<Longrightarrow> leq (f x) c = Inr True"
  shows "leq v c = Inr True"
  using assms by (induction xs arbitrary: acc) (auto simp: and_then_Inr intro: join_least split: if_splits)

end

lemma rank_Inr: "rank vs v = Inr i \<longleftrightarrow> (\<exists>s. v = Str s \<and> position s vs = Some i)"
  by (cases v) (auto simp: rank_def as_str_def split: option.splits)

lemmas value_order_defs = leq_value_def join_value_def meet_value_def as_bool_def as_uint_def as_str_def
  as_strset_def rank_Inr a_or_b_by_rank_def fits_def and_then_Inr

interpretation knob: value_lattice "fits kind" "leq_value kind" "join_value kind" "meet_value kind"
  for kind
proof unfold_locales
  fix a b c j :: KnobValue
  show "leq_value kind a b = Inr True \<Longrightarrow> fits kind a \<and> fits kind b"
    by (cases kind; cases a; cases b) (auto simp: value_order_defs split: option.splits)
  show "fits kind a \<Longrightarrow> fits kind b \<Longrightarrow> \<exists>x. leq_value kind a b = Inr x"
    by (cases kind; cases a; cases b) (auto simp: value_order_defs split: option.splits)
  show "fits kind a \<Longrightarrow> leq_value kind a a = Inr True"
    by (cases kind; cases a) (auto simp: value_order_defs split: option.splits)
  show "leq_value kind a b = Inr True \<Longrightarrow> leq_value kind b c = Inr True \<Longrightarrow> leq_value kind a c = Inr True"
    by (cases kind; cases a; cases b; cases c) (auto simp: value_order_defs split: option.splits)
  show "fits kind a \<Longrightarrow> fits kind b \<Longrightarrow> join_value kind a b = Inr j \<Longrightarrow> fits kind j"
    by (cases kind; cases a; cases b) (auto simp: value_order_defs split: option.splits if_splits)
  show "fits kind a \<Longrightarrow> fits kind b \<Longrightarrow> join_value kind a b = Inr j \<Longrightarrow>
      leq_value kind a j = Inr True \<and> leq_value kind b j = Inr True"
    by (cases kind; cases a; cases b)
       (auto simp: value_order_defs split: option.splits if_splits)
  show "join_value kind a b = Inr j \<Longrightarrow> leq_value kind a c = Inr True \<Longrightarrow> leq_value kind b c = Inr True \<Longrightarrow>
      leq_value kind j c = Inr True"
    by (cases kind; cases a; cases b; cases c) (auto simp: value_order_defs split: option.splits if_splits)
  show "fits kind a \<Longrightarrow> fits kind b \<Longrightarrow> meet_value kind a b = Inr j \<Longrightarrow> fits kind j"
    by (cases kind; cases a; cases b) (auto simp: value_order_defs split: option.splits if_splits)
  show "fits kind a \<Longrightarrow> fits kind b \<Longrightarrow> meet_value kind a b = Inr j \<Longrightarrow>
      leq_value kind j a = Inr True \<and> leq_value kind j b = Inr True"
    by (cases kind; cases a; cases b) (auto simp: value_order_defs split: option.splits if_splits)
  show "meet_value kind a b = Inr j \<Longrightarrow> leq_value kind c a = Inr True \<Longrightarrow> leq_value kind c b = Inr True \<Longrightarrow>
      leq_value kind c j = Inr True"
    by (cases kind; cases a; cases b; cases c) (auto simp: value_order_defs split: option.splits if_splits)
qed

end
