(* ===== verification/PolRule.thy ===== *)
theory PolRule
  imports PolScope PolKnob
begin

text \<open>
  The scoped rules of a policy document and the conflicts between injected shapes
  (\<^verbatim>\<open>crates/zeroship-migrate-policy/src/rule.rs\<close>, the document type of \<^verbatim>\<open>document.rs\<close>, and the
  collision checks and helpers of \<^verbatim>\<open>compose.rs\<close>). A diagnostic text built with \<^verbatim>\<open>format!\<close> is a
  value of \<open>detail\<close> that holds what the text is built from.
\<close>

subsection \<open>Rules\<close>

datatype AssignmentEvent = Insert | Write | Delete

datatype AssignmentGenerator = Now | TypedId | Actor | Increment "64 word" | Identity

record Assignment =
  assign_by :: AssignmentGenerator
  assign_on :: AssignmentEvent

datatype InjectCollation = Bytewise

record InjectColumn =
  col_name :: rstring
  col_ty :: rstring
  col_nullable :: bool
  col_default :: "rstring option"
  col_assign :: "Assignment option"
  col_collation :: "InjectCollation option"

record InjectIndex =
  index_name :: rstring
  index_columns :: "rstring list"

datatype AuthorPkPolicy = Allow | Forbid

record InjectSpec =
  inj_columns :: "InjectColumn list"
  inj_indexes :: "InjectIndex list"
  inj_primary_key :: "rstring list option"
  author_primary_key :: AuthorPkPolicy
  mandatory :: bool

type_synonym NameGlob = SegGlob

datatype ValidatePredicate =
    HasPrimaryKey
  | ColumnNamePattern "NameGlob list" "NameGlob list"
  | ForbiddenColumns "rstring list"
  | TypeNullability rstring "rstring option" "bool option"
  | RequireIndex "rstring list"
  | TableNameForbidden "Pattern list"

datatype RuleKind =
    Grant KnobKey KnobValue
  | Require KnobKey KnobValue
  | Inject InjectSpec
  | Validate ValidatePredicate

definition rule_key :: "RuleKind \<Rightarrow> KnobKey option" where
  "rule_key self =
     (case self of
        Grant key _ \<Rightarrow> Some key
      | Require key _ \<Rightarrow> Some key
      | Inject _ \<Rightarrow> None
      | Validate _ \<Rightarrow> None)"

record Rule =
  rule_scope :: Scope
  rule_kind :: RuleKind

text \<open>
  The resolved document. Its version, its authored default scope and its warnings are for
  reporting; composition reads the rules only.
\<close>

record PolicyDoc =
  policy_version :: u32
  default_scope :: "Scope option"
  doc_rules :: "Rule list"

subsection \<open>Errors\<close>

datatype detail =
    ColumnDiverges rstring
  | IndexDiverges rstring
  | PkDiverges "rstring list" "rstring list"
  | AuthorPkDiverges
  | ForbidsColumn rstring
  | UnknownKnob KnobKey
  | ValueOrder ValueOrderError

datatype ComposeError =
    GrantExceedsCharter KnobKey rstring
  | UncoveredRegionNotRepresentable KnobKey
  | DraftInjectCollidesCharter detail
  | DraftValidateContradictsCharterInject detail
  | CreatableEscapesMandatoryInject_compose rstring
  | CharterInjectCollision detail
  | RegistryOrValueMismatch detail

datatype FinalizeError =
    CharterInjectColumnConflict detail
  | CharterPrimaryKeyConflict detail
  | CharterIndexNameConflict detail
  | CharterInjectValidateContradiction detail
  | CreatableEscapesMandatoryInject rstring

text \<open>\<^verbatim>\<open>From<ValueOrderError> for ComposeError\<close>, applied by \<^verbatim>\<open>?\<close>.\<close>

definition compose_error :: "ValueOrderError + 'a \<Rightarrow> ComposeError + 'a" where
  "compose_error = map_err (\<lambda>e. RegistryOrValueMismatch (ValueOrder e))"

lemma compose_error_Inr [simp]: "compose_error r = Inr y \<longleftrightarrow> r = Inr y" "compose_error (Inr y) = Inr y"
  by (simp_all add: compose_error_def)

subsection \<open>Helpers\<close>

definition lookup :: "PolicyRegistry \<Rightarrow> KnobKey \<Rightarrow> ComposeError + KnobDef" where
  "lookup registry key =
     (case registry_get registry key of
        Some d \<Rightarrow> Inr d
      | None \<Rightarrow> Inl (RegistryOrValueMismatch (UnknownKnob key)))"

definition rules_of :: "Rule list \<Rightarrow> (RuleKind \<Rightarrow> bool) \<Rightarrow> Rule list" where
  "rules_of rules pred = filter (\<lambda>r. pred (rule_kind r)) rules"

definition is_require :: "RuleKind \<Rightarrow> bool" where
  "is_require k = (case k of Require _ _ \<Rightarrow> True | _ \<Rightarrow> False)"

definition is_inject :: "RuleKind \<Rightarrow> bool" where
  "is_inject k = (case k of Inject _ \<Rightarrow> True | _ \<Rightarrow> False)"

definition is_validate :: "RuleKind \<Rightarrow> bool" where
  "is_validate k = (case k of Validate _ \<Rightarrow> True | _ \<Rightarrow> False)"

text \<open>The identifier fold and the comparison of names under it.\<close>

definition fold_ident :: "rstring \<Rightarrow> bytes" where
  "fold_ident s =
     (case normalize_object_name s of
        Some o' \<Rightarrow> obj_schema o'
      | None \<Rightarrow> map to_ascii_lowercase s)"

definition names_match :: "rstring \<Rightarrow> rstring \<Rightarrow> bool" where
  "names_match a b \<longleftrightarrow> fold_ident a = fold_ident b"

definition render_pattern :: "Pattern \<Rightarrow> rstring" where
  "render_pattern p = seg_render (pat_schema p) @ [dot] @ seg_render (pat_table p)"

text \<open>\<^verbatim>\<open>[String]::join\<close>.\<close>

fun join_strings :: "rstring \<Rightarrow> rstring list \<Rightarrow> rstring" where
  "join_strings sep [] = []"
| "join_strings sep [x] = x"
| "join_strings sep (x # xs) = x @ sep @ join_strings sep xs"

text \<open>The byte strings are the UTF-8 of the empty-set sign, \<^verbatim>\<open>*.*\<close>, the comma and \<^verbatim>\<open> \ \<close>.\<close>

definition render_scope :: "Scope \<Rightarrow> rstring" where
  "render_scope s =
     (case s of
        Nothing \<Rightarrow> [0xE2, 0x88, 0x85]
      | All_scope \<Rightarrow> [star_byte, dot, star_byte]
      | Of incl excl \<Rightarrow>
          let inc = map render_pattern incl
          in if excl = [] then join_strings [0x2C] inc
             else let exc = map render_pattern excl
               in join_strings [0x2C] inc @ [0x20, 0x5C, 0x20] @ join_strings [0x2C] exc)"

subsection \<open>Conflicting injects\<close>

text \<open>The first element a nested \<^verbatim>\<open>for\<close> loop returns from.\<close>

fun find_map :: "('a \<Rightarrow> 'b option) \<Rightarrow> 'a list \<Rightarrow> 'b option" where
  "find_map f [] = None"
| "find_map f (x # xs) = (case f x of Some y \<Rightarrow> Some y | None \<Rightarrow> find_map f xs)"

definition inject_columns_diverge :: "InjectColumn \<Rightarrow> InjectColumn \<Rightarrow> bool" where
  "inject_columns_diverge a b \<longleftrightarrow>
     col_ty a \<noteq> col_ty b \<or> col_nullable a \<noteq> col_nullable b \<or> col_default a \<noteq> col_default b \<or>
     col_collation a \<noteq> col_collation b \<or> col_assign a \<noteq> col_assign b"

definition inject_column_conflict :: "InjectSpec \<Rightarrow> InjectSpec \<Rightarrow> detail option" where
  "inject_column_conflict a b =
     find_map (\<lambda>ca. find_map (\<lambda>cb.
         if names_match (col_name ca) (col_name cb) \<and> inject_columns_diverge ca cb
         then Some (ColumnDiverges (col_name ca)) else None)
       (inj_columns b)) (inj_columns a)"

definition inject_pk_conflict :: "InjectSpec \<Rightarrow> InjectSpec \<Rightarrow> detail option" where
  "inject_pk_conflict a b =
     (case (inj_primary_key a, inj_primary_key b) of
        (Some pa, Some pb) \<Rightarrow>
          if pa \<noteq> pb then Some (PkDiverges pa pb)
          else if author_primary_key a \<noteq> author_primary_key b then Some AuthorPkDiverges
          else None
      | _ \<Rightarrow> None)"

definition inject_index_conflict :: "InjectSpec \<Rightarrow> InjectSpec \<Rightarrow> detail option" where
  "inject_index_conflict a b =
     find_map (\<lambda>ia. find_map (\<lambda>ib.
         if names_match (index_name ia) (index_name ib) \<and> index_columns ia \<noteq> index_columns ib
         then Some (IndexDiverges (index_name ia)) else None)
       (inj_indexes b)) (inj_indexes a)"

definition inject_specs_collide :: "InjectSpec \<Rightarrow> InjectSpec \<Rightarrow> detail option" where
  "inject_specs_collide a b =
     (case find_map (\<lambda>ca. find_map (\<lambda>cb.
             if names_match (col_name ca) (col_name cb) \<and> inject_columns_diverge ca cb
             then Some (ColumnDiverges (col_name ca)) else None)
           (inj_columns b)) (inj_columns a) of
        Some d \<Rightarrow> Some d
      | None \<Rightarrow>
          (case find_map (\<lambda>ia. find_map (\<lambda>ib.
                  if names_match (index_name ia) (index_name ib) \<and> index_columns ia \<noteq> index_columns ib
                  then Some (IndexDiverges (index_name ia)) else None)
                (inj_indexes b)) (inj_indexes a) of
             Some d \<Rightarrow> Some d
           | None \<Rightarrow>
               (case (inj_primary_key a, inj_primary_key b) of
                  (Some pa, Some pb) \<Rightarrow>
                    if pa \<noteq> pb then Some (PkDiverges pa pb)
                    else if author_primary_key a \<noteq> author_primary_key b then Some AuthorPkDiverges
                    else None
                | _ \<Rightarrow> None)))"

definition check_inject_collisions :: "Rule list \<Rightarrow> Rule list \<Rightarrow> ComposeError + unit" where
  "check_inject_collisions charter_injects draft_injects =
     try_fold (\<lambda>l _.
         case rule_kind l of
           Inject ls \<Rightarrow>
             try_fold (\<lambda>r _.
                 case rule_kind r of
                   Inject rs \<Rightarrow>
                     if scope_meet (rule_scope l) (rule_scope r) = Nothing then Inr ()
                     else (case inject_specs_collide ls rs of
                             Some d \<Rightarrow> Inl (DraftInjectCollidesCharter d)
                           | None \<Rightarrow> Inr ())
                 | _ \<Rightarrow> Inr ())
               draft_injects ()
         | _ \<Rightarrow> Inr ())
       charter_injects ()"

text \<open>The two innermost loops over a predicate's forbidden names.\<close>

definition forbidden_injected_column :: "InjectSpec \<Rightarrow> ValidatePredicate \<Rightarrow> rstring option" where
  "forbidden_injected_column spec pred =
     (case pred of
        ForbiddenColumns names \<Rightarrow>
          find_map (\<lambda>col. find_map (\<lambda>forbidden.
              if names_match (col_name col) forbidden then Some (col_name col) else None) names)
            (inj_columns spec)
      | _ \<Rightarrow> None)"

definition check_validate_vs_inject :: "Rule list \<Rightarrow> Rule list \<Rightarrow> ComposeError + unit" where
  "check_validate_vs_inject charter_injects draft_validates =
     try_fold (\<lambda>inj _.
         case rule_kind inj of
           Inject spec \<Rightarrow>
             try_fold (\<lambda>val _.
                 case rule_kind val of
                   Validate pred \<Rightarrow>
                     if scope_meet (rule_scope inj) (rule_scope val) = Nothing then Inr ()
                     else (case forbidden_injected_column spec pred of
                             Some name \<Rightarrow> Inl (DraftValidateContradictsCharterInject (ForbidsColumn name))
                           | None \<Rightarrow> Inr ())
                 | _ \<Rightarrow> Inr ())
               draft_validates ()
         | _ \<Rightarrow> Inr ())
       charter_injects ()"

end
