(* ===== verification/PolCompose.thy ===== *)
theory PolCompose
  imports PolRule
begin

text \<open>
  The composition of policy layers (\<^verbatim>\<open>crates/zeroship-migrate-policy/src/compose.rs\<close>): the
  pointwise grant model, the layer stack, the effective policy and its queries, the trusted
  combinators \<^verbatim>\<open>overlay\<close> and \<^verbatim>\<open>restrict\<close>, and the gate \<^verbatim>\<open>finalize_charter\<close>. A layer stack is a list
  with the innermost layer first, as the source keeps it.

  \<^verbatim>\<open>TrustedDoc\<close> and \<^verbatim>\<open>RootCharter\<close> wrap a document and are the document here. The type
  distinction between an assembled and a finalized charter is kept.
\<close>

subsection \<open>The pointwise grant model\<close>

record GrantRule =
  grant_scope :: Scope
  grant_value :: KnobValue

record GrantKeyMap =
  km_kind :: KnobKind
  km_default :: KnobValue
  km_rules :: "GrantRule list"

type_synonym GrantModel = "(KnobKey \<times> GrantKeyMap) list"

definition value_at :: "GrantKeyMap \<Rightarrow> ObjectName \<Rightarrow> ComposeError + KnobValue" where
  "value_at self n =
     try_fold (\<lambda>r acc.
         if objects_membership (grant_scope r) n
         then compose_error (join_value (km_kind self) acc (grant_value r))
         else Inr acc)
       (km_rules self) (km_default self)"

definition granted_scope :: "GrantKeyMap \<Rightarrow> ComposeError + Scope" where
  "granted_scope self =
     try_fold (\<lambda>r acc.
         and_then (compose_error (leq_value (km_kind self) (grant_value r) (km_default self))) (\<lambda>low.
           if low then Inr acc else Inr (scope_join acc (grant_scope r))))
       (km_rules self) Nothing"

definition covered_scope :: "GrantKeyMap \<Rightarrow> Scope" where
  "covered_scope self = fold (\<lambda>r acc. scope_join acc (grant_scope r)) (km_rules self) Nothing"

definition km_covers :: "GrantKeyMap \<Rightarrow> ObjectName \<Rightarrow> bool" where
  "km_covers self n \<longleftrightarrow> list_ex (\<lambda>r. objects_membership (grant_scope r) n) (km_rules self)"

definition grant_model_build :: "Rule list \<Rightarrow> PolicyRegistry \<Rightarrow> ComposeError + GrantModel" where
  "grant_model_build rules registry =
     try_fold (\<lambda>rule keys.
         case rule_kind rule of
           Grant key value \<Rightarrow>
             and_then (lookup registry key) (\<lambda>d.
               let entry = (case bt_get keys key of
                     Some km \<Rightarrow> km
                   | None \<Rightarrow> \<lparr>km_kind = knob_kind d, km_default = knob_default d, km_rules = []\<rparr>);
                   entry = entry\<lparr>km_rules := km_rules entry @ [\<lparr>grant_scope = rule_scope rule, grant_value = value\<rparr>]\<rparr>
               in Inr (bt_put key entry keys))
         | _ \<Rightarrow> Inr keys)
       rules []"

definition key_union :: "GrantModel \<Rightarrow> GrantModel \<Rightarrow> KnobKey list" where
  "key_union self other = remdups_adj (sort (map fst self @ map fst other))"

subsection \<open>Layers and the effective policy\<close>

datatype LayerTag = Base | Env | Draft

record Layer =
  layer_tag :: LayerTag
  layer_grants :: GrantModel
  layer_requires :: "Rule list"
  layer_injects :: "Rule list"
  layer_validates :: "Rule list"

definition layer_from_doc :: "LayerTag \<Rightarrow> PolicyDoc \<Rightarrow> PolicyRegistry \<Rightarrow> ComposeError + Layer" where
  "layer_from_doc tag doc registry =
     and_then (grant_model_build (doc_rules doc) registry) (\<lambda>grants.
       Inr \<lparr>layer_tag = tag, layer_grants = grants,
            layer_requires = rules_of (doc_rules doc) is_require,
            layer_injects = rules_of (doc_rules doc) is_inject,
            layer_validates = rules_of (doc_rules doc) is_validate\<rparr>)"

definition pin_layer_key_to_default :: "KnobKey \<Rightarrow> KnobKind \<Rightarrow> KnobValue \<Rightarrow> Layer \<Rightarrow> Layer" where
  "pin_layer_key_to_default key kind def_value layer =
     (let entry = (case bt_get (layer_grants layer) key of
            Some km \<Rightarrow> km
          | None \<Rightarrow> \<lparr>km_kind = kind, km_default = def_value, km_rules = []\<rparr>);
          entry = entry\<lparr>km_rules := km_rules entry @ [\<lparr>grant_scope = All_scope, grant_value = def_value\<rparr>]\<rparr>
      in layer\<lparr>layer_grants := bt_put key entry (layer_grants layer)\<rparr>)"

record EffectivePolicy =
  ep_registry :: PolicyRegistry
  ep_layers :: "Layer list"

definition deny_all :: "PolicyRegistry \<Rightarrow> EffectivePolicy" where
  "deny_all registry = \<lparr>ep_registry = registry, ep_layers = []\<rparr>"

text \<open>The loop of \<^verbatim>\<open>grants\<close>: the first layer that covers the object decides.\<close>

fun deciding_layer :: "Layer list \<Rightarrow> KnobKey \<Rightarrow> ObjectName \<Rightarrow> GrantKeyMap option" where
  "deciding_layer [] key n = None"
| "deciding_layer (l # ls) key n =
     (case bt_get (layer_grants l) key of
        Some km \<Rightarrow> if km_covers km n then Some km else deciding_layer ls key n
      | None \<Rightarrow> deciding_layer ls key n)"

definition grants :: "EffectivePolicy \<Rightarrow> KnobKey \<Rightarrow> ObjectName \<Rightarrow> KnobValue option" where
  "grants self key n =
     (case deciding_layer (ep_layers self) key n of
        Some km \<Rightarrow> (case value_at km n of Inr v \<Rightarrow> Some v | Inl _ \<Rightarrow> None)
      | None \<Rightarrow> map_option knob_default (registry_get (ep_registry self) key))"

datatype Exactness = Exact | Widened

datatype GrantRegion = Ungranted | Top | Scoped

text \<open>One round of the loop over the layers: the region so far, its exactness, and the mask.\<close>

definition region_step ::
  "KnobKey \<Rightarrow> Layer \<Rightarrow> Scope \<times> Exactness \<times> Scope \<Rightarrow> ComposeError + (Scope \<times> Exactness \<times> Scope)" where
  "region_step key layer = (\<lambda>(acc, exactness, masked_above).
     case bt_get (layer_grants layer) key of
       None \<Rightarrow> Inr (acc, exactness, masked_above)
     | Some km \<Rightarrow>
         and_then (granted_scope km) (\<lambda>granted.
           let (visible, exactness) =
                 (case difference granted masked_above of
                    Scope_diff s \<Rightarrow> (s, exactness)
                  | NotRepresentable \<Rightarrow> (granted, Widened))
           in Inr (scope_join acc visible, exactness, scope_join masked_above (covered_scope km))))"

definition effective_granted_scope ::
  "EffectivePolicy \<Rightarrow> KnobKey \<Rightarrow> ComposeError + (Scope \<times> Exactness)" where
  "effective_granted_scope self key =
     and_then (try_fold (region_step key) (ep_layers self) (Nothing, Exact, Nothing))
       (\<lambda>(acc, exactness, _). Inr (acc, exactness))"

definition grant_region :: "EffectivePolicy \<Rightarrow> KnobKey \<Rightarrow> GrantRegion" where
  "grant_region self key =
     (case effective_granted_scope self key of
        Inr (All_scope, Exact) \<Rightarrow> Top
      | Inr (All_scope, Widened) \<Rightarrow> Scoped
      | Inr (Nothing, _) \<Rightarrow> Ungranted
      | Inr (Of _ _, _) \<Rightarrow> Scoped
      | Inl _ \<Rightarrow> Ungranted)"

definition grant_is_top :: "EffectivePolicy \<Rightarrow> KnobKey \<Rightarrow> bool" where
  "grant_is_top self key \<longleftrightarrow> grant_region self key = Top"

subsection \<open>Obligations and content rules\<close>

definition obligations :: "EffectivePolicy \<Rightarrow> ObjectName \<Rightarrow> (KnobKey \<times> KnobValue) list" where
  "obligations self n =
     List.map_filter (\<lambda>r. case rule_kind r of Require key value \<Rightarrow> Some (key, value) | _ \<Rightarrow> None)
       (filter (\<lambda>r. objects_membership (rule_scope r) n) (concat (map layer_requires (ep_layers self))))"

definition obligation_values_anywhere :: "EffectivePolicy \<Rightarrow> KnobKey \<Rightarrow> KnobValue list" where
  "obligation_values_anywhere self key =
     List.map_filter (\<lambda>r. case rule_kind r of Require k value \<Rightarrow> if k = key then Some value else None | _ \<Rightarrow> None)
       (filter (\<lambda>r. rule_scope r \<noteq> Nothing) (concat (map layer_requires (ep_layers self))))"

definition injects_for :: "EffectivePolicy \<Rightarrow> ObjectName \<Rightarrow> InjectSpec list" where
  "injects_for self n =
     List.map_filter (\<lambda>r. case rule_kind r of Inject spec \<Rightarrow> Some spec | _ \<Rightarrow> None)
       (filter (\<lambda>r. objects_membership (rule_scope r) n) (concat (map layer_injects (rev (ep_layers self)))))"

definition validates_for :: "EffectivePolicy \<Rightarrow> ObjectName \<Rightarrow> ValidatePredicate list" where
  "validates_for self n =
     List.map_filter (\<lambda>r. case rule_kind r of Validate pred \<Rightarrow> Some pred | _ \<Rightarrow> None)
       (filter (\<lambda>r. objects_membership (rule_scope r) n) (concat (map layer_validates (rev (ep_layers self)))))"

datatype ShapeElement = Column rstring | Index rstring | PrimaryKey

definition is_injected_shape :: "EffectivePolicy \<Rightarrow> ObjectName \<Rightarrow> ShapeElement \<Rightarrow> bool" where
  "is_injected_shape self n element \<longleftrightarrow>
     list_ex (\<lambda>spec.
         case element of
           Column name \<Rightarrow> list_ex (\<lambda>c. names_match (col_name c) name) (inj_columns spec)
         | Index name \<Rightarrow> list_ex (\<lambda>i. names_match (index_name i) name) (inj_indexes spec)
         | PrimaryKey \<Rightarrow> inj_primary_key spec \<noteq> None)
       (injects_for self n)"

definition layered_nondefault_grant_rules :: "Layer list \<Rightarrow> KnobKey \<Rightarrow> ComposeError + Scope list" where
  "layered_nondefault_grant_rules layers key =
     try_fold (\<lambda>layer out.
         case bt_get (layer_grants layer) key of
           None \<Rightarrow> Inr out
         | Some km \<Rightarrow>
             try_fold (\<lambda>r out.
                 and_then (compose_error (leq_value (km_kind km) (grant_value r) (km_default km))) (\<lambda>low.
                   if low then Inr out else Inr (out @ [grant_scope r])))
               (km_rules km) out)
       layers []"

subsection \<open>Lints over a layer stack\<close>

text \<open>\<^verbatim>\<open>CREATE_TABLE_KEY\<close> is the text \<^verbatim>\<open>schema.create_table\<close>.\<close>

definition create_table_key :: KnobKey where
  "create_table_key =
     [0x73, 0x63, 0x68, 0x65, 0x6D, 0x61, 0x2E, 0x63, 0x72, 0x65, 0x61, 0x74, 0x65, 0x5F,
      0x74, 0x61, 0x62, 0x6C, 0x65]"

text \<open>The text \<^verbatim>\<open><unrepresentable creatable scope>\<close>.\<close>

definition unrepresentable_creatable :: rstring where
  "unrepresentable_creatable =
     [0x3C, 0x75, 0x6E, 0x72, 0x65, 0x70, 0x72, 0x65, 0x73, 0x65, 0x6E, 0x74, 0x61, 0x62,
      0x6C, 0x65, 0x20, 0x63, 0x72, 0x65, 0x61, 0x74, 0x61, 0x62, 0x6C, 0x65, 0x20, 0x73,
      0x63, 0x6F, 0x70, 0x65, 0x3E]"

definition creatable_escape_scope :: "Layer list \<Rightarrow> rstring option" where
  "creatable_escape_scope layers =
     (case knob_key_parse create_table_key of
        Inl _ \<Rightarrow> None
      | Inr create_key \<Rightarrow>
          (case try_fold (\<lambda>layer creatable.
                    case bt_get (layer_grants layer) create_key of
                      None \<Rightarrow> Inr creatable
                    | Some km \<Rightarrow> and_then (granted_scope km) (\<lambda>granted. Inr (scope_join creatable granted)))
                  layers Nothing of
             Inl _ \<Rightarrow> Some unrepresentable_creatable
           | Inr creatable \<Rightarrow>
               if creatable = Nothing then None
               else find_map (\<lambda>layer. find_map (\<lambda>rule.
                   case rule_kind rule of
                     Inject spec \<Rightarrow>
                       if \<not> mandatory spec then None
                       else if \<not> scope_subset creatable (rule_scope rule) then Some (render_scope (rule_scope rule))
                       else None
                   | _ \<Rightarrow> None)
                 (layer_injects layer)) layers))"

text \<open>The three conflict predicates of two injects whose scopes overlap, in their order.\<close>

definition inject_conflict :: "Rule \<Rightarrow> Rule \<Rightarrow> FinalizeError option" where
  "inject_conflict a b =
     (case (rule_kind a, rule_kind b) of
        (Inject sa, Inject sb) \<Rightarrow>
          if scope_meet (rule_scope a) (rule_scope b) = Nothing then None
          else (case inject_column_conflict sa sb of
                  Some d \<Rightarrow> Some (CharterInjectColumnConflict d)
                | None \<Rightarrow>
                    (case inject_pk_conflict sa sb of
                       Some d \<Rightarrow> Some (CharterPrimaryKeyConflict d)
                     | None \<Rightarrow>
                         (case inject_index_conflict sa sb of
                            Some d \<Rightarrow> Some (CharterIndexNameConflict d)
                          | None \<Rightarrow> None)))
      | _ \<Rightarrow> None)"

fun first_conflict :: "Rule list \<Rightarrow> FinalizeError option" where
  "first_conflict [] = None"
| "first_conflict (a # rest) =
     (case find_map (inject_conflict a) rest of Some e \<Rightarrow> Some e | None \<Rightarrow> first_conflict rest)"

text \<open>The detail a conflict carries, which the single-layer lint returns alone.\<close>

definition conflict_detail :: "FinalizeError \<Rightarrow> detail option" where
  "conflict_detail e =
     (case e of
        CharterInjectColumnConflict d \<Rightarrow> Some d
      | CharterPrimaryKeyConflict d \<Rightarrow> Some d
      | CharterIndexNameConflict d \<Rightarrow> Some d
      | CharterInjectValidateContradiction d \<Rightarrow> Some d
      | CreatableEscapesMandatoryInject _ \<Rightarrow> None)"

definition same_layer_inject_conflict :: "Layer list \<Rightarrow> detail option" where
  "same_layer_inject_conflict layers =
     find_map (\<lambda>layer. Option.bind (first_conflict (layer_injects layer)) conflict_detail) layers"

definition check_creatable_escape :: "EffectivePolicy \<Rightarrow> ComposeError + unit" where
  "check_creatable_escape self =
     (case creatable_escape_scope (ep_layers self) of
        None \<Rightarrow> Inr ()
      | Some inject_scope \<Rightarrow> Inl (CreatableEscapesMandatoryInject_compose inject_scope))"

definition check_same_layer_inject_conflicts :: "EffectivePolicy \<Rightarrow> ComposeError + unit" where
  "check_same_layer_inject_conflicts self =
     (case same_layer_inject_conflict (ep_layers self) of
        None \<Rightarrow> Inr ()
      | Some d \<Rightarrow> Inl (CharterInjectCollision d))"

subsection \<open>Charters\<close>

record AssembledCharter =
  assembled_registry :: PolicyRegistry
  assembled_layers :: "Layer list"

record Charter =
  charter_registry :: PolicyRegistry
  final_layers :: "Layer list"

definition check_charter_creatable_lint :: "AssembledCharter \<Rightarrow> FinalizeError + unit" where
  "check_charter_creatable_lint assembled =
     (case creatable_escape_scope (assembled_layers assembled) of
        None \<Rightarrow> Inr ()
      | Some inject_scope \<Rightarrow> Inl (CreatableEscapesMandatoryInject inject_scope))"

definition finalize_charter :: "AssembledCharter \<Rightarrow> FinalizeError + Charter" where
  "finalize_charter assembled =
     (let injects = concat (map layer_injects (assembled_layers assembled));
          validates = concat (map layer_validates (assembled_layers assembled))
      in case first_conflict injects of
           Some e \<Rightarrow> Inl e
         | None \<Rightarrow>
             (case find_map (\<lambda>inj.
                     case rule_kind inj of
                       Inject spec \<Rightarrow>
                         find_map (\<lambda>val.
                             case rule_kind val of
                               Validate pred \<Rightarrow>
                                 if scope_meet (rule_scope inj) (rule_scope val) = Nothing then None
                                 else forbidden_injected_column spec pred
                             | _ \<Rightarrow> None)
                           validates
                     | _ \<Rightarrow> None)
                   injects of
                Some name \<Rightarrow> Inl (CharterInjectValidateContradiction (ForbidsColumn name))
              | None \<Rightarrow>
                  and_then (check_charter_creatable_lint assembled) (\<lambda>_.
                    Inr \<lparr>charter_registry = assembled_registry assembled,
                         final_layers = assembled_layers assembled\<rparr>)))"

definition overlay :: "PolicyDoc \<Rightarrow> PolicyDoc \<Rightarrow> PolicyRegistry \<Rightarrow> ComposeError + AssembledCharter" where
  "overlay base over registry =
     and_then (layer_from_doc Base base registry) (\<lambda>base_layer.
     and_then (layer_from_doc Env over registry) (\<lambda>over_layer.
       Inr \<lparr>assembled_registry = registry, assembled_layers = [over_layer, base_layer]\<rparr>))"

definition clamp_grant_key ::
  "KnobKey \<Rightarrow> GrantModel \<Rightarrow> GrantModel \<Rightarrow> PolicyRegistry \<Rightarrow> ComposeError + GrantKeyMap" where
  "clamp_grant_key key outer inner registry =
     and_then (lookup registry key) (\<lambda>d.
       case (bt_get outer key, bt_get inner key) of
         (Some ok, Some ik) \<Rightarrow>
           and_then (try_fold (\<lambda>orule rules. try_fold (\<lambda>irule rules.
                 let scope = scope_meet (grant_scope orule) (grant_scope irule)
                 in if scope = Nothing then Inr rules
                    else and_then (compose_error (meet_value (knob_kind d) (grant_value orule) (grant_value irule)))
                      (\<lambda>value. Inr (rules @ [\<lparr>grant_scope = scope, grant_value = value\<rparr>])))
               (km_rules ik) rules)
             (km_rules ok) [])
           (\<lambda>rules. Inr \<lparr>km_kind = knob_kind d, km_default = knob_default d, km_rules = rules\<rparr>)
       | _ \<Rightarrow> Inr \<lparr>km_kind = knob_kind d, km_default = knob_default d, km_rules = []\<rparr>)"

definition restrict :: "PolicyDoc \<Rightarrow> PolicyDoc \<Rightarrow> PolicyRegistry \<Rightarrow> ComposeError + AssembledCharter" where
  "restrict outer inner registry =
     and_then (grant_model_build (doc_rules outer) registry) (\<lambda>og.
     and_then (grant_model_build (doc_rules inner) registry) (\<lambda>ig.
     and_then (try_fold (\<lambda>key clamped.
           and_then (clamp_grant_key key og ig registry) (\<lambda>km.
             if km_rules km \<noteq> [] then Inr (bt_put key km clamped) else Inr clamped))
         (key_union og ig) [])
       (\<lambda>clamped_grants.
         Inr \<lparr>assembled_registry = registry,
              assembled_layers =
                [\<lparr>layer_tag = Base, layer_grants = clamped_grants,
                  layer_requires = rules_of (doc_rules outer) is_require @ rules_of (doc_rules inner) is_require,
                  layer_injects = rules_of (doc_rules outer) is_inject @ rules_of (doc_rules inner) is_inject,
                  layer_validates = rules_of (doc_rules outer) is_validate @ rules_of (doc_rules inner) is_validate\<rparr>]\<rparr>)))"

end
