(* ===== verification/PolGrants.thy ===== *)
theory PolGrants
  imports PolCompose
begin

text \<open>
  Facts about the pointwise grant model and the layer stack, shared by the properties of
  admission, of the trusted combinators and of the region queries: what a built model holds,
  what pinning does to it, and how a queried value relates to the rules that cover the object.

  \<open>registry_valid\<close> and \<open>doc_valid\<close> state what the loader has checked before composition: a
  knob's default, and every authored grant value, is valid for the knob's kind.
\<close>

subsection \<open>What the loader has checked\<close>

definition registry_valid :: "PolicyRegistry \<Rightarrow> bool" where
  "registry_valid reg \<longleftrightarrow>
     registry_ok reg \<and> list_all (\<lambda>(k, d). validate_for (knob_default d) (knob_kind d) = Inr ()) reg"

definition doc_valid :: "PolicyRegistry \<Rightarrow> PolicyDoc \<Rightarrow> bool" where
  "doc_valid reg doc \<longleftrightarrow>
     list_all (\<lambda>r. case rule_kind r of
         Grant key v \<Rightarrow>
           (case registry_get reg key of
              Some d \<Rightarrow> validate_for v (knob_kind d) = Inr ()
            | None \<Rightarrow> False)
       | _ \<Rightarrow> True)
     (doc_rules doc)"

definition km_ok :: "PolicyRegistry \<Rightarrow> KnobKey \<Rightarrow> GrantKeyMap \<Rightarrow> bool" where
  "km_ok reg key km =
     (case registry_get reg key of
        None \<Rightarrow> False
      | Some d \<Rightarrow> km_kind km = knob_kind d \<and> km_default km = knob_default d \<and>
          list_all (\<lambda>r. fits (knob_kind d) (grant_value r)) (km_rules km))"

definition model_ok :: "PolicyRegistry \<Rightarrow> GrantModel \<Rightarrow> bool" where
  "model_ok reg m \<longleftrightarrow> sorted_wrt (<) (map fst m) \<and> list_all (\<lambda>(k, km). km_ok reg k km) m"

definition layers_ok :: "PolicyRegistry \<Rightarrow> Layer list \<Rightarrow> bool" where
  "layers_ok reg layers \<longleftrightarrow> list_all (\<lambda>l. model_ok reg (layer_grants l)) layers"

lemma registry_get_valid:
  "registry_valid reg \<Longrightarrow> registry_get reg key = Some d \<Longrightarrow> fits (knob_kind d) (knob_default d) \<and> knob_key d = key"
  by (auto simp: registry_valid_def registry_ok_def registry_get_def bt_get_def list_all_iff
      dest!: map_of_SomeD intro: validate_fits)

lemma model_ok_get: "model_ok reg m \<Longrightarrow> bt_get m key = Some km \<Longrightarrow> km_ok reg key km"
  by (auto simp: model_ok_def bt_get_def list_all_iff dest!: map_of_SomeD)

lemma model_ok_sorted: "model_ok reg m \<Longrightarrow> sorted_wrt (<) (map fst m)"
  by (simp add: model_ok_def)

lemma model_ok_put: "model_ok reg m \<Longrightarrow> km_ok reg k km \<Longrightarrow> model_ok reg (bt_put k km m)"
  using sorted_bt_put[of m k km] set_bt_put_subset[of k km m] by (auto simp: model_ok_def list_all_iff)

subsection \<open>The built model\<close>

definition rule_grants :: "KnobKey \<Rightarrow> Rule list \<Rightarrow> GrantRule list" where
  "rule_grants key rules =
     List.map_filter (\<lambda>r. case rule_kind r of
         Grant k v \<Rightarrow> if k = key then Some \<lparr>grant_scope = rule_scope r, grant_value = v\<rparr> else None
       | _ \<Rightarrow> None) rules"

lemma rule_grants_snoc:
  "rule_grants key (rs @ [r]) = rule_grants key rs @
     (case rule_kind r of
        Grant k v \<Rightarrow> if k = key then [\<lparr>grant_scope = rule_scope r, grant_value = v\<rparr>] else []
      | _ \<Rightarrow> [])"
  by (auto simp: rule_grants_def List.map_filter_def split: RuleKind.splits)

lemma try_fold_append: "try_fold f (xs @ ys) s = and_then (try_fold f xs s) (try_fold f ys)"
proof (induction xs arbitrary: s)
  case (Cons x xs)
  then show ?case by (cases "f x s") auto
qed simp

lemma grant_model_build_spec:
  assumes "grant_model_build rules reg = Inr m"
  shows "sorted_wrt (<) (map fst m) \<and>
    (\<forall>key. if rule_grants key rules = [] then bt_get m key = None
      else \<exists>d. registry_get reg key = Some d \<and>
        bt_get m key = Some \<lparr>km_kind = knob_kind d, km_default = knob_default d, km_rules = rule_grants key rules\<rparr>)"
  using assms
proof (induction rules arbitrary: m rule: rev_induct)
  case Nil
  then show ?case by (simp add: grant_model_build_def bt_get_def rule_grants_def List.map_filter_def)
next
  case (snoc r rules)
  let ?step = "\<lambda>rule keys. case rule_kind rule of
      Grant key value \<Rightarrow>
        and_then (lookup reg key) (\<lambda>d.
          let entry = (case bt_get keys key of
                Some km \<Rightarrow> km
              | None \<Rightarrow> \<lparr>km_kind = knob_kind d, km_default = knob_default d, km_rules = []\<rparr>);
              entry = entry\<lparr>km_rules := km_rules entry @ [\<lparr>grant_scope = rule_scope rule, grant_value = value\<rparr>]\<rparr>
          in Inr (bt_put key entry keys))
    | _ \<Rightarrow> Inr keys"
  obtain m0 where m0: "grant_model_build rules reg = Inr m0" "?step r m0 = Inr m"
    using snoc.prems by (auto simp: grant_model_build_def try_fold_append and_then_Inr)
  note IH = snoc.IH[OF m0(1)]
  show ?case
  proof (cases "rule_kind r")
    case (Grant key v)
    with m0(2) obtain d where d: "registry_get reg key = Some d"
      by (auto simp: lookup_def split: option.splits)
    let ?km = "\<lparr>km_kind = knob_kind d, km_default = knob_default d,
        km_rules = rule_grants key rules @ [\<lparr>grant_scope = rule_scope r, grant_value = v\<rparr>]\<rparr>"
    from IH have "bt_get m0 key = (if rule_grants key rules = [] then None
        else Some \<lparr>km_kind = knob_kind d, km_default = knob_default d, km_rules = rule_grants key rules\<rparr>)"
      using d by (auto split: if_splits)
    with m0(2) Grant d have m: "m = bt_put key ?km m0"
      by (auto simp: lookup_def Let_def split: if_splits)
    show ?thesis unfolding m rule_grants_snoc using IH d
      by (auto simp: Grant bt_get_put sorted_bt_put)
  qed (use m0(2) IH in \<open>auto simp: rule_grants_snoc\<close>)
qed

lemma grant_model_build_get:
  assumes "grant_model_build rules reg = Inr m"
  shows "bt_get m key = (if rule_grants key rules = [] then None
    else map_option (\<lambda>d. \<lparr>km_kind = knob_kind d, km_default = knob_default d, km_rules = rule_grants key rules\<rparr>)
      (registry_get reg key))"
  using conjunct2[OF grant_model_build_spec[OF assms], rule_format, of key] by (auto split: if_splits)

lemma rule_grants_members:
  assumes "r \<in> set (rule_grants key rules)"
  obtains x where "x \<in> set rules" "rule_kind x = Grant key (grant_value r)" "grant_scope r = rule_scope x"
proof -
  from assms have "\<exists>x \<in> set rules. rule_kind x = Grant key (grant_value r) \<and> grant_scope r = rule_scope x"
    by (induction rules rule: rev_induct)
       (auto simp: rule_grants_snoc split: RuleKind.splits if_splits, simp add: rule_grants_def List.map_filter_def)
  then show thesis using that by blast
qed

lemma rule_grants_fit:
  assumes "doc_valid reg doc" "registry_get reg key = Some d" "r \<in> set (rule_grants key (doc_rules doc))"
  shows "fits (knob_kind d) (grant_value r)"
proof -
  obtain x where "x \<in> set (doc_rules doc)" "rule_kind x = Grant key (grant_value r)"
    using assms(3) by (rule rule_grants_members)
  with assms(1,2) have "validate_for (grant_value r) (knob_kind d) = Inr ()"
    unfolding doc_valid_def list_all_iff by fastforce
  then show ?thesis by (rule validate_fits)
qed

lemma grant_model_build_ok:
  assumes "doc_valid reg doc" "grant_model_build (doc_rules doc) reg = Inr m"
  shows "model_ok reg m"
proof -
  have sorted: "sorted_wrt (<) (map fst m)" using grant_model_build_spec[OF assms(2)] by blast
  then have "distinct (map fst m)" by (simp add: strict_sorted_iff)
  then have get: "bt_get m k = Some km" if "(k, km) \<in> set m" for k km
    using that by (simp add: bt_get_def)
  have "km_ok reg k km" if "(k, km) \<in> set m" for k km
    using get[OF that] grant_model_build_get[OF assms(2), of k] rule_grants_fit[OF assms(1)]
    by (auto simp: km_ok_def list_all_iff split: if_splits option.splits)
  with sorted show ?thesis by (auto simp: model_ok_def list_all_iff)
qed

lemma layer_from_doc_ok:
  "doc_valid reg doc \<Longrightarrow> layer_from_doc tag doc reg = Inr l \<Longrightarrow> model_ok reg (layer_grants l)"
  by (auto simp: layer_from_doc_def and_then_Inr grant_model_build_ok)

subsection \<open>The value at an object\<close>

lemma try_fold_compose_error:
  "try_fold (\<lambda>x s. if P x then compose_error (g x s) else Inr s) xs s =
     compose_error (try_fold (\<lambda>x s. if P x then g x s else Inr s) xs s)"
proof (induction xs arbitrary: s)
  case (Cons x xs)
  then show ?case by (cases "g x s") (auto simp: compose_error_def)
qed simp

lemma value_at_joins:
  "value_at km n = Inr v \<longleftrightarrow>
     try_fold (\<lambda>r acc. if objects_membership (grant_scope r) n
       then join_value (km_kind km) acc (grant_value r) else Inr acc) (km_rules km) (km_default km) = Inr v"
  by (simp add: value_at_def try_fold_compose_error)

lemma value_at_above:
  assumes "value_at km n = Inr v" "km_ok reg key km" "registry_valid reg" "registry_get reg key = Some d"
  shows "fits (knob_kind d) v" "leq_value (knob_kind d) (knob_default d) v = Inr True"
    "\<And>r. r \<in> set (km_rules km) \<Longrightarrow> objects_membership (grant_scope r) n \<Longrightarrow>
      leq_value (knob_kind d) (grant_value r) v = Inr True"
  using knob.joins_ok[OF assms(1)[unfolded value_at_joins]] assms registry_get_valid[OF assms(3,4)]
  by (auto simp: km_ok_def list_all_iff)

lemma value_at_least:
  assumes "value_at km n = Inr v" "km_ok reg key km" "registry_get reg key = Some d"
    and "leq_value (knob_kind d) (knob_default d) c = Inr True"
    and "\<And>r. r \<in> set (km_rules km) \<Longrightarrow> objects_membership (grant_scope r) n \<Longrightarrow>
      leq_value (knob_kind d) (grant_value r) c = Inr True"
  shows "leq_value (knob_kind d) v c = Inr True"
  using knob.joins_least[OF assms(1)[unfolded value_at_joins]] assms(2-) by (auto simp: km_ok_def)

lemma join_defined:
  "kind \<noteq> Digest \<Longrightarrow> fits kind a \<Longrightarrow> fits kind b \<Longrightarrow> \<exists>j. join_value kind a b = Inr j"
  by (cases kind; cases a; cases b) (auto simp: value_order_defs rank_def as_str_def split: option.splits)

lemma value_at_defined:
  assumes "km_ok reg key km" "registry_valid reg" "registry_get reg key = Some d" "knob_kind d \<noteq> Digest"
  shows "\<exists>v. value_at km n = Inr v"
proof -
  have loop: "\<exists>v. try_fold (\<lambda>r acc. if objects_membership (grant_scope r) n
      then join_value (knob_kind d) acc (grant_value r) else Inr acc) rs acc = Inr v"
    if "fits (knob_kind d) acc" "\<forall>r \<in> set rs. fits (knob_kind d) (grant_value r)"
    for rs :: "GrantRule list" and acc
    using that
  proof (induction rs arbitrary: acc)
    case (Cons r rs)
    then obtain j where j: "join_value (knob_kind d) acc (grant_value r) = Inr j"
      using join_defined[OF assms(4)] by fastforce
    with Cons show ?case using knob.join_ok[OF _ _ j] by auto
  qed simp
  have "km_kind km = knob_kind d" "km_default km = knob_default d"
      "\<forall>r \<in> set (km_rules km). fits (knob_kind d) (grant_value r)"
    using assms(1,3) by (auto simp: km_ok_def list_all_iff)
  with loop[of "knob_default d" "km_rules km"] registry_get_valid[OF assms(2,3)] show ?thesis
    by (simp add: value_at_joins cong: if_cong)
qed

subsection \<open>The deciding layer\<close>

lemma deciding_layer_covers:
  "deciding_layer ls key n = Some km \<Longrightarrow>
     km_covers km n \<and> (\<exists>l \<in> set ls. bt_get (layer_grants l) key = Some km)"
  by (induction ls) (auto split: option.splits if_splits)

lemma deciding_layer_None:
  "deciding_layer ls key n = None \<longleftrightarrow>
     (\<forall>l \<in> set ls. \<forall>km. bt_get (layer_grants l) key = Some km \<longrightarrow> \<not> km_covers km n)"
  by (induction ls) (auto split: option.splits if_splits)

lemma deciding_layer_ok:
  "layers_ok reg ls \<Longrightarrow> deciding_layer ls key n = Some km \<Longrightarrow> km_ok reg key km"
  using deciding_layer_covers model_ok_get by (fastforce simp: layers_ok_def list_all_iff)

lemma km_covers_iff: "km_covers km n \<longleftrightarrow> (\<exists>r \<in> set (km_rules km). objects_membership (grant_scope r) n)"
  by (simp add: km_covers_def list_ex_iff)

lemma grants_known:
  assumes "layers_ok reg (ep_layers p)" "ep_registry p = reg" "grants p key n = Some v"
  shows "\<exists>d. registry_get reg key = Some d"
  using assms deciding_layer_ok[of reg "ep_layers p" key n]
  by (auto simp: grants_def km_ok_def split: option.splits)

text \<open>Every queried value lies at or above the knob's default.\<close>

lemma grants_above_default:
  assumes "registry_valid reg" "layers_ok reg (ep_layers p)" "ep_registry p = reg"
    and "grants p key n = Some v" "registry_get reg key = Some d"
  shows "leq_value (knob_kind d) (knob_default d) v = Inr True"
proof (cases "deciding_layer (ep_layers p) key n")
  case None
  with assms registry_get_valid[OF assms(1,5)] show ?thesis by (auto simp: grants_def knob.leq_refl)
next
  case (Some km)
  with assms have "value_at km n = Inr v" by (auto simp: grants_def split: sum.splits)
  from value_at_above(2)[OF this deciding_layer_ok[OF assms(2) Some] assms(1,5)] show ?thesis .
qed

lemma grants_defined:
  assumes "registry_valid reg" "layers_ok reg (ep_layers p)" "ep_registry p = reg"
    and "registry_get reg key = Some d" "knob_kind d \<noteq> Digest"
  shows "\<exists>v. grants p key n = Some v"
proof (cases "deciding_layer (ep_layers p) key n")
  case (Some km)
  moreover obtain v where "value_at km n = Inr v"
    using value_at_defined[OF deciding_layer_ok[OF assms(2) Some] assms(1,4,5)] by blast
  ultimately show ?thesis by (simp add: grants_def)
qed (use assms in \<open>auto simp: grants_def\<close>)

end
