(* ===== verification/PolAdmit.thy ===== *)
theory PolAdmit
  imports PolGrants
begin

text \<open>
  The trust boundary (\<^verbatim>\<open>crates/zeroship-migrate-policy/src/boundary.rs\<close>): the admission of an
  untrusted draft under a trusted, finalized charter.

  The central result is that an admitted draft escalates nowhere: at every object and for
  every knob the composed policy grants no more than the charter does. It is proved from the
  contracts \<open>scope_algebra\<close> and \<open>value_lattice\<close> and from the validation of documents at load,
  which is stated as \<open>doc_valid\<close> and \<open>registry_valid\<close>.
\<close>

subsection \<open>Charters a draft is admitted under\<close>

datatype AdmitCharter = RootCharter PolicyDoc | FinalCharter Charter | EffectiveCharter EffectivePolicy

definition charter_layers :: "AdmitCharter \<Rightarrow> PolicyRegistry \<Rightarrow> ComposeError + Layer list" where
  "charter_layers self registry =
     (case self of
        RootCharter doc \<Rightarrow> and_then (layer_from_doc Base doc registry) (\<lambda>l. Inr [l])
      | FinalCharter c \<Rightarrow> Inr (final_layers c)
      | EffectiveCharter p \<Rightarrow> Inr (ep_layers p))"

definition flatten_charter :: "Layer list \<Rightarrow> (RuleKind \<Rightarrow> bool) \<Rightarrow> Rule list" where
  "flatten_charter layers pred =
     filter (\<lambda>r. pred (rule_kind r)) (concat (map (\<lambda>l. layer_injects l @ layer_validates l) (rev layers)))"

subsection \<open>Subtraction of several scopes\<close>

text \<open>One pass over the subtrahends: the region left and the subtrahends put off.\<close>

fun subtract_pass :: "Scope \<Rightarrow> Scope list \<Rightarrow> Scope list \<Rightarrow> Scope \<times> Scope list" where
  "subtract_pass r [] still_deferred = (r, still_deferred)"
| "subtract_pass r (s # ss) still_deferred =
     (case difference r s of
        Scope_diff r' \<Rightarrow> subtract_pass r' ss still_deferred
      | NotRepresentable \<Rightarrow> subtract_pass r ss (still_deferred @ [s]))"

lemma subtract_pass_length: "length (snd (subtract_pass r ss still)) \<le> length ss + length still"
  by (induction r ss still rule: subtract_pass.induct) (auto split: Difference.splits)

function subtract_loop :: "Scope \<Rightarrow> Scope list \<Rightarrow> Scope \<times> Scope list" where
  "subtract_loop r deferred =
     (if deferred = [] \<or> r = Nothing then (r, deferred)
      else let (r', still) = subtract_pass r deferred []
           in if length still = length deferred then (r', still) else subtract_loop r' still)"
  by pat_completeness auto

termination
proof (relation "measure (\<lambda>(_, deferred). length deferred)")
  fix r :: Scope and deferred x r' still
  assume "x = subtract_pass r deferred []" "(r', still) = x" "length still \<noteq> length deferred"
  with subtract_pass_length[of r deferred "[]"]
  show "((r', still), r, deferred) \<in> measure (\<lambda>(_, deferred). length deferred)"
    by (metis add.right_neutral case_prod_conv in_measure le_neq_implies_less list.size(3) snd_conv)
qed simp

declare subtract_loop.simps [simp del]

definition subtract_each :: "Scope \<Rightarrow> Scope list \<Rightarrow> Scope option" where
  "subtract_each region subtrahends =
     (let (r, deferred) = subtract_loop region subtrahends
      in if deferred \<noteq> [] \<and> r \<noteq> Nothing then None else Some r)"

subsection \<open>The grant check\<close>

text \<open>The split of a layer's rules: those at or above the draft's value, and those below.\<close>

definition split_rules ::
  "KnobKind \<Rightarrow> KnobValue \<Rightarrow> GrantRule list \<Rightarrow> ComposeError + (Scope list \<times> Scope list)" where
  "split_rules kind value rules =
     try_fold (\<lambda>r (satisfying, falling_short).
         and_then (compose_error (leq_value kind value (grant_value r))) (\<lambda>meets.
           if meets then Inr (satisfying @ [grant_scope r], falling_short)
           else Inr (satisfying, falling_short @ [grant_scope r])))
       rules ([], [])"

definition check_short ::
  "KnobKey \<Rightarrow> Scope \<Rightarrow> Scope list \<Rightarrow> Scope list \<Rightarrow> Scope \<Rightarrow> ComposeError + unit" where
  "check_short key scope decided satisfying short =
     (let suspect = scope_meet scope short
      in if suspect = Nothing then Inr ()
         else case subtract_each suspect (decided @ satisfying) of
           None \<Rightarrow> Inl (UncoveredRegionNotRepresentable key)
         | Some escaping \<Rightarrow>
             if escaping \<noteq> Nothing then Inl (GrantExceedsCharter key (render_scope escaping))
             else Inr ())"

text \<open>The walk over the layers, carrying the scopes already decided.\<close>

fun prove_layers ::
  "KnobKey \<Rightarrow> KnobDef \<Rightarrow> Scope \<Rightarrow> KnobValue \<Rightarrow> Scope list \<Rightarrow> Layer list \<Rightarrow> ComposeError + unit" where
  "prove_layers key d scope value decided [] = Inr ()"
| "prove_layers key d scope value decided (layer # layers) =
     (case bt_get (layer_grants layer) key of
        None \<Rightarrow> prove_layers key d scope value decided layers
      | Some km \<Rightarrow>
          and_then (split_rules (knob_kind d) value (km_rules km)) (\<lambda>(satisfying, falling_short).
          and_then (try_fold (\<lambda>short _. check_short key scope decided satisfying short) falling_short ())
            (\<lambda>_. prove_layers key d scope value (decided @ map grant_scope (km_rules km)) layers)))"

definition prove_rule_within_charter ::
  "KnobKey \<Rightarrow> KnobDef \<Rightarrow> Scope \<Rightarrow> KnobValue \<Rightarrow> Layer list \<Rightarrow> ComposeError + unit" where
  "prove_rule_within_charter key d scope value layers =
     and_then (prove_layers key d scope value [] layers) (\<lambda>_.
     and_then (layered_nondefault_grant_rules layers key) (\<lambda>raising.
       case subtract_each scope raising of
         None \<Rightarrow> Inl (UncoveredRegionNotRepresentable key)
       | Some unraised \<Rightarrow>
           if unraised \<noteq> Nothing then Inl (GrantExceedsCharter key (render_scope unraised))
           else Inr ()))"

definition check_grant_key ::
  "KnobKey \<Rightarrow> GrantModel \<Rightarrow> Layer list \<Rightarrow> PolicyRegistry \<Rightarrow> ComposeError + unit" where
  "check_grant_key key draft layers registry =
     (case bt_get draft key of
        None \<Rightarrow> Inr ()
      | Some dk \<Rightarrow>
          and_then (lookup registry key) (\<lambda>d.
            try_fold (\<lambda>rule _.
                and_then (compose_error (leq_value (knob_kind d) (grant_value rule) (knob_default d))) (\<lambda>low.
                  if low then Inr ()
                  else prove_rule_within_charter key d (grant_scope rule) (grant_value rule) layers))
              (km_rules dk) ()))"

definition admit_draft ::
  "AdmitCharter \<Rightarrow> PolicyDoc \<Rightarrow> PolicyRegistry \<Rightarrow> ComposeError + EffectivePolicy" where
  "admit_draft charter draft registry =
     and_then (charter_layers charter registry) (\<lambda>layers.
     and_then (grant_model_build (doc_rules draft) registry) (\<lambda>draft_grants.
     and_then (try_fold (\<lambda>key _. check_grant_key key draft_grants layers registry) (map fst draft_grants) ()) (\<lambda>_.
     let charter_injects = flatten_charter layers is_inject;
         draft_injects = rules_of (doc_rules draft) is_inject;
         draft_validates = rules_of (doc_rules draft) is_validate
     in
     and_then (check_inject_collisions charter_injects draft_injects) (\<lambda>_.
     and_then (check_validate_vs_inject charter_injects draft_validates) (\<lambda>_.
     and_then (layer_from_doc Draft draft registry) (\<lambda>draft_layer.
       let draft_layer = fold (\<lambda>d layer.
             if inherit d then layer
             else pin_layer_key_to_default (knob_key d) (knob_kind d) (knob_default d) layer)
           (registry_iter registry) draft_layer
       in Inr \<lparr>ep_registry = registry, ep_layers = draft_layer # layers\<rparr>))))))"

subsection \<open>Subtraction never loses an object\<close>

lemma subtract_pass_covers:
  assumes "subtract_pass r ss still = (r', still')" "objects_membership r n"
    and "\<forall>s \<in> set ss. \<not> objects_membership s n"
  shows "objects_membership r' n"
  using assms
  by (induction r ss still rule: subtract_pass.induct)
     (auto split: Difference.splits intro: difference_upper)

lemma subtract_pass_still: "subtract_pass r ss still = (r', still') \<Longrightarrow> set still' \<subseteq> set ss \<union> set still"
  by (induction r ss still rule: subtract_pass.induct) (auto split: Difference.splits)

lemma subtract_loop_covers:
  assumes "subtract_loop r deferred = (r', rest)" "objects_membership r n"
    and "\<forall>s \<in> set deferred. \<not> objects_membership s n"
  shows "objects_membership r' n"
  using assms
proof (induction r deferred rule: subtract_loop.induct)
  case (1 r deferred)
  obtain r1 still where pass: "subtract_pass r deferred [] = (r1, still)" by fastforce
  have r1: "objects_membership r1 n" using subtract_pass_covers[OF pass] 1(3,4) by blast
  have still: "\<forall>s \<in> set still. \<not> objects_membership s n"
    using subtract_pass_still[OF pass] 1(4) by auto
  show ?case
  proof (cases "deferred = [] \<or> r = Nothing \<or> length still = length deferred")
    case True
    with 1(2,3) pass r1 show ?thesis
      by (subst (asm) subtract_loop.simps) (auto split: if_splits)
  next
    case False
    with 1(2) pass have "subtract_loop r1 still = (r', rest)"
      by (subst (asm) subtract_loop.simps) simp
    with 1(1)[OF _ pass[symmetric] refl] False r1 still show ?thesis by blast
  qed
qed

lemma subtract_each_covers:
  assumes "subtract_each region subs = Some r" "objects_membership region n"
    and "\<forall>s \<in> set subs. \<not> objects_membership s n"
  shows "objects_membership r n"
  using assms subtract_loop_covers[of region subs]
  by (auto simp: subtract_each_def split: prod.splits if_splits)

subsection \<open>The grant check is sound\<close>

lemma split_rules_sound:
  assumes "split_rules kind v rules = Inr (sat, short)" "r \<in> set rules"
  shows "(grant_scope r \<in> set short) \<or> leq_value kind v (grant_value r) = Inr True"
    and "s \<in> set sat \<Longrightarrow> \<exists>r' \<in> set rules. grant_scope r' = s \<and> leq_value kind v (grant_value r') = Inr True"
proof -
  let ?f = "\<lambda>r (satisfying, falling_short).
      and_then (compose_error (leq_value kind v (grant_value r))) (\<lambda>meets.
        if meets then Inr (satisfying @ [grant_scope r], falling_short)
        else Inr (satisfying, falling_short @ [grant_scope r]))"
  have gen: "(\<forall>r \<in> set rules. grant_scope r \<in> set short \<or> leq_value kind v (grant_value r) = Inr True) \<and>
      set sat0 \<subseteq> set sat \<and> set short0 \<subseteq> set short \<and>
      (\<forall>s \<in> set sat - set sat0. \<exists>r' \<in> set rules. grant_scope r' = s \<and> leq_value kind v (grant_value r') = Inr True)"
    if "try_fold ?f rules (sat0, short0) = Inr (sat, short)" for sat0 short0
    using that
  proof (induction rules arbitrary: sat0 short0)
    case (Cons x xs)
    then obtain b where b: "leq_value kind v (grant_value x) = Inr b" by (auto simp: and_then_Inr)
    show ?case
    proof (cases b)
      case True
      with b Cons.prems have "try_fold ?f xs (sat0 @ [grant_scope x], short0) = Inr (sat, short)" by simp
      from Cons.IH[OF this] b True show ?thesis by auto
    next
      case False
      with b Cons.prems have "try_fold ?f xs (sat0, short0 @ [grant_scope x]) = Inr (sat, short)" by simp
      from Cons.IH[OF this] b False show ?thesis by auto
    qed
  qed simp
  from gen[OF assms(1)[unfolded split_rules_def]] assms(2)
  show "(grant_scope r \<in> set short) \<or> leq_value kind v (grant_value r) = Inr True"
    and "s \<in> set sat \<Longrightarrow> \<exists>r' \<in> set rules. grant_scope r' = s \<and> leq_value kind v (grant_value r') = Inr True"
    by auto
qed

lemma check_short_sound:
  assumes "check_short key scope decided sat short = Inr ()"
    and "objects_membership scope n" "objects_membership short n"
  shows "\<exists>s \<in> set (decided @ sat). objects_membership s n"
proof (rule ccontr)
  assume "\<not> ?thesis"
  then have none: "\<forall>s \<in> set (decided @ sat). \<not> objects_membership s n" by blast
  have suspect: "objects_membership (scope_meet scope short) n" using assms(2,3) by (simp add: meet_membership)
  then have "scope_meet scope short \<noteq> Nothing" by auto
  with assms(1) have "subtract_each (scope_meet scope short) (decided @ sat) = Some Nothing"
    by (auto simp: check_short_def Let_def split: option.splits if_splits)
  from subtract_each_covers[OF this suspect none] show False by simp
qed

lemma prove_layers_sound:
  assumes "prove_layers key d scope v decided layers = Inr ()" "objects_membership scope n"
    and "\<forall>s \<in> set decided. \<not> objects_membership s n" "deciding_layer layers key n = Some km"
  shows "\<exists>r \<in> set (km_rules km). objects_membership (grant_scope r) n \<and>
    leq_value (knob_kind d) v (grant_value r) = Inr True"
  using assms
proof (induction layers arbitrary: decided)
  case (Cons l ls)
  show ?case
  proof (cases "bt_get (layer_grants l) key")
    case None
    with Cons show ?thesis by simp
  next
    case (Some km')
    with Cons.prems(1) obtain sat short where
      split: "split_rules (knob_kind d) v (km_rules km') = Inr (sat, short)" and
      checks: "\<forall>s \<in> set short. check_short key scope decided sat s = Inr ()" and
      rest: "prove_layers key d scope v (decided @ map grant_scope (km_rules km')) ls = Inr ()"
      by (auto simp: and_then_Inr try_fold_unit)
    show ?thesis
    proof (cases "km_covers km' n")
      case True
      then obtain r where r: "r \<in> set (km_rules km')" "objects_membership (grant_scope r) n"
        by (auto simp: km_covers_iff)
      have "\<exists>r' \<in> set (km_rules km'). objects_membership (grant_scope r') n \<and>
          leq_value (knob_kind d) v (grant_value r') = Inr True"
      proof (cases "grant_scope r \<in> set short")
        case True
        with check_short_sound[OF _ Cons.prems(2) r(2)] checks Cons.prems(3)
        obtain s where "s \<in> set sat" "objects_membership s n" by fastforce
        with split_rules_sound(2)[OF split r(1)] show ?thesis by blast
      qed (use split_rules_sound(1)[OF split r(1)] r in blast)
      with True Some Cons.prems(4) show ?thesis by simp
    next
      case False
      with Cons.IH[OF rest Cons.prems(2)] Cons.prems(3,4) Some show ?thesis
        by (auto simp: km_covers_iff)
    qed
  qed
qed simp

lemma raising_loop:
  assumes "try_fold (\<lambda>r out. and_then (compose_error (leq_value k (grant_value r) dv))
      (\<lambda>low. if low then Inr out else Inr (out @ [grant_scope r]))) rs s = Inr s'"
    and "set s \<subseteq> S" "grant_scope ` set rs \<subseteq> S"
  shows "set s' \<subseteq> S"
  using assms(1,2)
proof (rule try_fold_invariant)
  fix r s s'
  assume "r \<in> set rs"
  with assms(3) have "grant_scope r \<in> S" by blast
  then show "set s \<subseteq> S \<Longrightarrow> and_then (compose_error (leq_value k (grant_value r) dv))
      (\<lambda>low. if low then Inr s else Inr (s @ [grant_scope r])) = Inr s' \<Longrightarrow> set s' \<subseteq> S"
    by (auto simp: and_then_Inr split: if_splits)
qed

lemma nondefault_rules_from_layers:
  assumes "layered_nondefault_grant_rules layers key = Inr raising"
  shows "set raising \<subseteq>
    {grant_scope r | l km r. l \<in> set layers \<and> bt_get (layer_grants l) key = Some km \<and> r \<in> set (km_rules km)}"
    (is "_ \<subseteq> ?S")
  using assms unfolding layered_nondefault_grant_rules_def
proof (rule try_fold_invariant)
  fix l s s'
  assume l: "l \<in> set layers" and s: "set s \<subseteq> ?S"
    and step: "(case bt_get (layer_grants l) key of None \<Rightarrow> Inr s
      | Some km \<Rightarrow> try_fold (\<lambda>r out. and_then (compose_error (leq_value (km_kind km) (grant_value r) (km_default km)))
          (\<lambda>low. if low then Inr out else Inr (out @ [grant_scope r]))) (km_rules km) s) = Inr s'"
  show "set s' \<subseteq> ?S"
  proof (cases "bt_get (layer_grants l) key")
    case (Some km)
    then have "grant_scope ` set (km_rules km) \<subseteq> ?S" using l by blast
    with step Some raising_loop[OF _ s] show ?thesis by simp
  qed (use step s in simp)
qed simp

lemma prove_rule_sound:
  assumes "prove_rule_within_charter key d scope v layers = Inr ()" "objects_membership scope n"
  shows "\<exists>km r. deciding_layer layers key n = Some km \<and> r \<in> set (km_rules km) \<and>
    objects_membership (grant_scope r) n \<and> leq_value (knob_kind d) v (grant_value r) = Inr True"
proof -
  from assms(1) obtain raising where walk: "prove_layers key d scope v [] layers = Inr ()"
    and raising: "layered_nondefault_grant_rules layers key = Inr raising"
    and none: "subtract_each scope raising = Some Nothing"
    by (auto simp: prove_rule_within_charter_def and_then_Inr split: option.splits if_splits)
  obtain s where "s \<in> set raising" "objects_membership s n"
    using subtract_each_covers[OF none assms(2)] by auto
  with nondefault_rules_from_layers[OF raising] obtain l km r where "l \<in> set layers"
      "bt_get (layer_grants l) key = Some km" "r \<in> set (km_rules km)" "objects_membership (grant_scope r) n"
    by blast
  then have "deciding_layer layers key n \<noteq> None" by (auto simp: deciding_layer_None km_covers_iff)
  with prove_layers_sound[OF walk assms(2)] show ?thesis by auto
qed

subsection \<open>The draft layer of an admitted policy\<close>

definition pinned_entry :: "KnobDef \<Rightarrow> GrantKeyMap option \<Rightarrow> GrantKeyMap" where
  "pinned_entry d entry =
     (let km = (case entry of
            Some km \<Rightarrow> km
          | None \<Rightarrow> \<lparr>km_kind = knob_kind d, km_default = knob_default d, km_rules = []\<rparr>)
      in km\<lparr>km_rules := km_rules km @ [\<lparr>grant_scope = All_scope, grant_value = knob_default d\<rparr>]\<rparr>)"

definition pin_all :: "KnobDef list \<Rightarrow> Layer \<Rightarrow> Layer" where
  "pin_all defs l = fold (\<lambda>d layer.
      if inherit d then layer
      else pin_layer_key_to_default (knob_key d) (knob_kind d) (knob_default d) layer) defs l"

lemma pin_layer_grants:
  "layer_grants (pin_layer_key_to_default (knob_key d) (knob_kind d) (knob_default d) l) =
     bt_put (knob_key d) (pinned_entry d (bt_get (layer_grants l) (knob_key d))) (layer_grants l)"
  by (simp add: pin_layer_key_to_default_def pinned_entry_def Let_def)

lemma pin_all_rules [simp]:
  "layer_requires (pin_all defs l) = layer_requires l"
  "layer_injects (pin_all defs l) = layer_injects l"
  "layer_validates (pin_all defs l) = layer_validates l"
  unfolding pin_all_def
  by (induction defs arbitrary: l) (auto simp: pin_layer_key_to_default_def Let_def)

lemma pin_all_get:
  assumes "distinct (map knob_key defs)" "sorted_wrt (<) (map fst (layer_grants l))"
  shows "bt_get (layer_grants (pin_all defs l)) key =
    (case find (\<lambda>d. knob_key d = key \<and> \<not> inherit d) defs of
       None \<Rightarrow> bt_get (layer_grants l) key
     | Some d \<Rightarrow> Some (pinned_entry d (bt_get (layer_grants l) key)))"
  using assms
proof (induction defs arbitrary: l)
  case (Cons d defs)
  have none: "find (\<lambda>d'. knob_key d' = knob_key d \<and> \<not> inherit d') defs = None"
    using Cons.prems(1) by (force simp: find_None_iff image_iff)
  show ?case
  proof (cases "inherit d")
    case False
    let ?l = "pin_layer_key_to_default (knob_key d) (knob_kind d) (knob_default d) l"
    have "sorted_wrt (<) (map fst (layer_grants ?l))"
      unfolding pin_layer_grants using Cons.prems(2) by (rule sorted_bt_put)
    from Cons.IH[OF _ this, unfolded pin_layer_grants bt_get_put[OF Cons.prems(2)]] Cons.prems(1)
    have "bt_get (layer_grants (pin_all defs ?l)) key =
      (case find (\<lambda>d. knob_key d = key \<and> \<not> inherit d) defs of
         None \<Rightarrow> if key = knob_key d then Some (pinned_entry d (bt_get (layer_grants l) key)) else bt_get (layer_grants l) key
       | Some d' \<Rightarrow> Some (pinned_entry d' (if key = knob_key d
           then Some (pinned_entry d (bt_get (layer_grants l) key)) else bt_get (layer_grants l) key)))"
      by (auto split: option.splits)
    moreover have "pin_all (d # defs) l = pin_all defs ?l" using False by (simp add: pin_all_def)
    ultimately show ?thesis using False none by (cases "key = knob_key d") auto
  next
    case True
    with Cons show ?thesis by (auto simp: pin_all_def)
  qed
qed (simp add: pin_all_def)

lemma registry_find:
  assumes "registry_ok reg"
  shows "distinct (map knob_key (registry_iter reg))"
    and "find (\<lambda>d. knob_key d = key \<and> P d) (registry_iter reg) =
      (case registry_get reg key of Some d \<Rightarrow> if P d then Some d else None | None \<Rightarrow> None)"
proof -
  have keys: "map knob_key (registry_iter reg) = map fst reg"
    using assms by (auto simp: registry_ok_def registry_iter_def list_all_iff)
  then show dist: "distinct (map knob_key (registry_iter reg))"
    using assms by (simp add: registry_ok_def strict_sorted_iff)
  from assms have "distinct (map fst reg)" "list_all (\<lambda>(k, d). knob_key d = k) reg"
    by (simp_all add: registry_ok_def strict_sorted_iff)
  then show "find (\<lambda>d. knob_key d = key \<and> P d) (registry_iter reg) =
      (case registry_get reg key of Some d \<Rightarrow> if P d then Some d else None | None \<Rightarrow> None)"
    unfolding registry_iter_def registry_get_def bt_get_def
  proof (induction reg)
    case (Cons kd reg)
    obtain k d where kd: "kd = (k, d)" by fastforce
    with Cons.prems have d: "map_of reg k = None" "knob_key d = k" by (simp_all add: map_of_eq_None_iff)
    have IH: "find (\<lambda>d. knob_key d = key \<and> P d) (map snd reg) =
        (case map_of reg key of Some d \<Rightarrow> if P d then Some d else None | None \<Rightarrow> None)"
      using Cons by simp
    show ?case using d IH by (cases "k = key") (simp_all add: kd)
  qed simp
qed

lemma pinned_entry_ok:
  assumes "registry_valid reg" "registry_get reg key = Some d"
    and "\<And>km. entry = Some km \<Longrightarrow> km_ok reg key km"
  shows "km_ok reg key (pinned_entry d entry)"
proof -
  have "fits (knob_kind d) (knob_default d)" using registry_get_valid[OF assms(1,2)] ..
  with assms(2,3) show ?thesis by (cases entry) (simp_all add: pinned_entry_def km_ok_def Let_def)
qed

lemma pin_all_model_ok:
  assumes "registry_valid reg" "model_ok reg (layer_grants l)" "set defs \<subseteq> set (registry_iter reg)"
  shows "model_ok reg (layer_grants (pin_all defs l))"
  using assms(2,3)
proof (induction defs arbitrary: l)
  case (Cons d defs)
  from assms(1) Cons.prems(2) have "registry_get reg (knob_key d) = Some d"
    by (auto simp: registry_iter_def registry_valid_def registry_ok_def registry_get_def bt_get_def
        list_all_iff strict_sorted_iff)
  then have "model_ok reg (layer_grants (pin_layer_key_to_default (knob_key d) (knob_kind d) (knob_default d) l))"
    unfolding pin_layer_grants
    by (intro model_ok_put Cons.prems(1) pinned_entry_ok assms(1)) (auto intro: model_ok_get[OF Cons.prems(1)])
  with Cons show ?case by (auto simp: pin_all_def)
qed (simp add: pin_all_def)

end
