(* ===== verification/PolSafety.thy ===== *)
theory PolSafety
  imports PolAdmit
begin

text \<open>
  Properties of the policy lattice and of admission: the meet is exact and the difference
  never under-approximates, an admitted draft escalates nowhere, alone or in a chain of
  drafts, the charter's obligations survive, and a grant that is not inherited is never
  conferred by omission.
\<close>

subsection \<open>Shared lemmas\<close>

text \<open>
  The composed policy is no looser than another at an object: for a knob of the registry, the
  value of the first is at or below the value of the second. Only an opaque digest, whose
  values have no order, may leave a value undetermined.
\<close>

definition no_looser_at ::
  "PolicyRegistry \<Rightarrow> EffectivePolicy \<Rightarrow> EffectivePolicy \<Rightarrow> KnobKey \<Rightarrow> ObjectName \<Rightarrow> bool" where
  "no_looser_at reg p q key n =
     (case registry_get reg key of
        None \<Rightarrow> grants p key n = None
      | Some d \<Rightarrow>
          (case (grants p key n, grants q key n) of
             (Some v, Some c) \<Rightarrow> leq_value (knob_kind d) v c = Inr True
           | _ \<Rightarrow> knob_kind d = Digest))"

definition charter_valid :: "PolicyRegistry \<Rightarrow> AdmitCharter \<Rightarrow> bool" where
  "charter_valid reg charter =
     (case charter of
        RootCharter doc \<Rightarrow> doc_valid reg doc
      | FinalCharter c \<Rightarrow> layers_ok reg (final_layers c)
      | EffectiveCharter p \<Rightarrow> layers_ok reg (ep_layers p))"

lemma charter_layers_ok:
  assumes "charter_valid reg charter" "charter_layers charter reg = Inr layers"
  shows "layers_ok reg layers"
  using assms
  by (auto simp: charter_valid_def charter_layers_def and_then_Inr layers_ok_def layer_from_doc_ok
      split: AdmitCharter.splits)

lemma admitE:
  assumes "admit_draft charter draft reg = Inr p"
  obtains layers dl where "charter_layers charter reg = Inr layers"
    "layer_from_doc Draft draft reg = Inr dl"
    "\<And>key. bt_get (layer_grants dl) key \<noteq> None \<Longrightarrow> check_grant_key key (layer_grants dl) layers reg = Inr ()"
    "p = \<lparr>ep_registry = reg, ep_layers = pin_all (registry_iter reg) dl # layers\<rparr>"
proof -
  from assms obtain layers g dl where a: "charter_layers charter reg = Inr layers"
      "grant_model_build (doc_rules draft) reg = Inr g"
      "\<forall>key \<in> fst ` set g. check_grant_key key g layers reg = Inr ()"
      "layer_from_doc Draft draft reg = Inr dl"
      "p = \<lparr>ep_registry = reg, ep_layers = pin_all (registry_iter reg) dl # layers\<rparr>"
    by (auto simp: admit_draft_def and_then_Inr try_fold_unit Let_def pin_all_def)
  from a(2,4) have "layer_grants dl = g" by (auto simp: layer_from_doc_def)
  with a that show thesis by (auto simp: bt_get_def map_of_eq_None_iff)
qed

lemma grants_simps:
  "grants \<lparr>ep_registry = reg, ep_layers = l # ls\<rparr> key n =
     (case bt_get (layer_grants l) key of
        Some km \<Rightarrow>
          if km_covers km n then (case value_at km n of Inr v \<Rightarrow> Some v | Inl _ \<Rightarrow> None)
          else grants \<lparr>ep_registry = reg, ep_layers = ls\<rparr> key n
      | None \<Rightarrow> grants \<lparr>ep_registry = reg, ep_layers = ls\<rparr> key n)"
  by (simp add: grants_def split: option.splits)

lemma draft_entry:
  assumes "registry_ok reg" "layer_from_doc Draft draft reg = Inr dl"
  shows "bt_get (layer_grants (pin_all (registry_iter reg) dl)) key =
    (case registry_get reg key of
       Some d \<Rightarrow> if inherit d then bt_get (layer_grants dl) key
                else Some (pinned_entry d (bt_get (layer_grants dl) key))
     | None \<Rightarrow> bt_get (layer_grants dl) key)"
proof -
  have "sorted_wrt (<) (map fst (layer_grants dl))"
    using assms(2) grant_model_build_spec by (auto simp: layer_from_doc_def and_then_Inr)
  then show ?thesis
    using registry_find[OF assms(1)] by (simp add: pin_all_get split: option.splits)
qed

lemma pinned_rules:
  "r \<in> set (km_rules (pinned_entry d entry)) \<longleftrightarrow>
     r = \<lparr>grant_scope = All_scope, grant_value = knob_default d\<rparr> \<or> (\<exists>km. entry = Some km \<and> r \<in> set (km_rules km))"
  by (cases entry) (auto simp: pinned_entry_def)

text \<open>Every rule of the pinned draft layer is at or below the charter's value where it covers.\<close>

lemma draft_rule_within:
  assumes reg: "registry_valid reg" and d: "registry_get reg key = Some d"
    and layers: "layers_ok reg layers"
    and checked: "bt_get (layer_grants dl) key \<noteq> None \<Longrightarrow> check_grant_key key (layer_grants dl) layers reg = Inr ()"
    and km: "bt_get (layer_grants dl) key = Some km" "r \<in> set (km_rules km)" "objects_membership (grant_scope r) n"
    and c: "grants \<lparr>ep_registry = reg, ep_layers = layers\<rparr> key n = Some c"
  shows "leq_value (knob_kind d) (grant_value r) c = Inr True"
proof -
  have default: "leq_value (knob_kind d) (knob_default d) c = Inr True"
    by (rule grants_above_default[OF reg _ _ c d]) (use layers in auto)
  from checked km d have "and_then (compose_error (leq_value (knob_kind d) (grant_value r) (knob_default d)))
      (\<lambda>low. if low then Inr () else prove_rule_within_charter key d (grant_scope r) (grant_value r) layers) = Inr ()"
    by (simp add: check_grant_key_def lookup_def try_fold_unit)
  then consider "leq_value (knob_kind d) (grant_value r) (knob_default d) = Inr True"
    | "prove_rule_within_charter key d (grant_scope r) (grant_value r) layers = Inr ()"
    by (auto simp: and_then_Inr split: if_splits)
  then show ?thesis
  proof cases
    case 1
    then show ?thesis using default by (rule knob.leq_trans)
  next
    case 2
    from prove_rule_sound[OF 2 km(3)] obtain km' r' where k: "deciding_layer layers key n = Some km'"
      "r' \<in> set (km_rules km')" "objects_membership (grant_scope r') n"
      "leq_value (knob_kind d) (grant_value r) (grant_value r') = Inr True"
      by blast
    with c have "value_at km' n = Inr c" by (auto simp: grants_def split: sum.splits)
    from value_at_above(3)[OF this deciding_layer_ok[OF layers k(1)] reg d k(2,3)] k(4)
    show ?thesis by (blast intro: knob.leq_trans)
  qed
qed

lemma admit_layers_ok:
  assumes "registry_valid reg" "doc_valid reg draft" "charter_valid reg charter" "admit_draft charter draft reg = Inr p"
  shows "layers_ok reg (ep_layers p)" "ep_registry p = reg"
proof -
  obtain layers dl where a: "charter_layers charter reg = Inr layers" "layer_from_doc Draft draft reg = Inr dl"
    "p = \<lparr>ep_registry = reg, ep_layers = pin_all (registry_iter reg) dl # layers\<rparr>"
    using assms(4) by (rule admitE)
  have "model_ok reg (layer_grants (pin_all (registry_iter reg) dl))"
    by (rule pin_all_model_ok[OF assms(1) layer_from_doc_ok[OF assms(2) a(2)]]) simp
  with charter_layers_ok[OF assms(3) a(1)] show "layers_ok reg (ep_layers p)" "ep_registry p = reg"
    by (simp_all add: a(3) layers_ok_def)
qed

lemma admit_within:
  assumes reg: "registry_valid reg" and draft: "doc_valid reg draft" and charter: "charter_valid reg charter"
    and layers: "charter_layers charter reg = Inr layers" and p: "admit_draft charter draft reg = Inr p"
    and d: "registry_get reg key = Some d" and v: "grants p key n = Some v"
    and c: "grants \<lparr>ep_registry = reg, ep_layers = layers\<rparr> key n = Some c"
  shows "leq_value (knob_kind d) v c = Inr True"
proof -
  obtain dl where dl: "layer_from_doc Draft draft reg = Inr dl"
    and checked: "bt_get (layer_grants dl) key \<noteq> None \<Longrightarrow> check_grant_key key (layer_grants dl) layers reg = Inr ()"
    and p': "p = \<lparr>ep_registry = reg, ep_layers = pin_all (registry_iter reg) dl # layers\<rparr>"
    using p layers by (auto elim!: admitE)
  let ?entry = "bt_get (layer_grants (pin_all (registry_iter reg) dl)) key"
  have ok: "layers_ok reg layers" by (rule charter_layers_ok[OF charter layers])
  have default: "leq_value (knob_kind d) (knob_default d) c = Inr True"
    by (rule grants_above_default[OF reg _ _ c d]) (use ok in auto)
  show ?thesis
  proof (cases "\<exists>km. ?entry = Some km \<and> km_covers km n")
    case True
    then obtain km where km: "?entry = Some km" "km_covers km n" by blast
    with v p' have val: "value_at km n = Inr v" by (auto simp: grants_simps split: sum.splits)
    have km_ok: "km_ok reg key km"
      by (rule model_ok_get[OF pin_all_model_ok[OF reg layer_from_doc_ok[OF draft dl]] km(1)]) simp
    have rules: "r = \<lparr>grant_scope = All_scope, grant_value = knob_default d\<rparr> \<or>
        (\<exists>km'. bt_get (layer_grants dl) key = Some km' \<and> r \<in> set (km_rules km'))" if "r \<in> set (km_rules km)" for r
      using km(1) that draft_entry[OF _ dl, of key] reg d
      by (auto simp: registry_valid_def pinned_rules split: if_splits)
    show ?thesis
    proof (rule value_at_least[OF val km_ok d default])
      fix r assume r: "r \<in> set (km_rules km)" "objects_membership (grant_scope r) n"
      from rules[OF r(1)] show "leq_value (knob_kind d) (grant_value r) c = Inr True"
        using default draft_rule_within[OF reg d ok checked _ _ r(2) c] by auto
    qed
  next
    case False
    with v p' c have "v = c" by (auto simp: grants_simps split: option.splits if_splits)
    moreover have "fits (knob_kind d) c" using default knob.leq_ok by blast
    ultimately show ?thesis by (simp add: knob.leq_refl)
  qed
qed

lemma digest_values:
  assumes "registry_valid reg" "layers_ok reg (ep_layers p)" "ep_registry p = reg"
    "layers_ok reg (ep_layers q)" "ep_registry q = reg" "registry_get reg key = Some d" "knob_kind d = Digest"
    "grants p key n = Some v" "grants q key n = Some c"
  shows "leq_value Digest v c = Inr True"
  using grants_above_default[OF assms(1-3,8,6)] grants_above_default[OF assms(1,4,5,9,6)] assms(7)
  by (auto simp: leq_value_def and_then_Inr)

lemma no_looserI:
  assumes "registry_valid reg" "layers_ok reg (ep_layers p)" "ep_registry p = reg"
    and "layers_ok reg (ep_layers q)" "ep_registry q = reg"
    and "\<And>d v c. registry_get reg key = Some d \<Longrightarrow> knob_kind d \<noteq> Digest \<Longrightarrow>
      grants p key n = Some v \<Longrightarrow> grants q key n = Some c \<Longrightarrow> leq_value (knob_kind d) v c = Inr True"
  shows "no_looser_at reg p q key n"
proof (cases "registry_get reg key")
  case None
  then show ?thesis using grants_known[OF assms(2,3), of key n]
    by (cases "grants p key n") (auto simp: no_looser_at_def)
next
  case (Some d)
  show ?thesis
  proof (cases "knob_kind d = Digest")
    case True
    then show ?thesis using digest_values[OF assms(1-5) Some True] Some
      by (auto simp: no_looser_at_def split: option.splits)
  next
    case False
    from grants_defined[OF assms(1-3) Some False] grants_defined[OF assms(1,4,5) Some False]
    obtain v c where "grants p key n = Some v" "grants q key n = Some c" by blast
    with assms(6)[OF Some False] Some show ?thesis by (auto simp: no_looser_at_def)
  qed
qed

lemma no_looser_trans:
  assumes "registry_valid reg" "layers_ok reg (ep_layers p)" "ep_registry p = reg"
    and "layers_ok reg (ep_layers q)" "ep_registry q = reg" "layers_ok reg (ep_layers s)" "ep_registry s = reg"
    and "no_looser_at reg p q key n" "no_looser_at reg q s key n"
  shows "no_looser_at reg p s key n"
proof (rule no_looserI[OF assms(1-3,6,7)])
  fix d v c
  assume d: "registry_get reg key = Some d" "knob_kind d \<noteq> Digest"
    and vc: "grants p key n = Some v" "grants s key n = Some c"
  obtain w where w: "grants q key n = Some w" using grants_defined[OF assms(1,4,5) d] by blast
  with assms(8,9) d vc have "leq_value (knob_kind d) v w = Inr True" "leq_value (knob_kind d) w c = Inr True"
    by (simp_all add: no_looser_at_def)
  then show "leq_value (knob_kind d) v c = Inr True" by (rule knob.leq_trans)
qed

lemma admit_no_looser:
  assumes "registry_valid reg" "doc_valid reg draft" "charter_valid reg charter"
    and "charter_layers charter reg = Inr layers" "admit_draft charter draft reg = Inr p"
  shows "no_looser_at reg p \<lparr>ep_registry = reg, ep_layers = layers\<rparr> key n"
  by (rule no_looserI[OF assms(1) admit_layers_ok[OF assms(1-3,5)]])
     (auto simp: charter_layers_ok[OF assms(3,4)] intro: admit_within[OF assms])

subsection \<open>An example charter and drafts\<close>

definition example_key :: KnobKey where
  "example_key = [0x61, 0x2E, 0x62]"

definition example_knob :: "bool \<Rightarrow> KnobDef" where
  "example_knob inh =
     \<lparr>knob_key = example_key, knob_kind = KnobKind.Bool, polarity = Grant_pol,
      knob_default = KnobValue.Bool False, enforcement = Enforced, object_model = PerTable,
      requires_db_privilege = False, inherit = inh, docs = []\<rparr>"

definition example_registry :: "bool \<Rightarrow> PolicyRegistry" where
  "example_registry inh = [(example_key, example_knob inh)]"

text \<open>One grant rule over the schemas a glob matches.\<close>

definition example_grant :: "SegGlob \<Rightarrow> Rule" where
  "example_grant g =
     \<lparr>rule_scope = Of [pattern_schema g] [], rule_kind = Grant example_key (KnobValue.Bool True)\<rparr>"

definition example_doc :: "Rule list \<Rightarrow> PolicyDoc" where
  "example_doc rules = \<lparr>policy_version = 1, default_scope = None, doc_rules = rules\<rparr>"

definition example_inject :: Rule where
  "example_inject =
     \<lparr>rule_scope = All_scope,
      rule_kind = Inject \<lparr>inj_columns = [], inj_indexes = [], inj_primary_key = None,
        author_primary_key = Allow, mandatory = True\<rparr>\<rparr>"

text \<open>The charter grants schemas starting with one byte; the drafts keep to a part of them.\<close>

definition example_charter :: AdmitCharter where
  "example_charter = RootCharter (example_doc [example_grant (infix_glob [0x61] []), example_inject])"

definition example_draft :: PolicyDoc where
  "example_draft = example_doc [example_grant (infix_glob [0x61, 0x62] [])]"

definition example_draft_inner :: PolicyDoc where
  "example_draft_inner = example_doc [example_grant (literal [0x61, 0x62, 0x63])]"

definition admitted_policy :: "PolicyRegistry \<Rightarrow> AdmitCharter \<Rightarrow> PolicyDoc \<Rightarrow> EffectivePolicy" where
  "admitted_policy reg charter draft = (case admit_draft charter draft reg of Inr p \<Rightarrow> p | Inl _ \<Rightarrow> deny_all reg)"

definition draft_layer :: "PolicyRegistry \<Rightarrow> PolicyDoc \<Rightarrow> Layer" where
  "draft_layer reg doc =
     (case layer_from_doc Draft doc reg of
        Inr l \<Rightarrow> l
      | Inl _ \<Rightarrow> \<lparr>layer_tag = Draft, layer_grants = [], layer_requires = [], layer_injects = [],
                  layer_validates = []\<rparr>)"

subsection \<open>Admission\<close>

text \<open>
  A chain of drafts, each admitted under the policy composed so far.
\<close>

definition admit_chain ::
  "PolicyRegistry \<Rightarrow> AdmitCharter \<Rightarrow> PolicyDoc list \<Rightarrow> ComposeError + EffectivePolicy" where
  "admit_chain reg charter drafts =
     and_then (charter_layers charter reg) (\<lambda>layers.
       try_fold (\<lambda>draft p. admit_draft (EffectiveCharter p) draft reg) drafts
         \<lparr>ep_registry = reg, ep_layers = layers\<rparr>)"

text \<open>
  \<^bold>\<open>C1\<close>: No draft escalates. When a chain of validated drafts is admitted one after the other
  under a charter, then for every knob and at every object the composed policy grants a value
  no looser than the charter grants there. The check is made per draft rule and per layer on
  symbolic scopes, with differences that may over-approximate; the property is about the
  concrete values the guard reads.
\<close>

theorem admitted_drafts_never_escalate:
  assumes "registry_valid reg" and "charter_valid reg charter"
    and "list_all (doc_valid reg) drafts"
    and "charter_layers charter reg = Inr layers"
    and "admit_chain reg charter drafts = Inr p"
  shows "no_looser_at reg p \<lparr>ep_registry = reg, ep_layers = layers\<rparr> key n"
proof -
  let ?root = "\<lparr>ep_registry = reg, ep_layers = layers\<rparr>"
  let ?inv = "\<lambda>p. layers_ok reg (ep_layers p) \<and> ep_registry p = reg \<and> no_looser_at reg p ?root key n"
  have root: "layers_ok reg layers" by (rule charter_layers_ok[OF assms(2,4)])
  have refl: "no_looser_at reg ?root ?root key n"
  proof (rule no_looserI[OF assms(1)])
    fix d v c
    assume d: "registry_get reg key = Some d" and v: "grants ?root key n = Some v" "grants ?root key n = Some c"
    have "leq_value (knob_kind d) (knob_default d) c = Inr True"
      by (rule grants_above_default[OF assms(1) _ _ v(2) d]) (use root in auto)
    then show "leq_value (knob_kind d) v c = Inr True" using v knob.leq_ok knob.leq_refl by fastforce
  qed (use root in auto)
  from assms(4,5) have "try_fold (\<lambda>draft p. admit_draft (EffectiveCharter p) draft reg) drafts ?root = Inr p"
    by (simp add: admit_chain_def)
  then have "?inv p"
  proof (rule try_fold_invariant)
    fix draft q q'
    assume draft: "draft \<in> set drafts" and q: "?inv q" and step: "admit_draft (EffectiveCharter q) draft reg = Inr q'"
    have charter: "charter_valid reg (EffectiveCharter q)" using q by (simp add: charter_valid_def)
    have doc: "doc_valid reg draft" using draft assms(3) by (simp add: list_all_iff)
    note ok = admit_layers_ok[OF assms(1) doc charter step]
    have "no_looser_at reg q' \<lparr>ep_registry = reg, ep_layers = ep_layers q\<rparr> key n"
      by (rule admit_no_looser[OF assms(1) doc charter _ step]) (simp add: charter_layers_def)
    moreover have "\<lparr>ep_registry = reg, ep_layers = ep_layers q\<rparr> = q" using q by simp
    ultimately have "no_looser_at reg q' ?root key n"
      using no_looser_trans[OF assms(1) ok, of q ?root key n] q root by simp
    with ok show "?inv q'" by simp
  qed (use root refl in simp)
  then show ?thesis by simp
qed

theorem admitted_drafts_never_escalate_witness:
  "no_looser_at (example_registry True)
     (admitted_policy (example_registry True) (EffectiveCharter
        (admitted_policy (example_registry True) example_charter example_draft)) example_draft_inner)
     \<lparr>ep_registry = example_registry True,
      ep_layers = (case charter_layers example_charter (example_registry True) of Inr ls \<Rightarrow> ls | _ \<Rightarrow> [])\<rparr>
     example_key (object_schema [0x61, 0x62, 0x63])"
  by (rule admitted_drafts_never_escalate[where charter = example_charter
        and drafts = "[example_draft, example_draft_inner]"]) code_simp+

text \<open>
  \<^bold>\<open>C39\<close>: What the charter imposes survives admission. At every object the composed policy
  carries every require, inject and validate rule of the charter that covers the object, in
  the charter's order, and only adds the draft's own: obligations with the draft's first,
  injects and predicates with the charter's first.
\<close>

theorem charter_obligations_survive:
  assumes "charter_layers charter reg = Inr layers" and "admit_draft charter draft reg = Inr p"
    and "layer_from_doc Draft draft reg = Inr dl"
  shows "obligations p n =
      obligations \<lparr>ep_registry = reg, ep_layers = [dl]\<rparr> n @ obligations \<lparr>ep_registry = reg, ep_layers = layers\<rparr> n \<and>
    injects_for p n =
      injects_for \<lparr>ep_registry = reg, ep_layers = layers\<rparr> n @ injects_for \<lparr>ep_registry = reg, ep_layers = [dl]\<rparr> n \<and>
    validates_for p n =
      validates_for \<lparr>ep_registry = reg, ep_layers = layers\<rparr> n @ validates_for \<lparr>ep_registry = reg, ep_layers = [dl]\<rparr> n"
proof -
  from assms have "p = \<lparr>ep_registry = reg, ep_layers = pin_all (registry_iter reg) dl # layers\<rparr>"
    by (auto elim!: admitE)
  then show ?thesis
    by (simp add: obligations_def injects_for_def validates_for_def List.map_filter_def)
qed

theorem charter_obligations_survive_witness:
  "injects_for (admitted_policy (example_registry True) example_charter example_draft) (object_schema [0x7A]) =
     [\<lparr>inj_columns = [], inj_indexes = [], inj_primary_key = None, author_primary_key = Allow, mandatory = True\<rparr>]"
proof -
  let ?reg = "example_registry True"
  have "injects_for (admitted_policy ?reg example_charter example_draft) (object_schema [0x7A]) =
      injects_for \<lparr>ep_registry = ?reg, ep_layers =
        (case charter_layers example_charter ?reg of Inr ls \<Rightarrow> ls | _ \<Rightarrow> [])\<rparr> (object_schema [0x7A]) @
      injects_for \<lparr>ep_registry = ?reg, ep_layers =
        [draft_layer ?reg example_draft]\<rparr> (object_schema [0x7A])"
    by (rule charter_obligations_survive[where charter = example_charter and draft = example_draft, THEN conjunct2, THEN conjunct1]) code_simp+
  also have "\<dots> = [\<lparr>inj_columns = [], inj_indexes = [], inj_primary_key = None,
      author_primary_key = Allow, mandatory = True\<rparr>]" by code_simp
  finally show ?thesis .
qed

text \<open>
  A grant that is not inherited is never conferred by omission: where no rule of the
  draft on that knob covers the object, the composed policy answers the knob's default,
  whatever the charter grants.
\<close>

theorem silent_draft_gets_the_default:
  assumes "registry_valid reg" and "registry_get reg key = Some d" and "\<not> inherit d"
    and "admit_draft charter draft reg = Inr p"
    and "\<forall>r \<in> set (rule_grants key (doc_rules draft)). \<not> objects_membership (grant_scope r) n"
  shows "\<exists>v. grants p key n = Some v \<and> leq_value (knob_kind d) v (knob_default d) = Inr True"
proof -
  obtain layers dl where a: "layer_from_doc Draft draft reg = Inr dl"
    "p = \<lparr>ep_registry = reg, ep_layers = pin_all (registry_iter reg) dl # layers\<rparr>"
    using assms(4) by (rule admitE)
  let ?old = "bt_get (layer_grants dl) key"
  let ?km = "pinned_entry d ?old"
  have fit: "fits (knob_kind d) (knob_default d)" using registry_get_valid[OF assms(1,2)] ..
  have entry: "bt_get (layer_grants (pin_all (registry_iter reg) dl)) key = Some ?km"
    using draft_entry[OF _ a(1), of key] assms(1-3) by (simp add: registry_valid_def)
  have get: "?old = (if rule_grants key (doc_rules draft) = [] then None
      else Some \<lparr>km_kind = knob_kind d, km_default = knob_default d, km_rules = rule_grants key (doc_rules draft)\<rparr>)"
    using a(1) assms(2) grant_model_build_get[of "doc_rules draft" reg "layer_grants dl" key]
    by (auto simp: layer_from_doc_def and_then_Inr)
  have km: "?km = \<lparr>km_kind = knob_kind d, km_default = knob_default d,
      km_rules = rule_grants key (doc_rules draft) @ [\<lparr>grant_scope = All_scope, grant_value = knob_default d\<rparr>]\<rparr>"
    by (simp add: get pinned_entry_def)
  obtain j where j: "join_value (knob_kind d) (knob_default d) (knob_default d) = Inr j"
    using fit join_defined[OF _ fit fit] by (cases "knob_kind d = Digest")
      (auto simp: join_value_def fits_def as_str_def split: KnobValue.splits)
  have skip: "try_fold (\<lambda>r acc. if objects_membership (grant_scope r) n
      then join_value (knob_kind d) acc (grant_value r) else Inr acc) rs acc = Inr acc"
    if "\<forall>r \<in> set rs. \<not> objects_membership (grant_scope r) n" for rs :: "GrantRule list" and acc
    using that by (induction rs) auto
  have "value_at ?km n = Inr j"
    unfolding value_at_joins km GrantKeyMap.simps try_fold_append skip[OF assms(5)] by (simp add: j)
  moreover have "km_covers ?km n" by (simp add: km km_covers_def)
  ultimately have "grants p key n = Some j" by (simp add: a(2) grants_simps entry)
  moreover have "leq_value (knob_kind d) j (knob_default d) = Inr True"
    by (rule knob.join_least[OF j]) (simp_all add: knob.leq_refl fit)
  ultimately show ?thesis by blast
qed

theorem silent_draft_gets_the_default_witness:
  "\<exists>v. grants (admitted_policy (example_registry False) example_charter example_draft) example_key
     (object_schema [0x61, 0x7A]) = Some v \<and> leq_value KnobKind.Bool v (KnobValue.Bool False) = Inr True"
proof -
  have "\<exists>v. grants (admitted_policy (example_registry False) example_charter example_draft) example_key
      (object_schema [0x61, 0x7A]) = Some v \<and>
      leq_value (knob_kind (example_knob False)) v (knob_default (example_knob False)) = Inr True"
    by (rule silent_draft_gets_the_default[where reg = "example_registry False" and charter = example_charter
        and draft = example_draft]) code_simp+
  then show ?thesis by (simp add: example_knob_def)
qed

end
