(* ===== verification/PolRegion.thy ===== *)
theory PolRegion
  imports PolSafety
begin

text \<open>
  Properties of the queries and gates over a layer stack: what the three-way region answer of
  \<^verbatim>\<open>EffectivePolicy::grant_region\<close> says about the values at objects, what the creatable-scope lint
  guarantees of mandatory injects, that the meet of two trusted documents grants no more than
  either, and that the conflict checks together leave no two conflicting injects at any object.
\<close>

subsection \<open>Scopes that denote everything or nothing\<close>

lemma normalize_not_All: "normalize (Of incl excl) \<noteq> All_scope"
  by (simp add: normalize_def Let_def)

lemma join_All: "scope_join a b = All_scope \<longleftrightarrow> a = All_scope \<or> b = All_scope"
  by (cases "(a, b)" rule: scope_join.cases) (auto simp: normalize_not_All Let_def)

lemma meet_All: "scope_meet a b = All_scope \<longleftrightarrow> a = All_scope \<and> b = All_scope"
  by (cases "(a, b)" rule: scope_meet.cases) (auto simp: normalize_not_All Let_def)

lemma difference_All: "difference a b = Scope_diff All_scope \<longleftrightarrow> a = All_scope \<and> b = Nothing"
  by (cases "(a, b)" rule: difference.cases)
     (auto simp: normalize_not_All Let_def join_All meet_All scope_including_def scope_of_def split: if_splits)

lemma joins_All:
  "fold (\<lambda>s acc. scope_join acc s) ss acc = All_scope \<longleftrightarrow> acc = All_scope \<or> All_scope \<in> set ss"
  by (induction ss arbitrary: acc) (auto simp: join_All)

text \<open>The granted scope is the join of the scopes of the rules that raise the value.\<close>

lemma granted_scope_joins:
  assumes "granted_scope km = Inr g"
  shows "g = fold (\<lambda>s acc. scope_join acc s)
      (map grant_scope (filter (\<lambda>r. leq_value (km_kind km) (grant_value r) (km_default km) = Inr False) (km_rules km)))
      Nothing \<and>
    (\<forall>r \<in> set (km_rules km). \<exists>b. leq_value (km_kind km) (grant_value r) (km_default km) = Inr b)"
proof -
  have "g = fold (\<lambda>s acc. scope_join acc s)
      (map grant_scope (filter (\<lambda>r. leq_value k (grant_value r) dv = Inr False) rs)) acc \<and>
    (\<forall>r \<in> set rs. \<exists>b. leq_value k (grant_value r) dv = Inr b)"
    if "try_fold (\<lambda>r acc. and_then (compose_error (leq_value k (grant_value r) dv)) (\<lambda>low.
        if low then Inr acc else Inr (scope_join acc (grant_scope r)))) rs acc = Inr g"
    for k dv acc and rs :: "GrantRule list"
    using that
  proof (induction rs arbitrary: acc)
    case (Cons r rs)
    then obtain b where b: "leq_value k (grant_value r) dv = Inr b" by (auto simp: and_then_Inr)
    with Cons show ?case by (cases b) auto
  qed simp
  from this[OF assms[unfolded granted_scope_def]] show ?thesis .
qed

lemma granted_scope_covers:
  assumes "granted_scope km = Inr g" "r \<in> set (km_rules km)" "objects_membership (grant_scope r) n"
    and "leq_value (km_kind km) (grant_value r) (km_default km) = Inr False"
  shows "objects_membership g n"
proof -
  let ?scopes = "map grant_scope (filter (\<lambda>r. leq_value (km_kind km) (grant_value r) (km_default km) = Inr False)
      (km_rules km))"
  have "grant_scope r \<in> set ?scopes" using assms(2,4) by simp
  with assms(3) have "objects_membership (fold (\<lambda>s acc. scope_join acc s) ?scopes Nothing) n"
    by (intro scope.joins_cover) blast
  with granted_scope_joins[OF assms(1)] show ?thesis by simp
qed

lemma covered_scope_covers: "km_covers km n \<Longrightarrow> objects_membership (covered_scope km) n"
  using scope.joins_cover[of Nothing n "map grant_scope (km_rules km)"]
  by (auto simp: km_covers_iff covered_scope_def fold_map comp_def)

text \<open>A value above the default comes from a rule above the default.\<close>

lemma raised_value_rule:
  assumes "value_at km n = Inr v" "km_ok reg key km" "registry_valid reg" "registry_get reg key = Some d"
    and "leq_value (knob_kind d) v (knob_default d) = Inr False"
  shows "\<exists>r \<in> set (km_rules km). objects_membership (grant_scope r) n \<and>
    leq_value (knob_kind d) (grant_value r) (knob_default d) = Inr False"
proof (rule ccontr)
  assume none: "\<not> ?thesis"
  have fit: "fits (knob_kind d) (knob_default d)" using registry_get_valid[OF assms(3,4)] ..
  have "leq_value (knob_kind d) (grant_value r) (knob_default d) = Inr True"
    if "r \<in> set (km_rules km)" "objects_membership (grant_scope r) n" for r
  proof -
    have "fits (knob_kind d) (grant_value r)" using that(1) assms(2,4) by (auto simp: km_ok_def list_all_iff)
    with knob.leq_decides[OF this fit] obtain b
      where "leq_value (knob_kind d) (grant_value r) (knob_default d) = Inr b" by blast
    with none that show ?thesis by (cases b) auto
  qed
  with value_at_least[OF assms(1,2,4) knob.leq_refl[OF fit]] assms(5) show False by simp
qed

lemma raising_rule_value:
  assumes "value_at km n = Inr v" "km_ok reg key km" "registry_valid reg" "registry_get reg key = Some d"
    and "r \<in> set (km_rules km)" "objects_membership (grant_scope r) n"
    and "leq_value (knob_kind d) (grant_value r) (knob_default d) = Inr False"
  shows "leq_value (knob_kind d) v (knob_default d) = Inr False"
proof -
  have fit: "fits (knob_kind d) (knob_default d)" using registry_get_valid[OF assms(3,4)] ..
  obtain b where b: "leq_value (knob_kind d) v (knob_default d) = Inr b"
    using knob.leq_decides[OF value_at_above(1)[OF assms(1-4)] fit] by blast
  have "b = False"
  proof (rule ccontr)
    assume "b \<noteq> False"
    with b have "leq_value (knob_kind d) v (knob_default d) = Inr True" by simp
    from knob.leq_trans[OF value_at_above(3)[OF assms(1-6)] this] assms(7) show False by simp
  qed
  with b show ?thesis by simp
qed

subsection \<open>The region answer\<close>

lemma deciding_layer_append:
  "deciding_layer (ls @ ls') key n =
     (case deciding_layer ls key n of Some km \<Rightarrow> Some km | None \<Rightarrow> deciding_layer ls' key n)"
  by (induction ls) (auto split: option.splits)

definition raised_everywhere :: "Layer list \<Rightarrow> KnobKey \<Rightarrow> bool" where
  "raised_everywhere ls key \<longleftrightarrow>
     (\<forall>n. \<exists>km r. deciding_layer ls key n = Some km \<and> r \<in> set (km_rules km) \<and>
        objects_membership (grant_scope r) n \<and>
        leq_value (km_kind km) (grant_value r) (km_default km) = Inr False)"

lemma raised_everywhere_append: "raised_everywhere ls key \<Longrightarrow> raised_everywhere (ls @ ls') key"
  unfolding raised_everywhere_def deciding_layer_append by (metis option.simps(5))

lemma visible_top:
  assumes "granted_scope km = Inr All_scope" "bt_get (layer_grants l) key = Some km"
    and "\<And>n. deciding_layer ls key n = None"
  shows "raised_everywhere (ls @ [l]) key"
proof -
  obtain r where r: "r \<in> set (km_rules km)" "grant_scope r = All_scope"
      "leq_value (km_kind km) (grant_value r) (km_default km) = Inr False"
    using granted_scope_joins[OF assms(1)] by (auto simp: joins_All dest!: sym[of All_scope])
  then have "km_covers km n" for n by (auto simp: km_covers_iff intro!: bexI[of _ r])
  with r assms(2,3) show ?thesis
    unfolding raised_everywhere_def deciding_layer_append by (auto intro!: exI[of _ r])
qed

lemma region_step_Some:
  assumes "bt_get (layer_grants l) key = Some km"
    and "region_step key l (acc0, ex0, m0) = Inr (acc, exactness, masked)"
  obtains g where "granted_scope km = Inr g"
    "acc = scope_join acc0 (case difference g m0 of Scope_diff s \<Rightarrow> s | NotRepresentable \<Rightarrow> g)"
    "exactness = (case difference g m0 of Scope_diff s \<Rightarrow> ex0 | NotRepresentable \<Rightarrow> Widened)"
    "masked = scope_join m0 (covered_scope km)"
proof -
  from assms obtain g where "granted_scope km = Inr g" by (auto simp: region_step_def and_then_Inr)
  with assms show thesis by (intro that[of g]) (auto simp: region_step_def split: Difference.splits)
qed

lemma region_fold:
  assumes "try_fold (region_step key) ls (Nothing, Exact, Nothing) = Inr (acc, exactness, masked)"
  shows "(\<forall>n. deciding_layer ls key n \<noteq> None \<longrightarrow> objects_membership masked n) \<and>
    (acc = All_scope \<and> exactness = Exact \<longrightarrow> raised_everywhere ls key)"
  using assms
proof (induction ls arbitrary: acc exactness masked rule: rev_induct)
  case (snoc l ls)
  then obtain acc0 ex0 m0 where prev: "try_fold (region_step key) ls (Nothing, Exact, Nothing) = Inr (acc0, ex0, m0)"
    and step: "region_step key l (acc0, ex0, m0) = Inr (acc, exactness, masked)"
    by (auto simp: try_fold_append and_then_Inr)
  note IH = snoc.IH[OF prev]
  show ?case
  proof (cases "bt_get (layer_grants l) key")
    case None
    with step have "acc = acc0" "exactness = ex0" "masked = m0" by (auto simp: region_step_def)
    with IH None show ?thesis
      by (auto simp: deciding_layer_append intro: raised_everywhere_append split: option.splits)
  next
    case (Some km)
    then obtain g where g: "granted_scope km = Inr g"
      and acc: "acc = scope_join acc0 (case difference g m0 of Scope_diff s \<Rightarrow> s | NotRepresentable \<Rightarrow> g)"
      and ex: "exactness = (case difference g m0 of Scope_diff s \<Rightarrow> ex0 | NotRepresentable \<Rightarrow> Widened)"
      and masked: "masked = scope_join m0 (covered_scope km)"
      using step by (rule region_step_Some)
    have mask: "objects_membership masked n" if "deciding_layer (ls @ [l]) key n \<noteq> None" for n
      unfolding masked
      by (rule join_upper) (use that IH Some in \<open>auto simp: deciding_layer_append covered_scope_covers
        split: option.splits if_splits\<close>)
    have "raised_everywhere (ls @ [l]) key" if top: "acc = All_scope" "exactness = Exact"
    proof (cases "acc0 = All_scope")
      case True
      with IH top ex show ?thesis by (auto intro: raised_everywhere_append split: Difference.splits)
    next
      case False
      with top acc ex have "difference g m0 = Scope_diff All_scope"
        by (auto simp: join_All split: Difference.splits)
      then have "g = All_scope" "m0 = Nothing" by (simp_all add: difference_All)
      with IH g Some show ?thesis by (intro visible_top) auto
    qed
    with mask show ?thesis by blast
  qed
qed simp

text \<open>
  A grant reported as universal is universal. When the region of a knob is answered
  \<^verbatim>\<open>Top\<close>, the effective value at every object, after the masking of lower layers by upper ones,
  is above the knob's default.
\<close>

theorem top_region_is_universal:
  assumes "registry_valid reg" and "layers_ok reg (ep_layers p)" and "ep_registry p = reg"
    and "registry_get reg key = Some d" and "knob_kind d \<noteq> Digest"
    and "grant_region p key = Top"
  shows "\<exists>v. grants p key n = Some v \<and> leq_value (knob_kind d) v (knob_default d) = Inr False"
proof -
  from assms(6) obtain m where
    "try_fold (region_step key) (ep_layers p) (Nothing, Exact, Nothing) = Inr (All_scope, Exact, m)"
    by (auto simp: grant_region_def effective_granted_scope_def and_then_Inr
        split: sum.splits prod.splits Scope.splits Exactness.splits)
  from region_fold[OF this] obtain km r where k: "deciding_layer (ep_layers p) key n = Some km"
      "r \<in> set (km_rules km)" "objects_membership (grant_scope r) n"
      "leq_value (km_kind km) (grant_value r) (km_default km) = Inr False"
    unfolding raised_everywhere_def by blast
  note ok = deciding_layer_ok[OF assms(2) k(1)]
  obtain v where v: "value_at km n = Inr v" using value_at_defined[OF ok assms(1,4,5)] by blast
  have "leq_value (knob_kind d) (grant_value r) (knob_default d) = Inr False"
    using k(4) ok assms(4) by (simp add: km_ok_def)
  from raising_rule_value[OF v ok assms(1,4) k(2,3) this] k(1) v show ?thesis by (simp add: grants_def)
qed

theorem top_region_is_universal_witness:
  "\<exists>v. grants \<lparr>ep_registry = example_registry True,
       ep_layers = [draft_layer (example_registry True) (example_doc
         [\<lparr>rule_scope = All_scope, rule_kind = Grant example_key (KnobValue.Bool True)\<rparr>])]\<rparr>
     example_key (object_schema [0x61]) = Some v \<and>
     leq_value (knob_kind (example_knob True)) v (knob_default (example_knob True)) = Inr False"
  by (rule top_region_is_universal[where reg = "example_registry True"]) code_simp+

definition narrowing_draft :: PolicyDoc where
  "narrowing_draft = example_doc
     [\<lparr>rule_scope = Of [pattern_schema (infix_glob [0x61] [])] [pattern_schema (literal [0x61, 0x62])],
       rule_kind = Grant example_key (KnobValue.Bool False)\<rparr>,
      \<lparr>rule_scope = Of [pattern_schema (literal [0x78])] [],
       rule_kind = Grant example_key (KnobValue.Bool False)\<rparr>]"

text \<open>
  A grant can be reported as absent although it is in force. The estimate behind the
  region answer is documented as one that may only widen, but the scopes a layer covers are
  joined, and the join of two scopes forgets their excludes. Here a charter grants a knob on
  the schemas starting with a byte; an admitted draft resets it on these schemas except one,
  and on one unrelated schema. The knob stays granted on the excepted schema, and its region
  is answered \<^verbatim>\<open>Ungranted\<close>.
\<close>

theorem masked_grant_is_reported_ungranted:
  "admit_draft example_charter narrowing_draft (example_registry True) =
     Inr (admitted_policy (example_registry True) example_charter narrowing_draft) \<and>
   grants (admitted_policy (example_registry True) example_charter narrowing_draft) example_key
     (object_schema [0x61, 0x62]) = Some (KnobValue.Bool True) \<and>
   grant_region (admitted_policy (example_registry True) example_charter narrowing_draft) example_key = Ungranted"
  by code_simp

subsection \<open>Mandatory injects cannot be escaped\<close>

lemma find_map_None: "find_map f xs = None \<longleftrightarrow> (\<forall>x \<in> set xs. f x = None)"
  by (induction xs) (auto split: option.splits)

lemma creatable_covers:
  assumes "try_fold (\<lambda>layer creatable. case bt_get (layer_grants layer) key of
        None \<Rightarrow> Inr creatable
      | Some km \<Rightarrow> and_then (granted_scope km) (\<lambda>granted. Inr (scope_join creatable granted))) ls acc = Inr cr"
  shows "(objects_membership acc n \<longrightarrow> objects_membership cr n) \<and>
    (\<forall>l \<in> set ls. \<forall>km g. bt_get (layer_grants l) key = Some km \<longrightarrow> granted_scope km = Inr g \<longrightarrow>
      objects_membership g n \<longrightarrow> objects_membership cr n)"
  using assms
proof (induction ls arbitrary: acc)
  case (Cons l ls)
  show ?case
  proof (cases "bt_get (layer_grants l) key")
    case None
    with Cons show ?thesis by auto
  next
    case (Some km)
    with Cons.prems obtain g where g: "granted_scope km = Inr g"
      and rest: "try_fold (\<lambda>layer creatable. case bt_get (layer_grants layer) key of
        None \<Rightarrow> Inr creatable
      | Some km \<Rightarrow> and_then (granted_scope km) (\<lambda>granted. Inr (scope_join creatable granted))) ls (scope_join acc g) = Inr cr"
      by (auto simp: and_then_Inr)
    from Cons.IH[OF rest] g Some show ?thesis using join_upper[of acc n g] by auto
  qed
qed simp

lemma granted_scope_defined:
  assumes "km_ok reg key km" "registry_valid reg"
  shows "\<exists>g. granted_scope km = Inr g"
proof -
  from assms(1) obtain d where d: "registry_get reg key = Some d" "km_kind km = knob_kind d"
      "km_default km = knob_default d" "\<forall>r \<in> set (km_rules km). fits (knob_kind d) (grant_value r)"
    by (auto simp: km_ok_def list_all_iff split: option.splits)
  have fit: "fits (knob_kind d) (knob_default d)" using registry_get_valid[OF assms(2) d(1)] ..
  have "\<exists>g. try_fold (\<lambda>r acc. and_then (compose_error (leq_value (knob_kind d) (grant_value r) (knob_default d)))
      (\<lambda>low. if low then Inr acc else Inr (scope_join acc (grant_scope r)))) rs acc = Inr g"
    if "\<forall>r \<in> set rs. fits (knob_kind d) (grant_value r)" for acc and rs :: "GrantRule list"
    using that
  proof (induction rs arbitrary: acc)
    case (Cons r rs)
    with knob.leq_decides[OF _ fit] obtain b
      where "leq_value (knob_kind d) (grant_value r) (knob_default d) = Inr b" by fastforce
    with Cons show ?case by (cases b) auto
  qed simp
  with d show ?thesis by (simp add: granted_scope_def)
qed

text \<open>
  \<^bold>\<open>C35\<close>: A mandatory inject cannot be escaped by creating a table elsewhere. When the
  creatable-scope check passes on a composed policy, then wherever the effective policy grants
  table creation above the default, every mandatory inject rule of every layer covers the
  object, so its shape is among those injected there.
\<close>

theorem mandatory_inject_covers_every_creatable_object:
  assumes "registry_valid reg" and "layers_ok reg (ep_layers p)" and "ep_registry p = reg"
    and "check_creatable_escape p = Inr ()"
    and "registry_get reg create_table_key = Some d"
    and "grants p create_table_key n = Some v"
    and "leq_value (knob_kind d) v (knob_default d) = Inr False"
    and "layer \<in> set (ep_layers p)" and "rule \<in> set (layer_injects layer)"
    and "rule_kind rule = Inject spec" and "mandatory spec"
  shows "spec \<in> set (injects_for p n)"
proof -
  have key: "knob_key_parse create_table_key = Inr create_table_key" by code_simp
  have fit: "fits (knob_kind d) (knob_default d)" using registry_get_valid[OF assms(1,5)] ..
  have "deciding_layer (ep_layers p) create_table_key n \<noteq> None"
  proof
    assume "deciding_layer (ep_layers p) create_table_key n = None"
    with assms(3,5,6) have "v = knob_default d" by (simp add: grants_def)
    with assms(7) knob.leq_refl[OF fit] show False by simp
  qed
  then obtain km where km: "deciding_layer (ep_layers p) create_table_key n = Some km" by blast
  with assms(6) have val: "value_at km n = Inr v" by (auto simp: grants_def split: sum.splits)
  note ok = deciding_layer_ok[OF assms(2) km]
  obtain r where r: "r \<in> set (km_rules km)" "objects_membership (grant_scope r) n"
      "leq_value (knob_kind d) (grant_value r) (knob_default d) = Inr False"
    using raised_value_rule[OF val ok assms(1,5,7)] by blast
  obtain g where g: "granted_scope km = Inr g" using granted_scope_defined[OF ok assms(1)] by blast
  have in_g: "objects_membership g n"
    by (rule granted_scope_covers[OF g r(1,2)]) (use r(3) ok assms(5) in \<open>simp add: km_ok_def\<close>)
  obtain l where l: "l \<in> set (ep_layers p)" "bt_get (layer_grants l) create_table_key = Some km"
    using deciding_layer_covers[OF km] by blast
  from assms(4) have none: "creatable_escape_scope (ep_layers p) = None"
    by (auto simp: check_creatable_escape_def split: option.splits)
  then obtain cr where cr: "try_fold (\<lambda>layer creatable. case bt_get (layer_grants layer) create_table_key of
        None \<Rightarrow> Inr creatable
      | Some km \<Rightarrow> and_then (granted_scope km) (\<lambda>granted. Inr (scope_join creatable granted)))
      (ep_layers p) Nothing = Inr cr"
    by (auto simp: creatable_escape_scope_def key split: sum.splits)
  have in_cr: "objects_membership cr n" using creatable_covers[OF cr, of n] l g in_g by blast
  then have "cr \<noteq> Nothing" by auto
  with none cr have "find_map (\<lambda>layer. find_map (\<lambda>rule.
         case rule_kind rule of
           Inject spec \<Rightarrow>
             if \<not> mandatory spec then None
             else if \<not> scope_subset cr (rule_scope rule) then Some (render_scope (rule_scope rule))
             else None
         | _ \<Rightarrow> None)
       (layer_injects layer)) (ep_layers p) = None"
    by (simp add: creatable_escape_scope_def key)
  with assms(8-11) have "scope_subset cr (rule_scope rule)"
    by (fastforce simp: find_map_None split: if_splits)
  then have "objects_membership (rule_scope rule) n" using in_cr by (rule subset_sound)
  with assms(8-10) show ?thesis
    by (force simp: injects_for_def List.map_filter_def image_iff)
qed

definition creatable_registry :: PolicyRegistry where
  "creatable_registry = [(create_table_key, (example_knob True)\<lparr>knob_key := create_table_key\<rparr>)]"

definition creatable_policy :: EffectivePolicy where
  "creatable_policy = admitted_policy creatable_registry
     (RootCharter (example_doc
        [\<lparr>rule_scope = schema_scope (infix_glob [0x61] []), rule_kind = Grant create_table_key (KnobValue.Bool True)\<rparr>,
         example_inject]))
     (example_doc [])"

theorem mandatory_inject_covers_every_creatable_object_witness:
  "\<lparr>inj_columns = [], inj_indexes = [], inj_primary_key = None, author_primary_key = Allow, mandatory = True\<rparr>
     \<in> set (injects_for creatable_policy (object_schema [0x61]))"
  by (rule mandatory_inject_covers_every_creatable_object[where reg = creatable_registry
        and d = "(example_knob True)\<lparr>knob_key := create_table_key\<rparr>" and v = "KnobValue.Bool True"
        and layer = "last (ep_layers creatable_policy)" and rule = example_inject]) code_simp+

subsection \<open>The meet of two trusted documents\<close>

lemma clamp_rules:
  assumes "try_fold (\<lambda>orule rules. try_fold (\<lambda>irule rules.
        let scope = scope_meet (grant_scope orule) (grant_scope irule)
        in if scope = Nothing then Inr rules
           else and_then (compose_error (meet_value k (grant_value orule) (grant_value irule)))
             (\<lambda>value. Inr (rules @ [\<lparr>grant_scope = scope, grant_value = value\<rparr>])))
      irs rules) ors [] = Inr rules"
  shows "\<forall>r \<in> set rules. \<exists>ro \<in> set ors. \<exists>ri \<in> set irs.
    grant_scope r = scope_meet (grant_scope ro) (grant_scope ri) \<and>
    meet_value k (grant_value ro) (grant_value ri) = Inr (grant_value r)"
    (is "?P rules")
  using assms
proof (rule try_fold_invariant)
  fix ro rs rs'
  assume ro: "ro \<in> set ors" and rs: "?P rs"
    and step: "try_fold (\<lambda>irule rules.
        let scope = scope_meet (grant_scope ro) (grant_scope irule)
        in if scope = Nothing then Inr rules
           else and_then (compose_error (meet_value k (grant_value ro) (grant_value irule)))
             (\<lambda>value. Inr (rules @ [\<lparr>grant_scope = scope, grant_value = value\<rparr>])))
      irs rs = Inr rs'"
  from step rs show "?P rs'"
  proof (rule try_fold_invariant)
    fix ri qs qs'
    assume ri: "ri \<in> set irs" and qs: "?P qs"
      and inner: "(let scope = scope_meet (grant_scope ro) (grant_scope ri)
        in if scope = Nothing then Inr qs
           else and_then (compose_error (meet_value k (grant_value ro) (grant_value ri)))
             (\<lambda>value. Inr (qs @ [\<lparr>grant_scope = scope, grant_value = value\<rparr>]))) = Inr qs'"
    show "?P qs'"
    proof (cases "scope_meet (grant_scope ro) (grant_scope ri) = Nothing")
      case True
      with inner qs show ?thesis by simp
    next
      case False
      with inner obtain v where "meet_value k (grant_value ro) (grant_value ri) = Inr v"
        "qs' = qs @ [\<lparr>grant_scope = scope_meet (grant_scope ro) (grant_scope ri), grant_value = v\<rparr>]"
        by (auto simp: and_then_Inr)
      with qs ro ri show ?thesis by auto
    qed
  qed
qed simp

lemma clamp_grant_key_rules:
  assumes "clamp_grant_key key og ig reg = Inr km" "registry_get reg key = Some d"
  shows "km_kind km = knob_kind d" "km_default km = knob_default d"
    and "r \<in> set (km_rules km) \<Longrightarrow> \<exists>ok ik ro ri. bt_get og key = Some ok \<and> bt_get ig key = Some ik \<and>
      ro \<in> set (km_rules ok) \<and> ri \<in> set (km_rules ik) \<and>
      grant_scope r = scope_meet (grant_scope ro) (grant_scope ri) \<and>
      meet_value (knob_kind d) (grant_value ro) (grant_value ri) = Inr (grant_value r)"
proof -
  have "km_kind km = knob_kind d \<and> km_default km = knob_default d \<and>
    (\<forall>r \<in> set (km_rules km). \<exists>ok ik ro ri. bt_get og key = Some ok \<and> bt_get ig key = Some ik \<and>
      ro \<in> set (km_rules ok) \<and> ri \<in> set (km_rules ik) \<and>
      grant_scope r = scope_meet (grant_scope ro) (grant_scope ri) \<and>
      meet_value (knob_kind d) (grant_value ro) (grant_value ri) = Inr (grant_value r))"
  proof (cases "bt_get og key = None \<or> bt_get ig key = None")
    case True
    with assms show ?thesis by (auto simp: clamp_grant_key_def lookup_def split: option.splits)
  next
    case False
    then obtain ok ik where "bt_get og key = Some ok" "bt_get ig key = Some ik" by auto
    with assms show ?thesis
      by (auto simp: clamp_grant_key_def lookup_def and_then_Inr dest!: clamp_rules) blast
  qed
  then show "km_kind km = knob_kind d" "km_default km = knob_default d"
    and "r \<in> set (km_rules km) \<Longrightarrow> \<exists>ok ik ro ri. bt_get og key = Some ok \<and> bt_get ig key = Some ik \<and>
      ro \<in> set (km_rules ok) \<and> ri \<in> set (km_rules ik) \<and>
      grant_scope r = scope_meet (grant_scope ro) (grant_scope ri) \<and>
      meet_value (knob_kind d) (grant_value ro) (grant_value ri) = Inr (grant_value r)"
    by blast+
qed

lemma restrict_model:
  assumes "try_fold (\<lambda>key clamped. and_then (clamp_grant_key key og ig reg) (\<lambda>km.
      if km_rules km \<noteq> [] then Inr (bt_put key km clamped) else Inr clamped)) keys [] = Inr m"
  shows "sorted_wrt (<) (map fst m) \<and> (\<forall>key km. bt_get m key = Some km \<longrightarrow> clamp_grant_key key og ig reg = Inr km)"
    (is "?P m")
  using assms
proof (rule try_fold_invariant)
  fix key m m'
  assume "?P m" "and_then (clamp_grant_key key og ig reg) (\<lambda>km.
      if km_rules km \<noteq> [] then Inr (bt_put key km m) else Inr m) = Inr m'"
  then show "?P m'" by (auto simp: and_then_Inr bt_get_put sorted_bt_put split: if_splits)
qed (simp add: bt_get_def)

lemma restrictE:
  assumes "restrict outer inner reg = Inr a"
  obtains ol il m l where "layer_from_doc Base outer reg = Inr ol" "layer_from_doc Base inner reg = Inr il"
    "assembled_layers a = [l]" "layer_grants l = m" "assembled_registry a = reg"
    "sorted_wrt (<) (map fst m)"
    "\<And>key km. bt_get m key = Some km \<Longrightarrow> clamp_grant_key key (layer_grants ol) (layer_grants il) reg = Inr km"
proof -
  from assms obtain og ig m where m: "grant_model_build (doc_rules outer) reg = Inr og"
      "grant_model_build (doc_rules inner) reg = Inr ig"
      "try_fold (\<lambda>key clamped. and_then (clamp_grant_key key og ig reg) (\<lambda>km.
        if km_rules km \<noteq> [] then Inr (bt_put key km clamped) else Inr clamped)) (key_union og ig) [] = Inr m"
      "assembled_registry a = reg" "\<exists>l. assembled_layers a = [l] \<and> layer_grants l = m"
    by (auto simp: restrict_def and_then_Inr)
  from m(5) obtain l where l: "assembled_layers a = [l]" "layer_grants l = m" by blast
  show thesis
    by (rule that[of _ _ l m, OF _ _ l m(4)])
       (use m restrict_model[OF m(3)] in \<open>auto simp: layer_from_doc_def\<close>)
qed

lemma clamped_rule_below:
  assumes reg: "registry_valid reg" and d: "registry_get reg key = Some d"
    and layer: "model_ok reg (layer_grants l)"
    and km: "bt_get (layer_grants l) key = Some km" "r \<in> set (km_rules km)" "objects_membership (grant_scope r) n"
    and below: "leq_value (knob_kind d) w (grant_value r) = Inr True"
    and c: "grants \<lparr>ep_registry = reg, ep_layers = [l]\<rparr> key n = Some c"
  shows "leq_value (knob_kind d) w c = Inr True"
proof -
  have "km_covers km n" using km by (auto simp: km_covers_iff)
  with c km(1) have "value_at km n = Inr c" by (auto simp: grants_simps split: sum.splits)
  from value_at_above(3)[OF this model_ok_get[OF layer km(1)] reg d km(2,3)] below
  show ?thesis by (blast intro: knob.leq_trans)
qed

lemma clamp_ok:
  assumes "registry_valid reg" "model_ok reg og" "model_ok reg ig"
    and "clamp_grant_key key og ig reg = Inr km"
  shows "km_ok reg key km"
proof -
  from assms(4) obtain d where d: "registry_get reg key = Some d"
    by (auto simp: clamp_grant_key_def and_then_Inr lookup_def split: option.splits)
  have "fits (knob_kind d) (grant_value r)" if "r \<in> set (km_rules km)" for r
  proof -
    from clamp_grant_key_rules(3)[OF assms(4) d that] obtain ok ik ro ri
      where k: "bt_get og key = Some ok" "bt_get ig key = Some ik" "ro \<in> set (km_rules ok)"
        "ri \<in> set (km_rules ik)" "meet_value (knob_kind d) (grant_value ro) (grant_value ri) = Inr (grant_value r)"
      by blast
    have "fits (knob_kind d) (grant_value ro)" "fits (knob_kind d) (grant_value ri)"
      using model_ok_get[OF assms(2) k(1)] model_ok_get[OF assms(3) k(2)] d k(3,4)
      by (auto simp: km_ok_def list_all_iff)
    then show ?thesis using k(5) by (rule knob.meet_ok)
  qed
  then show ?thesis using d clamp_grant_key_rules(1,2)[OF assms(4) d] by (simp add: km_ok_def list_all_iff)
qed

text \<open>
  Restriction only tightens. The charter that \<^verbatim>\<open>restrict\<close> assembles from two trusted
  documents grants, for every knob and at every object, a value no looser than either document
  grants there on its own.
\<close>

theorem restrict_tightens_both_documents:
  assumes "registry_valid reg" and "doc_valid reg outer" and "doc_valid reg inner"
    and "restrict outer inner reg = Inr a"
    and "layer_from_doc Base outer reg = Inr ol" and "layer_from_doc Base inner reg = Inr il"
  shows "no_looser_at reg \<lparr>ep_registry = reg, ep_layers = assembled_layers a\<rparr>
      \<lparr>ep_registry = reg, ep_layers = [ol]\<rparr> key n \<and>
    no_looser_at reg \<lparr>ep_registry = reg, ep_layers = assembled_layers a\<rparr>
      \<lparr>ep_registry = reg, ep_layers = [il]\<rparr> key n"
proof -
  obtain l where l: "assembled_layers a = [l]" "sorted_wrt (<) (map fst (layer_grants l))"
    and clamp: "\<And>key km. bt_get (layer_grants l) key = Some km \<Longrightarrow>
      clamp_grant_key key (layer_grants ol) (layer_grants il) reg = Inr km"
    using assms(4-6) by (auto elim!: restrictE)
  have ol: "model_ok reg (layer_grants ol)" and il: "model_ok reg (layer_grants il)"
    using layer_from_doc_ok assms by blast+
  have "km_ok reg k km" if "(k, km) \<in> set (layer_grants l)" for k km
    using that l(2) clamp_ok[OF assms(1) ol il] clamp[of k km] by (simp add: bt_get_def strict_sorted_iff)
  with l have lok: "model_ok reg (layer_grants l)" by (auto simp: model_ok_def list_all_iff)
  have main: "leq_value (knob_kind d) v c = Inr True"
    if d: "registry_get reg key = Some d" and v: "grants \<lparr>ep_registry = reg, ep_layers = [l]\<rparr> key n = Some v"
      and side: "side \<in> {ol, il}" and c: "grants \<lparr>ep_registry = reg, ep_layers = [side]\<rparr> key n = Some c"
    for d v c side
  proof -
    have side_ok: "model_ok reg (layer_grants side)" using side ol il by blast
    have default: "leq_value (knob_kind d) (knob_default d) c = Inr True"
      by (rule grants_above_default[OF assms(1) _ _ c d]) (use side_ok in \<open>simp_all add: layers_ok_def\<close>)
    show ?thesis
    proof (cases "\<exists>km. bt_get (layer_grants l) key = Some km \<and> km_covers km n")
      case True
      then obtain km where km: "bt_get (layer_grants l) key = Some km" "km_covers km n" by blast
      with v have val: "value_at km n = Inr v" by (auto simp: grants_simps split: sum.splits)
      show ?thesis
      proof (rule value_at_least[OF val model_ok_get[OF lok km(1)] d default])
        fix r assume r: "r \<in> set (km_rules km)" "objects_membership (grant_scope r) n"
        from clamp_grant_key_rules(3)[OF clamp[OF km(1)] d r(1)] obtain ok ik ro ri
          where k: "bt_get (layer_grants ol) key = Some ok" "bt_get (layer_grants il) key = Some ik"
            "ro \<in> set (km_rules ok)" "ri \<in> set (km_rules ik)"
            "grant_scope r = scope_meet (grant_scope ro) (grant_scope ri)"
            "meet_value (knob_kind d) (grant_value ro) (grant_value ri) = Inr (grant_value r)"
          by blast
        have fits: "fits (knob_kind d) (grant_value ro)" "fits (knob_kind d) (grant_value ri)"
          using model_ok_get[OF ol k(1)] model_ok_get[OF il k(2)] d k(3,4) by (auto simp: km_ok_def list_all_iff)
        note below = knob.meet_below[OF fits k(6)]
        have mem: "objects_membership (grant_scope ro) n" "objects_membership (grant_scope ri) n"
          using r(2) k(5) by (simp_all add: meet_membership)
        from side show "leq_value (knob_kind d) (grant_value r) c = Inr True"
          using clamped_rule_below[OF assms(1) d ol k(1,3) mem(1) conjunct1[OF below]]
            clamped_rule_below[OF assms(1) d il k(2,4) mem(2) conjunct2[OF below]] c by blast
      qed
    next
      case False
      with v have "v = knob_default d" using d
        by (auto simp: grants_simps grants_def split: option.splits if_splits)
      with default show ?thesis by simp
    qed
  qed
  have "layers_ok reg [l]" "layers_ok reg [ol]" "layers_ok reg [il]"
    using lok ol il by (simp_all add: layers_ok_def)
  with main assms(1) l(1) show ?thesis by (auto intro!: no_looserI)
qed

theorem restrict_tightens_both_documents_witness:
  "\<exists>a. restrict example_draft (example_doc [example_grant (literal [0x61, 0x62])]) (example_registry True) = Inr a \<and>
     no_looser_at (example_registry True) \<lparr>ep_registry = example_registry True, ep_layers = assembled_layers a\<rparr>
       \<lparr>ep_registry = example_registry True,
        ep_layers = [(draft_layer (example_registry True) example_draft)\<lparr>layer_tag := Base\<rparr>]\<rparr>
       example_key (object_schema [0x61, 0x62])"
proof -
  let ?reg = "example_registry True" and ?inner = "example_doc [example_grant (literal [0x61, 0x62])]"
  let ?a = "case restrict example_draft ?inner ?reg of Inr a \<Rightarrow> a
    | Inl _ \<Rightarrow> \<lparr>assembled_registry = ?reg, assembled_layers = []\<rparr>"
  have r: "restrict example_draft ?inner ?reg = Inr ?a" by code_simp
  have "no_looser_at ?reg \<lparr>ep_registry = ?reg, ep_layers = assembled_layers ?a\<rparr>
      \<lparr>ep_registry = ?reg, ep_layers = [(draft_layer ?reg example_draft)\<lparr>layer_tag := Base\<rparr>]\<rparr>
      example_key (object_schema [0x61, 0x62])"
    by (rule restrict_tightens_both_documents[where inner = ?inner and outer = example_draft
          and il = "(draft_layer ?reg ?inner)\<lparr>layer_tag := Base\<rparr>", THEN conjunct1, OF _ _ _ r]) code_simp+
  with r show ?thesis by blast
qed

end
