(* ===== verification/PolInject.thy ===== *)
theory PolInject
  imports PolRegion
begin

text \<open>
  The conflict checks of \<^verbatim>\<open>finalize_charter\<close>, of admission and of a single layer, taken together:
  no object receives two injected shapes that contradict each other.
\<close>

subsection \<open>Consistent specifications\<close>

definition consistent :: "InjectSpec \<Rightarrow> InjectSpec \<Rightarrow> bool" where
  "consistent a b \<longleftrightarrow>
     inject_column_conflict a b = None \<and> inject_pk_conflict a b = None \<and> inject_index_conflict a b = None"

lemma names_match_sym: "names_match a b \<longleftrightarrow> names_match b a"
  by (auto simp: names_match_def)

lemma columns_diverge_sym: "inject_columns_diverge a b \<longleftrightarrow> inject_columns_diverge b a"
  by (auto simp: inject_columns_diverge_def)

lemma consistent_iff:
  "consistent a b \<longleftrightarrow>
     (\<forall>x \<in> set (inj_columns a). \<forall>y \<in> set (inj_columns b).
        \<not> (names_match (col_name x) (col_name y) \<and> inject_columns_diverge x y)) \<and>
     (\<forall>x \<in> set (inj_indexes a). \<forall>y \<in> set (inj_indexes b).
        \<not> (names_match (index_name x) (index_name y) \<and> index_columns x \<noteq> index_columns y)) \<and>
     (\<forall>pa pb. inj_primary_key a = Some pa \<longrightarrow> inj_primary_key b = Some pb \<longrightarrow>
        pa = pb \<and> author_primary_key a = author_primary_key b)"
  by (auto simp: consistent_def inject_column_conflict_def inject_index_conflict_def inject_pk_conflict_def
      find_map_None split: option.splits)

lemma consistent_sym: "consistent a b \<Longrightarrow> consistent b a"
  unfolding consistent_iff using names_match_sym columns_diverge_sym by metis

lemma collide_consistent: "inject_specs_collide a b = None \<longleftrightarrow> consistent a b"
  by (auto simp: inject_specs_collide_def consistent_def inject_column_conflict_def inject_pk_conflict_def
      inject_index_conflict_def split: option.splits)

subsection \<open>What each check establishes\<close>

definition specs_at :: "ObjectName \<Rightarrow> Rule list \<Rightarrow> InjectSpec list" where
  "specs_at n rules =
     List.map_filter (\<lambda>r. case rule_kind r of Inject spec \<Rightarrow> Some spec | _ \<Rightarrow> None)
       (filter (\<lambda>r. objects_membership (rule_scope r) n) rules)"

lemma specs_at_simps [simp]:
  "specs_at n [] = []"
  "specs_at n (r # rs) = (if objects_membership (rule_scope r) n
     then (case rule_kind r of Inject spec \<Rightarrow> spec # specs_at n rs | _ \<Rightarrow> specs_at n rs)
     else specs_at n rs)"
  by (auto simp: specs_at_def List.map_filter_def split: RuleKind.splits)

lemma specs_at_append [simp]: "specs_at n (xs @ ys) = specs_at n xs @ specs_at n ys"
  by (simp add: specs_at_def List.map_filter_def)

lemma specs_at_members:
  "spec \<in> set (specs_at n rs) \<longleftrightarrow>
     (\<exists>r \<in> set rs. objects_membership (rule_scope r) n \<and> rule_kind r = Inject spec)"
  by (induction rs) (auto split: RuleKind.splits)

lemma no_conflict_consistent:
  assumes "inject_conflict a b = None" "rule_kind a = Inject sa" "rule_kind b = Inject sb"
    and "objects_membership (rule_scope a) n" "objects_membership (rule_scope b) n"
  shows "consistent sa sb"
proof -
  have "scope_meet (rule_scope a) (rule_scope b) \<noteq> Nothing"
    using assms(4,5) meet_membership[of "rule_scope a" "rule_scope b" n] by auto
  with assms(1-3) show ?thesis
    by (auto simp: inject_conflict_def consistent_def split: option.splits)
qed

lemma first_conflict_None:
  "first_conflict rs = None \<Longrightarrow> sorted_wrt consistent (specs_at n rs)"
proof (induction rs)
  case (Cons a rs)
  then have head: "\<forall>b \<in> set rs. inject_conflict a b = None" and rest: "sorted_wrt consistent (specs_at n rs)"
    by (auto simp: find_map_None split: option.splits)
  have "\<forall>sb \<in> set (specs_at n rs). consistent sa sb"
    if "objects_membership (rule_scope a) n" "rule_kind a = Inject sa" for sa
    using that head no_conflict_consistent by (fastforce simp: specs_at_members)
  with rest show ?case by (auto split: RuleKind.splits)
qed simp

lemma check_inject_collisions_consistent:
  assumes "check_inject_collisions cs ds = Inr ()"
    and "sa \<in> set (specs_at n cs)" "sb \<in> set (specs_at n ds)"
  shows "consistent sa sb"
proof -
  obtain a b where a: "a \<in> set cs" "objects_membership (rule_scope a) n" "rule_kind a = Inject sa"
    and b: "b \<in> set ds" "objects_membership (rule_scope b) n" "rule_kind b = Inject sb"
    using assms(2,3) by (auto simp: specs_at_members)
  have meet: "scope_meet (rule_scope a) (rule_scope b) \<noteq> Nothing"
    using a(2) b(2) meet_membership[of "rule_scope a" "rule_scope b" n] by auto
  from assms(1) a(1,3) have "try_fold (\<lambda>r _.
      case rule_kind r of
        Inject rs \<Rightarrow>
          if scope_meet (rule_scope a) (rule_scope r) = Nothing then Inr ()
          else (case inject_specs_collide sa rs of
                  Some d \<Rightarrow> Inl (DraftInjectCollidesCharter d)
                | None \<Rightarrow> Inr ())
      | _ \<Rightarrow> Inr ()) ds () = Inr ()"
    by (fastforce simp: check_inject_collisions_def try_fold_unit)
  with b(1,3) meet show ?thesis
    by (fastforce simp: try_fold_unit collide_consistent[symmetric] split: option.splits if_splits)
qed

lemma sorted_wrt_rev_blocks:
  assumes "sorted_wrt R (concat (map f ls))" "\<And>x y. R x y \<Longrightarrow> R y x"
  shows "sorted_wrt R (concat (map f (rev ls)))"
  using assms by (induction ls) (auto simp: sorted_wrt_append)

lemma specs_at_concat: "specs_at n (concat rss) = concat (map (specs_at n) rss)"
  by (induction rss) auto

text \<open>
  No object receives contradictory injects. When a charter passes \<^verbatim>\<open>finalize_charter\<close>, a
  draft is admitted under it, and the composed policy passes the check within each layer, then
  the shapes injected at any object are pairwise consistent: no column of the same folded name
  with different shapes, no diverging primary key, no index name over different columns.
\<close>

theorem injected_shapes_are_consistent:
  assumes "finalize_charter assembled = Inr c"
    and "admit_draft (FinalCharter c) draft reg = Inr p"
    and "check_same_layer_inject_conflicts p = Inr ()"
  shows "sorted_wrt consistent (injects_for p n)"
proof -
  let ?ls = "assembled_layers assembled"
  have layers: "final_layers c = ?ls" and charter: "first_conflict (concat (map layer_injects ?ls)) = None"
    using assms(1) by (auto simp: finalize_charter_def Let_def and_then_Inr split: option.splits)
  from assms(2) layers obtain dl where
      dl: "layer_from_doc Draft draft reg = Inr dl"
      "p = \<lparr>ep_registry = reg, ep_layers = pin_all (registry_iter reg) dl # ?ls\<rparr>"
    by (auto simp: charter_layers_def elim!: admitE)
  have collisions: "check_inject_collisions (flatten_charter ?ls is_inject) (layer_injects dl) = Inr ()"
    using assms(2) layers dl(1)
    by (auto simp: admit_draft_def charter_layers_def and_then_Inr Let_def layer_from_doc_def)
  have injects: "injects_for p n =
      specs_at n (concat (map layer_injects (rev ?ls))) @ specs_at n (layer_injects dl)"
    by (simp add: dl(2) injects_for_def specs_at_def List.map_filter_def)
  have flat: "spec \<in> set (specs_at n (flatten_charter ?ls is_inject))"
    if "spec \<in> set (specs_at n (concat (map layer_injects (rev ?ls))))" for spec
    using that by (force simp: specs_at_members flatten_charter_def is_inject_def)
  have "sorted_wrt consistent (specs_at n (concat (map layer_injects (rev ?ls))))"
    using first_conflict_None[OF charter, of n] consistent_sym
      sorted_wrt_rev_blocks[of consistent "specs_at n \<circ> layer_injects" ?ls]
    by (simp add: specs_at_concat comp_def)
  moreover have "sorted_wrt consistent (specs_at n (layer_injects dl))"
  proof (rule first_conflict_None)
    from assms(3) have none: "Option.bind (first_conflict (layer_injects dl)) conflict_detail = None"
      by (auto simp: check_same_layer_inject_conflicts_def same_layer_inject_conflict_def dl(2)
          find_map_None split: option.splits)
    have "conflict_detail e \<noteq> None" if "first_conflict rs = Some e" for rs e
      using that
    proof (induction rs)
      case (Cons a rs)
      have "conflict_detail e \<noteq> None" if "find_map (inject_conflict a) xs = Some e" for xs
        using that by (induction xs)
          (auto simp: inject_conflict_def conflict_detail_def split: option.splits RuleKind.splits if_splits)
      with Cons show ?case by (auto split: option.splits)
    qed simp
    with none show "first_conflict (layer_injects dl) = None" by (cases "first_conflict (layer_injects dl)") auto
  qed
  moreover have "consistent sa sb"
    if "sa \<in> set (specs_at n (concat (map layer_injects (rev ?ls))))" "sb \<in> set (specs_at n (layer_injects dl))" for sa sb
    using check_inject_collisions_consistent[OF collisions flat[OF that(1)] that(2)] .
  ultimately show ?thesis by (simp add: injects sorted_wrt_append)
qed

definition inject_of :: "rstring \<Rightarrow> rstring \<Rightarrow> Rule" where
  "inject_of name ty =
     \<lparr>rule_scope = All_scope,
      rule_kind = Inject \<lparr>inj_columns = [\<lparr>col_name = name, col_ty = ty, col_nullable = False,
          col_default = None, col_assign = None, col_collation = None\<rparr>],
        inj_indexes = [], inj_primary_key = None, author_primary_key = Allow, mandatory = False\<rparr>\<rparr>"

definition inject_charter :: AssembledCharter where
  "inject_charter = \<lparr>assembled_registry = example_registry True,
     assembled_layers = [draft_layer (example_registry True) (example_doc [inject_of [0x61] [0x62]])]\<rparr>"

theorem injected_shapes_are_consistent_witness:
  "sorted_wrt consistent (injects_for (admitted_policy (example_registry True)
     (FinalCharter \<lparr>charter_registry = example_registry True, final_layers = assembled_layers inject_charter\<rparr>)
     (example_doc [inject_of [0x41] [0x62]])) (object_schema [0x61]))"
  by (rule injected_shapes_are_consistent[where assembled = inject_charter and reg = "example_registry True"
        and draft = "example_doc [inject_of [0x41] [0x62]]"]) code_simp+

end
