(* ===== verification/TypedId.thy ===== *)
theory TypedId
  imports PolPattern
begin

text \<open>
  Typed identifiers (\<^verbatim>\<open>crates/zeroship-id/src/{typed_id,entity_id,app_id}.rs\<close>): a prefix, an
  underscore, and a UUID as twenty-five digits in base 36.

  The third-party type \<^verbatim>\<open>uuid::Uuid\<close> is the 128-bit integer its bytes spell, most significant
  first, and a fresh UUID is an argument of \<open>generate\<close>. An error text built with \<^verbatim>\<open>format!\<close> is
  a value of \<open>IdError\<close>.

  The lemmas show that encoding and parsing are inverse to each other, that the text has one
  spelling, that texts compare as the numbers do, and that the division loop over arbitrary
  bytes ends and computes the same positional numeral.
\<close>

type_synonym u128 = "128 word"

subsection \<open>Digits\<close>

definition BASE36 :: "u8 list" where
  "BASE36 =
     [0x30, 0x31, 0x32, 0x33, 0x34, 0x35, 0x36, 0x37, 0x38, 0x39,
      0x61, 0x62, 0x63, 0x64, 0x65, 0x66, 0x67, 0x68, 0x69, 0x6A, 0x6B, 0x6C, 0x6D,
      0x6E, 0x6F, 0x70, 0x71, 0x72, 0x73, 0x74, 0x75, 0x76, 0x77, 0x78, 0x79, 0x7A]"

definition BODY_LEN :: nat where
  "BODY_LEN = 25"

definition build_decode_table :: "u8 list" where
  "build_decode_table =
     fold (\<lambda>i table. table[unat (BASE36 ! i) := word_of_nat i]) [0..<36] (replicate 128 255)"

definition DECODE :: "u8 list" where
  "DECODE = build_decode_table"

text \<open>The table written out, so that a lookup does not rebuild it.\<close>

lemma DECODE_table [code]:
  "DECODE = replicate 48 255 @ [0, 1, 2, 3, 4, 5, 6, 7, 8, 9] @ replicate 39 255 @
     [10, 11, 12, 13, 14, 15, 16, 17, 18, 19, 20, 21, 22, 23, 24, 25, 26, 27, 28, 29, 30, 31,
      32, 33, 34, 35] @ replicate 5 255"
proof -
  have "build_decode_table = replicate 48 255 @ [0, 1, 2, 3, 4, 5, 6, 7, 8, 9] @ replicate 39 255 @
     [10, 11, 12, 13, 14, 15, 16, 17, 18, 19, 20, 21, 22, 23, 24, 25, 26, 27, 28, 29, 30, 31,
      32, 33, 34, 35] @ replicate 5 255" by code_simp
  then show ?thesis by (simp only: DECODE_def)
qed

subsection \<open>Encoding\<close>

text \<open>The loop that fills the buffer from its end: \<open>i\<close> digits are still to be written.\<close>

fun encode_digits :: "nat \<Rightarrow> u128 \<Rightarrow> bytes" where
  "encode_digits 0 n = []"
| "encode_digits (Suc i) n = encode_digits i (n div 36) @ [BASE36 ! unat (n mod 36)]"

definition uuid_to_base36 :: "u128 \<Rightarrow> bytes" where
  "uuid_to_base36 uuid = encode_digits BODY_LEN uuid"

text \<open>
  One pass of the long division: the quotient bytes and the remainder. The running value is at
  most \<open>35 * 256 + 255\<close>, so the 16-bit arithmetic of the source does not wrap; the quotient
  byte is the source's \<^verbatim>\<open>u8::try_from(q).unwrap_or(0)\<close>.
\<close>

fun divide_pass :: "16 word \<Rightarrow> bytes \<Rightarrow> bytes \<times> 16 word" where
  "divide_pass rem [] = ([], rem)"
| "divide_pass rem (d # ds) =
     (let cur = or (push_bit 8 rem) (ucast d);
          q = cur div 36;
          (qs, r) = divide_pass (cur mod 36) ds
      in ((if unat q < 256 then ucast q else 0) # qs, r))"

text \<open>The big-endian value of a byte string, the measure of the loop below.\<close>

definition be_value :: "bytes \<Rightarrow> nat" where
  "be_value bs = foldl (\<lambda>n b. 256 * n + unat b) 0 bs"

lemma be_value_simps [simp]:
  "be_value [] = 0"
  "be_value (bs @ [b]) = 256 * be_value bs + unat b"
  by (simp_all add: be_value_def)

lemma foldl_be: "foldl (\<lambda>n b. 256 * n + unat b) m bs = m * 256 ^ length bs + be_value bs"
  for bs :: bytes
  by (induction bs rule: rev_induct) (simp_all add: algebra_simps)

lemma be_value_Cons: "be_value (b # bs) = unat b * 256 ^ length bs + be_value bs"
  using foldl_be [of "unat b" bs] by (simp add: be_value_def)

lemma unat_u8_less: "unat d < 256" for d :: u8
proof -
  have "unat d < 2 ^ LENGTH(8)" by (rule unsigned_less)
  then show ?thesis by simp
qed

lemma shifted_or: "unat r < 36 \<Longrightarrow> unat (or (push_bit 8 r) (ucast d) :: 16 word) = 256 * unat r + unat d"
  for r :: "16 word" and d :: u8
proof -
  assume r: "unat r < 36"
  have d: "unat d < 256" by (rule unat_u8_less)
  have "bit (push_bit 8 r) n \<Longrightarrow> \<not> bit (ucast d :: 16 word) n" for n
    by (auto simp: bit_push_bit_iff bit_ucast_iff dest: bit_imp_le_length)
  then have "and (push_bit 8 r) (ucast d) = 0"
    by (auto intro!: bit_eqI simp: bit_and_iff)
  then have "or (push_bit 8 r) (ucast d) = push_bit 8 r + ucast d"
    by (simp add: disjunctive_add_eq_or)
  moreover have "unat (push_bit 8 r) = 256 * unat r"
    using r by (simp add: push_bit_eq_mult unat_word_ariths)
  moreover have "unat (ucast d :: 16 word) = unat d"
    using d by (simp add: unsigned_ucast_eq take_bit_nat_eq_self)
  ultimately show ?thesis
    using r d by (simp add: unat_word_ariths)
qed

lemma divide_pass_correct:
  assumes "unat r < 36" "divide_pass r ds = (qs, r')"
  shows "unat r' < 36 \<and> length qs = length ds \<and>
         unat r * 256 ^ length ds + be_value ds = 36 * be_value qs + unat r'"
  using assms
proof (induction ds arbitrary: r qs)
  case (Cons d ds)
  let ?cur = "or (push_bit 8 r) (ucast d) :: 16 word"
  have c: "unat ?cur = 256 * unat r + unat d" using shifted_or Cons.prems by blast
  then have lt: "unat ?cur < 256 * 36"
    using Cons.prems(1) unat_u8_less [of d] by simp
  have q: "unat (?cur div 36) = unat ?cur div 36" and m: "unat (?cur mod 36) = unat ?cur mod 36"
    by (simp_all add: unat_div unat_mod)
  obtain ps where p: "divide_pass (?cur mod 36) ds = (ps, r')"
    and qs: "qs = ucast (?cur div 36) # ps"
    using Cons.prems(2) q lt by (auto simp: Let_def split: prod.splits if_splits)
  have u: "unat (ucast (?cur div 36) :: u8) = unat ?cur div 36"
    using q lt by (simp add: unsigned_ucast_eq take_bit_nat_eq_self)
  have IH: "unat r' < 36 \<and> length ps = length ds \<and>
     (unat ?cur mod 36) * 256 ^ length ds + be_value ds = 36 * be_value ps + unat r'"
    using Cons.IH [OF _ p] m by simp
  have split: "c * p + v = 36 * (c div 36 * p + w) + r"
    if "c mod 36 * p + v = 36 * w + r" for c p v w r :: nat
  proof -
    have "c * p = 36 * (c div 36) * p + c mod 36 * p"
      by (metis add_mult_distrib mult_div_mod_eq)
    then show ?thesis using that by (simp add: algebra_simps)
  qed
  have "unat ?cur * 256 ^ length ds + be_value ds =
     36 * (unat ?cur div 36 * 256 ^ length ds + be_value ps) + unat r'"
    using IH by (intro split) simp
  then show ?case using IH by (simp add: qs be_value_Cons u c algebra_simps)
qed (simp)

lemma be_value_0_iff: "be_value bs = 0 \<longleftrightarrow> list_all (\<lambda>d. d = 0) bs"
  by (induction bs rule: rev_induct) (auto simp: unat_eq_0)

function encode_loop :: "bytes \<Rightarrow> bytes \<Rightarrow> bytes" where
  "encode_loop digits out =
     (let (digits', rem) = divide_pass 0 digits;
          out' = out @ [BASE36 ! unat rem]
      in if list_all (\<lambda>d. d = 0) digits' then rev out' else encode_loop digits' out')"
  by pat_completeness auto
termination
proof (relation "measure (be_value \<circ> fst)")
  fix digits out :: bytes and p digits' r out'
  assume p: "p = divide_pass 0 digits" "(digits', r) = p" and nz: "\<not> list_all (\<lambda>d. d = 0) digits'"
  then have "be_value digits = 36 * be_value digits' + unat r"
    using divide_pass_correct [of 0 digits digits' r] by simp
  then show "((digits', out'), (digits, out)) \<in> measure (be_value \<circ> fst)"
    using nz be_value_0_iff [of digits'] by simp
qed simp

definition base36_encode_bytes :: "bytes \<Rightarrow> bytes" where
  "base36_encode_bytes bs = (if bs = [] then [] else encode_loop bs [])"

subsection \<open>Decoding\<close>

datatype IdError =
    WrongLength nat
  | InvalidCharacter u8
  | Base36Overflow
  | NoPrefix bytes

definition checked_mul :: "u128 \<Rightarrow> u128 \<Rightarrow> u128 option" where
  "checked_mul a b = (if unat a * unat b < 2 ^ 128 then Some (a * b) else None)"

definition checked_add :: "u128 \<Rightarrow> u128 \<Rightarrow> u128 option" where
  "checked_add a b = (if unat a + unat b < 2 ^ 128 then Some (a + b) else None)"

fun decode_digits :: "u128 \<Rightarrow> bytes \<Rightarrow> IdError + u128" where
  "decode_digits n [] = Inr n"
| "decode_digits n (b # bs) =
     (if b \<ge> 128 then Inl (InvalidCharacter b)
      else let digit = DECODE ! unat b
        in if digit = 255 then Inl (InvalidCharacter b)
           else case Option.bind (checked_mul n 36) (\<lambda>n. checked_add n (ucast digit)) of
                  None \<Rightarrow> Inl Base36Overflow
                | Some n \<Rightarrow> decode_digits n bs)"

definition base36_to_uuid :: "bytes \<Rightarrow> IdError + u128" where
  "base36_to_uuid s =
     (if length s \<noteq> BODY_LEN then Inl (WrongLength (length s)) else decode_digits 0 s)"

subsection \<open>Typed identifiers\<close>

definition underscore :: u8 where
  "underscore = 0x5F"

definition generate :: "bytes \<Rightarrow> u128 \<Rightarrow> bytes" where
  "generate pfx uuid = pfx @ underscore # uuid_to_base36 uuid"

text \<open>\<^verbatim>\<open>str::split_once\<close>.\<close>

fun split_once :: "u8 \<Rightarrow> bytes \<Rightarrow> (bytes \<times> bytes) option" where
  "split_once c [] = None"
| "split_once c (b # bs) =
     (if b = c then Some ([], bs) else map_option (\<lambda>(p, e). (b # p, e)) (split_once c bs))"

definition parse_id :: "bytes \<Rightarrow> IdError + (bytes \<times> u128)" where
  "parse_id typed_id =
     (case split_once underscore typed_id of
        None \<Rightarrow> Inl (NoPrefix typed_id)
      | Some (pfx, encoded) \<Rightarrow> and_then (base36_to_uuid encoded) (\<lambda>uuid. Inr (pfx, uuid)))"

datatype ParseError =
    WrongPrefix (expected_prefix: bytes) (got_prefix: bytes)
  | Malformed_id IdError

definition parse_with_prefix :: "bytes \<Rightarrow> bytes \<Rightarrow> ParseError + u128" where
  "parse_with_prefix typed_id expected =
     and_then (map_err Malformed_id (parse_id typed_id)) (\<lambda>(got, uuid).
       if got \<noteq> expected then Inl (WrongPrefix expected got) else Inr uuid)"

text \<open>
  An entity id is its text. \<open>entity_parse\<close> is the \<^verbatim>\<open>parse\<close> that \<^verbatim>\<open>declare_entity_id!\<close> generates
  for the prefix of the entity; the app id and the client id derived from it differ in the
  prefix only.
\<close>

definition entity_parse :: "bytes \<Rightarrow> bytes \<Rightarrow> ParseError + bytes" where
  "entity_parse pfx raw = and_then (parse_with_prefix raw pfx) (\<lambda>_. Inr raw)"

definition APP_PREFIX :: bytes where
  "APP_PREFIX = [0x61, 0x70, 0x70]"

definition APP_OAUTH_CLIENT_PREFIX :: bytes where
  "APP_OAUTH_CLIENT_PREFIX = [0x6F, 0x61, 0x63]"

definition strip_prefix :: "bytes \<Rightarrow> bytes \<Rightarrow> bytes option" where
  "strip_prefix p s = (if prefix p s then Some (drop (length p) s) else None)"

text \<open>\<open>None\<close> is the panic of the \<^verbatim>\<open>expect\<close>.\<close>

definition app_oauth_client_id :: "bytes \<Rightarrow> bytes option" where
  "app_oauth_client_id app_id =
     map_option (\<lambda>body. APP_OAUTH_CLIENT_PREFIX @ underscore # body)
       (Option.bind (strip_prefix APP_PREFIX app_id) (strip_prefix [underscore]))"

definition app_id_from_oauth_client_id :: "bytes \<Rightarrow> bytes option" where
  "app_id_from_oauth_client_id client_id =
     Option.bind (strip_prefix APP_OAUTH_CLIENT_PREFIX client_id) (\<lambda>s.
     Option.bind (strip_prefix [underscore] s) (\<lambda>body.
       case entity_parse APP_PREFIX (APP_PREFIX @ underscore # body) of
         Inr app \<Rightarrow> Some app
       | Inl _ \<Rightarrow> None))"

subsection \<open>Reading a digit string as a number\<close>

definition digit_value :: "u8 \<Rightarrow> nat option" where
  "digit_value b = (if b \<ge> 128 \<or> DECODE ! unat b = 255 then None else Some (unat (DECODE ! unat b)))"

definition is_base36 :: "bytes \<Rightarrow> bool" where
  "is_base36 bs = list_all (\<lambda>b. digit_value b \<noteq> None) bs"

definition base36_value :: "bytes \<Rightarrow> nat" where
  "base36_value bs = foldl (\<lambda>n b. 36 * n + the (digit_value b)) 0 bs"

lemma base36_digits: "i < 36 \<Longrightarrow> digit_value (BASE36 ! i) = Some i"
proof -
  have "list_all (\<lambda>i. digit_value (BASE36 ! i) = Some i) [0..<36]" by code_simp
  then show "i < 36 \<Longrightarrow> ?thesis" by (simp add: list_all_iff)
qed

lemma digit_value_SomeD:
  assumes "digit_value b = Some i"
  shows "i < 36" and "b = BASE36 ! i"
proof -
  have "length DECODE = 128" by code_simp
  moreover have "list_all (\<lambda>(k, d). d = 255 \<or> unat d < 36 \<and> unat (BASE36 ! unat d) = k)
      (zip [0..<128] DECODE)" by code_simp
  moreover have d: "unat b < 128" "DECODE ! unat b \<noteq> 255" "unat (DECODE ! unat b) = i"
    using assms by (auto simp: digit_value_def not_le word_less_nat_alt split: if_splits)
  ultimately have "unat (DECODE ! unat b) < 36 \<and> unat (BASE36 ! unat (DECODE ! unat b)) = unat b"
    by (fastforce simp: list_all_length)
  then show "i < 36" and "b = BASE36 ! i" using d(3) by (simp_all add: word_unat_eq_iff)
qed

lemma base36_digits_ascend: "i < 36 \<Longrightarrow> j < 36 \<Longrightarrow> BASE36 ! i < BASE36 ! j \<longleftrightarrow> i < j"
proof -
  have "sorted_wrt (<) BASE36" "length BASE36 = 36" by code_simp+
  then have "i < j \<Longrightarrow> j < 36 \<Longrightarrow> BASE36 ! i < BASE36 ! j" for i j
    by (simp add: sorted_wrt_iff_nth_less)
  then show "i < 36 \<Longrightarrow> j < 36 \<Longrightarrow> ?thesis"
    by (metis linorder_cases order_less_asym order_less_irrefl)
qed

lemma digit_zero: "digit_value 0x30 = Some 0"
  by code_simp

lemma is_base36_simps [simp]:
  "is_base36 []"
  "is_base36 (b # bs) \<longleftrightarrow> digit_value b \<noteq> None \<and> is_base36 bs"
  "is_base36 (bs @ cs) \<longleftrightarrow> is_base36 bs \<and> is_base36 cs"
  by (simp_all add: is_base36_def)

lemma base36_value_simps [simp]:
  "base36_value [] = 0"
  "base36_value (bs @ [b]) = 36 * base36_value bs + the (digit_value b)"
  by (simp_all add: base36_value_def)

lemma base36_value_append:
  "base36_value (bs @ cs) = base36_value bs * 36 ^ length cs + base36_value cs"
  by (induction cs rule: rev_induct) (simp_all add: algebra_simps flip: append_assoc)

lemma base36_value_Cons:
  "base36_value (b # bs) = the (digit_value b) * 36 ^ length bs + base36_value bs"
  using base36_value_append [of "[b]" bs] base36_value_simps(2) [of "[]" b] by simp

lemma base36_value_less: "is_base36 bs \<Longrightarrow> base36_value bs < 36 ^ length bs"
proof (induction bs rule: rev_induct)
  case (snoc b bs)
  then obtain i where "digit_value b = Some i" "i < 36"
    using digit_value_SomeD by (auto)
  with snoc show ?case by simp
qed simp

lemma base36_value_less_iff:
  assumes "length bs = length cs" "is_base36 bs" "is_base36 cs"
  shows "base36_value bs < base36_value cs \<longleftrightarrow> bs < cs"
  using assms
proof (induction bs cs rule: list_induct2)
  case (Cons b bs c cs)
  obtain i j where i: "digit_value b = Some i" "i < 36" "b = BASE36 ! i"
    and j: "digit_value c = Some j" "j < 36" "c = BASE36 ! j"
    using Cons.prems digit_value_SomeD by fastforce
  let ?p = "36 ^ length cs :: nat"
  have lt: "base36_value bs < ?p" "base36_value cs < ?p"
    using Cons.hyps Cons.prems base36_value_less [of bs] base36_value_less [of cs] by simp_all
  have bc: "b < c \<longleftrightarrow> i < j" "b = c \<longleftrightarrow> i = j"
    using i j base36_digits_ascend base36_digits by (simp, metis option.inject)
  have step: "i * p + x < j * p + y \<longleftrightarrow> i < j \<or> i = j \<and> x < y" if "x < p" "y < p"
    for i j p x y :: nat
  proof -
    have *: "i * p + x < j * p + y" if "i < j" "x < p" for i j x y :: nat
    proof -
      have "i * p + x < Suc i * p" using that by simp
      also have "\<dots> \<le> j * p" using that by (intro mult_le_mono1) simp
      finally show ?thesis by simp
    qed
    show ?thesis using *[of i j x y] *[of j i y x] that by (cases i j rule: linorder_cases) auto
  qed
  show ?case using step [OF lt, of i j] Cons bc i(1) j(1)
    by (simp add: base36_value_Cons)
qed simp

lemma base36_value_inject:
  assumes "length bs = length cs" "is_base36 bs" "is_base36 cs" "base36_value bs = base36_value cs"
  shows "bs = cs"
  using base36_value_less_iff [OF assms(1-3)] base36_value_less_iff [OF assms(1) [symmetric] assms(3,2)]
    assms(4) by simp

subsection \<open>The codec computes positional numerals\<close>

lemma encode_digits_correct:
  "length (encode_digits k n) = k \<and> is_base36 (encode_digits k n) \<and>
   base36_value (encode_digits k n) = unat n mod 36 ^ k"
proof (induction k arbitrary: n)
  case (Suc k)
  have m: "unat (n mod 36) = unat n mod 36" "unat (n div 36) = unat n div 36"
    by (simp_all add: unat_mod unat_div)
  have "36 * (unat n div 36 mod 36 ^ k) + unat n mod 36 = unat n mod 36 ^ Suc k"
    by (simp add: mod_mult2_eq)
  then show ?case using Suc [of "n div 36"] by (simp add: m base36_digits)
qed simp

lemma unat_u128_less: "unat n < 2 ^ 128" for n :: u128
proof -
  have "unat n < 2 ^ LENGTH(128)" by (rule unsigned_less)
  then show ?thesis by simp
qed

lemma uuid_to_base36_correct [simp]:
  "length (uuid_to_base36 u) = 25" "is_base36 (uuid_to_base36 u)"
  "base36_value (uuid_to_base36 u) = unat u"
  using encode_digits_correct [of 25 u] unat_u128_less [of u]
  by (simp_all add: uuid_to_base36_def BODY_LEN_def)

lemma unat_of_nat_u128: "m < 2 ^ 128 \<Longrightarrow> unat (word_of_nat m :: u128) = m"
  by (simp add: unsigned_of_nat take_bit_nat_eq_self)

lemma decode_digits_step:
  assumes "digit_value b = Some i"
  shows "decode_digits n (b # bs) =
    (if 36 * unat n + i < 2 ^ 128 then decode_digits (word_of_nat (36 * unat n + i)) bs
     else Inl Base36Overflow)"
proof -
  let ?d = "DECODE ! unat b"
  have b: "\<not> b \<ge> 128" "?d \<noteq> 255" "unat ?d = i"
    using assms by (auto simp: digit_value_def split: if_splits)
  have u: "unat (ucast ?d :: u128) = i"
    using b(3) unat_u8_less [of ?d] by (simp add: unsigned_ucast_eq take_bit_nat_eq_self)
  have "Option.bind (checked_mul n 36) (\<lambda>n. checked_add n (ucast ?d)) =
    (if 36 * unat n + i < 2 ^ 128 then Some (word_of_nat (36 * unat n + i)) else None)"
  proof (cases "unat n * 36 < 2 ^ 128")
    case True
    then have m: "unat (n * 36) = unat n * 36"
      by (simp add: unat_word_ariths)
    have "n * 36 + ucast ?d = word_of_nat (36 * unat n + i)"
      by (simp add: mult.commute flip: b(3))
    then show ?thesis using True m u by (simp add: checked_mul_def checked_add_def mult.commute)
  next
    case False
    then show ?thesis by (simp add: checked_mul_def mult.commute)
  qed
  then show ?thesis using b by simp
qed

lemma decode_digits_correct:
  assumes "is_base36 bs"
  shows "decode_digits n bs =
    (let v = unat n * 36 ^ length bs + base36_value bs
     in if v < 2 ^ 128 then Inr (word_of_nat v) else Inl Base36Overflow)"
  using assms
proof (induction bs arbitrary: n)
  case (Cons b bs)
  then obtain i where i: "digit_value b = Some i" by auto
  show ?case
  proof (cases "36 * unat n + i < 2 ^ 128")
    case True
    then have "unat (word_of_nat (36 * unat n + i) :: u128) = 36 * unat n + i"
      by (rule unat_of_nat_u128)
    then show ?thesis using True Cons i
      by (simp add: decode_digits_step [OF i] base36_value_Cons Let_def algebra_simps del: decode_digits.simps)
  next
    case False
    have "36 * unat n + i \<le> (36 * unat n + i) * 36 ^ length bs + base36_value bs"
      by (simp add: trans_le_add1)
    then have "\<not> unat n * 36 ^ length (b # bs) + base36_value (b # bs) < 2 ^ 128"
      using False i by (simp add: base36_value_Cons algebra_simps)
    then show ?thesis using False by (simp add: decode_digits_step [OF i] Let_def del: decode_digits.simps)
  qed
qed (use unat_u128_less in \<open>simp add: Let_def\<close>)

lemma decode_digits_rejects: "decode_digits n bs = Inr u \<Longrightarrow> is_base36 bs"
  by (induction bs arbitrary: n)
    (auto simp: digit_value_def Let_def split: if_splits option.splits)

lemma base36_to_uuid_iff:
  "base36_to_uuid s = Inr u \<longleftrightarrow> s = uuid_to_base36 u"
proof
  assume s: "base36_to_uuid s = Inr u"
  then have d: "length s = 25" "decode_digits 0 s = Inr u"
    by (auto simp: base36_to_uuid_def BODY_LEN_def split: if_splits)
  then have b: "is_base36 s" using decode_digits_rejects by blast
  then have "base36_value s = unat u"
    using d decode_digits_correct [OF b, of 0]
    by (auto simp: Let_def unsigned_of_nat take_bit_nat_eq_self split: if_splits)
  then show "s = uuid_to_base36 u"
    using base36_value_inject [of s "uuid_to_base36 u"] b d by simp
next
  assume "s = uuid_to_base36 u"
  then show "base36_to_uuid s = Inr u"
    using decode_digits_correct [of s 0] unat_u128_less [of u]
    by (simp add: base36_to_uuid_def BODY_LEN_def Let_def)
qed

lemma encode_loop_correct:
  "\<exists>ds. encode_loop digits out = ds @ rev out \<and> ds \<noteq> [] \<and> is_base36 ds \<and>
        base36_value ds = be_value digits \<and> (hd ds = 0x30 \<longrightarrow> ds = [0x30])"
proof (induction digits out rule: encode_loop.induct)
  case (1 digits out)
  obtain qs r where p: "divide_pass 0 digits = (qs, r)" by (cases "divide_pass 0 digits") auto
  then have v: "unat r < 36" "be_value digits = 36 * be_value qs + unat r"
    using divide_pass_correct [of 0 digits qs r] by simp_all
  let ?d = "BASE36 ! unat r"
  have d: "digit_value ?d = Some (unat r)" using v(1) by (rule base36_digits)
  show ?case
  proof (cases "list_all (\<lambda>d. d = 0) qs")
    case True
    then have "encode_loop digits out = [?d] @ rev out" using p by simp
    moreover have "be_value qs = 0" using True by (simp add: be_value_0_iff)
    ultimately show ?thesis using v d
      by (intro exI [of _ "[?d]"]) (simp add: base36_value_Cons)
  next
    case False
    then obtain ds where ds: "encode_loop qs (out @ [?d]) = ds @ rev (out @ [?d])" "ds \<noteq> []"
      "is_base36 ds" "base36_value ds = be_value qs" "hd ds = 0x30 \<longrightarrow> ds = [0x30]"
      using 1 [OF p [symmetric] refl refl] by auto
    have "be_value qs \<noteq> 0" using False by (simp add: be_value_0_iff)
    then have "hd ds \<noteq> 0x30" using ds digit_zero by (auto simp: base36_value_Cons)
    moreover have "encode_loop digits out = (ds @ [?d]) @ rev out" using p False ds(1) by simp
    ultimately show ?thesis using ds v d
      by (intro exI [of _ "ds @ [?d]"]) (simp del: encode_loop.simps)
  qed
qed

subsection \<open>Parsing\<close>

lemma split_once_append: "c \<notin> set p \<Longrightarrow> split_once c (p @ c # e) = Some (p, e)"
  by (induction p) auto

lemma split_once_SomeD: "split_once c s = Some (p, e) \<Longrightarrow> s = p @ c # e \<and> c \<notin> set p"
  by (induction s arbitrary: p) (auto split: if_splits)

lemma parse_id_iff:
  "parse_id s = Inr (p, u) \<longleftrightarrow> underscore \<notin> set p \<and> s = generate p u"
  by (auto simp: parse_id_def generate_def base36_to_uuid_iff split_once_append and_then_Inr
      dest: split_once_SomeD split: option.splits)

lemma parse_with_prefix_iff:
  "parse_with_prefix s p = Inr u \<longleftrightarrow> underscore \<notin> set p \<and> s = generate p u"
  by (auto simp: parse_with_prefix_def and_then_Inr parse_id_iff split: if_splits)

lemma parse_wrong_prefix_iff:
  "parse_with_prefix s q = Inl (WrongPrefix q p) \<longleftrightarrow>
     p \<noteq> q \<and> underscore \<notin> set p \<and> (\<exists>u. s = generate p u)"
proof (cases "parse_id s")
  case (Inl e)
  then have "\<not> (underscore \<notin> set p \<and> s = generate p u)" for u
    using parse_id_iff [of s p u] by simp
  then show ?thesis using Inl by (auto simp: parse_with_prefix_def)
next
  case (Inr x)
  then obtain p' u where "x = (p', u)" "underscore \<notin> set p'" "s = generate p' u"
    using parse_id_iff [of s] by (cases x) auto
  moreover have "generate p' u = generate p v \<and> underscore \<notin> set p \<longleftrightarrow> p = p' \<and> v = u" for v
    using parse_id_iff [of s p v] Inr calculation by auto
  ultimately show ?thesis using Inr by (auto simp: parse_with_prefix_def)
qed

lemma base36_canonical_length:
  assumes "is_base36 ds" "ds \<noteq> []" "hd ds \<noteq> 0x30"
  shows "36 ^ (length ds - 1) \<le> base36_value ds"
proof -
  obtain d ds' where ds: "ds = d # ds'" using assms(2) by (cases ds) auto
  obtain i where i: "digit_value d = Some i" using assms(1) ds by auto
  moreover have "BASE36 ! 0 = 0x30" by code_simp
  ultimately have "i \<noteq> 0" using assms(3) digit_value_SomeD(2) [OF i] ds by (metis list.sel(1))
  then show ?thesis using i by (simp add: ds base36_value_Cons trans_le_add1)
qed

lemma base36_value_zeros:
  "is_base36 (replicate k 0x30)"
  "base36_value (replicate k 0x30 @ ds) = base36_value ds"
  by (induction k) (auto simp: base36_value_Cons digit_zero)

lemma be_value_less: "be_value bs < 256 ^ length bs"
proof (induction bs rule: rev_induct)
  case (snoc b bs)
  then show ?case using unat_u8_less [of b] by simp
qed simp

subsection \<open>Names without quotes, dots and stars\<close>

definition plain_name :: "bytes \<Rightarrow> bool" where
  "plain_name s = list_all (\<lambda>b. b \<noteq> quote_byte \<and> b \<noteq> dot \<and> b \<noteq> star_byte \<and> to_ascii_lowercase b = b) s"

lemma split_plain:
  assumes "plain_name s" "cur @ s \<noteq> []"
  shows "split_segments [] cur False u s = Some [\<lparr>seg_bytes = cur @ s, seg_quoted = False\<rparr>]"
  using assms
  by (induction s arbitrary: cur u) (auto simp: plain_name_def finish_segment_def Let_def)

lemma seg_parse_plain: "plain_name s \<Longrightarrow> seg_parse s = Some (literal s)"
  by (simp add: seg_parse_def star_positions_def plain_name_def list_all_length)

lemma is_star_star: "is_star star"
  by (simp add: is_star_def star_def)

lemma plain_base36: "is_base36 s \<Longrightarrow> plain_name s"
proof -
  have all: "list_all (\<lambda>b. plain_name [b]) BASE36" "length BASE36 = 36" by code_simp+
  have "plain_name [b]" if "digit_value b = Some i" for b i
    using digit_value_SomeD [OF that] all by (simp add: list_all_length)
  then show "is_base36 s \<Longrightarrow> plain_name s"
    by (auto simp: is_base36_def plain_name_def list_all_iff)
qed

lemma plain_generate: "plain_name p \<Longrightarrow> plain_name (generate p u)"
proof -
  have "plain_name [underscore]" by code_simp
  then show "plain_name p \<Longrightarrow> plain_name (generate p u)"
    using plain_base36 [of "uuid_to_base36 u"] by (simp add: generate_def plain_name_def)
qed

lemma strip_append [simp]: "strip_prefix p (p @ s) = Some s"
  by (simp add: strip_prefix_def)

lemma strip_prefix_SomeD: "strip_prefix p s = Some r \<Longrightarrow> s = p @ r"
  by (auto simp: strip_prefix_def prefix_def split: if_splits)

lemma strip_generate:
  "Option.bind (strip_prefix p (generate p u)) (strip_prefix [underscore]) = Some (uuid_to_base36 u)"
  using strip_append [of "[underscore]" "uuid_to_base36 u"] by (simp add: generate_def)

lemma entity_parse_iff:
  "entity_parse p raw = Inr a \<longleftrightarrow> a = raw \<and> underscore \<notin> set p \<and> (\<exists>u. raw = generate p u)"
  by (auto simp: entity_parse_def and_then_Inr parse_with_prefix_iff)

lemma ok_Some: "(case r of Inl e \<Rightarrow> None | Inr x \<Rightarrow> Some x) = Some a \<longleftrightarrow> r = Inr a"
  by (cases r) simp_all

lemma app_prefix_plain: "underscore \<notin> set APP_PREFIX" "plain_name APP_PREFIX"
  by code_simp+

subsection \<open>Properties\<close>

text \<open>
  \<^bold>\<open>C31\<close>: A typed id has exactly one spelling. A text parses as a prefix and a UUID if and only
  if it is the text that encoding this UUID under this prefix gives, so a body of another
  length, a character outside the alphabet, a capital letter and a number of more than 128 bits
  are all refused; the checked parser accepts exactly the ids of the expected prefix, and
  reports a wrong prefix exactly for a well-formed id of another one.
\<close>

theorem typed_ids_have_one_spelling:
  "(parse_id s = Inr (p, u) \<longleftrightarrow> underscore \<notin> set p \<and> s = generate p u) \<and>
   (parse_with_prefix s q = Inr u \<longleftrightarrow> underscore \<notin> set q \<and> s = generate q u) \<and>
   (parse_with_prefix s q = Inl (WrongPrefix q p) \<longleftrightarrow>
      p \<noteq> q \<and> underscore \<notin> set p \<and> (\<exists>v. s = generate p v))"
  using parse_id_iff parse_with_prefix_iff parse_wrong_prefix_iff by blast

text \<open>
  Typed ids of one prefix compare bytewise as their UUIDs compare as numbers, and every
  id has the same length, so the order of the texts is the order of creation for UUIDs that
  ascend in time.
\<close>

theorem typed_ids_sort_by_number:
  "(generate p u < generate p v \<longleftrightarrow> u < v) \<and> length (generate p u) = length p + 26"
proof -
  have "uuid_to_base36 u < uuid_to_base36 v \<longleftrightarrow> unat u < unat v"
    using base36_value_less_iff [of "uuid_to_base36 u" "uuid_to_base36 v"] by simp
  moreover have "p @ xs < p @ ys \<longleftrightarrow> xs < ys" for xs ys :: bytes
    by (induction p) auto
  ultimately show ?thesis by (simp add: generate_def word_less_nat_alt)
qed

text \<open>
  The division loop over a byte string of any length ends and writes the positional
  numeral of the number the bytes spell, without a leading zero unless it is the numeral of
  zero; on sixteen bytes, padding it to twenty-five digits gives the text the UUID encoder
  writes for these bytes.
\<close>

theorem byte_encoder_agrees_with_uuid_encoder:
  assumes "bs \<noteq> []"
  shows "is_base36 (base36_encode_bytes bs) \<and>
    base36_value (base36_encode_bytes bs) = be_value bs \<and>
    (hd (base36_encode_bytes bs) = 0x30 \<longrightarrow> base36_encode_bytes bs = [0x30]) \<and>
    (length bs = 16 \<longrightarrow>
       replicate (25 - length (base36_encode_bytes bs)) 0x30 @ base36_encode_bytes bs =
         uuid_to_base36 (word_of_nat (be_value bs)))"
proof -
  let ?e = "base36_encode_bytes bs"
  have e: "?e \<noteq> []" "is_base36 ?e" "base36_value ?e = be_value bs" "hd ?e = 0x30 \<longrightarrow> ?e = [0x30]"
    using encode_loop_correct [of bs "[]"] assms by (auto simp: base36_encode_bytes_def)
  have "replicate (25 - length ?e) 0x30 @ ?e = uuid_to_base36 (word_of_nat (be_value bs))"
    if len: "length bs = 16"
  proof (rule base36_value_inject)
    have v: "be_value bs < 2 ^ 128" using be_value_less [of bs] len by simp
    have "length ?e \<le> 25"
    proof (rule ccontr)
      assume long: "\<not> length ?e \<le> 25"
      then have "hd ?e \<noteq> 0x30" using e by auto
      then have "36 ^ (length ?e - 1) \<le> be_value bs" using base36_canonical_length e by metis
      moreover have "(36 :: nat) ^ 25 \<le> 36 ^ (length ?e - 1)" using long by (intro power_increasing) auto
      ultimately show False using v by simp
    qed
    then show "length (replicate (25 - length ?e) 0x30 @ ?e) =
        length (uuid_to_base36 (word_of_nat (be_value bs)))" by simp
    show "base36_value (replicate (25 - length ?e) 0x30 @ ?e) =
        base36_value (uuid_to_base36 (word_of_nat (be_value bs)))"
      using v e by (simp add: base36_value_zeros unat_of_nat_u128)
  qed (use e in \<open>simp_all add: base36_value_zeros\<close>)
  then show ?thesis using e by blast
qed

theorem byte_encoder_agrees_with_uuid_encoder_witness:
  "base36_encode_bytes [0, 1, 0] = [0x37, 0x34] \<and> base36_value [0x37, 0x34] = be_value [0, 1, 0]"
proof -
  have "base36_encode_bytes [0, 1, 0] = [0x37, 0x34]" by code_simp
  then show ?thesis using byte_encoder_agrees_with_uuid_encoder [of "[0, 1, 0]"] by simp
qed

text \<open>
  The per-app OAuth client id and the app id are exact inverses: a client id decodes to
  an app id if and only if that text parses as an app id and the client id is the one minted
  from it; the mint never panics on a parsed app id.
\<close>

theorem oauth_client_id_inverts_app_id:
  "(app_id_from_oauth_client_id c = Some a \<longleftrightarrow>
      entity_parse APP_PREFIX a = Inr a \<and> app_oauth_client_id a = Some c) \<and>
   (entity_parse APP_PREFIX raw = Inr a \<longrightarrow> app_oauth_client_id a \<noteq> None)"
proof -
  let ?oac = "\<lambda>u. APP_OAUTH_CLIENT_PREFIX @ underscore # uuid_to_base36 u"
  have mint: "app_oauth_client_id (generate APP_PREFIX u) = Some (?oac u)" for u
    by (simp add: app_oauth_client_id_def strip_generate)
  have decode: "app_id_from_oauth_client_id (?oac u) = Some (generate APP_PREFIX u)" for u
  proof -
    have "entity_parse APP_PREFIX (generate APP_PREFIX u) = Inr (generate APP_PREFIX u)"
      using app_prefix_plain by (auto simp: entity_parse_iff)
    then show ?thesis
      using strip_append [of "[underscore]" "uuid_to_base36 u"]
      by (simp add: app_id_from_oauth_client_id_def generate_def)
  qed
  have "\<exists>u. a = generate APP_PREFIX u \<and> c = ?oac u" if "app_id_from_oauth_client_id c = Some a"
  proof -
    from that obtain body where "c = APP_OAUTH_CLIENT_PREFIX @ underscore # body"
      and "entity_parse APP_PREFIX (APP_PREFIX @ underscore # body) = Inr a"
      by (auto simp: app_id_from_oauth_client_id_def bind_eq_Some_conv ok_Some
          dest!: strip_prefix_SomeD)
    then show ?thesis by (auto simp: entity_parse_iff generate_def)
  qed
  then show ?thesis using mint decode app_prefix_plain by (auto simp: entity_parse_iff)
qed

theorem oauth_client_id_inverts_app_id_witness:
  "app_oauth_client_id (generate APP_PREFIX 7) \<noteq> None"
proof -
  have "entity_parse APP_PREFIX (generate APP_PREFIX 7) = Inr (generate APP_PREFIX 7)"
    using app_prefix_plain by (auto simp: entity_parse_iff)
  then show ?thesis
    using oauth_client_id_inverts_app_id [where raw = "generate APP_PREFIX 7" and a = "generate APP_PREFIX 7" and c = "[]"]
    by simp
qed

text \<open>
  An app id is one schema name to the migration policy, whatever the case it is written
  in: every spelling that folds to the id normalizes to the schema object of that very id, and
  parses as a scope pattern that matches the objects of that schema and no others.
\<close>

theorem app_id_names_one_schema:
  assumes "map to_ascii_lowercase s = generate APP_PREFIX u"
  shows "normalize_object_name s = Some (object_schema (generate APP_PREFIX u)) \<and>
    parse_normalized s = Some (pattern_schema (literal (generate APP_PREFIX u))) \<and>
    pattern_objects (pattern_schema (literal (generate APP_PREFIX u))) =
      {n. obj_schema n = generate APP_PREFIX u}"
proof -
  let ?a = "generate APP_PREFIX u"
  have plain: "plain_name ?a" using app_prefix_plain(2) by (rule plain_generate)
  have fixed: "map to_ascii_lowercase ?a = ?a" and q: "quote_byte \<notin> set ?a"
    using plain by (auto simp: plain_name_def list_all_iff intro: map_idI)
  have "quote_byte \<notin> set s"
    using q lowercase_fixed(1) unfolding assms [symmetric] set_map by (metis imageI)
  then have "split_normalize_segments s = split_normalize_segments ?a"
    using split_spelling [of s ?a] assms fixed q by simp
  also have "\<dots> = Some [\<lparr>seg_bytes = ?a, seg_quoted = False\<rparr>]"
    using split_plain [OF plain, of "[]"] by (simp add: split_normalize_segments_def generate_def)
  finally show ?thesis
    using plain is_star_star by (auto simp: normalize_object_name_def parse_normalized_def seg_from_normalized_def
        seg_parse_plain pattern_objects_def pattern_schema_def pattern_matches_def
        split: option.splits)
qed

text \<open>The app id of number seven, spelled with a capital A.\<close>

theorem app_id_names_one_schema_witness:
  "normalize_object_name (0x41 # tl (generate APP_PREFIX 7)) = Some (object_schema (generate APP_PREFIX 7))"
proof -
  have "map to_ascii_lowercase (0x41 # tl (generate APP_PREFIX 7)) = generate APP_PREFIX 7" by code_simp
  then show ?thesis by (rule app_id_names_one_schema [THEN conjunct1])
qed

end
