(* ===== verification/OpBreaker.thy ===== *)
theory OpBreaker
  imports Prelude
begin

text \<open>
  The gateway's circuit breaker in front of the identity provider
  (\<^verbatim>\<open>crates/zeroship-gateway/src/op_client.rs\<close>).

  The breaker's atomics are the fields of a record. Each operation is first a function on the
  record, with the milliseconds since the epoch of the breaker as an argument. The second part
  is the concurrent model: a call is a program counter, each of its steps is one atomic load,
  store, compare-exchange or clock reading, and a schedule is a list of events that interleaves
  the steps of any number of calls with the passing of time. The atomics are taken to be
  sequentially consistent. The request future is the outcome the schedule chooses, dropping
  the future included.

  The lemmas show that at most one probe is in flight under every schedule, that the probe slot
  is always released, and that calls made one after another follow the documented
  closed, open and half-open machine.
\<close>

subsection \<open>The breaker\<close>

datatype BreakerState = BrClosed | BrOpen | BrHalfOpen

fun brk_as_u8 :: "BreakerState \<Rightarrow> u8" where
  "brk_as_u8 BrClosed = 0"
| "brk_as_u8 BrOpen = 1"
| "brk_as_u8 BrHalfOpen = 2"

definition brk_from_u8 :: "u8 \<Rightarrow> BreakerState" where
  "brk_from_u8 v = (if v = 1 then BrOpen else if v = 2 then BrHalfOpen else BrClosed)"

record CircuitBreaker =
  brk_state :: u8
  consecutive_failures :: u32
  opened_at_ms :: u64
  probe_in_flight :: bool
  failure_threshold :: u32
  cooldown :: duration

definition breaker_new :: "u32 \<Rightarrow> duration \<Rightarrow> CircuitBreaker" where
  "breaker_new threshold cd =
     \<lparr>brk_state = brk_as_u8 BrClosed, consecutive_failures = 0, opened_at_ms = 0,
      probe_in_flight = False, failure_threshold = max threshold 1, cooldown = cd\<rparr>"

text \<open>\<open>elapsed\<close> is the milliseconds since the epoch, saturated at the largest 64-bit value.\<close>

definition saturate_u64 :: "nat \<Rightarrow> u64" where
  "saturate_u64 n = (if n < 2 ^ 64 then word_of_nat n else - 1)"

definition now_ms :: "instant \<Rightarrow> u64" where
  "now_ms elapsed = saturate_u64 elapsed"

definition u64_saturating_sub :: "u64 \<Rightarrow> u64 \<Rightarrow> u64" where
  "u64_saturating_sub a b = (if b \<le> a then a - b else 0)"

definition cooldown_elapsed :: "CircuitBreaker \<Rightarrow> instant \<Rightarrow> bool" where
  "cooldown_elapsed self now \<longleftrightarrow>
     u64_saturating_sub (now_ms now) (opened_at_ms self) \<ge> saturate_u64 (cooldown self)"

definition breaker_state :: "CircuitBreaker \<Rightarrow> instant \<Rightarrow> BreakerState" where
  "breaker_state self now =
     (let st = brk_from_u8 (brk_state self)
      in if st = BrOpen \<and> cooldown_elapsed self now then BrHalfOpen else st)"

datatype Admit = Allowed bool | Rejected

definition claim_probe :: "CircuitBreaker \<Rightarrow> CircuitBreaker \<times> Admit" where
  "claim_probe self =
     (if \<not> probe_in_flight self
      then (self\<lparr>probe_in_flight := True, brk_state := brk_as_u8 BrHalfOpen\<rparr>, Allowed True)
      else (self, Rejected))"

definition breaker_admit :: "CircuitBreaker \<Rightarrow> instant \<Rightarrow> CircuitBreaker \<times> Admit" where
  "breaker_admit self now =
     (case breaker_state self now of
        BrClosed \<Rightarrow> (self, Allowed False)
      | BrOpen \<Rightarrow> (self, Rejected)
      | BrHalfOpen \<Rightarrow> claim_probe self)"

definition on_success :: "CircuitBreaker \<Rightarrow> bool \<Rightarrow> CircuitBreaker" where
  "on_success self was_probe =
     (let self = self\<lparr>consecutive_failures := 0, brk_state := brk_as_u8 BrClosed\<rparr>
      in if was_probe then self\<lparr>probe_in_flight := False\<rparr> else self)"

definition on_failure :: "CircuitBreaker \<Rightarrow> bool \<Rightarrow> instant \<Rightarrow> CircuitBreaker" where
  "on_failure self was_probe now =
     (if was_probe
      then self\<lparr>opened_at_ms := now_ms now, brk_state := brk_as_u8 BrOpen,
                probe_in_flight := False\<rparr>
      else let n = consecutive_failures self + 1;
               self = self\<lparr>consecutive_failures := n\<rparr>
           in if n \<ge> failure_threshold self
              then self\<lparr>opened_at_ms := now_ms now, brk_state := brk_as_u8 BrOpen\<rparr>
              else self)"

definition probe_abandoned :: "CircuitBreaker \<Rightarrow> instant \<Rightarrow> CircuitBreaker" where
  "probe_abandoned self now =
     self\<lparr>opened_at_ms := now_ms now, brk_state := brk_as_u8 BrOpen, probe_in_flight := False\<rparr>"

subsection \<open>The pooled client\<close>

text \<open>
  Durations are milliseconds. The client itself is third-party; what the pool decides on is the
  instant the client was built and the bound it was built for.
\<close>

record PooledClient =
  created :: instant
  pooled_idle_timeout :: duration

definition AUTH_KEEP_ALIVE_SECS :: nat where
  "AUTH_KEEP_ALIVE_SECS = 5"

definition AUTH_KEEP_ALIVE :: duration where
  "AUTH_KEEP_ALIVE = 1000 * AUTH_KEEP_ALIVE_SECS"

definition op_client_idle_timeout :: "duration \<Rightarrow> duration" where
  "op_client_idle_timeout keep_alive = keep_alive div 2"

definition default_idle_timeout :: duration where
  "default_idle_timeout = op_client_idle_timeout AUTH_KEEP_ALIVE"

definition thread_client :: "PooledClient option \<Rightarrow> duration \<Rightarrow> instant \<Rightarrow> PooledClient" where
  "thread_client slot idle_timeout now =
     (case slot of
        Some pooled \<Rightarrow>
          if pooled_idle_timeout pooled \<noteq> idle_timeout \<or> now - created pooled \<ge> idle_timeout
          then \<lparr>created = now, pooled_idle_timeout = idle_timeout\<rparr> else pooled
      | None \<Rightarrow> \<lparr>created = now, pooled_idle_timeout = idle_timeout\<rparr>)"

text \<open>A client handed out is younger than the window of the server, and reuse is possible.\<close>

lemma client_younger_than_keep_alive:
  "now - created (thread_client slot default_idle_timeout now) < default_idle_timeout \<and>
   0 < default_idle_timeout \<and> default_idle_timeout < AUTH_KEEP_ALIVE"
  by (auto simp: thread_client_def default_idle_timeout_def op_client_idle_timeout_def AUTH_KEEP_ALIVE_def
      AUTH_KEEP_ALIVE_SECS_def split: option.splits)

subsection \<open>One call\<close>

datatype OpError = OpOpen | OpTimeout duration | OpUpstream string

text \<open>
  What the awaited request does: it answers with any HTTP response, fails below HTTP, outlives
  the timeout, or its future is dropped, in which case the guard of a probe runs and the
  call has no result.
\<close>

datatype 'r Outcome = Response 'r | TransportFailed string | TimedOut | Dropped

record ProbeGuard =
  guard_armed :: bool

definition guard_disarm :: "ProbeGuard \<Rightarrow> ProbeGuard" where
  "guard_disarm g = g\<lparr>guard_armed := False\<rparr>"

definition probe_guard_drop :: "ProbeGuard option \<Rightarrow> CircuitBreaker \<Rightarrow> instant \<Rightarrow> CircuitBreaker" where
  "probe_guard_drop guard breaker now =
     (case guard of
        None \<Rightarrow> breaker
      | Some g \<Rightarrow> if guard_armed g then probe_abandoned breaker now else breaker)"

text \<open>\<open>start\<close> is the time of the admission and \<open>done\<close> the time the await ends.\<close>

definition op_call ::
  "CircuitBreaker \<Rightarrow> duration \<Rightarrow> instant \<Rightarrow> 'r Outcome \<Rightarrow> instant \<Rightarrow>
     CircuitBreaker \<times> (OpError + 'r) option" where
  "op_call breaker timeout start outcome done =
     (case breaker_admit breaker start of
        (breaker, Rejected) \<Rightarrow> (breaker, Some (Inl OpOpen))
      | (breaker, Allowed is_probe) \<Rightarrow>
          let guard = (if is_probe then Some \<lparr>guard_armed = True\<rparr> else None);
              disarmed = map_option guard_disarm guard
          in (case outcome of
                Response resp \<Rightarrow>
                  (probe_guard_drop disarmed (on_success breaker is_probe) done, Some (Inr resp))
              | TransportFailed e \<Rightarrow>
                  (probe_guard_drop disarmed (on_failure breaker is_probe done) done, Some (Inl (OpUpstream e)))
              | TimedOut \<Rightarrow>
                  (probe_guard_drop disarmed (on_failure breaker is_probe done) done, Some (Inl (OpTimeout timeout)))
              | Dropped \<Rightarrow> (probe_guard_drop guard breaker done, None)))"

subsection \<open>Concurrent calls\<close>

text \<open>
  The program counter of a call names its next atomic step; the flag says whether the call holds
  the probe. \<open>Calling\<close> waits for the outcome, \<open>Finished\<close> is the end.
\<close>

datatype Pc =
    LoadState
  | LoadOpenedAt
  | ReadClock u64
  | ClaimProbe
  | StoreHalfOpen
  | Calling bool
  | ZeroFailures bool
  | StoreClosed bool
  | CountFailure
  | ClockForOpen bool
  | StoreOpenedAt bool u64
  | StoreOpen bool
  | ReleaseProbe
  | Finished

definition release_if :: "bool \<Rightarrow> Pc" where
  "release_if was_probe = (if was_probe then ReleaseProbe else Finished)"

fun atomic_step :: "instant \<Rightarrow> CircuitBreaker \<Rightarrow> Pc \<Rightarrow> CircuitBreaker \<times> Pc" where
  "atomic_step now b LoadState =
     (b, case brk_from_u8 (brk_state b) of
           BrClosed \<Rightarrow> Calling False | BrOpen \<Rightarrow> LoadOpenedAt | BrHalfOpen \<Rightarrow> ClaimProbe)"
| "atomic_step now b LoadOpenedAt = (b, ReadClock (opened_at_ms b))"
| "atomic_step now b (ReadClock opened) =
     (b, if u64_saturating_sub (now_ms now) opened \<ge> saturate_u64 (cooldown b)
         then ClaimProbe else Finished)"
| "atomic_step now b ClaimProbe =
     (if probe_in_flight b then (b, Finished) else (b\<lparr>probe_in_flight := True\<rparr>, StoreHalfOpen))"
| "atomic_step now b StoreHalfOpen = (b\<lparr>brk_state := brk_as_u8 BrHalfOpen\<rparr>, Calling True)"
| "atomic_step now b (Calling p) = (b, Calling p)"
| "atomic_step now b (ZeroFailures p) = (b\<lparr>consecutive_failures := 0\<rparr>, StoreClosed p)"
| "atomic_step now b (StoreClosed p) = (b\<lparr>brk_state := brk_as_u8 BrClosed\<rparr>, release_if p)"
| "atomic_step now b CountFailure =
     (let n = consecutive_failures b + 1
      in (b\<lparr>consecutive_failures := n\<rparr>,
          if n \<ge> failure_threshold b then ClockForOpen False else Finished))"
| "atomic_step now b (ClockForOpen p) = (b, StoreOpenedAt p (now_ms now))"
| "atomic_step now b (StoreOpenedAt p t) = (b\<lparr>opened_at_ms := t\<rparr>, StoreOpen p)"
| "atomic_step now b (StoreOpen p) = (b\<lparr>brk_state := brk_as_u8 BrOpen\<rparr>, release_if p)"
| "atomic_step now b ReleaseProbe = (b\<lparr>probe_in_flight := False\<rparr>, Finished)"
| "atomic_step now b Finished = (b, Finished)"

text \<open>Where an outcome sends a waiting call; a call that is not waiting has none.\<close>

fun resolve_call :: "'r Outcome \<Rightarrow> Pc \<Rightarrow> Pc" where
  "resolve_call (Response resp) (Calling p) = ZeroFailures p"
| "resolve_call (TransportFailed e) (Calling p) = (if p then ClockForOpen True else CountFailure)"
| "resolve_call TimedOut (Calling p) = (if p then ClockForOpen True else CountFailure)"
| "resolve_call Dropped (Calling p) = (if p then ClockForOpen True else Finished)"
| "resolve_call outcome pc = pc"

record BreakerRun =
  breaker :: CircuitBreaker
  clock :: instant
  calls :: "Pc list"

datatype 'r BreakerEvent = Arrive | Pass duration | Advance nat | Resolve nat "'r Outcome"

fun breaker_event :: "'r BreakerEvent \<Rightarrow> BreakerRun \<Rightarrow> BreakerRun" where
  "breaker_event Arrive c = c\<lparr>calls := calls c @ [LoadState]\<rparr>"
| "breaker_event (Pass d) c = c\<lparr>clock := clock c + d\<rparr>"
| "breaker_event (Advance i) c =
     (if i < length (calls c)
      then let (b, pc) = atomic_step (clock c) (breaker c) (calls c ! i)
           in c\<lparr>breaker := b, calls := (calls c)[i := pc]\<rparr>
      else c)"
| "breaker_event (Resolve i outcome) c =
     (if i < length (calls c)
      then c\<lparr>calls := (calls c)[i := resolve_call outcome (calls c ! i)]\<rparr>
      else c)"

definition breaker_start :: "u32 \<Rightarrow> duration \<Rightarrow> BreakerRun" where
  "breaker_start threshold cd = \<lparr>breaker = breaker_new threshold cd, clock = 0, calls = []\<rparr>"

definition breaker_run :: "'r BreakerEvent list \<Rightarrow> BreakerRun \<Rightarrow> BreakerRun" where
  "breaker_run es c = fold breaker_event es c"

subsection \<open>The probe slot\<close>

fun holds_probe :: "Pc \<Rightarrow> bool" where
  "holds_probe StoreHalfOpen = True"
| "holds_probe (Calling p) = p"
| "holds_probe (ZeroFailures p) = p"
| "holds_probe (StoreClosed p) = p"
| "holds_probe (ClockForOpen p) = p"
| "holds_probe (StoreOpenedAt p t) = p"
| "holds_probe (StoreOpen p) = p"
| "holds_probe ReleaseProbe = True"
| "holds_probe pc = False"

definition probes :: "BreakerRun \<Rightarrow> nat" where
  "probes c = length (filter holds_probe (calls c))"

definition slot_ok :: "BreakerRun \<Rightarrow> bool" where
  "slot_ok c \<longleftrightarrow> probes c = (if probe_in_flight (breaker c) then 1 else 0)"

lemma filter_update:
  assumes "i < length xs"
  shows "length (filter P (xs[i := y])) + (if P (xs ! i) then 1 else 0) =
         length (filter P xs) + (if P y then 1 else 0)"
proof -
  have xs: "xs = take i xs @ xs ! i # drop (Suc i) xs" using assms by (rule id_take_nth_drop)
  have "xs[i := y] = take i xs @ y # drop (Suc i) xs" using assms by (rule upd_conv_take_nth_drop)
  then have "length (filter P (xs[i := y])) =
      length (filter P (take i xs)) + (if P y then 1 else 0) + length (filter P (drop (Suc i) xs))"
    by simp
  moreover have "length (filter P xs) =
      length (filter P (take i xs)) + (if P (xs ! i) then 1 else 0) + length (filter P (drop (Suc i) xs))"
    by (subst xs) simp
  ultimately show ?thesis by simp
qed

text \<open>A step changes the slot and the holding of the probe together.\<close>

lemma atomic_step_slot:
  assumes "atomic_step now b pc = (b', pc')" "holds_probe pc \<longrightarrow> probe_in_flight b"
  shows "(if probe_in_flight b' then 1 else 0 :: nat) + (if holds_probe pc then 1 else 0) =
         (if probe_in_flight b then 1 else 0) + (if holds_probe pc' then 1 else 0)"
  using assms
  by (cases pc) (auto simp: release_if_def Let_def split: if_splits BreakerState.splits)

lemma resolve_call_holds: "holds_probe (resolve_call outcome pc) = holds_probe pc"
  by (cases "(outcome, pc)" rule: resolve_call.cases) simp_all

lemma breaker_event_slot:
  assumes "slot_ok c"
  shows "slot_ok (breaker_event e c)"
proof (cases e)
  case (Advance i)
  show ?thesis
  proof (cases "i < length (calls c)")
    case True
    obtain b pc where s: "atomic_step (clock c) (breaker c) (calls c ! i) = (b, pc)"
      by (cases "atomic_step (clock c) (breaker c) (calls c ! i)") auto
    have "probe_in_flight (breaker c)" if "holds_probe (calls c ! i)"
    proof -
      have "calls c ! i \<in> set (filter holds_probe (calls c))" using True that by simp
      then have "probes c \<noteq> 0" unfolding probes_def by (metis empty_iff length_0_conv list.set(1))
      then show ?thesis using assms by (auto simp: slot_ok_def split: if_splits)
    qed
    then show ?thesis
      using atomic_step_slot [OF s] filter_update [OF True, of holds_probe pc] assms s True Advance
      by (auto simp: slot_ok_def probes_def split: if_splits)
  qed (use assms Advance in simp)
next
  case (Resolve i outcome)
  then show ?thesis
    using filter_update [of i "calls c" holds_probe "resolve_call outcome (calls c ! i)"] assms
    by (auto simp: slot_ok_def probes_def resolve_call_holds)
qed (use assms in \<open>auto simp: slot_ok_def probes_def\<close>)

lemma breaker_run_slot: "slot_ok c \<Longrightarrow> slot_ok (breaker_run es c)"
  unfolding breaker_run_def by (induction es arbitrary: c) (auto intro: breaker_event_slot)

lemma breaker_start_slot: "slot_ok (breaker_start threshold cd)"
  by (simp add: slot_ok_def probes_def breaker_start_def breaker_new_def)

text \<open>
  A bound on the steps left to a call whose outcome is known. A call gets there only from \<open>Calling\<close>, and
  never goes back.
\<close>

fun steps_left :: "Pc \<Rightarrow> nat option" where
  "steps_left CountFailure = Some 5"
| "steps_left (ClockForOpen p) = Some 4"
| "steps_left (StoreOpenedAt p t) = Some 3"
| "steps_left (ZeroFailures p) = Some 3"
| "steps_left (StoreOpen p) = Some 2"
| "steps_left (StoreClosed p) = Some 2"
| "steps_left ReleaseProbe = Some 1"
| "steps_left Finished = Some 0"
| "steps_left pc = None"

text \<open>A resolved call with at most \<open>n\<close> steps to go.\<close>

definition ends_within :: "nat \<Rightarrow> BreakerRun \<Rightarrow> nat \<Rightarrow> bool" where
  "ends_within n c i \<longleftrightarrow> i < length (calls c) \<and>
     (case steps_left (calls c ! i) of None \<Rightarrow> False | Some k \<Rightarrow> k \<le> n)"

lemma steps_left_step:
  assumes "steps_left pc = Some k"
  shows "\<exists>k'. steps_left (snd (atomic_step now b pc)) = Some k' \<and> k' \<le> k - 1"
  using assms by (cases pc) (auto simp: release_if_def Let_def split: if_splits)

lemma resolve_call_resolved: "steps_left pc = Some k \<Longrightarrow> resolve_call outcome pc = pc"
  by (cases "(outcome, pc)" rule: resolve_call.cases) auto

lemma ends_within_event:
  assumes "ends_within n c i"
  shows "ends_within (if e = Advance i then n - 1 else n) (breaker_event e c) i"
proof -
  obtain k where i: "i < length (calls c)" and k: "steps_left (calls c ! i) = Some k" "k \<le> n"
    using assms by (auto simp: ends_within_def split: option.splits)
  show ?thesis
  proof (cases e)
    case (Advance j)
    obtain b pc where s: "atomic_step (clock c) (breaker c) (calls c ! j) = (b, pc)"
      by (cases "atomic_step (clock c) (breaker c) (calls c ! j)") auto
    show ?thesis
    proof (cases "i = j")
      case True
      then obtain k' where "steps_left pc = Some k'" "k' \<le> k - 1"
        using steps_left_step [OF k(1), of "clock c" "breaker c"] s by auto
      then show ?thesis using Advance True i k s by (simp add: ends_within_def)
    next
      case False
      then show ?thesis using Advance i k s by (simp add: ends_within_def)
    qed
  next
    case (Resolve j outcome)
    then show ?thesis using i k resolve_call_resolved [OF k(1), of outcome]
      by (cases "i = j") (simp_all add: ends_within_def)
  qed (use i k in \<open>simp_all add: ends_within_def nth_append\<close>)
qed

lemma ends_within_run:
  "ends_within n c i \<Longrightarrow> ends_within (n - count_list es (Advance i)) (breaker_run es c) i"
proof (induction es arbitrary: n c)
  case (Cons e es)
  then show ?case
    using Cons.IH [OF ends_within_event [OF Cons.prems, of e]] by (auto simp: breaker_run_def split: if_splits)
qed (simp add: breaker_run_def)

lemma ends_within_0: "ends_within 0 c i \<Longrightarrow> calls c ! i = Finished"
  by (cases "calls c ! i") (auto simp: ends_within_def)

lemma steps_left_le: "steps_left pc = Some k \<Longrightarrow> k \<le> 5"
  by (cases pc) auto

subsection \<open>Steps and operations\<close>

text \<open>A call that runs alone, \<open>n\<close> steps at one instant.\<close>

definition run_alone :: "nat \<Rightarrow> instant \<Rightarrow> CircuitBreaker \<times> Pc \<Rightarrow> CircuitBreaker \<times> Pc" where
  "run_alone n now = (\<lambda>(b, pc). atomic_step now b pc) ^^ n"

lemma run_alone_simps [simp]:
  "run_alone 0 now s = s"
  "run_alone (Suc n) now (b, pc) = run_alone n now (atomic_step now b pc)"
  by (simp_all add: run_alone_def funpow_Suc_right del: funpow.simps(2))

lemmas run_alone_steps = eval_nat_numeral Let_def release_if_def

lemma brk_from_as [simp]: "brk_from_u8 (brk_as_u8 st) = st"
  by (cases st) (simp_all add: brk_from_u8_def)

lemma run_alone_admit:
  "run_alone 5 now (b, LoadState) =
     (case breaker_admit b now of
        (b', Allowed p) \<Rightarrow> (b', Calling p) | (b', Rejected) \<Rightarrow> (b', Finished))"
  by (cases "brk_from_u8 (brk_state b)"; cases "probe_in_flight b")
    (simp_all add: run_alone_steps breaker_admit_def breaker_state_def cooldown_elapsed_def claim_probe_def)

lemma run_alone_success:
  "run_alone 3 now (b, ZeroFailures p) = (on_success b p, Finished)"
  by (cases p) (simp_all add: run_alone_steps on_success_def)

lemma run_alone_failure:
  "run_alone 4 now (b, if p then ClockForOpen True else CountFailure) = (on_failure b p now, Finished)"
  by (cases p) (simp_all add: run_alone_steps on_failure_def)

lemma run_alone_abandoned:
  "run_alone 4 now (b, ClockForOpen True) = (probe_abandoned b now, Finished)"
  by (simp add: run_alone_steps probe_abandoned_def)

subsection \<open>Time\<close>

lemma unat_saturate: "n < 2 ^ 64 \<Longrightarrow> unat (saturate_u64 n) = n"
  by (simp add: saturate_u64_def unsigned_of_nat take_bit_nat_eq_self)

lemma unat_saturate_le: "unat (saturate_u64 n) \<le> n"
proof (cases "n < 2 ^ 64")
  case False
  have "unat (saturate_u64 n) < 2 ^ LENGTH(64)" by (rule unsigned_less)
  then show ?thesis using False by simp
qed (simp add: unat_saturate)

lemma elapsed_iff:
  assumes "now < 2 ^ 64" "cooldown b < 2 ^ 64"
  shows "cooldown_elapsed b now \<longleftrightarrow> cooldown b \<le> now - unat (opened_at_ms b)"
proof (cases "opened_at_ms b \<le> now_ms now")
  case True
  then have "unat (now_ms now - opened_at_ms b) = now - unat (opened_at_ms b)"
    using assms(1) by (simp add: unat_sub now_ms_def unat_saturate)
  then show ?thesis using True assms
    by (simp add: cooldown_elapsed_def u64_saturating_sub_def word_le_nat_alt unat_saturate)
next
  case False
  then have "now \<le> unat (opened_at_ms b)"
    using assms by (simp add: word_le_nat_alt now_ms_def unat_saturate)
  then show ?thesis using False assms
    by (simp add: cooldown_elapsed_def u64_saturating_sub_def word_le_nat_alt unat_saturate)
qed

text \<open>No time stamp, stored or about to be stored, lies in the future.\<close>

fun stamp_of :: "Pc \<Rightarrow> nat" where
  "stamp_of (StoreOpenedAt p t) = unat t"
| "stamp_of pc = 0"

definition stamps_ok :: "duration \<Rightarrow> BreakerRun \<Rightarrow> bool" where
  "stamps_ok cd c \<longleftrightarrow> cooldown (breaker c) = cd \<and> unat (opened_at_ms (breaker c)) \<le> clock c \<and>
     list_all (\<lambda>pc. stamp_of pc \<le> clock c) (calls c)"

lemma atomic_step_stamp:
  assumes "atomic_step now b pc = (b', pc')" "unat (opened_at_ms b) \<le> now" "stamp_of pc \<le> now"
  shows "cooldown b' = cooldown b \<and> unat (opened_at_ms b') \<le> now \<and> stamp_of pc' \<le> now"
  using assms
  by (cases pc) (auto simp: release_if_def Let_def now_ms_def unat_saturate_le
      split: if_splits BreakerState.splits)

lemma resolve_call_stamp: "stamp_of (resolve_call outcome pc) \<le> stamp_of pc"
  by (cases "(outcome, pc)" rule: resolve_call.cases) simp_all

lemma list_all_update: "list_all P xs \<Longrightarrow> P y \<Longrightarrow> list_all P (xs[i := y])"
  by (auto simp: list_all_iff dest: set_update_subset_insert [THEN subsetD])

lemma breaker_event_stamps:
  assumes "stamps_ok cd c"
  shows "stamps_ok cd (breaker_event e c)"
proof (cases e)
  case (Pass d)
  then show ?thesis using assms
    by (auto simp: stamps_ok_def list_all_iff intro: trans_le_add1)
next
  case (Advance i)
  obtain b pc where s: "atomic_step (clock c) (breaker c) (calls c ! i) = (b, pc)"
    by (cases "atomic_step (clock c) (breaker c) (calls c ! i)") auto
  show ?thesis
  proof (cases "i < length (calls c)")
    case True
    then have "cooldown b = cooldown (breaker c) \<and> unat (opened_at_ms b) \<le> clock c \<and> stamp_of pc \<le> clock c"
      using assms by (intro atomic_step_stamp [OF s]) (auto simp: stamps_ok_def list_all_length)
    then show ?thesis using assms Advance s True by (simp add: stamps_ok_def list_all_update)
  qed (use assms Advance in simp)
next
  case (Resolve i outcome)
  show ?thesis
  proof (cases "i < length (calls c)")
    case True
    then have "stamp_of (resolve_call outcome (calls c ! i)) \<le> clock c"
      using assms resolve_call_stamp order_trans unfolding stamps_ok_def list_all_length by blast
    then show ?thesis using assms Resolve True by (simp add: stamps_ok_def list_all_update)
  qed (use assms Resolve in simp)
qed (use assms in \<open>simp add: stamps_ok_def\<close>)

lemma breaker_run_stamps: "stamps_ok cd c \<Longrightarrow> stamps_ok cd (breaker_run es c)"
  unfolding breaker_run_def by (induction es arbitrary: c) (auto intro: breaker_event_stamps)

lemma breaker_start_stamps: "stamps_ok cd (breaker_start threshold cd)"
  by (simp add: stamps_ok_def breaker_start_def breaker_new_def)

lemma admits_after_cooldown:
  assumes "\<not> probe_in_flight b" "unat (opened_at_ms b) \<le> now"
    and "cooldown b \<le> d" "now + d < 2 ^ 64"
  shows "snd (breaker_admit b (now + d)) \<noteq> Rejected"
proof -
  have "cooldown_elapsed b (now + d)" using assms by (simp add: elapsed_iff)
  then show ?thesis using assms(1)
    by (auto simp: breaker_admit_def breaker_state_def claim_probe_def Let_def split: BreakerState.splits)
qed

subsection \<open>The documented machine\<close>

text \<open>
  What the breaker promises for calls made one after another: closed with a count of
  consecutive failures, or open since an instant. The result of a rejected call is
  \<open>OpOpen\<close>.
\<close>

datatype SpecBreaker = SpecClosed nat | SpecOpen instant

fun spec_result :: "duration \<Rightarrow> 'r Outcome \<Rightarrow> (OpError + 'r) option" where
  "spec_result timeout (Response resp) = Some (Inr resp)"
| "spec_result timeout (TransportFailed e) = Some (Inl (OpUpstream e))"
| "spec_result timeout TimedOut = Some (Inl (OpTimeout timeout))"
| "spec_result timeout Dropped = None"

fun spec_call :: "nat \<Rightarrow> duration \<Rightarrow> SpecBreaker \<Rightarrow> instant \<Rightarrow> 'r Outcome \<Rightarrow> instant \<Rightarrow> SpecBreaker option" where
  "spec_call threshold cd (SpecClosed n) start outcome end =
     Some (case outcome of
        Response _ \<Rightarrow> SpecClosed 0
      | Dropped \<Rightarrow> SpecClosed n
      | _ \<Rightarrow> if n + 1 < threshold then SpecClosed (n + 1) else SpecOpen end)"
| "spec_call threshold cd (SpecOpen since) start outcome end =
     (if start - since < cd then None
      else Some (case outcome of Response _ \<Rightarrow> SpecClosed 0 | _ \<Rightarrow> SpecOpen end))"

fun spec_calls :: "nat \<Rightarrow> duration \<Rightarrow> duration \<Rightarrow> (instant \<times> 'r Outcome \<times> instant) list \<Rightarrow> SpecBreaker \<Rightarrow>
    SpecBreaker \<times> (OpError + 'r) option list" where
  "spec_calls threshold cd timeout [] s = (s, [])"
| "spec_calls threshold cd timeout ((start, outcome, end) # xs) s =
     (case spec_call threshold cd s start outcome end of
        None \<Rightarrow> apsnd ((#) (Some (Inl OpOpen))) (spec_calls threshold cd timeout xs s)
      | Some s' \<Rightarrow> apsnd ((#) (spec_result timeout outcome)) (spec_calls threshold cd timeout xs s'))"

fun op_calls :: "duration \<Rightarrow> (instant \<times> 'r Outcome \<times> instant) list \<Rightarrow> CircuitBreaker \<Rightarrow>
    CircuitBreaker \<times> (OpError + 'r) option list" where
  "op_calls timeout [] b = (b, [])"
| "op_calls timeout ((start, outcome, end) # xs) b =
     (let (b', r) = op_call b timeout start outcome end in apsnd ((#) r) (op_calls timeout xs b'))"

definition breaker_abs :: "CircuitBreaker \<Rightarrow> SpecBreaker" where
  "breaker_abs b =
     (if brk_state b = brk_as_u8 BrOpen then SpecOpen (unat (opened_at_ms b))
      else SpecClosed (unat (consecutive_failures b)))"

text \<open>Between calls no probe is in flight, and a closed breaker is below its threshold.\<close>

definition breaker_quiet :: "CircuitBreaker \<Rightarrow> bool" where
  "breaker_quiet b \<longleftrightarrow> \<not> probe_in_flight b \<and>
     (brk_state b = brk_as_u8 BrOpen \<or>
      brk_state b = brk_as_u8 BrClosed \<and> consecutive_failures b < failure_threshold b)"

lemma unat_succ: "a < b \<Longrightarrow> unat (a + 1) = unat a + 1" for a b :: u32
proof -
  assume "a < b"
  moreover have "unat b < 2 ^ LENGTH(32)" by (rule unsigned_less)
  ultimately show ?thesis by (simp add: word_less_nat_alt unat_word_ariths)
qed

lemma probe_guard_drop_disarmed [simp]:
  "probe_guard_drop (map_option guard_disarm g) b now = b"
  by (cases g) (simp_all add: probe_guard_drop_def guard_disarm_def)

lemma op_call_closed:
  assumes "breaker_quiet b" "brk_state b = brk_as_u8 BrClosed" "end < 2 ^ 64"
    and "op_call b timeout start outcome end = (b', r)"
  shows "breaker_quiet b' \<and> r = spec_result timeout outcome \<and>
    spec_call (unat (failure_threshold b)) (cooldown b) (breaker_abs b) start outcome end =
      Some (breaker_abs b') \<and>
    failure_threshold b' = failure_threshold b \<and> cooldown b' = cooldown b"
proof -
  have lt: "consecutive_failures b < failure_threshold b"
    using assms by (simp add: breaker_quiet_def)
  have n: "failure_threshold b \<le> consecutive_failures b + 1 \<longleftrightarrow>
      \<not> unat (consecutive_failures b) + 1 < unat (failure_threshold b)"
    using unat_succ [OF lt] by (auto simp: word_le_nat_alt)
  have "breaker_admit b start = (b, Allowed False)"
    using assms(2) by (simp add: breaker_admit_def breaker_state_def brk_from_u8_def)
  then show ?thesis
    using assms lt n unat_succ [OF lt]
    by (cases outcome)
      (auto simp: op_call_def on_success_def on_failure_def probe_guard_drop_def breaker_quiet_def
        breaker_abs_def now_ms_def unat_saturate Let_def word_less_nat_alt not_le)
qed

lemma op_call_open:
  assumes "breaker_quiet b" "brk_state b = brk_as_u8 BrOpen" "0 < failure_threshold b"
    and "start < 2 ^ 64" "end < 2 ^ 64" "cooldown b < 2 ^ 64"
    and "op_call b timeout start outcome end = (b', r)"
  shows "breaker_quiet b' \<and>
    (case spec_call (unat (failure_threshold b)) (cooldown b) (breaker_abs b) start outcome end of
       None \<Rightarrow> b' = b \<and> r = Some (Inl OpOpen)
     | Some s' \<Rightarrow> breaker_abs b' = s' \<and> r = spec_result timeout outcome) \<and>
    failure_threshold b' = failure_threshold b \<and> cooldown b' = cooldown b"
proof -
  have e: "cooldown_elapsed b start \<longleftrightarrow> \<not> start - unat (opened_at_ms b) < cooldown b"
    using elapsed_iff [of start b] assms by (simp add: not_less)
  have "breaker_admit b start =
      (if cooldown_elapsed b start
       then (b\<lparr>probe_in_flight := True, brk_state := brk_as_u8 BrHalfOpen\<rparr>, Allowed True)
       else (b, Rejected))"
    using assms(1,2)
    by (simp add: breaker_admit_def breaker_state_def brk_from_u8_def claim_probe_def breaker_quiet_def)
  then show ?thesis
    using assms e
    by (cases outcome)
      (auto simp: op_call_def on_success_def on_failure_def probe_abandoned_def probe_guard_drop_def
        guard_disarm_def breaker_quiet_def breaker_abs_def now_ms_def unat_saturate Let_def)
qed

lemma op_calls_refine:
  assumes "breaker_quiet b" "0 < failure_threshold b" "cooldown b < 2 ^ 64"
    and "list_all (\<lambda>(start, _, end). start < 2 ^ 64 \<and> end < 2 ^ 64) xs"
  shows "apfst breaker_abs (op_calls timeout xs b) =
    spec_calls (unat (failure_threshold b)) (cooldown b) timeout xs (breaker_abs b)"
  using assms
proof (induction xs arbitrary: b)
  case (Cons x xs)
  obtain start outcome "end" where x: "x = (start, outcome, end)" by (cases x) auto
  obtain b' r where c: "op_call b timeout start outcome end = (b', r)"
    by (cases "op_call b timeout start outcome end") auto
  have t: "start < 2 ^ 64" "end < 2 ^ 64" using Cons.prems x by simp_all
  have res: "breaker_quiet b' \<and>
    (case spec_call (unat (failure_threshold b)) (cooldown b) (breaker_abs b) start outcome end of
       None \<Rightarrow> b' = b \<and> r = Some (Inl OpOpen)
     | Some s' \<Rightarrow> breaker_abs b' = s' \<and> r = spec_result timeout outcome) \<and>
    failure_threshold b' = failure_threshold b \<and> cooldown b' = cooldown b"
  proof (cases "brk_state b = brk_as_u8 BrOpen")
    case True
    then show ?thesis using op_call_open [OF _ _ _ t _ c] Cons.prems by blast
  next
    case False
    then have "brk_state b = brk_as_u8 BrClosed" using Cons.prems by (simp add: breaker_quiet_def)
    then show ?thesis using op_call_closed [OF _ _ t(2) c] Cons.prems by simp
  qed
  then have "apfst breaker_abs (op_calls timeout xs b') =
      spec_calls (unat (failure_threshold b)) (cooldown b) timeout xs (breaker_abs b')"
    using Cons.IH [of b'] Cons.prems by simp
  then show ?case using res x c
    by (auto simp: apfst_def apsnd_def map_prod_def split: option.splits prod.splits)
qed simp

subsection \<open>Properties\<close>

text \<open>
  \<^bold>\<open>C32\<close>: At most one probe is in flight. Under every schedule that interleaves the atomic steps
  of any number of calls with clock readings, outcomes and dropped futures, at most one call
  holds the probe, and the slot is taken exactly while one does: the flag is neither lost nor
  left behind.
\<close>

theorem at_most_one_probe:
  "probes (breaker_run es (breaker_start threshold cd)) \<le> 1 \<and>
   (probe_in_flight (breaker (breaker_run es (breaker_start threshold cd))) \<longleftrightarrow>
      probes (breaker_run es (breaker_start threshold cd)) = 1)"
  using breaker_run_slot [OF breaker_start_slot, of es threshold cd]
  by (auto simp: slot_ok_def split: if_splits)

text \<open>
  \<^bold>\<open>C30\<close>: The breaker is never wedged shut. In every reachable state, a call whose request has
  answered, failed, timed out or been dropped ends within five of its own atomic steps whatever
  the other calls do meanwhile, a probe giving its slot back; and when no call holds the
  probe, waiting for the cooldown is enough for the next call to be admitted.
\<close>

theorem breaker_never_wedges:
  assumes "c = breaker_run es (breaker_start threshold cd)"
  shows "(i < length (calls c) \<and> steps_left (calls c ! i) \<noteq> None \<and> 5 \<le> count_list later (Advance i) \<longrightarrow>
      calls (breaker_run later c) ! i = Finished) \<and>
    (probes c = 0 \<and> cd \<le> d \<and> clock c + d < 2 ^ 64 \<longrightarrow>
      snd (breaker_admit (breaker c) (clock c + d)) \<noteq> Rejected)"
proof (intro conjI impI)
  assume a: "i < length (calls c) \<and> steps_left (calls c ! i) \<noteq> None \<and> 5 \<le> count_list later (Advance i)"
  then have "ends_within 5 c i" using steps_left_le by (auto simp: ends_within_def)
  then have "ends_within (5 - count_list later (Advance i)) (breaker_run later c) i"
    by (rule ends_within_run)
  then show "calls (breaker_run later c) ! i = Finished" using a ends_within_0 by simp
next
  assume a: "probes c = 0 \<and> cd \<le> d \<and> clock c + d < 2 ^ 64"
  have "slot_ok c" "stamps_ok cd c"
    unfolding assms
    by (rule breaker_run_slot [OF breaker_start_slot], rule breaker_run_stamps [OF breaker_start_stamps])
  then show "snd (breaker_admit (breaker c) (clock c + d)) \<noteq> Rejected"
    using a by (intro admits_after_cooldown) (auto simp: slot_ok_def stamps_ok_def split: if_splits)
qed

text \<open>Two calls fail, the third becomes the probe after the cooldown, and its future is dropped.\<close>

definition example_schedule :: "nat BreakerEvent list" where
  "example_schedule =
     [Arrive, Advance 0, Resolve 0 TimedOut, Advance 0, Advance 0, Advance 0, Advance 0,
      Pass 10, Arrive, Advance 1, Advance 1, Advance 1, Advance 1, Arrive, Advance 1, Resolve 1 Dropped]"

definition example_later :: "nat BreakerEvent list" where
  "example_later = [Advance 2, Advance 1, Advance 1, Advance 2, Advance 1, Advance 1, Advance 1]"

theorem breaker_never_wedges_witness:
  "calls (breaker_run example_later (breaker_run example_schedule (breaker_start 1 10))) ! 1 = Finished"
proof -
  let ?c = "breaker_run example_schedule (breaker_start 1 10)"
  have "1 < length (calls ?c) \<and> steps_left (calls ?c ! 1) \<noteq> None"
    by (simp add: example_schedule_def breaker_run_def breaker_start_def breaker_new_def brk_from_u8_def
        u64_saturating_sub_def now_ms_def saturate_u64_def)
  moreover have "5 \<le> count_list example_later (Advance 1)" by (simp add: example_later_def)
  ultimately show ?thesis
    by (intro breaker_never_wedges [OF refl, THEN conjunct1, rule_format] conjI) simp_all
qed

text \<open>
  \<^bold>\<open>C38\<close>: Calls made one after another follow the documented machine: a closed breaker counts
  consecutive failures, opens at the threshold and forgets the count at any HTTP response; an
  open one answers \<open>OpOpen\<close> without a request until the cooldown has passed, then lets one
  probe decide; a dropped probe restarts the cooldown and a dropped normal call changes
  nothing.
\<close>

theorem sequential_calls_refine_the_documented_machine:
  assumes "cd < 2 ^ 64"
    and "list_all (\<lambda>(start, _, end). start < 2 ^ 64 \<and> end < 2 ^ 64) xs"
  shows "apfst breaker_abs (op_calls timeout xs (breaker_new threshold cd)) =
    spec_calls (max 1 (unat threshold)) cd timeout xs (SpecClosed 0)"
proof -
  let ?b = "breaker_new threshold cd"
  have m: "unat (max threshold 1) = max 1 (unat threshold)"
    by (simp add: max_def word_le_nat_alt)
  then have "0 < max threshold 1" by (simp add: word_less_nat_alt)
  then have "breaker_quiet ?b" "breaker_abs ?b = SpecClosed 0" "0 < failure_threshold ?b"
    by (simp_all add: breaker_quiet_def breaker_abs_def breaker_new_def)
  with op_calls_refine [of ?b xs timeout] assms m show ?thesis by (simp add: breaker_new_def)
qed

theorem sequential_calls_refine_the_documented_machine_witness:
  "snd (op_calls 5 [(0, TimedOut, 5), (7, Response (0 :: nat), 9), (15, Dropped, 16), (20, Response 1, 21),
      (26, Response 2, 27)] (breaker_new 0 10)) =
     [Some (Inl (OpTimeout 5)), Some (Inl OpOpen), None, Some (Inl OpOpen), Some (Inr 2)]"
proof -
  let ?xs = "[(0, TimedOut, 5), (7, Response (0 :: nat), 9), (15, Dropped, 16), (20, Response 1, 21),
      (26, Response 2, 27)]"
  have "snd (op_calls 5 ?xs (breaker_new 0 10)) =
      snd (apfst breaker_abs (op_calls 5 ?xs (breaker_new 0 10)))" by simp
  also have "\<dots> = snd (spec_calls (max 1 (unat (0 :: u32))) 10 5 ?xs (SpecClosed 0))"
    by (subst sequential_calls_refine_the_documented_machine) simp_all
  also have "\<dots> = [Some (Inl (OpTimeout 5)), Some (Inl OpOpen), None, Some (Inl OpOpen), Some (Inr 2)]"
    by simp
  finally show ?thesis .
qed

end
