(* ===== verification/NetAddr.thy ===== *)
theory NetAddr
  imports Prelude
begin

text \<open>
  Text, addresses and the platform's address floor
  (\<^verbatim>\<open>crates/zeroship-runtime/src/transport/ssrf.rs\<close>, \<^verbatim>\<open>normalize_name\<close> of
  \<^verbatim>\<open>crates/zeroship-core/src/net_policy.rs\<close>).

  A Rust string is the list of its Unicode scalar values. Addresses are their octets or 16-bit
  segments. The address predicates and the address parser of the standard library are written
  out as the library has them, since the floor and the name phase depend on them.

  The lemmas give the floor as the table of address ranges that its comments list, and show
  where the code departs from the table.
\<close>

type_synonym u16 = "16 word"
type_synonym rtext = "u32 list"

subsection \<open>Text\<close>

definition is_whitespace :: "u32 \<Rightarrow> bool" where
  "is_whitespace c \<longleftrightarrow> 9 \<le> c \<and> c \<le> 13 \<or> c = 32 \<or> c = 0x85 \<or> c = 0xA0 \<or> c = 0x1680 \<or>
     0x2000 \<le> c \<and> c \<le> 0x200A \<or> c = 0x2028 \<or> c = 0x2029 \<or> c = 0x202F \<or> c = 0x205F \<or> c = 0x3000"

definition trim_start_when :: "('a \<Rightarrow> bool) \<Rightarrow> 'a list \<Rightarrow> 'a list" where
  "trim_start_when p s = dropWhile p s"

definition trim_end_when :: "('a \<Rightarrow> bool) \<Rightarrow> 'a list \<Rightarrow> 'a list" where
  "trim_end_when p s = rev (dropWhile p (rev s))"

definition trim :: "rtext \<Rightarrow> rtext" where
  "trim s = trim_end_when is_whitespace (trim_start_when is_whitespace s)"

definition ascii_lower :: "u32 \<Rightarrow> u32" where
  "ascii_lower c = (if 0x41 \<le> c \<and> c \<le> 0x5A then c + 0x20 else c)"

abbreviation open_bracket :: u32 where "open_bracket \<equiv> 0x5B"
abbreviation close_bracket :: u32 where "close_bracket \<equiv> 0x5D"
abbreviation full_stop :: u32 where "full_stop \<equiv> 0x2E"
abbreviation colon :: u32 where "colon \<equiv> 0x3A"

definition strip_brackets :: "rtext \<Rightarrow> rtext" where
  "strip_brackets s = trim_end_when (\<lambda>c. c = close_bracket) (trim_start_when (\<lambda>c. c = open_bracket) s)"

definition normalize_name :: "rtext \<Rightarrow> rtext" where
  "normalize_name host =
     map ascii_lower (trim_end_when (\<lambda>c. c = full_stop) (strip_brackets (trim host)))"

subsection \<open>Addresses\<close>

datatype Ipv4Addr = Ipv4 u8 u8 u8 u8
datatype Ipv6Addr = Ipv6 u16 u16 u16 u16 u16 u16 u16 u16
datatype IpAddr = V4 Ipv4Addr | V6 Ipv6Addr

fun v4_is_loopback :: "Ipv4Addr \<Rightarrow> bool" where
  "v4_is_loopback (Ipv4 a b c d) \<longleftrightarrow> a = 127"

fun v4_is_private :: "Ipv4Addr \<Rightarrow> bool" where
  "v4_is_private (Ipv4 a b c d) \<longleftrightarrow>
     a = 10 \<or> a = 172 \<and> 16 \<le> b \<and> b \<le> 31 \<or> a = 192 \<and> b = 168"

fun v4_is_link_local :: "Ipv4Addr \<Rightarrow> bool" where
  "v4_is_link_local (Ipv4 a b c d) \<longleftrightarrow> a = 169 \<and> b = 254"

fun v4_is_unspecified :: "Ipv4Addr \<Rightarrow> bool" where
  "v4_is_unspecified (Ipv4 a b c d) \<longleftrightarrow> a = 0 \<and> b = 0 \<and> c = 0 \<and> d = 0"

fun v4_is_broadcast :: "Ipv4Addr \<Rightarrow> bool" where
  "v4_is_broadcast (Ipv4 a b c d) \<longleftrightarrow> a = 255 \<and> b = 255 \<and> c = 255 \<and> d = 255"

fun v4_is_multicast :: "Ipv4Addr \<Rightarrow> bool" where
  "v4_is_multicast (Ipv4 a b c d) \<longleftrightarrow> 224 \<le> a \<and> a \<le> 239"

fun v4_is_documentation :: "Ipv4Addr \<Rightarrow> bool" where
  "v4_is_documentation (Ipv4 a b c d) \<longleftrightarrow>
     a = 192 \<and> b = 0 \<and> c = 2 \<or> a = 198 \<and> b = 51 \<and> c = 100 \<or> a = 203 \<and> b = 0 \<and> c = 113"

fun v6_is_loopback :: "Ipv6Addr \<Rightarrow> bool" where
  "v6_is_loopback v6 \<longleftrightarrow> v6 = Ipv6 0 0 0 0 0 0 0 1"

fun v6_is_unspecified :: "Ipv6Addr \<Rightarrow> bool" where
  "v6_is_unspecified v6 \<longleftrightarrow> v6 = Ipv6 0 0 0 0 0 0 0 0"

fun v6_is_multicast :: "Ipv6Addr \<Rightarrow> bool" where
  "v6_is_multicast (Ipv6 a b c d e f g h) \<longleftrightarrow> and a 0xff00 = 0xff00"

subsection \<open>The floor\<close>

definition ipv4_from_segments :: "u16 \<Rightarrow> u16 \<Rightarrow> Ipv4Addr" where
  "ipv4_from_segments high low =
     Ipv4 (ucast (drop_bit 8 high)) (ucast high) (ucast (drop_bit 8 low)) (ucast low)"

fun v6_to_ipv4_mapped :: "Ipv6Addr \<Rightarrow> Ipv4Addr option" where
  "v6_to_ipv4_mapped (Ipv6 a b c d e f g h) =
     (if [a, b, c, d, e, f] = [0, 0, 0, 0, 0, 0xffff] then Some (ipv4_from_segments g h) else None)"

fun nat64_embedded_ipv4 :: "Ipv6Addr \<Rightarrow> Ipv4Addr option" where
  "nat64_embedded_ipv4 (Ipv6 a b c d e f g h) =
     (if [a, b, c, d, e, f] = [0x0064, 0xff9b, 0, 0, 0, 0] then Some (ipv4_from_segments g h) else None)"

fun ipv4_compatible_embedded_ipv4 :: "Ipv6Addr \<Rightarrow> Ipv4Addr option" where
  "ipv4_compatible_embedded_ipv4 (Ipv6 a b c d e f g h) =
     (if [a, b, c, d, e, f] = [0, 0, 0, 0, 0, 0] \<and> (g \<noteq> 0 \<or> h \<noteq> 0)
      then Some (ipv4_from_segments g h) else None)"

fun is_blocked_ipv4 :: "Ipv4Addr \<Rightarrow> bool" where
  "is_blocked_ipv4 (Ipv4 a b c d) \<longleftrightarrow>
     v4_is_loopback (Ipv4 a b c d) \<or> v4_is_private (Ipv4 a b c d) \<or> v4_is_link_local (Ipv4 a b c d) \<or>
     v4_is_unspecified (Ipv4 a b c d) \<or> v4_is_broadcast (Ipv4 a b c d) \<or>
     v4_is_multicast (Ipv4 a b c d) \<or> v4_is_documentation (Ipv4 a b c d) \<or>
     a = 0 \<or>
     a = 100 \<and> and b 0xC0 = 64 \<or>
     a = 192 \<and> b = 0 \<and> c = 0 \<or>
     a = 198 \<and> and b 0xFE = 18 \<or>
     a \<ge> 240"

fun is_blocked_ipv6 :: "Ipv6Addr \<Rightarrow> bool" where
  "is_blocked_ipv6 (Ipv6 a b c d e f g h) \<longleftrightarrow>
     (case nat64_embedded_ipv4 (Ipv6 a b c d e f g h) of Some v4 \<Rightarrow> is_blocked_ipv4 v4 | None \<Rightarrow> False) \<or>
     (case ipv4_compatible_embedded_ipv4 (Ipv6 a b c d e f g h) of
        Some v4 \<Rightarrow> is_blocked_ipv4 v4 | None \<Rightarrow> False) \<or>
     v6_is_loopback (Ipv6 a b c d e f g h) \<or> v6_is_unspecified (Ipv6 a b c d e f g h) \<or>
     v6_is_multicast (Ipv6 a b c d e f g h) \<or>
     and a 0xffc0 = 0xfe80 \<or>
     and a 0xfe00 = 0xfc00 \<or>
     [a, b, c, d, e] = [0, 0, 0, 0, 0] \<and> f = 0xffff \<or>
     a = 0x2001 \<and> b = 0xdb8 \<or>
     a = 0x2001 \<and> and b 0xff00 = 0x0200"

fun is_blocked_ip :: "IpAddr \<Rightarrow> bool" where
  "is_blocked_ip (V4 v4) = is_blocked_ipv4 v4"
| "is_blocked_ip (V6 v6) = is_blocked_ipv6 v6"

fun is_loopback_ip :: "IpAddr \<Rightarrow> bool" where
  "is_loopback_ip (V4 v4) = v4_is_loopback v4"
| "is_loopback_ip (V6 v6) \<longleftrightarrow> v6_is_loopback v6 \<or>
     (case v6_to_ipv4_mapped v6 of Some v4 \<Rightarrow> v4_is_loopback v4 | None \<Rightarrow> False)"

definition is_blocked_ip_under_dev :: "IpAddr \<Rightarrow> bool \<Rightarrow> bool" where
  "is_blocked_ip_under_dev addr dev_loopback \<longleftrightarrow>
     is_blocked_ip addr \<and> \<not> (dev_loopback \<and> is_loopback_ip addr)"

subsection \<open>Parsing an address\<close>

text \<open>
  The parser of the standard library: each reader returns the value and the rest of the text,
  or \<open>None\<close> without having consumed anything.
\<close>

definition to_digit :: "u32 \<Rightarrow> u32 \<Rightarrow> u32 option" where
  "to_digit c radix =
     (let v = (if 0x30 \<le> c \<and> c \<le> 0x39 then Some (c - 0x30)
               else if 0x61 \<le> c \<and> c \<le> 0x7A then Some (c - 0x61 + 10)
               else if 0x41 \<le> c \<and> c \<le> 0x5A then Some (c - 0x41 + 10)
               else None)
      in case v of Some n \<Rightarrow> if n < radix then Some n else None | None \<Rightarrow> None)"

definition read_char :: "u32 \<Rightarrow> rtext \<Rightarrow> rtext option" where
  "read_char c s = (case s of x # xs \<Rightarrow> if x = c then Some xs else None | [] \<Rightarrow> None)"

text \<open>The digits of a number, at most \<open>most\<close> of them: \<open>None\<close> when one more follows.\<close>

fun number_digits :: "u32 \<Rightarrow> nat \<Rightarrow> nat \<Rightarrow> u32 \<Rightarrow> rtext \<Rightarrow> (u32 \<times> nat \<times> rtext) option" where
  "number_digits radix most count result [] = Some (result, count, [])"
| "number_digits radix most count result (c # cs) =
     (case to_digit c radix of
        None \<Rightarrow> Some (result, count, c # cs)
      | Some digit \<Rightarrow>
          if count + 1 > most then None
          else number_digits radix most (count + 1) (result * radix + digit) cs)"

definition read_number :: "u32 \<Rightarrow> u32 \<Rightarrow> nat \<Rightarrow> bool \<Rightarrow> rtext \<Rightarrow> (u32 \<times> rtext) option" where
  "read_number radix bound most allow_zero_prefix s =
     (case number_digits radix most 0 0 s of
        None \<Rightarrow> None
      | Some (result, count, rest) \<Rightarrow>
          if count = 0 then None
          else if \<not> allow_zero_prefix \<and> hd s = 0x30 \<and> count > 1 then None
          else if result < bound then Some (result, rest) else None)"

definition read_separator ::
  "u32 \<Rightarrow> nat \<Rightarrow> (rtext \<Rightarrow> ('a \<times> rtext) option) \<Rightarrow> rtext \<Rightarrow> ('a \<times> rtext) option" where
  "read_separator sep index inner s =
     (if index > 0 then Option.bind (read_char sep s) inner else inner s)"

fun read_octets :: "nat \<Rightarrow> nat \<Rightarrow> rtext \<Rightarrow> (u8 list \<times> rtext) option" where
  "read_octets 0 i s = Some ([], s)"
| "read_octets (Suc n) i s =
     Option.bind (read_separator full_stop i (read_number 10 256 3 False) s) (\<lambda>(v, s).
     Option.bind (read_octets n (i + 1) s) (\<lambda>(vs, s). Some (ucast v # vs, s)))"

definition read_ipv4_addr :: "rtext \<Rightarrow> (Ipv4Addr \<times> rtext) option" where
  "read_ipv4_addr s =
     (case read_octets 4 0 s of
        Some ([a, b, c, d], s) \<Rightarrow> Some (Ipv4 a b c d, s)
      | _ \<Rightarrow> None)"

text \<open>
  The groups of one side of \<^verbatim>\<open>::\<close>: \<open>n\<close> groups still fit, \<open>i\<close> have been read. The result
  says whether the last two came from a trailing IPv4 address.
\<close>

fun read_groups :: "nat \<Rightarrow> nat \<Rightarrow> rtext \<Rightarrow> u16 list \<times> bool \<times> rtext" where
  "read_groups 0 i s = ([], False, s)"
| "read_groups (Suc n) i s =
     (case (if n > 0 then read_separator colon i read_ipv4_addr s else None) of
        Some (Ipv4 a b c d, s) \<Rightarrow>
          ([or (push_bit 8 (ucast a)) (ucast b), or (push_bit 8 (ucast c)) (ucast d)], True, s)
      | None \<Rightarrow>
          (case read_separator colon i (read_number 16 65536 4 True) s of
             Some (g, s) \<Rightarrow> (let (gs, v4, s) = read_groups n (i + 1) s in (ucast g # gs, v4, s))
           | None \<Rightarrow> ([], False, s)))"

fun ipv6_from :: "u16 list \<Rightarrow> Ipv6Addr option" where
  "ipv6_from [a, b, c, d, e, f, g, h] = Some (Ipv6 a b c d e f g h)"
| "ipv6_from gs = None"

definition read_ipv6_addr :: "rtext \<Rightarrow> (Ipv6Addr \<times> rtext) option" where
  "read_ipv6_addr s =
     (let (head, head_ipv4, s) = read_groups 8 0 s
      in if length head = 8 then map_option (\<lambda>a. (a, s)) (ipv6_from head)
         else if head_ipv4 then None
         else Option.bind (Option.bind (read_char colon s) (read_char colon)) (\<lambda>s.
           let (tail, _, s) = read_groups (8 - (length head + 1)) 0 s
           in map_option (\<lambda>a. (a, s))
                (ipv6_from (head @ replicate (8 - length head - length tail) 0 @ tail))))"

definition parse_ip_addr :: "rtext \<Rightarrow> IpAddr option" where
  "parse_ip_addr s =
     (case (case read_ipv4_addr s of
              Some (v4, rest) \<Rightarrow> Some (V4 v4, rest)
            | None \<Rightarrow> map_option (\<lambda>(v6, rest). (V6 v6, rest)) (read_ipv6_addr s)) of
        Some (addr, []) \<Rightarrow> Some addr
      | _ \<Rightarrow> None)"

subsection \<open>The floor as a table of ranges\<close>

text \<open>
  A range in CIDR notation: the parts of the base address, each of \<open>w\<close> bits, and the number of
  leading bits that count.
\<close>

fun in_range :: "nat \<Rightarrow> nat list \<Rightarrow> nat \<Rightarrow> nat list \<Rightarrow> bool" where
  "in_range w (x # xs) len (y # ys) =
     (if len = 0 then True
      else if len \<ge> w then y = x \<and> in_range w xs (len - w) ys
      else y div 2 ^ (w - len) = x div 2 ^ (w - len))"
| "in_range w xs len ys = (len = 0)"

fun octets :: "Ipv4Addr \<Rightarrow> nat list" where
  "octets (Ipv4 a b c d) = map unat [a, b, c, d]"

fun segments :: "Ipv6Addr \<Rightarrow> nat list" where
  "segments (Ipv6 a b c d e f g h) = map unat [a, b, c, d, e, f, g, h]"

definition floor_v4 :: "(nat list \<times> nat) list" where
  "floor_v4 =
     [([127, 0, 0, 0], 8), ([10, 0, 0, 0], 8), ([172, 16, 0, 0], 12), ([192, 168, 0, 0], 16),
      ([169, 254, 0, 0], 16), ([0, 0, 0, 0], 32), ([255, 255, 255, 255], 32), ([224, 0, 0, 0], 4),
      ([192, 0, 2, 0], 24), ([198, 51, 100, 0], 24), ([203, 0, 113, 0], 24), ([0, 0, 0, 0], 8),
      ([100, 64, 0, 0], 10), ([192, 0, 0, 0], 24), ([198, 18, 0, 0], 15), ([240, 0, 0, 0], 4)]"

definition floor_v6 :: "(nat list \<times> nat) list" where
  "floor_v6 =
     [([0, 0, 0, 0, 0, 0, 0, 1], 128), ([0, 0, 0, 0, 0, 0, 0, 0], 128), ([0xff00, 0, 0, 0, 0, 0, 0, 0], 8),
      ([0xfe80, 0, 0, 0, 0, 0, 0, 0], 10), ([0xfc00, 0, 0, 0, 0, 0, 0, 0], 7),
      ([0, 0, 0, 0, 0, 0xffff, 0, 0], 96), ([0x2001, 0xdb8, 0, 0, 0, 0, 0, 0], 32),
      ([0x2001, 2, 0, 0, 0, 0, 0, 0], 48)]"

text \<open>The last test of the code is for another range than the one its comment names and the table lists.\<close>

definition tested_v6 :: "(nat list \<times> nat) list" where
  "tested_v6 = butlast floor_v6 @ [([0x2001, 0x200, 0, 0, 0, 0, 0, 0], 24)]"

fun in_either_benchmarking_range :: "IpAddr \<Rightarrow> bool" where
  "in_either_benchmarking_range (V4 v4) = False"
| "in_either_benchmarking_range (V6 v6) \<longleftrightarrow>
     in_range 16 [0x2001, 2, 0, 0, 0, 0, 0, 0] 48 (segments v6) \<or> in_range 16 [0x2001, 0x200, 0, 0, 0, 0, 0, 0] 24 (segments v6)"

definition blocked_v4_spec :: "Ipv4Addr \<Rightarrow> bool" where
  "blocked_v4_spec v4 \<longleftrightarrow> list_ex (\<lambda>(base, len). in_range 8 base len (octets v4)) floor_v4"

text \<open>The IPv4 address in the low 32 bits of an address under one of the two embedding prefixes.\<close>

definition embeds_blocked :: "nat list \<Rightarrow> Ipv6Addr \<Rightarrow> bool" where
  "embeds_blocked base v6 \<longleftrightarrow> in_range 16 base 96 (segments v6) \<and>
     (case v6 of Ipv6 a b c d e f g h \<Rightarrow> blocked_v4_spec (ipv4_from_segments g h))"

definition blocked_v6_spec :: "Ipv6Addr \<Rightarrow> bool" where
  "blocked_v6_spec v6 \<longleftrightarrow>
     list_ex (\<lambda>(base, len). in_range 16 base len (segments v6)) tested_v6 \<or>
     embeds_blocked [0x64, 0xff9b, 0, 0, 0, 0, 0, 0] v6 \<or> embeds_blocked [0, 0, 0, 0, 0, 0, 0, 0] v6"

lemma masked_eq_iff:
  fixes a c :: "'a::len word"
  assumes "and c (not (mask k)) = c"
  shows "and a (not (mask k)) = c \<longleftrightarrow> unat a div 2 ^ k = unat c div 2 ^ k"
proof -
  have "and a (not (mask k)) = c \<longleftrightarrow> and a (not (mask k)) = and c (not (mask k))" using assms by simp
  also have "\<dots> \<longleftrightarrow> drop_bit k a = drop_bit k c"
  proof
    assume eq: "and a (not (mask k)) = and c (not (mask k))"
    have "bit a (n + k) = bit c (n + k)" if "n + k < LENGTH('a)" for n
      using arg_cong [OF eq, of "\<lambda>w. bit w (n + k)"] that by (simp add: bit_simps)
    then show "drop_bit k a = drop_bit k c"
      by (intro bit_word_eqI) (auto simp: bit_simps add.commute dest: bit_imp_le_length)
  next
    assume eq: "drop_bit k a = drop_bit k c"
    have "bit a n = bit c n" if "k \<le> n" for n
      using arg_cong [OF eq, of "\<lambda>w. bit w (n - k)"] that by (simp add: bit_simps)
    then show "and a (not (mask k)) = and c (not (mask k))"
      by (intro bit_word_eqI) (auto simp: bit_simps)
  qed
  also have "\<dots> \<longleftrightarrow> unat a div 2 ^ k = unat c div 2 ^ k"
    by (simp add: word_unat_eq_iff unsigned_drop_bit_eq take_bit_nat_eq_self flip: drop_bit_eq_div)
  finally show ?thesis .
qed

lemma octet_masks:
  fixes b :: u8
  shows "and b 0xC0 = 64 \<longleftrightarrow> unat b div 64 = 1" and "and b 0xFE = 18 \<longleftrightarrow> unat b div 2 = 9"
proof -
  have m: "(0xC0 :: u8) = not (mask 6)" "(0xFE :: u8) = not (mask 1)" by code_simp+
  show "and b 0xC0 = 64 \<longleftrightarrow> unat b div 64 = 1"
    unfolding m(1) by (subst masked_eq_iff) (code_simp, simp)
  show "and b 0xFE = 18 \<longleftrightarrow> unat b div 2 = 9"
    unfolding m(2) by (subst masked_eq_iff) (code_simp, simp)
qed

lemma segment_masks:
  fixes a :: u16
  shows "and a 0xff00 = 0xff00 \<longleftrightarrow> unat a div 256 = 0xff"
    and "and a 0xff00 = 0x0200 \<longleftrightarrow> unat a div 256 = 2"
    and "and a 0xffc0 = 0xfe80 \<longleftrightarrow> unat a div 64 = 0x3fa"
    and "and a 0xfe00 = 0xfc00 \<longleftrightarrow> unat a div 512 = 0x7e"
proof -
  have "not (mask 8) = (0xff00 :: u16)" "not (mask 6) = (0xffc0 :: u16)" "not (mask 9) = (0xfe00 :: u16)"
    by code_simp+
  then show "and a 0xff00 = 0xff00 \<longleftrightarrow> unat a div 256 = 0xff"
    "and a 0xff00 = 0x0200 \<longleftrightarrow> unat a div 256 = 2"
    "and a 0xffc0 = 0xfe80 \<longleftrightarrow> unat a div 64 = 0x3fa"
    "and a 0xfe00 = 0xfc00 \<longleftrightarrow> unat a div 512 = 0x7e"
    using masked_eq_iff [of "0xff00 :: u16" 8 a] masked_eq_iff [of "0x0200 :: u16" 8 a]
      masked_eq_iff [of "0xfe80 :: u16" 6 a] masked_eq_iff [of "0xfc00 :: u16" 9 a] by simp_all
qed

lemma unat_octet: "unat b < 256" for b :: u8
proof -
  have "unat b < 2 ^ LENGTH(8)" by (rule unsigned_less)
  then show ?thesis by simp
qed

lemma octet_ranges:
  "16 \<le> b \<and> b \<le> 31 \<longleftrightarrow> unat b div 16 = 1" "224 \<le> b \<and> b \<le> 239 \<longleftrightarrow> unat b div 16 = 14"
  "240 \<le> b \<longleftrightarrow> unat b div 16 = 15" for b :: u8
  using unat_octet [of b] by (auto simp: word_le_nat_alt)

text \<open>Each test of the code is a row of the table.\<close>

lemma v4_rows:
  fixes a b c d :: u8
  defines "row \<equiv> \<lambda>base len. in_range 8 base len (octets (Ipv4 a b c d))"
  shows "v4_is_loopback (Ipv4 a b c d) \<longleftrightarrow> row [127, 0, 0, 0] 8"
    and "v4_is_private (Ipv4 a b c d) \<longleftrightarrow>
           row [10, 0, 0, 0] 8 \<or> row [172, 16, 0, 0] 12 \<or> row [192, 168, 0, 0] 16"
    and "v4_is_link_local (Ipv4 a b c d) \<longleftrightarrow> row [169, 254, 0, 0] 16"
    and "v4_is_unspecified (Ipv4 a b c d) \<longleftrightarrow> row [0, 0, 0, 0] 32"
    and "v4_is_broadcast (Ipv4 a b c d) \<longleftrightarrow> row [255, 255, 255, 255] 32"
    and "v4_is_multicast (Ipv4 a b c d) \<longleftrightarrow> row [224, 0, 0, 0] 4"
    and "v4_is_documentation (Ipv4 a b c d) \<longleftrightarrow>
           row [192, 0, 2, 0] 24 \<or> row [198, 51, 100, 0] 24 \<or> row [203, 0, 113, 0] 24"
    and "a = 0 \<longleftrightarrow> row [0, 0, 0, 0] 8"
    and "a = 100 \<and> and b 0xC0 = 64 \<longleftrightarrow> row [100, 64, 0, 0] 10"
    and "a = 192 \<and> b = 0 \<and> c = 0 \<longleftrightarrow> row [192, 0, 0, 0] 24"
    and "a = 198 \<and> and b 0xFE = 18 \<longleftrightarrow> row [198, 18, 0, 0] 15"
    and "a \<ge> 240 \<longleftrightarrow> row [240, 0, 0, 0] 4"
  unfolding row_def
  by (simp_all add: octet_masks octet_ranges word_unat_eq_iff [of a] word_unat_eq_iff [of b]
      word_unat_eq_iff [of c] word_unat_eq_iff [of d])

lemma is_blocked_ipv4_spec: "is_blocked_ipv4 v4 = blocked_v4_spec v4"
proof (cases v4)
  case (Ipv4 a b c d)
  show ?thesis
    unfolding Ipv4 is_blocked_ipv4.simps v4_rows [of a b c d] blocked_v4_spec_def floor_v4_def
    by (simp only: list_ex_Nil_iff list_ex_Cons_iff prod.case disj_assoc simp_thms)
qed

lemma v6_rows:
  fixes a b c d e f g h :: u16
  defines "v6 \<equiv> Ipv6 a b c d e f g h"
  defines "row \<equiv> \<lambda>base len. in_range 16 base len (segments v6)"
  shows "(case nat64_embedded_ipv4 v6 of Some v4 \<Rightarrow> is_blocked_ipv4 v4 | None \<Rightarrow> False) \<longleftrightarrow>
           embeds_blocked [0x64, 0xff9b, 0, 0, 0, 0, 0, 0] v6"
    and "(case ipv4_compatible_embedded_ipv4 v6 of Some v4 \<Rightarrow> is_blocked_ipv4 v4 | None \<Rightarrow> False) \<longleftrightarrow>
           embeds_blocked [0, 0, 0, 0, 0, 0, 0, 0] v6 \<and> \<not> row [0, 0, 0, 0, 0, 0, 0, 0] 128"
    and "v6_is_loopback v6 \<longleftrightarrow> row [0, 0, 0, 0, 0, 0, 0, 1] 128"
    and "v6_is_unspecified v6 \<longleftrightarrow> row [0, 0, 0, 0, 0, 0, 0, 0] 128"
    and "v6_is_multicast v6 \<longleftrightarrow> row [0xff00, 0, 0, 0, 0, 0, 0, 0] 8"
    and "and a 0xffc0 = 0xfe80 \<longleftrightarrow> row [0xfe80, 0, 0, 0, 0, 0, 0, 0] 10"
    and "and a 0xfe00 = 0xfc00 \<longleftrightarrow> row [0xfc00, 0, 0, 0, 0, 0, 0, 0] 7"
    and "[a, b, c, d, e] = [0, 0, 0, 0, 0] \<and> f = 0xffff \<longleftrightarrow> row [0, 0, 0, 0, 0, 0xffff, 0, 0] 96"
    and "a = 0x2001 \<and> b = 0xdb8 \<longleftrightarrow> row [0x2001, 0xdb8, 0, 0, 0, 0, 0, 0] 32"
    and "a = 0x2001 \<and> and b 0xff00 = 0x0200 \<longleftrightarrow> row [0x2001, 0x200, 0, 0, 0, 0, 0, 0] 24"
  unfolding row_def v6_def embeds_blocked_def is_blocked_ipv4_spec
  by (auto simp: segment_masks word_unat_eq_iff [of a] word_unat_eq_iff [of b]
      word_unat_eq_iff [of c] word_unat_eq_iff [of d] word_unat_eq_iff [of e] word_unat_eq_iff [of f]
      word_unat_eq_iff [of g] word_unat_eq_iff [of h])

lemma tested_v6_rows:
  "tested_v6 =
     [([0, 0, 0, 0, 0, 0, 0, 1], 128), ([0, 0, 0, 0, 0, 0, 0, 0], 128), ([0xff00, 0, 0, 0, 0, 0, 0, 0], 8),
      ([0xfe80, 0, 0, 0, 0, 0, 0, 0], 10), ([0xfc00, 0, 0, 0, 0, 0, 0, 0], 7),
      ([0, 0, 0, 0, 0, 0xffff, 0, 0], 96), ([0x2001, 0xdb8, 0, 0, 0, 0, 0, 0], 32),
      ([0x2001, 0x200, 0, 0, 0, 0, 0, 0], 24)]"
  by (simp add: tested_v6_def floor_v6_def)

text \<open>Outside the two benchmarking ranges the tests and the table agree.\<close>

lemma tested_is_documented:
  "\<not> in_either_benchmarking_range (V6 v6) \<Longrightarrow>
   list_ex (\<lambda>(base, len). in_range 16 base len (segments v6)) tested_v6 \<longleftrightarrow>
   list_ex (\<lambda>(base, len). in_range 16 base len (segments v6)) floor_v6"
  unfolding tested_v6_rows floor_v6_def in_either_benchmarking_range.simps list_ex_Nil_iff list_ex_Cons_iff prod.case by blast

lemma is_blocked_ipv6_spec: "is_blocked_ipv6 v6 = blocked_v6_spec v6"
proof (cases v6)
  case (Ipv6 a b c d e f g h)
  show ?thesis
    unfolding Ipv6 is_blocked_ipv6.simps v6_rows [of a b c d e f g h] blocked_v6_spec_def tested_v6_rows
      list_ex_Nil_iff list_ex_Cons_iff prod.case by blast
qed

subsection \<open>Properties\<close>

text \<open>
  \<^bold>\<open>C20\<close>: The address floor is the table of ranges its comments list. The octet and bit tests of the
  code accept exactly the IPv4 addresses in one of the sixteen listed ranges. Outside the benchmarking
  range of the last comment and the range its test reads instead, they accept exactly the IPv6 addresses
  in one of the listed ranges or with a blocked IPv4 address in the low bits under the NAT64 prefix or
  the IPv4-compatible prefix.
\<close>

theorem floor_is_a_table_of_ranges:
  assumes "\<not> in_either_benchmarking_range ip"
  shows "is_blocked_ip ip \<longleftrightarrow>
     (case ip of
        V4 v4 \<Rightarrow> list_ex (\<lambda>(base, len). in_range 8 base len (octets v4)) floor_v4
      | V6 v6 \<Rightarrow> list_ex (\<lambda>(base, len). in_range 16 base len (segments v6)) floor_v6 \<or>
          embeds_blocked [0x64, 0xff9b, 0, 0, 0, 0, 0, 0] v6 \<or> embeds_blocked [0, 0, 0, 0, 0, 0, 0, 0] v6)"
  using assms
  by (cases ip)
    (simp_all add: is_blocked_ipv4_spec is_blocked_ipv6_spec blocked_v4_spec_def blocked_v6_spec_def tested_is_documented
      del: in_either_benchmarking_range.simps)

lemma floor_is_a_table_of_ranges_witness:
  "is_blocked_ip (V6 (Ipv6 0x64 0xff9b 0 0 0 0 0x0a00 1)) \<longleftrightarrow>
     list_ex (\<lambda>(base, len). in_range 16 base len (segments (Ipv6 0x64 0xff9b 0 0 0 0 0x0a00 1))) floor_v6 \<or>
     embeds_blocked [0x64, 0xff9b, 0, 0, 0, 0, 0, 0] (Ipv6 0x64 0xff9b 0 0 0 0 0x0a00 1) \<or>
     embeds_blocked [0, 0, 0, 0, 0, 0, 0, 0] (Ipv6 0x64 0xff9b 0 0 0 0 0x0a00 1)"
proof -
  have "\<not> in_either_benchmarking_range (V6 (Ipv6 0x64 0xff9b 0 0 0 0 0x0a00 1))" by simp
  from floor_is_a_table_of_ranges [OF this] show ?thesis by (simp only: IpAddr.case)
qed

text \<open>
  \<^bold>\<open>C40\<close>: The benchmarking range is open. The last test of the IPv6 floor is meant for
  \<open>2001:2::/48\<close>, whose second segment is 2; it compares the high byte of that segment with
  2 instead. So no address of the benchmarking range is blocked, and every address of
  \<open>2001:200::/24\<close> is.
\<close>

theorem benchmarking_range_is_not_blocked:
  "\<not> is_blocked_ip (V6 (Ipv6 0x2001 2 0 d e f g h)) \<and>
   is_blocked_ip (V6 (Ipv6 0x2001 0x200 c d e f g h))"
  by (simp add: is_blocked_ipv6_spec blocked_v6_spec_def tested_v6_rows embeds_blocked_def)

end
