(* ===== verification/Egress.thy ===== *)
theory Egress
  imports NetAddr
begin

text \<open>
  The egress rules of an app and their evaluation
  (\<^verbatim>\<open>crates/zeroship-core/src/net_policy.rs\<close>,
  \<^verbatim>\<open>crates/zeroship-runtime/src/transport/{net_policy,egress}.rs\<close>).

  The address ranges of the third-party crate \<^verbatim>\<open>ipnet\<close> are the argument \<open>ops\<close>: how a range is
  parsed, truncated, printed and tested. The resolver is the argument \<open>resolve\<close>, and
  \<open>evaluate\<close> also returns the queries it made and how often the gate opened for a name no rule
  admits. An error text built with \<^verbatim>\<open>format!\<close> is a value of \<open>RuleError\<close>.

  The lemmas give the verdict as a function of the set of rules, from which the platform
  floor, the precedence of rejects, the DNS gate and the irrelevance of rule order follow.
\<close>

subsection \<open>Rules\<close>

record 'n IpNetOps =
  net_parse :: "rtext \<Rightarrow> 'n option"
  net_trunc :: "'n \<Rightarrow> 'n"
  net_contains :: "'n \<Rightarrow> IpAddr \<Rightarrow> bool"
  net_prefix_len :: "'n \<Rightarrow> nat"
  net_is_v4 :: "'n \<Rightarrow> bool"
  net_text :: "'n \<Rightarrow> rtext"

definition MIN_ACCEPT_PREFIX_V4 :: nat where
  "MIN_ACCEPT_PREFIX_V4 = 16"

definition MIN_ACCEPT_PREFIX_V6 :: nat where
  "MIN_ACCEPT_PREFIX_V6 = 32"

datatype RuleVerdict = Accept | Reject

datatype PhaseMatch = Matches | DoesNotMatch | Undecidable

datatype 'n Destination = Name rtext | Range 'n

datatype 'n RuleError =
    EmptyDestination
  | InvalidCidr rtext
  | EmptyName
  | WildcardName rtext
  | LiteralName rtext
  | SingleLabel rtext
  | PortZero
  | BroaderThanFloor 'n nat

definition validate_name :: "rtext \<Rightarrow> 'n RuleError + rtext" where
  "validate_name raw =
     (let name = normalize_name raw
      in if name = [] then Inl EmptyName
         else if 0x2A \<in> set name then Inl (WildcardName name)
         else if parse_ip_addr name \<noteq> None then Inl (LiteralName name)
         else if full_stop \<notin> set name then Inl (SingleLabel name)
         else Inr name)"

definition destination_parse :: "'n IpNetOps \<Rightarrow> rtext \<Rightarrow> 'n RuleError + 'n Destination" where
  "destination_parse ops raw =
     (let trimmed = trim raw
      in if trimmed = [] then Inl EmptyDestination
         else if 0x2F \<in> set trimmed then
           (case net_parse ops trimmed of
              None \<Rightarrow> Inl (InvalidCidr trimmed)
            | Some net \<Rightarrow> Inr (Range (net_trunc ops net)))
         else and_then (validate_name trimmed) (\<lambda>name. Inr (Name name)))"

fun destination_text :: "'n IpNetOps \<Rightarrow> 'n Destination \<Rightarrow> rtext" where
  "destination_text ops (Name name) = name"
| "destination_text ops (Range net) = net_text ops net"

fun matches_name :: "'n Destination \<Rightarrow> rtext \<Rightarrow> PhaseMatch" where
  "matches_name (Name rule_name) name =
     (if rule_name = normalize_name name then Matches else DoesNotMatch)"
| "matches_name (Range net) name = Undecidable"

fun matches_addr :: "'n IpNetOps \<Rightarrow> 'n Destination \<Rightarrow> IpAddr \<Rightarrow> PhaseMatch" where
  "matches_addr ops (Name rule_name) addr = Undecidable"
| "matches_addr ops (Range net) addr = (if net_contains ops net addr then Matches else DoesNotMatch)"

record 'n EgressRule =
  eg_verdict :: RuleVerdict
  eg_destination :: "'n Destination"
  eg_port :: u16

definition egress_rule_parse :: "'n IpNetOps \<Rightarrow> RuleVerdict \<Rightarrow> rtext \<Rightarrow> u16 \<Rightarrow> 'n RuleError + 'n EgressRule" where
  "egress_rule_parse ops verdict destination port =
     (if port = 0 then Inl PortZero
      else and_then (destination_parse ops destination) (\<lambda>destination.
        let rule = \<lparr>eg_verdict = verdict, eg_destination = destination, eg_port = port\<rparr>
        in case (verdict, destination) of
             (Accept, Range net) \<Rightarrow>
               (let bound = (if net_is_v4 ops net then MIN_ACCEPT_PREFIX_V4 else MIN_ACCEPT_PREFIX_V6)
                in if net_prefix_len ops net < bound then Inl (BroaderThanFloor net bound) else Inr rule)
           | _ \<Rightarrow> Inr rule))"

definition rules_validated :: "'n IpNetOps \<Rightarrow> 'n EgressRule list \<Rightarrow> 'n RuleError + 'n EgressRule list" where
  "rules_validated ops rules =
     and_then
       (try_fold (\<lambda>rule _. and_then
            (egress_rule_parse ops (eg_verdict rule) (destination_text ops (eg_destination rule)) (eg_port rule))
            (\<lambda>_. Inr ())) rules ())
       (\<lambda>_. Inr rules)"

datatype NamePhase = NameRejectedPhase | NoRuleCouldAdmitPhase | ResolvePhase bool

datatype AddressPhase = RangeRejected | NoAcceptMatched | AddressAdmitted

definition holds_range_accept_at :: "'n EgressRule list \<Rightarrow> u16 \<Rightarrow> bool" where
  "holds_range_accept_at rules port =
     list_ex (\<lambda>rule. eg_port rule = port \<and> eg_verdict rule = Accept \<and>
       (case eg_destination rule of Range _ \<Rightarrow> True | Name _ \<Rightarrow> False)) rules"

text \<open>The loop of the name phase: \<open>None\<close> is its early return.\<close>

fun name_phase_loop :: "rtext \<Rightarrow> u16 \<Rightarrow> 'n EgressRule list \<Rightarrow> bool \<Rightarrow> bool option" where
  "name_phase_loop target port [] name_accepted = Some name_accepted"
| "name_phase_loop target port (rule # rules) name_accepted =
     (if eg_port rule \<noteq> port then name_phase_loop target port rules name_accepted
      else case matches_name (eg_destination rule) target of
        Matches \<Rightarrow>
          (case eg_verdict rule of
             Reject \<Rightarrow> None
           | Accept \<Rightarrow> name_phase_loop target port rules True)
      | _ \<Rightarrow> name_phase_loop target port rules name_accepted)"

definition name_phase :: "'n EgressRule list \<Rightarrow> rtext \<Rightarrow> u16 \<Rightarrow> NamePhase" where
  "name_phase rules target port =
     (let target = normalize_name target
      in case name_phase_loop target port rules False of
           None \<Rightarrow> NameRejectedPhase
         | Some name_accepted \<Rightarrow>
             if name_accepted then ResolvePhase True
             else if holds_range_accept_at rules port then ResolvePhase False
             else NoRuleCouldAdmitPhase)"

fun address_phase_loop :: "'n IpNetOps \<Rightarrow> IpAddr \<Rightarrow> u16 \<Rightarrow> 'n EgressRule list \<Rightarrow> bool \<Rightarrow> bool option" where
  "address_phase_loop ops addr port [] range_accepted = Some range_accepted"
| "address_phase_loop ops addr port (rule # rules) range_accepted =
     (if eg_port rule \<noteq> port then address_phase_loop ops addr port rules range_accepted
      else if matches_addr ops (eg_destination rule) addr \<noteq> Matches
           then address_phase_loop ops addr port rules range_accepted
      else case eg_verdict rule of
        Reject \<Rightarrow> None
      | Accept \<Rightarrow> address_phase_loop ops addr port rules True)"

definition address_phase :: "'n IpNetOps \<Rightarrow> 'n EgressRule list \<Rightarrow> IpAddr \<Rightarrow> u16 \<Rightarrow> bool \<Rightarrow> AddressPhase" where
  "address_phase ops rules addr port name_accepted =
     (case address_phase_loop ops addr port rules False of
        None \<Rightarrow> RangeRejected
      | Some range_accepted \<Rightarrow>
          if name_accepted \<or> range_accepted then AddressAdmitted else NoAcceptMatched)"

definition accept_count :: "'n EgressRule list \<Rightarrow> nat" where
  "accept_count rules = length (filter (\<lambda>r. eg_verdict r = Accept) rules)"

subsection \<open>Policies\<close>

datatype 'n NetPolicy =
    Denied
  | Rules "'n EgressRule list" u32 u64
  | Trusted u32 u64

definition module_allowed :: "'n NetPolicy \<Rightarrow> bool" where
  "module_allowed self \<longleftrightarrow> self \<noteq> Denied"

fun max_sockets :: "'n NetPolicy \<Rightarrow> u32" where
  "max_sockets Denied = 0"
| "max_sockets (Rules rules sockets byte_cap) = sockets"
| "max_sockets (Trusted sockets byte_cap) = sockets"

fun egress_ceiling_bytes :: "'n NetPolicy \<Rightarrow> u64 option" where
  "egress_ceiling_bytes Denied = None"
| "egress_ceiling_bytes (Rules rules sockets byte_cap) = Some byte_cap"
| "egress_ceiling_bytes (Trusted sockets byte_cap) = Some byte_cap"

definition policy_rules :: "'n IpNetOps \<Rightarrow> 'n EgressRule list \<Rightarrow> u32 \<Rightarrow> u64 \<Rightarrow> 'n RuleError + 'n NetPolicy" where
  "policy_rules ops rules sockets byte_cap =
     and_then (rules_validated ops rules) (\<lambda>rules. Inr (Rules rules sockets byte_cap))"

subsection \<open>The evaluator\<close>

record SocketAddr =
  sock_ip :: IpAddr
  sock_port :: u16

record ResolveFailure =
  failure_code :: string
  failure_message :: string

datatype EgressRefusal =
    ModuleDenied
  | NameRejected rtext u16
  | NoRuleCouldAdmit rtext u16
  | ResolveFailed ResolveFailure
  | NoAddressSurvived "IpAddr list" "IpAddr list" "IpAddr list"

datatype PreDns = IpLiteral IpAddr | ResolveOnce bool

definition pre_dns :: "'n NetPolicy \<Rightarrow> rtext \<Rightarrow> u16 \<Rightarrow> EgressRefusal + PreDns" where
  "pre_dns policy target port =
     (if \<not> module_allowed policy then Inl ModuleDenied
      else case parse_ip_addr (strip_brackets target) of
        Some ip \<Rightarrow> Inr (IpLiteral ip)
      | None \<Rightarrow>
          (case policy of
             Denied \<Rightarrow> Inl ModuleDenied
           | Trusted _ _ \<Rightarrow> Inr (ResolveOnce True)
           | Rules rules _ _ \<Rightarrow>
               (case name_phase rules target port of
                  NameRejectedPhase \<Rightarrow> Inl (NameRejected target port)
                | NoRuleCouldAdmitPhase \<Rightarrow> Inl (NoRuleCouldAdmit target port)
                | ResolvePhase name_accepted \<Rightarrow> Inr (ResolveOnce name_accepted))))"

record FilterState =
  kept :: "SocketAddr list"
  floor_dropped :: "IpAddr list"
  range_rejected :: "IpAddr list"
  unmatched :: "IpAddr list"

definition filter_step ::
  "'n IpNetOps \<Rightarrow> 'n NetPolicy \<Rightarrow> u16 \<Rightarrow> bool \<Rightarrow> bool \<Rightarrow> SocketAddr \<Rightarrow> FilterState \<Rightarrow>
     EgressRefusal + FilterState" where
  "filter_step ops policy port name_accepted dev_loopback sa st =
     (let ip = sock_ip sa
      in if is_blocked_ip_under_dev ip dev_loopback
         then Inr (st\<lparr>floor_dropped := floor_dropped st @ [ip]\<rparr>)
         else case policy of
           Denied \<Rightarrow> Inl ModuleDenied
         | Trusted _ _ \<Rightarrow> Inr (st\<lparr>kept := kept st @ [sa]\<rparr>)
         | Rules rules _ _ \<Rightarrow>
             (case address_phase ops rules ip port name_accepted of
                AddressAdmitted \<Rightarrow> Inr (st\<lparr>kept := kept st @ [sa]\<rparr>)
              | RangeRejected \<Rightarrow> Inr (st\<lparr>range_rejected := range_rejected st @ [ip]\<rparr>)
              | NoAcceptMatched \<Rightarrow> Inr (st\<lparr>unmatched := unmatched st @ [ip]\<rparr>)))"

definition filter_answer ::
  "'n IpNetOps \<Rightarrow> 'n NetPolicy \<Rightarrow> u16 \<Rightarrow> bool \<Rightarrow> bool \<Rightarrow> SocketAddr list \<Rightarrow>
     EgressRefusal + SocketAddr list" where
  "filter_answer ops policy port name_accepted dev_loopback answer =
     and_then (try_fold (filter_step ops policy port name_accepted dev_loopback) answer
         \<lparr>kept = [], floor_dropped = [], range_rejected = [], unmatched = []\<rparr>) (\<lambda>st.
       if kept st = []
       then Inl (NoAddressSurvived (floor_dropped st) (range_rejected st) (unmatched st))
       else Inr (kept st))"

text \<open>The effects of one evaluation: the lookups it asked for and the times the gate opened.\<close>

record EgressTrace =
  lookups :: "(rtext \<times> u16) list"
  gate_opened :: nat

definition evaluate ::
  "'n IpNetOps \<Rightarrow> bool \<Rightarrow> (rtext \<Rightarrow> u16 \<Rightarrow> ResolveFailure + SocketAddr list) \<Rightarrow> 'n NetPolicy \<Rightarrow> rtext \<Rightarrow> u16 \<Rightarrow>
     (EgressRefusal + SocketAddr list) \<times> EgressTrace" where
  "evaluate ops dev_loopback resolve policy target port =
     (case pre_dns policy target port of
        Inl refusal \<Rightarrow> (Inl refusal, \<lparr>lookups = [], gate_opened = 0\<rparr>)
      | Inr (IpLiteral ip) \<Rightarrow>
          (filter_answer ops policy port False dev_loopback [\<lparr>sock_ip = ip, sock_port = port\<rparr>],
           \<lparr>lookups = [], gate_opened = 0\<rparr>)
      | Inr (ResolveOnce name_accepted) \<Rightarrow>
          (and_then (map_err ResolveFailed (resolve target port))
             (filter_answer ops policy port name_accepted dev_loopback),
           \<lparr>lookups = [(target, port)], gate_opened = (if name_accepted then 0 else 1)\<rparr>))"

text \<open>The code the refusal is reported with.\<close>

definition refusal_code :: "EgressRefusal \<Rightarrow> string" where
  "refusal_code refusal =
     (case refusal of
        ResolveFailed failure \<Rightarrow> failure_code failure
      | NoAddressSurvived dropped _ _ \<Rightarrow> if dropped \<noteq> [] then ''ERR_NET_SSRF'' else ''ERR_NET_EGRESS_DENIED''
      | _ \<Rightarrow> ''ERR_NET_EGRESS_DENIED'')"

subsection \<open>The verdict as a function of the rule set\<close>

definition name_ruled :: "'n EgressRule set \<Rightarrow> RuleVerdict \<Rightarrow> rtext \<Rightarrow> u16 \<Rightarrow> bool" where
  "name_ruled R v name port \<longleftrightarrow>
     (\<exists>r \<in> R. eg_port r = port \<and> eg_verdict r = v \<and> eg_destination r = Name name)"

definition range_ruled :: "'n IpNetOps \<Rightarrow> 'n EgressRule set \<Rightarrow> RuleVerdict \<Rightarrow> IpAddr \<Rightarrow> u16 \<Rightarrow> bool" where
  "range_ruled ops R v ip port \<longleftrightarrow>
     (\<exists>r \<in> R. \<exists>net. eg_port r = port \<and> eg_verdict r = v \<and> eg_destination r = Range net \<and> net_contains ops net ip)"

definition range_accept_at :: "'n EgressRule set \<Rightarrow> u16 \<Rightarrow> bool" where
  "range_accept_at R port \<longleftrightarrow>
     (\<exists>r \<in> R. \<exists>net. eg_port r = port \<and> eg_verdict r = Accept \<and> eg_destination r = Range net)"

lemma range_case: "(case dest of Name _ \<Rightarrow> False | Range _ \<Rightarrow> True) \<longleftrightarrow> (\<exists>net. dest = Range net)"
  by (cases dest) auto

lemma holds_range_accept_at_set: "holds_range_accept_at rules port = range_accept_at (set rules) port"
  by (auto simp: holds_range_accept_at_def range_accept_at_def list_ex_iff range_case)

lemma matches_name_iff: "matches_name dest name = Matches \<longleftrightarrow> dest = Name (normalize_name name)"
  by (cases dest) auto

lemma matches_addr_iff:
  "matches_addr ops dest ip = Matches \<longleftrightarrow> (\<exists>net. dest = Range net \<and> net_contains ops net ip)"
  by (cases dest) auto

lemma name_phase_loop_eq:
  "name_phase_loop target port rules acc =
     (if name_ruled (set rules) Reject (normalize_name target) port then None
      else Some (acc \<or> name_ruled (set rules) Accept (normalize_name target) port))"
  by (induction rules arbitrary: acc)
    (auto simp: name_ruled_def matches_name_iff split: PhaseMatch.splits RuleVerdict.splits)

lemma address_phase_loop_eq:
  "address_phase_loop ops ip port rules acc =
     (if range_ruled ops (set rules) Reject ip port then None
      else Some (acc \<or> range_ruled ops (set rules) Accept ip port))"
  by (induction rules arbitrary: acc)
    (auto simp: range_ruled_def matches_addr_iff split: RuleVerdict.splits)

text \<open>
  What an admitted policy says of an address that is above the floor: \<open>rejects\<close> is a reject of
  the creator's own, \<open>admits\<close> its opposite together with an accept.
\<close>

fun policy_rejects :: "'n IpNetOps \<Rightarrow> 'n NetPolicy \<Rightarrow> IpAddr \<Rightarrow> u16 \<Rightarrow> bool" where
  "policy_rejects ops (Rules rules sockets byte_cap) ip port = range_ruled ops (set rules) Reject ip port"
| "policy_rejects ops policy ip port = False"

fun policy_accepts :: "'n IpNetOps \<Rightarrow> 'n NetPolicy \<Rightarrow> IpAddr \<Rightarrow> u16 \<Rightarrow> bool \<Rightarrow> bool" where
  "policy_accepts ops (Rules rules sockets byte_cap) ip port name_accepted =
     (name_accepted \<or> range_ruled ops (set rules) Accept ip port)"
| "policy_accepts ops policy ip port name_accepted = True"

definition usable :: "'n IpNetOps \<Rightarrow> 'n NetPolicy \<Rightarrow> u16 \<Rightarrow> bool \<Rightarrow> bool \<Rightarrow> SocketAddr \<Rightarrow> bool" where
  "usable ops policy port name_accepted dev sa \<longleftrightarrow>
     \<not> is_blocked_ip_under_dev (sock_ip sa) dev \<and> \<not> policy_rejects ops policy (sock_ip sa) port \<and>
     policy_accepts ops policy (sock_ip sa) port name_accepted"

lemma filter_step_eq:
  assumes "policy \<noteq> Denied"
  shows "filter_step ops policy port na dev sa st = Inr
    (if is_blocked_ip_under_dev (sock_ip sa) dev then st\<lparr>floor_dropped := floor_dropped st @ [sock_ip sa]\<rparr>
     else if policy_rejects ops policy (sock_ip sa) port
     then st\<lparr>range_rejected := range_rejected st @ [sock_ip sa]\<rparr>
     else if policy_accepts ops policy (sock_ip sa) port na then st\<lparr>kept := kept st @ [sa]\<rparr>
     else st\<lparr>unmatched := unmatched st @ [sock_ip sa]\<rparr>)"
  using assms
  by (cases policy) (simp_all add: filter_step_def address_phase_def address_phase_loop_eq Let_def)

lemma filter_loop_eq:
  assumes "policy \<noteq> Denied"
  shows "\<exists>st'. try_fold (filter_step ops policy port na dev) answer st = Inr st' \<and>
    kept st' = kept st @ filter (usable ops policy port na dev) answer \<and>
    floor_dropped st' = floor_dropped st @
      map sock_ip (filter (\<lambda>sa. is_blocked_ip_under_dev (sock_ip sa) dev) answer) \<and>
    range_rejected st' = range_rejected st @
      map sock_ip (filter (\<lambda>sa. \<not> is_blocked_ip_under_dev (sock_ip sa) dev \<and>
        policy_rejects ops policy (sock_ip sa) port) answer) \<and>
    unmatched st' = unmatched st @
      map sock_ip (filter (\<lambda>sa. \<not> is_blocked_ip_under_dev (sock_ip sa) dev \<and>
        \<not> policy_rejects ops policy (sock_ip sa) port \<and>
        \<not> policy_accepts ops policy (sock_ip sa) port na) answer)"
proof (induction answer arbitrary: st)
  case (Cons sa answer)
  obtain st1 where st1: "filter_step ops policy port na dev sa st = Inr st1"
    using filter_step_eq [OF assms] by blast
  show ?case using Cons.IH [of st1] st1 filter_step_eq [OF assms, of ops port na dev sa st]
    by (auto simp: usable_def split: if_splits)
qed simp

definition refused_because ::
  "'n IpNetOps \<Rightarrow> 'n NetPolicy \<Rightarrow> u16 \<Rightarrow> bool \<Rightarrow> bool \<Rightarrow> SocketAddr list \<Rightarrow> EgressRefusal" where
  "refused_because ops policy port na dev answer =
     NoAddressSurvived
       (map sock_ip (filter (\<lambda>sa. is_blocked_ip_under_dev (sock_ip sa) dev) answer))
       (map sock_ip (filter (\<lambda>sa. \<not> is_blocked_ip_under_dev (sock_ip sa) dev \<and>
          policy_rejects ops policy (sock_ip sa) port) answer))
       (map sock_ip (filter (\<lambda>sa. \<not> is_blocked_ip_under_dev (sock_ip sa) dev \<and>
          \<not> policy_rejects ops policy (sock_ip sa) port \<and>
          \<not> policy_accepts ops policy (sock_ip sa) port na) answer))"

lemma filter_answer_eq:
  assumes "policy \<noteq> Denied"
  shows "filter_answer ops policy port na dev answer =
    (if filter (usable ops policy port na dev) answer = []
     then Inl (refused_because ops policy port na dev answer)
     else Inr (filter (usable ops policy port na dev) answer))"
  using filter_loop_eq [OF assms, of ops port na dev answer
      "\<lparr>kept = [], floor_dropped = [], range_rejected = [], unmatched = []\<rparr>"]
  by (auto simp: filter_answer_def refused_because_def)

text \<open>The name the rules are asked about is the target, normalized twice.\<close>

definition asked_name :: "rtext \<Rightarrow> rtext" where
  "asked_name target = normalize_name (normalize_name target)"

fun policy_names :: "'n NetPolicy \<Rightarrow> RuleVerdict \<Rightarrow> rtext \<Rightarrow> u16 \<Rightarrow> bool" where
  "policy_names (Rules rules sockets byte_cap) v target port = name_ruled (set rules) v (asked_name target) port"
| "policy_names policy v target port = (v = Accept)"

lemma pre_dns_eq:
  "pre_dns policy target port =
     (if policy = Denied then Inl ModuleDenied
      else case parse_ip_addr (strip_brackets target) of
        Some ip \<Rightarrow> Inr (IpLiteral ip)
      | None \<Rightarrow>
          if policy_names policy Reject target port then Inl (NameRejected target port)
          else if policy_names policy Accept target port then Inr (ResolveOnce True)
          else (case policy of
            Rules rules sockets byte_cap \<Rightarrow>
              if range_accept_at (set rules) port then Inr (ResolveOnce False)
              else Inl (NoRuleCouldAdmit target port)
          | _ \<Rightarrow> Inr (ResolveOnce False)))"
  by (cases policy)
    (auto simp: pre_dns_def module_allowed_def name_phase_def name_phase_loop_eq holds_range_accept_at_set
      asked_name_def split: option.splits)

lemma pre_dns_allowed: "pre_dns policy target port = Inr r \<Longrightarrow> policy \<noteq> Denied"
  by (auto simp: pre_dns_def module_allowed_def)

lemma evaluate_denied: "evaluate ops dev resolve Denied target port =
    (Inl ModuleDenied, \<lparr>lookups = [], gate_opened = 0\<rparr>)"
  by (simp add: evaluate_def pre_dns_def module_allowed_def)

text \<open>How an evaluation that uses addresses came to them.\<close>

lemma evaluate_used:
  assumes "evaluate ops dev resolve policy target port = (Inr used, trace)"
  obtains ip where "parse_ip_addr (strip_brackets target) = Some ip" "policy \<noteq> Denied"
      "used = filter (usable ops policy port False dev) [\<lparr>sock_ip = ip, sock_port = port\<rparr>]" "used \<noteq> []"
    | na answer where "parse_ip_addr (strip_brackets target) = None" "policy \<noteq> Denied"
      "\<not> policy_names policy Reject target port" "na = policy_names policy Accept target port"
      "resolve target port = Inr answer"
      "used = filter (usable ops policy port na dev) answer" "used \<noteq> []"
proof (cases "pre_dns policy target port")
  case (Inl e)
  then show ?thesis using assms by (simp add: evaluate_def)
next
  case (Inr r)
  then have d: "policy \<noteq> Denied" by (rule pre_dns_allowed)
  show ?thesis
  proof (cases r)
    case (IpLiteral ip)
    then show ?thesis using assms Inr d that(1) [of ip]
      by (auto simp: evaluate_def filter_answer_eq pre_dns_eq split: if_splits option.splits NetPolicy.splits)
  next
    case (ResolveOnce na)
    then obtain answer where a: "resolve target port = Inr answer"
      using assms Inr by (auto simp: evaluate_def and_then_Inr)
    have n: "parse_ip_addr (strip_brackets target) = None" "\<not> policy_names policy Reject target port"
      "na = policy_names policy Accept target port"
      using Inr ResolveOnce d by (auto simp: pre_dns_eq split: if_splits option.splits NetPolicy.splits)
    show ?thesis using assms Inr d ResolveOnce a n that(2) [of na answer]
      by (auto simp: evaluate_def filter_answer_eq split: if_splits)
  qed
qed

subsection \<open>What validation keeps\<close>

text \<open>
  What the validation of an assembled rule relies on of the third-party ranges: the text of a
  range holds a slash, has no space around it and parses back to the range, and truncating
  keeps the family and the prefix length.
\<close>

definition ipnet_laws :: "'n IpNetOps \<Rightarrow> bool" where
  "ipnet_laws ops \<longleftrightarrow>
     (\<forall>net. 0x2F \<in> set (net_text ops net) \<and> trim (net_text ops net) = net_text ops net \<and>
        net_parse ops (net_text ops net) = Some net \<and>
        net_is_v4 ops (net_trunc ops net) = net_is_v4 ops net \<and>
        net_prefix_len ops (net_trunc ops net) = net_prefix_len ops net)"

definition accept_floor :: "'n IpNetOps \<Rightarrow> 'n \<Rightarrow> nat" where
  "accept_floor ops net = (if net_is_v4 ops net then 16 else 32)"

lemma egress_rule_parse_bounds:
  assumes "egress_rule_parse ops v text port = Inr r"
  shows "eg_verdict r = v \<and> eg_port r = port \<and> port \<noteq> 0 \<and>
    (case eg_destination r of
       Name name \<Rightarrow> parse_ip_addr name = None \<and> full_stop \<in> set name \<and> 0x2A \<notin> set name
     | Range net \<Rightarrow> v = Accept \<longrightarrow> accept_floor ops net \<le> net_prefix_len ops net)"
proof -
  obtain dest where d: "destination_parse ops text = Inr dest" "port \<noteq> 0"
    using assms by (auto simp: egress_rule_parse_def and_then_Inr split: if_splits)
  have n: "parse_ip_addr name = None \<and> full_stop \<in> set name \<and> 0x2A \<notin> set name" if "dest = Name name" for name
    using d(1) that
    by (auto simp: destination_parse_def validate_name_def and_then_Inr Let_def split: if_splits option.splits)
  have r: "r = \<lparr>eg_verdict = v, eg_destination = dest, eg_port = port\<rparr>"
    and f: "v = Accept \<Longrightarrow> dest = Range net \<Longrightarrow> accept_floor ops net \<le> net_prefix_len ops net" for net
    using assms d
    by (auto simp: egress_rule_parse_def accept_floor_def MIN_ACCEPT_PREFIX_V4_def MIN_ACCEPT_PREFIX_V6_def
        Let_def not_less split: RuleVerdict.splits Destination.splits if_splits)
  show ?thesis using d(2) n f by (auto simp: r split: Destination.splits)
qed

lemma try_fold_all: "try_fold (\<lambda>x _. f x) xs () = Inr () \<Longrightarrow> x \<in> set xs \<Longrightarrow> f x = Inr ()"
  by (induction xs) (auto simp: and_then_Inr)

lemma rules_validated_bounds:
  assumes "ipnet_laws ops" "rules_validated ops rules = Inr rules'"
  shows "rules' = rules \<and> (\<forall>r \<in> set rules. eg_port r \<noteq> 0 \<and>
    (\<forall>net. eg_verdict r = Accept \<and> eg_destination r = Range net \<longrightarrow>
       accept_floor ops net \<le> net_prefix_len ops net))"
proof -
  have all: "rules' = rules" "try_fold (\<lambda>rule _. and_then
      (egress_rule_parse ops (eg_verdict rule) (destination_text ops (eg_destination rule)) (eg_port rule))
      (\<lambda>_. Inr ())) rules () = Inr ()"
    using assms(2) by (auto simp: rules_validated_def and_then_Inr)
  have "eg_port r \<noteq> 0 \<and> (\<forall>net. eg_verdict r = Accept \<and> eg_destination r = Range net \<longrightarrow>
      accept_floor ops net \<le> net_prefix_len ops net)" if rin: "r \<in> set rules" for r
  proof -
    obtain p where p: "egress_rule_parse ops (eg_verdict r) (destination_text ops (eg_destination r)) (eg_port r) = Inr p"
      using try_fold_all [OF all(2) rin] by (auto simp: and_then_Inr)
    have "eg_destination p = Range (net_trunc ops net)" if "eg_destination r = Range net" for net
    proof -
      have "destination_parse ops (net_text ops net) = Inr (Range (net_trunc ops net))"
        using assms(1) [unfolded ipnet_laws_def, rule_format, of net]
        by (auto simp: destination_parse_def Let_def)
      then show ?thesis using p that
        by (auto simp: egress_rule_parse_def Let_def split: RuleVerdict.splits if_splits)
    qed
    then show ?thesis
      using egress_rule_parse_bounds [OF p] assms(1) by (auto simp: ipnet_laws_def accept_floor_def)
  qed
  then show ?thesis using all(1) by blast
qed

subsection \<open>Example ranges\<close>

text \<open>
  Ranges as a family, the parts of an address and a prefix length, with a text of one symbol
  per part.
\<close>

type_synonym example_net = "bool \<times> nat list \<times> u8"

definition example_contains :: "example_net \<Rightarrow> IpAddr \<Rightarrow> bool" where
  "example_contains net ip =
     (case (net, ip) of
        ((True, base, len), V4 v4) \<Rightarrow> in_range 8 base (unat len) (octets v4)
      | ((False, base, len), V6 v6) \<Rightarrow> in_range 16 base (unat len) (segments v6)
      | _ \<Rightarrow> False)"

definition example_ops :: "u8 IpNetOps" where
  "example_ops =
     \<lparr>net_parse = (\<lambda>s. case s of [c, d] \<Rightarrow> if c = 0x2F then Some (ucast (d - 0x100)) else None | _ \<Rightarrow> None),
      net_trunc = (\<lambda>net. net),
      net_contains = (\<lambda>len. example_contains (True, [93, 184, 0, 0], len)),
      net_prefix_len = unat, net_is_v4 = (\<lambda>_. True),
      net_text = (\<lambda>len. [0x2F, ucast len + 0x100])\<rparr>"

subsection \<open>Properties\<close>

text \<open>
  \<^bold>\<open>C2\<close>: No rule widens the platform floor, and every address a connection may use is granted.
  Whatever the policy, the resolver and the target, the addresses an evaluation hands out are
  not empty and come from the literal or from the one answer of the resolver; each is outside
  the blocked ranges, loopback in a development process apart; and under creator rules none is
  in a range the creator rejects, and each is in a range the creator accepts or was reached by
  a name the creator accepts and does not reject.
\<close>

theorem used_addresses_are_granted_and_above_the_floor:
  assumes "evaluate ops dev resolve policy target port = (Inr used, trace)"
  shows "used \<noteq> [] \<and>
    (\<forall>sa \<in> set used.
      (\<not> is_blocked_ip (sock_ip sa) \<or> dev \<and> is_loopback_ip (sock_ip sa)) \<and>
      (case parse_ip_addr (strip_brackets target) of
         Some ip \<Rightarrow> sa = \<lparr>sock_ip = ip, sock_port = port\<rparr>
       | None \<Rightarrow> \<exists>answer. resolve target port = Inr answer \<and> sa \<in> set answer) \<and>
      (case policy of
         Denied \<Rightarrow> False
       | Trusted _ _ \<Rightarrow> True
       | Rules rules _ _ \<Rightarrow>
           \<not> range_ruled ops (set rules) Reject (sock_ip sa) port \<and>
           (range_ruled ops (set rules) Accept (sock_ip sa) port \<or>
            parse_ip_addr (strip_brackets target) = None \<and>
            name_ruled (set rules) Accept (asked_name target) port \<and>
            \<not> name_ruled (set rules) Reject (asked_name target) port)))"
  using assms
  by (rule evaluate_used; cases policy)
    (auto simp: usable_def is_blocked_ip_under_dev_def split: if_splits)

text \<open>
  A name accepted at port 443 whose answer holds an internal address and a public one: only
  the public one is used.
\<close>

definition host_name :: rtext where
  "host_name = [0x61, 0x2E, 0x62]"

definition example_answer :: "SocketAddr list" where
  "example_answer =
     [\<lparr>sock_ip = V4 (Ipv4 169 254 169 254), sock_port = 443\<rparr>, \<lparr>sock_ip = V4 (Ipv4 93 184 0 1), sock_port = 443\<rparr>]"

definition example_rules :: "u8 EgressRule list" where
  "example_rules = [\<lparr>eg_verdict = Accept, eg_destination = Name host_name, eg_port = 443\<rparr>]"

theorem used_addresses_are_granted_and_above_the_floor_witness:
  "\<not> is_blocked_ip (V4 (Ipv4 93 184 0 1)) \<and>
   fst (evaluate example_ops False (\<lambda>_ _. Inr example_answer) (Rules example_rules 1 0) host_name 443) =
     Inr [\<lparr>sock_ip = V4 (Ipv4 93 184 0 1), sock_port = 443\<rparr>]"
proof -
  let ?e = "evaluate example_ops False (\<lambda>_ _. Inr example_answer) (Rules example_rules 1 0) host_name 443"
  let ?sa = "\<lparr>sock_ip = V4 (Ipv4 93 184 0 1), sock_port = 443\<rparr> :: SocketAddr"
  have r: "fst ?e = Inr [?sa]" by code_simp
  then have "?e = (Inr [?sa], snd ?e)" by (simp add: prod_eq_iff)
  from used_addresses_are_granted_and_above_the_floor [OF this, THEN conjunct2, THEN bspec, of ?sa]
  show ?thesis using r by simp
qed

text \<open>
  \<^bold>\<open>C19\<close>: The order of the rules is never consulted. Two rule lists with the same rules give the
  same result for every target, port and resolver: the same addresses in the resolver's order,
  the same refusal with the same three lists, and the same lookups.
\<close>

theorem verdict_ignores_rule_order:
  assumes "set rules = set rules'"
  shows "evaluate ops dev resolve (Rules rules sockets byte_cap) target port =
         evaluate ops dev resolve (Rules rules' sockets byte_cap) target port"
proof -
  have p: "pre_dns (Rules rules sockets byte_cap) target port = pre_dns (Rules rules' sockets byte_cap) target port"
    using assms by (simp add: pre_dns_eq split: option.splits)
  have u: "usable ops (Rules rules sockets byte_cap) port na dev = usable ops (Rules rules' sockets byte_cap) port na dev"
    for na using assms by (simp add: usable_def fun_eq_iff)
  have "filter_answer ops (Rules rules sockets byte_cap) port na dev =
        filter_answer ops (Rules rules' sockets byte_cap) port na dev" for na
    using assms by (intro ext) (simp add: filter_answer_eq refused_because_def u)
  then show ?thesis using p by (simp add: evaluate_def split: sum.splits PreDns.splits)
qed

theorem verdict_ignores_rule_order_witness:
  "evaluate example_ops False (\<lambda>_ _. Inr example_answer)
      (Rules (\<lparr>eg_verdict = Reject, eg_destination = Range 32, eg_port = 443\<rparr> # example_rules) 1 0) host_name 443 =
   evaluate example_ops False (\<lambda>_ _. Inr example_answer)
      (Rules (example_rules @ [\<lparr>eg_verdict = Reject, eg_destination = Range 32, eg_port = 443\<rparr>]) 1 0) host_name 443"
  using verdict_ignores_rule_order
    [of "\<lparr>eg_verdict = Reject, eg_destination = Range 32, eg_port = 443\<rparr> # example_rules"
        "example_rules @ [\<lparr>eg_verdict = Reject, eg_destination = Range 32, eg_port = 443\<rparr>]"
        example_ops False "\<lambda>_ _. Inr example_answer" 1 0 host_name 443]
  by simp

text \<open>
  The DNS gate. An evaluation asks for at most one lookup, and only for its own target;
  it asks for none for an address literal, for a name the creator rejects, and for a name that
  no rule could admit. So when the rules accept no range at the port, a lookup is only ever
  made for a name they accept.
\<close>

theorem lookups_are_gated:
  assumes "evaluate ops dev resolve (Rules rules sockets byte_cap) target port = (result, trace)"
    and "lookups trace \<noteq> []"
  shows "lookups trace = [(target, port)] \<and>
    parse_ip_addr (strip_brackets target) = None \<and>
    \<not> name_ruled (set rules) Reject (asked_name target) port \<and>
    (name_ruled (set rules) Accept (asked_name target) port \<or>
     range_accept_at (set rules) port \<and> gate_opened trace = 1)"
  using assms
  by (auto simp: evaluate_def pre_dns_eq split: option.splits if_splits sum.splits)

theorem lookups_are_gated_witness:
  "lookups (snd (evaluate example_ops False (\<lambda>_ _. Inr example_answer) (Rules example_rules 1 0) host_name 443)) =
     [(host_name, 443)] \<and>
   lookups (snd (evaluate example_ops False (\<lambda>_ _. Inr example_answer) (Rules example_rules 1 0) host_name 25)) = []"
proof -
  let ?e = "\<lambda>port. evaluate example_ops False (\<lambda>_ _. Inr example_answer) (Rules example_rules 1 0) host_name port"
  have "lookups (snd (?e 443)) \<noteq> []" "lookups (snd (?e 25)) = []" by code_simp+
  then show ?thesis
    using lookups_are_gated [of example_ops False "\<lambda>_ _. Inr example_answer" example_rules 1 0 host_name 443
        "fst (?e 443)" "snd (?e 443)"] by simp
qed

text \<open>
  A reject can only narrow. Whatever rules an app has, adding a reject rule to them never
  lets an evaluation use an address it did not use before, and never causes a lookup it did
  not make before.
\<close>

theorem reject_only_narrows:
  assumes "eg_verdict r = Reject"
  shows "(case fst (evaluate ops dev resolve (Rules (r # rules) sockets byte_cap) target port) of
       Inl _ \<Rightarrow> True
     | Inr used \<Rightarrow> \<exists>before. fst (evaluate ops dev resolve (Rules rules sockets byte_cap) target port) = Inr before \<and>
         set used \<subseteq> set before) \<and>
    set (lookups (snd (evaluate ops dev resolve (Rules (r # rules) sockets byte_cap) target port))) \<subseteq>
      set (lookups (snd (evaluate ops dev resolve (Rules rules sockets byte_cap) target port)))"
proof -
  let ?P = "Rules rules sockets byte_cap" and ?Q = "Rules (r # rules) sockets byte_cap"
  have n: "name_ruled (set (r # rules)) Accept x port = name_ruled (set rules) Accept x port"
    "name_ruled (set rules) Reject x port \<Longrightarrow> name_ruled (set (r # rules)) Reject x port"
    "range_accept_at (set (r # rules)) port = range_accept_at (set rules) port" for x
    using assms by (auto simp: name_ruled_def range_accept_at_def)
  have u: "usable ops ?Q port na dev sa \<Longrightarrow> usable ops ?P port na dev sa" for na sa
    using assms by (auto simp: usable_def range_ruled_def)
  have pre: "pre_dns ?Q target port = Inr d \<Longrightarrow> pre_dns ?P target port = Inr d" for d
    using n by (auto simp: pre_dns_eq split: option.splits if_splits)
  have f: "\<exists>before. filter_answer ops ?P port na dev answer = Inr before \<and> set used \<subseteq> set before"
    if "filter_answer ops ?Q port na dev answer = Inr used" for na answer used
    using that u by (auto simp: filter_answer_eq filter_empty_conv split: if_splits)
  show ?thesis
  proof (cases "pre_dns ?Q target port")
    case (Inl e)
    then show ?thesis by (simp add: evaluate_def)
  next
    case (Inr d)
    note P = pre [OF Inr]
    have goal: ?thesis
      if "evaluate ops dev resolve ?Q target port = (filter_answer ops ?Q port na dev answer, t)"
        "evaluate ops dev resolve ?P target port = (filter_answer ops ?P port na dev answer, t)"
      for na answer t
      using that f [of na answer] by (auto split: sum.splits)
    show ?thesis
    proof (cases d)
      case (IpLiteral ip)
      then show ?thesis using Inr P by (intro goal) (simp_all add: evaluate_def)
    next
      case (ResolveOnce na)
      show ?thesis
      proof (cases "resolve target port")
        case (Inl e)
        then show ?thesis using Inr P ResolveOnce by (simp add: evaluate_def)
      next
        case (Inr answer)
        show ?thesis
          using \<open>pre_dns ?Q target port = Inr d\<close> P ResolveOnce Inr by (intro goal) (simp_all add: evaluate_def)
      qed
    qed
  qed
qed

theorem reject_only_narrows_witness:
  "lookups (snd (evaluate example_ops False (\<lambda>_ _. Inr example_answer)
      (Rules (\<lparr>eg_verdict = Reject, eg_destination = Name host_name, eg_port = 443\<rparr> # []) 1 0) host_name 443)) = []"
proof -
  have "lookups (snd (evaluate example_ops False (\<lambda>_ _. Inr example_answer) (Rules [] 1 0) host_name 443)) = []"
    by code_simp
  then show ?thesis
    using reject_only_narrows [of "\<lparr>eg_verdict = Reject, eg_destination = Name host_name, eg_port = 443\<rparr>"
        example_ops False "\<lambda>_ _. Inr example_answer" "[]" 1 0 host_name 443] by simp
qed

text \<open>
  Validated rules are bounded. When a policy is built from assembled rules, it holds
  exactly these rules, each names a port other than zero, and no accepting range is broader
  than the floor for its family, whichever way the rules were put together.
\<close>

theorem validated_rules_are_bounded:
  assumes "ipnet_laws ops" "policy_rules ops rules sockets byte_cap = Inr policy"
  shows "policy = Rules rules sockets byte_cap \<and>
    (\<forall>r \<in> set rules. eg_port r \<noteq> 0 \<and>
      (\<forall>net. eg_verdict r = Accept \<and> eg_destination r = Range net \<longrightarrow>
         (if net_is_v4 ops net then 16 else 32) \<le> net_prefix_len ops net))"
proof -
  obtain rules' where "rules_validated ops rules = Inr rules'" "policy = Rules rules' sockets byte_cap"
    using assms(2) by (auto simp: policy_rules_def and_then_Inr)
  then show ?thesis using rules_validated_bounds [OF assms(1)] by (auto simp: accept_floor_def)
qed

lemma example_ops_laws: "ipnet_laws example_ops"
proof -
  have nonspace: "\<not> is_whitespace (ucast len + 0x100)" for len :: u8
  proof -
    have "unat (ucast len + 0x100 :: u32) = unat len + 0x100"
      using unat_octet [of len] by (simp add: unat_word_ariths unsigned_ucast_eq take_bit_nat_eq_self)
    then show ?thesis using unat_octet [of len]
      by (simp add: is_whitespace_def word_le_nat_alt word_unat_eq_iff)
  qed
  have narrow: "ucast (ucast len :: u32) = len" for len :: u8
    by (rule bit_word_eqI) (simp add: bit_unsigned_iff)
  have "\<not> is_whitespace 0x2F" by code_simp
  then have "trim [0x2F, ucast len + 0x100] = [0x2F, ucast len + 0x100]" for len :: u8
    using nonspace by (simp add: trim_def trim_start_when_def trim_end_when_def)
  then show ?thesis by (simp add: ipnet_laws_def example_ops_def narrow)
qed

theorem validated_rules_are_bounded_witness:
  "16 \<le> unat (24 :: u8) \<and>
   policy_rules example_ops [\<lparr>eg_verdict = Accept, eg_destination = Range 24, eg_port = 443\<rparr>] 1 0 =
     Inr (Rules [\<lparr>eg_verdict = Accept, eg_destination = Range 24, eg_port = 443\<rparr>] 1 0)"
proof -
  let ?r = "\<lparr>eg_verdict = Accept, eg_destination = Range 24, eg_port = 443\<rparr> :: u8 EgressRule"
  have p: "policy_rules example_ops [?r] 1 0 = Inr (Rules [?r] 1 0)" by code_simp
  from validated_rules_are_bounded [OF example_ops_laws p] p show ?thesis by (simp add: example_ops_def)
qed

text \<open>
  The text of a destination does not always parse back to it. A name written with
  brackets and a trailing dot is accepted and stored with the closing bracket, its stored text
  parses to another name, and a rejecting rule for it does not stop a connection to the host it
  was meant for.
\<close>

theorem stored_name_can_miss_its_host:
  "destination_parse ops [open_bracket, 0x61, 0x2E, 0x62, close_bracket, full_stop] =
     Inr (Name [0x61, 0x2E, 0x62, close_bracket]) \<and>
   destination_parse ops (destination_text ops (Name [0x61, 0x2E, 0x62, close_bracket])) =
     Inr (Name [0x61, 0x2E, 0x62]) \<and>
   name_phase [\<lparr>eg_verdict = Reject, eg_destination = Name [0x61, 0x2E, 0x62, close_bracket], eg_port = 443\<rparr>,
       \<lparr>eg_verdict = Accept, eg_destination = Range net, eg_port = 443\<rparr>] [0x61, 0x2E, 0x62] 443 =
     ResolvePhase False"
proof -
  let ?typed = "[open_bracket, 0x61, 0x2E, 0x62, close_bracket, full_stop] :: rtext"
  let ?stored = "[0x61, 0x2E, 0x62, close_bracket] :: rtext" and ?host = "[0x61, 0x2E, 0x62] :: rtext"
  have "trim ?typed = ?typed" "normalize_name ?typed = ?stored" "trim ?stored = ?stored"
    "normalize_name ?stored = ?host" "normalize_name ?host = ?host"
    "parse_ip_addr ?stored = None" "parse_ip_addr ?host = None" by code_simp+
  then show ?thesis
    by (simp add: destination_parse_def validate_name_def name_phase_def holds_range_accept_at_def)
qed

end
