(* ===== verification/KvStore.thy ===== *)
theory KvStore
  imports Decimal "HOL-Library.Char_ord" "HOL-Library.List_Lexorder" "HOL-Library.Sublist" "HOL-Library.RBT"
begin

text \<open>
  The key-value store of an app on its embedded backend
  (\<^verbatim>\<open>crates/zeroship-kv/src/{limits,namespace,store}.rs\<close>, \<^verbatim>\<open>backend/{mod,redb}.rs\<close>).

  Text is its UTF-8 bytes, as HOL strings, compared bytewise as \<^verbatim>\<open>str\<close> is. The table of the
  third-party crate \<^verbatim>\<open>redb\<close> is the argument \<open>ops\<close>, and what the code relies on is the locale
  \<open>ordered_table\<close>. A database is the table, or \<open>None\<close> before the first write has created it.
  Each call has one transaction; \<open>io\<close> says which of its steps fails, and a transaction that is
  not committed changes nothing. The wall clock is the argument \<open>now\<close>.
\<close>

subsection \<open>The table\<close>

type_synonym entry = "string \<times> u64 option"

datatype Lower = Included string | Excluded string

record 't TableOps =
  tbl_new :: 't
  tbl_get :: "'t \<Rightarrow> string \<Rightarrow> entry option"
  tbl_insert :: "'t \<Rightarrow> string \<Rightarrow> entry \<Rightarrow> 't"
  tbl_remove :: "'t \<Rightarrow> string \<Rightarrow> 't"
  tbl_range :: "'t \<Rightarrow> Lower \<Rightarrow> (string \<times> entry) list"

fun above :: "Lower \<Rightarrow> string \<Rightarrow> bool" where
  "above (Included l) k \<longleftrightarrow> l \<le> k"
| "above (Excluded l) k \<longleftrightarrow> l < k"

text \<open>The steps of a transaction that can fail.\<close>

datatype IoStep = BeginRead | BeginWrite | OpenTable | TableGet | TableInsert | TableRemove | TableRange | TableIter | Commit

type_synonym io = "IoStep \<Rightarrow> string option"

subsection \<open>Errors and limits\<close>

datatype KvError =
    InvalidKey
  | InvalidValue
  | InvalidArgument
  | NonNumeric
  | Overflow
  | Backend IoStep string

definition MAX_KEY_LEN :: nat where "MAX_KEY_LEN = 512"
definition MAX_VALUE_BYTES :: nat where "MAX_VALUE_BYTES = 256 * 1024"
definition LIST_DEFAULT_LIMIT :: nat where "LIST_DEFAULT_LIMIT = 1000"
definition LIST_MAX_LIMIT :: nat where "LIST_MAX_LIMIT = 10000"
definition MAX_TTL_MS :: u64 where "MAX_TTL_MS = 100 * 365 * 24 * 60 * 60 * 1000"

text \<open>
  The characters a key may not hold, on its bytes: braces and the control characters below
  32, 127, and 128 to 159; the last are the two-byte sequences with lead byte 194 and a second byte
  below 160, and 194 occurs in UTF-8 text only as a lead byte.
\<close>

fun forbidden_in_key :: "string \<Rightarrow> bool" where
  "forbidden_in_key [] = False"
| "forbidden_in_key (c # cs) =
     (c = CHR ''{'' \<or> c = CHR ''}'' \<or> of_char c < (32 :: nat) \<or> of_char c = (127 :: nat) \<or>
      (of_char c = (194 :: nat) \<and> cs \<noteq> [] \<and> of_char (hd cs) < (160 :: nat)) \<or> forbidden_in_key cs)"

definition validate_key :: "string \<Rightarrow> KvError + unit" where
  "validate_key key =
     (if key = [] then Inl InvalidKey
      else if length key > MAX_KEY_LEN then Inl InvalidKey
      else if forbidden_in_key key then Inl InvalidKey
      else Inr ())"

definition validate_value :: "string \<Rightarrow> KvError + unit" where
  "validate_value v = (if length v > MAX_VALUE_BYTES then Inl InvalidValue else Inr ())"

definition validate_ttl_ms :: "u64 \<Rightarrow> KvError + unit" where
  "validate_ttl_ms ttl_ms =
     (if ttl_ms = 0 then Inl InvalidArgument
      else if ttl_ms > MAX_TTL_MS then Inl InvalidArgument
      else Inr ())"

definition validate_optional_ttl :: "u64 option \<Rightarrow> KvError + unit" where
  "validate_optional_ttl ttl_ms = (case ttl_ms of None \<Rightarrow> Inr () | Some ms \<Rightarrow> validate_ttl_ms ms)"

definition normalize_list_limit :: "nat \<Rightarrow> nat" where
  "normalize_list_limit limit = (if limit = 0 then LIST_DEFAULT_LIMIT else min limit LIST_MAX_LIMIT)"

subsection \<open>Namespaces\<close>

definition namespace_char :: "char \<Rightarrow> bool" where
  "namespace_char c \<longleftrightarrow>
     (let b = of_char c :: nat
      in 48 \<le> b \<and> b \<le> 57 \<or> 65 \<le> b \<and> b \<le> 90 \<or> 97 \<le> b \<and> b \<le> 122) \<or>
     c = CHR ''_'' \<or> c = CHR ''-'' \<or> c = CHR ''.''"

definition validate_component :: "string \<Rightarrow> KvError + unit" where
  "validate_component name =
     (if name = [] \<or> \<not> list_all namespace_char name then Inl InvalidArgument else Inr ())"

definition namespace_app :: "string \<Rightarrow> KvError + string" where
  "namespace_app app_id = and_then (validate_component app_id) (\<lambda>_. Inr app_id)"

definition namespace_platform :: "string \<Rightarrow> KvError + string" where
  "namespace_platform name = and_then (validate_component name) (\<lambda>_. Inr (''platform:'' @ name))"

definition kv_scope :: "string \<Rightarrow> string \<Rightarrow> string" where
  "kv_scope app_id key = ''{'' @ app_id @ ''}:'' @ key"

subsection \<open>Transactions\<close>

type_synonym 'r kv_result = "KvError + 'r"

definition io_check :: "io \<Rightarrow> IoStep \<Rightarrow> unit kv_result" where
  "io_check io step = (case io step of None \<Rightarrow> Inr () | Some e \<Rightarrow> Inl (Backend step e))"

text \<open>A read transaction, with the result for a table that does not exist yet.\<close>

definition read_txn :: "io \<Rightarrow> 't option \<Rightarrow> 'r \<Rightarrow> ('t \<Rightarrow> 'r kv_result) \<Rightarrow> 'r kv_result" where
  "read_txn io db missing body =
     and_then (io_check io BeginRead) (\<lambda>_.
       case db of
         None \<Rightarrow> Inr missing
       | Some t \<Rightarrow> and_then (io_check io OpenTable) (\<lambda>_. body t))"

text \<open>A write transaction: opening the table creates it, and only the commit stores the body's table.\<close>

definition write_txn ::
  "'t TableOps \<Rightarrow> io \<Rightarrow> 't option \<Rightarrow> ('t \<Rightarrow> ('t \<times> 'r) kv_result) \<Rightarrow> 'r kv_result \<times> 't option" where
  "write_txn ops io db body =
     (case and_then (io_check io BeginWrite) (\<lambda>_.
           and_then (io_check io OpenTable) (\<lambda>_.
           and_then (body (case db of None \<Rightarrow> tbl_new ops | Some t \<Rightarrow> t)) (\<lambda>(t, r).
           and_then (io_check io Commit) (\<lambda>_. Inr (t, r))))) of
        Inl e \<Rightarrow> (Inl e, db)
      | Inr (t, r) \<Rightarrow> (Inr r, Some t))"

definition io_get :: "'t TableOps \<Rightarrow> io \<Rightarrow> 't \<Rightarrow> string \<Rightarrow> entry option kv_result" where
  "io_get ops io t k = and_then (io_check io TableGet) (\<lambda>_. Inr (tbl_get ops t k))"

definition io_insert :: "'t TableOps \<Rightarrow> io \<Rightarrow> 't \<Rightarrow> string \<Rightarrow> entry \<Rightarrow> 't kv_result" where
  "io_insert ops io t k e = and_then (io_check io TableInsert) (\<lambda>_. Inr (tbl_insert ops t k e))"

subsection \<open>The backend\<close>

definition is_expired :: "u64 option \<Rightarrow> u64 \<Rightarrow> bool" where
  "is_expired expires_at now = (case expires_at of None \<Rightarrow> False | Some at \<Rightarrow> now \<ge> at)"

definition u64_saturating_add :: "u64 \<Rightarrow> u64 \<Rightarrow> u64" where
  "u64_saturating_add a b = (if unat a + unat b < 2 ^ 64 then a + b else - 1)"

datatype TtlState = Missing | NoExpiry | ExpiresInMs u64

definition redb_get :: "'t TableOps \<Rightarrow> io \<Rightarrow> u64 \<Rightarrow> 't option \<Rightarrow> string \<Rightarrow> string \<Rightarrow> string option kv_result" where
  "redb_get ops io now db app_id key =
     read_txn io db None (\<lambda>t.
       and_then (io_get ops io t (kv_scope app_id key)) (\<lambda>row.
         case row of
           Some (v, expires_at) \<Rightarrow> if is_expired expires_at now then Inr None else Inr (Some v)
         | None \<Rightarrow> Inr None))"

definition redb_set ::
  "'t TableOps \<Rightarrow> io \<Rightarrow> u64 \<Rightarrow> 't option \<Rightarrow> string \<Rightarrow> string \<Rightarrow> string \<Rightarrow> u64 option \<Rightarrow> unit kv_result \<times> 't option" where
  "redb_set ops io now db app_id key v ttl_ms =
     (let expires_at = map_option (\<lambda>ms. u64_saturating_add now ms) ttl_ms
      in write_txn ops io db (\<lambda>t.
           and_then (io_insert ops io t (kv_scope app_id key) (v, expires_at)) (\<lambda>t. Inr (t, ()))))"

definition redb_delete :: "'t TableOps \<Rightarrow> io \<Rightarrow> u64 \<Rightarrow> 't option \<Rightarrow> string \<Rightarrow> string \<Rightarrow> bool kv_result \<times> 't option" where
  "redb_delete ops io now db app_id key =
     write_txn ops io db (\<lambda>t.
       and_then (io_check io TableRemove) (\<lambda>_.
         Inr (tbl_remove ops t (kv_scope app_id key),
              case tbl_get ops t (kv_scope app_id key) of
                None \<Rightarrow> False
              | Some (v, expires_at) \<Rightarrow> \<not> is_expired expires_at now)))"

text \<open>The entry under a key, an expired one counting as absent.\<close>

definition live_row :: "u64 \<Rightarrow> entry option \<Rightarrow> entry option" where
  "live_row now row =
     (case row of
        Some (v, expires_at) \<Rightarrow> if is_expired expires_at now then None else Some (v, expires_at)
      | None \<Rightarrow> None)"

definition i64_checked_add :: "int \<Rightarrow> int \<Rightarrow> int option" where
  "i64_checked_add a b = check_i64 (a + b)"

definition redb_incr ::
  "'t TableOps \<Rightarrow> io \<Rightarrow> u64 \<Rightarrow> 't option \<Rightarrow> string \<Rightarrow> string \<Rightarrow> int \<Rightarrow> u64 option \<Rightarrow> int kv_result \<times> 't option" where
  "redb_incr ops io now db app_id key delta ttl_ms =
     write_txn ops io db (\<lambda>t.
       and_then (io_get ops io t (kv_scope app_id key)) (\<lambda>row.
       and_then
         (case live_row now row of
            Some (v, expires_at) \<Rightarrow>
              (case parse_i64 v of
                 None \<Rightarrow> Inl NonNumeric
               | Some current \<Rightarrow>
                   (case i64_checked_add current delta of
                      None \<Rightarrow> Inl Overflow
                    | Some next \<Rightarrow> Inr (next, expires_at)))
          | None \<Rightarrow>
              (case i64_checked_add 0 delta of
                 None \<Rightarrow> Inl Overflow
               | Some next \<Rightarrow> Inr (next, map_option (\<lambda>ms. u64_saturating_add now ms) ttl_ms)))
         (\<lambda>(next, expires_at).
       and_then (io_insert ops io t (kv_scope app_id key) (show_int next, expires_at)) (\<lambda>t.
         Inr (t, next)))))"

definition redb_set_if_absent ::
  "'t TableOps \<Rightarrow> io \<Rightarrow> u64 \<Rightarrow> 't option \<Rightarrow> string \<Rightarrow> string \<Rightarrow> string \<Rightarrow> u64 option \<Rightarrow> bool kv_result \<times> 't option" where
  "redb_set_if_absent ops io now db app_id key v ttl_ms =
     write_txn ops io db (\<lambda>t.
       and_then (io_get ops io t (kv_scope app_id key)) (\<lambda>row.
         let occupied = (case row of Some (_, expires_at) \<Rightarrow> \<not> is_expired expires_at now | None \<Rightarrow> False)
         in if occupied then Inr (t, False)
            else let expires_at = map_option (\<lambda>ms. u64_saturating_add now ms) ttl_ms
              in and_then (io_insert ops io t (kv_scope app_id key) (v, expires_at)) (\<lambda>t. Inr (t, True))))"

definition redb_expire ::
  "'t TableOps \<Rightarrow> io \<Rightarrow> u64 \<Rightarrow> 't option \<Rightarrow> string \<Rightarrow> string \<Rightarrow> u64 \<Rightarrow> bool kv_result \<times> 't option" where
  "redb_expire ops io now db app_id key ttl_ms =
     write_txn ops io db (\<lambda>t.
       and_then (io_get ops io t (kv_scope app_id key)) (\<lambda>row.
         case live_row now row of
           Some (v, _) \<Rightarrow>
             and_then (io_insert ops io t (kv_scope app_id key) (v, Some (u64_saturating_add now ttl_ms))) (\<lambda>t.
               Inr (t, True))
         | None \<Rightarrow> Inr (t, False)))"

definition redb_ttl :: "'t TableOps \<Rightarrow> io \<Rightarrow> u64 \<Rightarrow> 't option \<Rightarrow> string \<Rightarrow> string \<Rightarrow> TtlState kv_result" where
  "redb_ttl ops io now db app_id key =
     read_txn io db Missing (\<lambda>t.
       and_then (io_get ops io t (kv_scope app_id key)) (\<lambda>row.
         case row of
           Some (_, expires_at) \<Rightarrow>
             (case expires_at of
                None \<Rightarrow> Inr NoExpiry
              | Some at \<Rightarrow> if now \<ge> at then Inr Missing else Inr (ExpiresInMs (at - now)))
         | None \<Rightarrow> Inr Missing))"

definition redb_persist :: "'t TableOps \<Rightarrow> io \<Rightarrow> u64 \<Rightarrow> 't option \<Rightarrow> string \<Rightarrow> string \<Rightarrow> bool kv_result \<times> 't option" where
  "redb_persist ops io now db app_id key =
     write_txn ops io db (\<lambda>t.
       and_then (io_get ops io t (kv_scope app_id key)) (\<lambda>row.
         let payload = (case row of
              Some (v, expires_at) \<Rightarrow>
                if is_expired expires_at now \<or> expires_at = None then None else Some v
            | None \<Rightarrow> None)
         in case payload of
              Some v \<Rightarrow>
                and_then (io_insert ops io t (kv_scope app_id key) (v, None)) (\<lambda>t. Inr (t, True))
            | None \<Rightarrow> Inr (t, False)))"

subsection \<open>Listing\<close>

definition str_strip_prefix :: "string \<Rightarrow> string \<Rightarrow> string option" where
  "str_strip_prefix p s = (if prefix p s then Some (drop (length p) s) else None)"

text \<open>The loop over the range: the page, its last key and whether a further key was seen.\<close>

fun list_loop ::
  "string \<Rightarrow> string \<Rightarrow> u64 \<Rightarrow> nat \<Rightarrow> (string \<times> entry) list \<Rightarrow> string list \<Rightarrow> string option \<Rightarrow>
     string list \<times> string option \<times> bool" where
  "list_loop scoped_prefix strip now limit [] page last_key = (page, last_key, False)"
| "list_loop scoped_prefix strip now limit ((scoped_key, (v, expires_at)) # rest) page last_key =
     (if \<not> prefix scoped_prefix scoped_key then (page, last_key, False)
      else if is_expired expires_at now then list_loop scoped_prefix strip now limit rest page last_key
      else case str_strip_prefix strip scoped_key of
        None \<Rightarrow> list_loop scoped_prefix strip now limit rest page last_key
      | Some unscoped \<Rightarrow>
          if length page = limit then (page, last_key, True)
          else list_loop scoped_prefix strip now limit rest (page @ [unscoped]) (Some unscoped))"

definition redb_list ::
  "'t TableOps \<Rightarrow> io \<Rightarrow> u64 \<Rightarrow> 't option \<Rightarrow> string \<Rightarrow> string \<Rightarrow> string option \<Rightarrow> nat \<Rightarrow>
     (string list \<times> string option) kv_result" where
  "redb_list ops io now db app_id key_prefix cursor limit =
     (let scoped_prefix = kv_scope app_id key_prefix;
          strip = ''{'' @ app_id @ ''}:''
      in read_txn io db ([], None) (\<lambda>t.
           let lower = (case cursor of
                Some c \<Rightarrow> Excluded (kv_scope app_id c) | None \<Rightarrow> Included scoped_prefix)
           in and_then (io_check io TableRange) (\<lambda>_.
              and_then (if tbl_range ops t lower = [] then Inr () else io_check io TableIter) (\<lambda>_.
                let (page, last_key, any_remaining) =
                      list_loop scoped_prefix strip now limit (tbl_range ops t lower) [] None
                in Inr (page, if length page = limit \<and> any_remaining then last_key else None)))))"

subsection \<open>The scoped handle\<close>

datatype KvRequest =
    KvGet string
  | KvSet string string "u64 option"
  | KvDelete string
  | KvIncr string int "u64 option"
  | KvSetIfAbsent string string "u64 option"
  | KvExpire string u64
  | KvTtl string
  | KvPersist string
  | KvList string "string option" nat

datatype KvReply =
    GotValue "string option"
  | Stored
  | Answered bool
  | Counted int
  | TtlIs TtlState
  | Page "string list" "string option"

text \<open>A request of a \<^verbatim>\<open>Kv\<close> handle with namespace \<open>ns\<close>: validation, then the backend.\<close>

fun kv_request :: "'t TableOps \<Rightarrow> io \<Rightarrow> u64 \<Rightarrow> string \<Rightarrow> KvRequest \<Rightarrow> 't option \<Rightarrow> KvReply kv_result \<times> 't option" where
  "kv_request ops io now ns (KvGet key) db =
     (and_then (validate_key key) (\<lambda>_.
        and_then (redb_get ops io now db ns key) (\<lambda>v. Inr (GotValue v))), db)"
| "kv_request ops io now ns (KvSet key v ttl_ms) db =
     (case and_then (validate_key key) (\<lambda>_. and_then (validate_value v) (\<lambda>_. validate_optional_ttl ttl_ms)) of
        Inl e \<Rightarrow> (Inl e, db)
      | Inr _ \<Rightarrow> apfst (\<lambda>r. and_then r (\<lambda>_. Inr Stored)) (redb_set ops io now db ns key v ttl_ms))"
| "kv_request ops io now ns (KvDelete key) db =
     (case validate_key key of
        Inl e \<Rightarrow> (Inl e, db)
      | Inr _ \<Rightarrow> apfst (\<lambda>r. and_then r (\<lambda>b. Inr (Answered b))) (redb_delete ops io now db ns key))"
| "kv_request ops io now ns (KvIncr key delta ttl_ms) db =
     (case and_then (validate_key key) (\<lambda>_. validate_optional_ttl ttl_ms) of
        Inl e \<Rightarrow> (Inl e, db)
      | Inr _ \<Rightarrow> apfst (\<lambda>r. and_then r (\<lambda>n. Inr (Counted n))) (redb_incr ops io now db ns key delta ttl_ms))"
| "kv_request ops io now ns (KvSetIfAbsent key v ttl_ms) db =
     (case and_then (validate_key key) (\<lambda>_. and_then (validate_value v) (\<lambda>_. validate_optional_ttl ttl_ms)) of
        Inl e \<Rightarrow> (Inl e, db)
      | Inr _ \<Rightarrow> apfst (\<lambda>r. and_then r (\<lambda>b. Inr (Answered b))) (redb_set_if_absent ops io now db ns key v ttl_ms))"
| "kv_request ops io now ns (KvExpire key ttl_ms) db =
     (case and_then (validate_key key) (\<lambda>_. validate_ttl_ms ttl_ms) of
        Inl e \<Rightarrow> (Inl e, db)
      | Inr _ \<Rightarrow> apfst (\<lambda>r. and_then r (\<lambda>b. Inr (Answered b))) (redb_expire ops io now db ns key ttl_ms))"
| "kv_request ops io now ns (KvTtl key) db =
     (and_then (validate_key key) (\<lambda>_.
        and_then (redb_ttl ops io now db ns key) (\<lambda>s. Inr (TtlIs s))), db)"
| "kv_request ops io now ns (KvPersist key) db =
     (case validate_key key of
        Inl e \<Rightarrow> (Inl e, db)
      | Inr _ \<Rightarrow> apfst (\<lambda>r. and_then r (\<lambda>b. Inr (Answered b))) (redb_persist ops io now db ns key))"
| "kv_request ops io now ns (KvList key_prefix cursor limit) db =
     (and_then (redb_list ops io now db ns key_prefix cursor (normalize_list_limit limit))
        (\<lambda>(page, next). Inr (Page page next)), db)"

end
