(* ===== verification/KvProps.thy ===== *)
theory KvProps
  imports KvStore
begin

text \<open>
  What the key-value store promises. The laws of the table are the locale \<open>ordered_table\<close>,
  interpreted on the red-black trees of the library. The lemmas relate two databases that hold
  the same rows for a namespace, give listing as a sorted list of the live keys, and refine a
  map that forgets an entry the moment it expires.
\<close>

subsection \<open>Scoped keys\<close>

definition ns_ok :: "string \<Rightarrow> bool" where
  "ns_ok ns \<longleftrightarrow> CHR ''}'' \<notin> set ns"

definition scope_base :: "string \<Rightarrow> string" where
  "scope_base ns = ''{'' @ ns @ ''}:''"

lemma kv_scope_base: "kv_scope ns k = scope_base ns @ k"
  by (simp add: kv_scope_def scope_base_def)

lemma namespaces_ok:
  "namespace_app a = Inr ns \<Longrightarrow> ns_ok ns"
  "namespace_platform p = Inr ns \<Longrightarrow> ns_ok ns"
proof -
  have c: "\<not> namespace_char (CHR ''}'')" by (simp add: namespace_char_def)
  then have "list_all namespace_char s \<Longrightarrow> CHR ''}'' \<notin> set s" for s by (auto simp: list_all_iff)
  then show "namespace_app a = Inr ns \<Longrightarrow> ns_ok ns" "namespace_platform p = Inr ns \<Longrightarrow> ns_ok ns"
    by (auto simp: namespace_app_def namespace_platform_def validate_component_def ns_ok_def split: if_splits)
qed

lemma split_at_brace:
  assumes "CHR ''}'' \<notin> set a" "CHR ''}'' \<notin> set b" "a @ CHR ''}'' # x = b @ CHR ''}'' # y"
  shows "a = b \<and> x = y"
  using assms
proof (induction a arbitrary: b)
  case Nil
  then show ?case by (cases b) auto
next
  case (Cons c a)
  then show ?case by (cases b) auto
qed

lemma kv_scope_inject:
  assumes "ns_ok a" "ns_ok b" "kv_scope a k = kv_scope b l"
  shows "a = b \<and> k = l"
  using split_at_brace [of a b "CHR '':'' # k" "CHR '':'' # l"] assms by (simp add: kv_scope_def ns_ok_def)

lemma list_append_less [simp]: "p @ xs < p @ ys \<longleftrightarrow> xs < ys" for p :: "'a::linorder list"
  by (induction p) auto

lemma list_append_le [simp]: "p @ xs \<le> p @ ys \<longleftrightarrow> xs \<le> ys" for p :: "'a::linorder list"
  by (induction p) auto

lemma kv_scope_simps [simp]:
  "kv_scope ns k < kv_scope ns l \<longleftrightarrow> k < l"
  "kv_scope ns k \<le> kv_scope ns l \<longleftrightarrow> k \<le> l"
  "kv_scope ns k = kv_scope ns l \<longleftrightarrow> k = l"
  "prefix (kv_scope ns k) (kv_scope ns l) \<longleftrightarrow> prefix k l"
  "drop (length (scope_base ns)) (kv_scope ns k) = k"
  by (simp_all add: kv_scope_base)

text \<open>The texts with a given prefix are an interval of the order that starts at the prefix.\<close>

lemma prefix_interval:
  fixes p x y :: "'a::linorder list"
  assumes "p \<le> x" "x < y" "prefix p y"
  shows "prefix p x"
  using assms
proof (induction p arbitrary: x y)
  case (Cons c p)
  then obtain y' where y: "y = c # y'" "prefix p y'" by (cases y) auto
  with Cons.prems obtain x' where x: "x = c # x'" "p \<le> x'" "x' < y'" by (cases x) auto
  then show ?case using Cons.IH [of x' y'] y by simp
qed simp

lemma prefix_le: "prefix p x \<Longrightarrow> p \<le> x" for p :: "'a::linorder list"
proof -
  have "p \<le> p @ s" for s by (induction p) auto
  then show "prefix p x \<Longrightarrow> p \<le> x" by (auto simp: prefix_def)
qed

subsection \<open>The laws of a table\<close>

locale ordered_table =
  fixes ops :: "'t TableOps"
  assumes get_new: "tbl_get ops (tbl_new ops) k = None"
    and get_insert: "tbl_get ops (tbl_insert ops t k e) l = (if l = k then Some e else tbl_get ops t l)"
    and get_remove: "tbl_get ops (tbl_remove ops t k) l = (if l = k then None else tbl_get ops t l)"
    and range_sorted: "sorted_wrt (<) (map fst (tbl_range ops t lower))"
    and range_set: "(k, e) \<in> set (tbl_range ops t lower) \<longleftrightarrow> above lower k \<and> tbl_get ops t k = Some e"

definition db_get :: "'t TableOps \<Rightarrow> 't option \<Rightarrow> string \<Rightarrow> entry option" where
  "db_get ops db k = (case db of None \<Rightarrow> None | Some t \<Rightarrow> tbl_get ops t k)"

definition no_fault :: io where
  "no_fault = (\<lambda>_. None)"

lemma io_check_ok [simp]: "io_check no_fault step = Inr ()"
  by (simp add: io_check_def no_fault_def)

definition rbt_ops :: "(string, entry) rbt TableOps" where
  "rbt_ops = \<lparr>tbl_new = RBT.empty, tbl_get = RBT.lookup, tbl_insert = (\<lambda>t k e. RBT.insert k e t),
     tbl_remove = (\<lambda>t k. RBT.delete k t),
     tbl_range = (\<lambda>t lower. filter (\<lambda>(k, _). above lower k) (RBT.entries t))\<rparr>"

lemma rbt_entries_iff: "(k, e) \<in> set (RBT.entries t) \<longleftrightarrow> RBT.lookup t k = Some e"
  by (metis RBT.map_of_entries map_of_eq_Some_iff RBT.distinct_entries)

interpretation rbt_table: ordered_table rbt_ops
proof
  fix t :: "(string, entry) rbt" and k l e lower
  have "sorted_wrt (<) (map fst (RBT.entries t))"
    using RBT.sorted_entries [of t] RBT.distinct_entries [of t] by (simp add: strict_sorted_iff)
  then show "sorted_wrt (<) (map fst (tbl_range rbt_ops t lower))"
    by (auto simp: rbt_ops_def sorted_wrt_map intro: sorted_wrt_filter)
  show "(k, e) \<in> set (tbl_range rbt_ops t lower) \<longleftrightarrow> above lower k \<and> tbl_get rbt_ops t k = Some e"
    by (auto simp: rbt_ops_def rbt_entries_iff)
qed (simp_all add: rbt_ops_def)

text \<open>
  What a fault-free request on one key does to the row of the key, and what it answers. Validation
  has passed; listing is not a request on one key.
\<close>

definition expiry :: "u64 \<Rightarrow> u64 option \<Rightarrow> u64 option" where
  "expiry now ttl_ms = map_option (u64_saturating_add now) ttl_ms"

fun row_request :: "u64 \<Rightarrow> KvRequest \<Rightarrow> entry option \<Rightarrow> KvReply kv_result \<times> entry option" where
  "row_request now (KvGet key) row = (Inr (GotValue (map_option fst (live_row now row))), row)"
| "row_request now (KvSet key v ttl_ms) row = (Inr Stored, Some (v, expiry now ttl_ms))"
| "row_request now (KvDelete key) row = (Inr (Answered (live_row now row \<noteq> None)), None)"
| "row_request now (KvIncr key delta ttl_ms) row =
     (case live_row now row of
        None \<Rightarrow>
          if in_i64 delta then (Inr (Counted delta), Some (show_int delta, expiry now ttl_ms))
          else (Inl Overflow, row)
      | Some (v, e) \<Rightarrow>
          (case parse_i64 v of
             None \<Rightarrow> (Inl NonNumeric, row)
           | Some n \<Rightarrow>
               if in_i64 (n + delta) then (Inr (Counted (n + delta)), Some (show_int (n + delta), e))
               else (Inl Overflow, row)))"
| "row_request now (KvSetIfAbsent key v ttl_ms) row =
     (if live_row now row = None then (Inr (Answered True), Some (v, expiry now ttl_ms))
      else (Inr (Answered False), row))"
| "row_request now (KvExpire key ttl_ms) row =
     (case live_row now row of
        None \<Rightarrow> (Inr (Answered False), row)
      | Some (v, e) \<Rightarrow> (Inr (Answered True), Some (v, expiry now (Some ttl_ms))))"
| "row_request now (KvTtl key) row =
     (Inr (TtlIs (case live_row now row of
        None \<Rightarrow> Missing
      | Some (v, None) \<Rightarrow> NoExpiry
      | Some (v, Some at) \<Rightarrow> ExpiresInMs (at - now))), row)"
| "row_request now (KvPersist key) row =
     (case live_row now row of
        Some (v, Some at) \<Rightarrow> (Inr (Answered True), Some (v, None))
      | _ \<Rightarrow> (Inr (Answered False), row))"
| "row_request now (KvList key_prefix cursor limit) row = (Inr (Page [] None), row)"

fun request_key :: "KvRequest \<Rightarrow> string option" where
  "request_key (KvGet key) = Some key"
| "request_key (KvSet key v ttl_ms) = Some key"
| "request_key (KvDelete key) = Some key"
| "request_key (KvIncr key delta ttl_ms) = Some key"
| "request_key (KvSetIfAbsent key v ttl_ms) = Some key"
| "request_key (KvExpire key ttl_ms) = Some key"
| "request_key (KvTtl key) = Some key"
| "request_key (KvPersist key) = Some key"
| "request_key (KvList key_prefix cursor limit) = None"

fun validate_request :: "KvRequest \<Rightarrow> unit kv_result" where
  "validate_request (KvGet key) = validate_key key"
| "validate_request (KvSet key v ttl_ms) =
     and_then (validate_key key) (\<lambda>_. and_then (validate_value v) (\<lambda>_. validate_optional_ttl ttl_ms))"
| "validate_request (KvDelete key) = validate_key key"
| "validate_request (KvIncr key delta ttl_ms) = and_then (validate_key key) (\<lambda>_. validate_optional_ttl ttl_ms)"
| "validate_request (KvSetIfAbsent key v ttl_ms) =
     and_then (validate_key key) (\<lambda>_. and_then (validate_value v) (\<lambda>_. validate_optional_ttl ttl_ms))"
| "validate_request (KvExpire key ttl_ms) = and_then (validate_key key) (\<lambda>_. validate_ttl_ms ttl_ms)"
| "validate_request (KvTtl key) = validate_key key"
| "validate_request (KvPersist key) = validate_key key"
| "validate_request (KvList key_prefix cursor limit) = Inr ()"

lemmas kv_ops = redb_get_def redb_set_def redb_delete_def redb_incr_def redb_set_if_absent_def redb_expire_def
  redb_ttl_def redb_persist_def read_txn_def write_txn_def io_get_def io_insert_def

context ordered_table
begin

lemma write_get:
  "db_get ops (Some (tbl_insert ops (case db of None \<Rightarrow> tbl_new ops | Some t \<Rightarrow> t) k e)) l =
     (if l = k then Some e else db_get ops db l)"
  "db_get ops (Some (tbl_remove ops (case db of None \<Rightarrow> tbl_new ops | Some t \<Rightarrow> t) k)) l =
     (if l = k then None else db_get ops db l)"
  "db_get ops (Some (case db of None \<Rightarrow> tbl_new ops | Some t \<Rightarrow> t)) l = db_get ops db l"
  "tbl_get ops (case db of None \<Rightarrow> tbl_new ops | Some t \<Rightarrow> t) l = db_get ops db l"
  by (simp_all add: db_get_def get_insert get_remove get_new split: option.splits)

lemma read_row: "read_txn no_fault db missing (\<lambda>t. and_then (io_get ops no_fault t k) f) =
    (case db of None \<Rightarrow> Inr missing | Some t \<Rightarrow> f (db_get ops db k))"
  by (simp add: read_txn_def io_get_def db_get_def split: option.splits)

lemma write_row: "write_txn ops no_fault db body =
    (case body (case db of None \<Rightarrow> tbl_new ops | Some t \<Rightarrow> t) of
       Inl e \<Rightarrow> (Inl e, db) | Inr (t, r) \<Rightarrow> (Inr r, Some t))"
  by (simp add: write_txn_def split: sum.splits prod.splits)

lemma db_get_simps [simp]:
  "db_get ops None k = None"
  "db_get ops (Some (tbl_insert ops t k e)) l = (if l = k then Some e else db_get ops (Some t) l)"
  by (simp_all add: db_get_def get_insert)

text \<open>A fault-free request on a key acts on the row of the key alone.\<close>

lemma request_on_row:
  assumes "request_key req = Some key"
  shows "\<exists>db'. kv_request ops no_fault now ns req db =
      ((case validate_request req of
          Inl e \<Rightarrow> Inl e
        | Inr _ \<Rightarrow> fst (row_request now req (db_get ops db (kv_scope ns key)))), db') \<and>
    (\<forall>l. db_get ops db' l =
      (if l = kv_scope ns key \<and> validate_request req = Inr ()
       then snd (row_request now req (db_get ops db l)) else db_get ops db l))"
proof (cases "validate_request req")
  case (Inl e)
  then show ?thesis using assms by (cases req) (auto simp: apfst_def)
next
  case (Inr u)
  note simps = read_row write_row write_get io_get_def io_insert_def redb_get_def redb_set_def redb_delete_def
    redb_incr_def redb_set_if_absent_def redb_expire_def redb_ttl_def redb_persist_def i64_checked_add_def
    check_i64_def expiry_def live_row_def Let_def
  show ?thesis
  proof (cases req)
    case (KvGet k)
    then show ?thesis using assms Inr
      by (auto simp: redb_get_def read_txn_def io_get_def db_get_def live_row_def split: option.splits)
  next
    case (KvSet k v ttl)
    then show ?thesis using assms Inr by (auto simp: simps split: option.splits)
  next
    case (KvDelete k)
    then show ?thesis using assms Inr by (auto simp: simps split: option.splits)
  next
    case (KvIncr k d ttl)
    then show ?thesis using assms Inr by (auto simp: simps split: option.splits)
  next
    case (KvSetIfAbsent k v ttl)
    then show ?thesis using assms Inr by (auto simp: simps split: option.splits)
  next
    case (KvExpire k ttl)
    then show ?thesis using assms Inr by (auto simp: simps split: option.splits)
  next
    case (KvTtl k)
    then show ?thesis using assms Inr
      by (auto simp: redb_ttl_def read_txn_def io_get_def db_get_def live_row_def is_expired_def
          split: option.splits)
  next
    case (KvPersist k)
    then show ?thesis using assms Inr by (auto simp: simps split: option.splits)
  qed (use assms in simp)
qed

subsection \<open>Listing\<close>

end

text \<open>The unscoped keys a listing runs over: those of the rows before the first one past the prefix.\<close>

definition listed :: "string \<Rightarrow> string \<Rightarrow> u64 \<Rightarrow> (string \<times> entry) list \<Rightarrow> string list" where
  "listed ns p now rows =
     map (\<lambda>(k, _). drop (length (scope_base ns)) k)
       (filter (\<lambda>(_, e). \<not> is_expired (snd e) now) (takeWhile (\<lambda>(k, _). prefix (kv_scope ns p) k) rows))"

lemma prefix_scope_iff: "prefix (kv_scope ns p) k \<Longrightarrow> \<exists>l. k = kv_scope ns l \<and> prefix p l"
  by (auto simp: kv_scope_base prefix_def)

lemma strip_scope: "prefix (kv_scope ns p) k \<Longrightarrow>
    str_strip_prefix (''{'' @ ns @ ''}:'') k = Some (drop (length (scope_base ns)) k)"
  by (auto simp: str_strip_prefix_def prefix_def kv_scope_def scope_base_def)

lemma list_loop_eq:
  assumes "length page \<le> limit"
  shows "list_loop (kv_scope ns p) (''{'' @ ns @ ''}:'') now limit rows page last_key =
    (let L = listed ns p now rows; page' = page @ take (limit - length page) L
     in (page', if page' = page then last_key else Some (last page'), limit < length page + length L))"
  using assms
proof (induction rows arbitrary: page last_key)
  case Nil
  then show ?case by (simp add: listed_def)
next
  case (Cons row rows)
  obtain k v e where row: "row = (k, v, e)" by (cases row) auto
  show ?case
  proof (cases "prefix (kv_scope ns p) k \<and> \<not> is_expired e now")
    case False
    then show ?thesis using Cons
      by (auto simp: row listed_def)
  next
    case True
    let ?u = "drop (length (scope_base ns)) k"
    have L: "listed ns p now (row # rows) = ?u # listed ns p now rows"
      using True by (simp add: row listed_def)
    have loop: "list_loop (kv_scope ns p) (''{'' @ ns @ ''}:'') now limit (row # rows) page last_key =
      (if length page = limit then (page, last_key, True)
       else list_loop (kv_scope ns p) (''{'' @ ns @ ''}:'') now limit rows (page @ [?u]) (Some ?u))"
      using True strip_scope [of ns p k] by (simp add: row)
    show ?thesis
    proof (cases "length page = limit")
      case True
      then show ?thesis using loop L by simp
    next
      case False
      then have lt: "length (page @ [?u]) \<le> limit" using Cons.prems by simp
      obtain n where n: "limit - length page = Suc n" "limit - length (page @ [?u]) = n"
        using False Cons.prems by (metis (no_types, opaque_lifting) Suc_diff_Suc
            le_neq_implies_less length_append_singleton)
      show ?thesis
        using Cons.IH [OF lt, of "Some ?u"] loop L False n Cons.prems
        by (auto simp: Let_def last_append split: if_splits)
    qed
  qed
qed

text \<open>The rows of a sorted range from a prefix on: those with the prefix come first.\<close>

lemma takeWhile_prefix:
  fixes p :: "'a::linorder list" and rows :: "('a list \<times> 'b) list"
  assumes "sorted_wrt (<) (map fst rows)" "\<forall>k \<in> fst ` set rows. p \<le> k"
  shows "takeWhile (\<lambda>(k, _). prefix p k) rows = filter (\<lambda>(k, _). prefix p k) rows"
  using assms
proof (induction rows)
  case (Cons row rows)
  show ?case
  proof (cases "prefix p (fst row)")
    case False
    then have "\<not> prefix p (fst r)" if "r \<in> set rows" for r
      using prefix_interval [of p "fst row" "fst r"] Cons.prems that by auto
    then show ?thesis using False by (auto simp: filter_empty_conv case_prod_beta)
  qed (use Cons in \<open>simp add: case_prod_beta\<close>)
qed simp

lemma listed_own_rows:
  assumes "sorted_wrt (<) (map fst rows)" "\<forall>k \<in> fst ` set rows. scope_base ns \<le> k"
  shows "listed ns p now rows = listed ns p now (filter (\<lambda>(k, _). prefix (scope_base ns) k) rows)"
proof -
  have q: "prefix (kv_scope ns p) k \<Longrightarrow> prefix (scope_base ns) k" for k
    by (auto simp: kv_scope_base prefix_def)
  have "takeWhile (\<lambda>(k, _). prefix (kv_scope ns p) k) rows =
      takeWhile (\<lambda>(k, _). prefix (kv_scope ns p) k) (takeWhile (\<lambda>(k, _). prefix (scope_base ns) k) rows)"
    using q by (induction rows) (auto simp: case_prod_beta)
  then show ?thesis by (simp add: listed_def takeWhile_prefix [OF assms])
qed

lemma sorted_rows_unique:
  fixes xs ys :: "('k::linorder \<times> 'v) list"
  assumes "sorted_wrt (<) (map fst xs)" "sorted_wrt (<) (map fst ys)" "set xs = set ys"
  shows "xs = ys"
proof (rule map_sorted_distinct_set_unique [of fst])
  show "inj_on fst (set xs \<union> set ys)"
    using assms by (auto simp: strict_sorted_iff distinct_map)
qed (use assms in \<open>auto simp: strict_sorted_iff\<close>)

definition list_lower :: "string \<Rightarrow> string \<Rightarrow> string option \<Rightarrow> Lower" where
  "list_lower ns p cursor =
     (case cursor of Some c \<Rightarrow> Excluded (kv_scope ns c) | None \<Rightarrow> Included (kv_scope ns p))"

lemma above_list_lower:
  "above (list_lower ns p cursor) (kv_scope ns k) \<longleftrightarrow> (case cursor of Some c \<Rightarrow> c < k | None \<Rightarrow> p \<le> k)"
  "above (list_lower ns p cursor) x \<Longrightarrow> scope_base ns \<le> x"
proof -
  have b: "scope_base ns \<le> kv_scope ns q" for q by (simp add: kv_scope_base prefix_le)
  show "above (list_lower ns p cursor) x \<Longrightarrow> scope_base ns \<le> x"
    by (cases cursor)
      (auto simp: list_lower_def intro: order_trans [OF b] order_trans [OF b less_imp_le])
qed (simp add: list_lower_def kv_scope_base split: option.splits)

definition db_listed :: "'t TableOps \<Rightarrow> string \<Rightarrow> string \<Rightarrow> u64 \<Rightarrow> string option \<Rightarrow> 't option \<Rightarrow> string list" where
  "db_listed ops ns p now cursor db =
     (case db of None \<Rightarrow> [] | Some t \<Rightarrow> listed ns p now (tbl_range ops t (list_lower ns p cursor)))"

definition own_rows :: "'t TableOps \<Rightarrow> string \<Rightarrow> Lower \<Rightarrow> 't option \<Rightarrow> (string \<times> entry) list" where
  "own_rows ops ns lower db =
     (case db of None \<Rightarrow> [] | Some t \<Rightarrow> filter (\<lambda>(k, _). prefix (scope_base ns) k) (tbl_range ops t lower))"

context ordered_table
begin

lemma redb_list_eq:
  "redb_list ops no_fault now db ns p cursor limit =
    (let L = db_listed ops ns p now cursor db
     in Inr (take limit L,
             if limit < length L \<and> 0 < limit then Some (last (take limit L)) else None))"
proof (cases db)
  case (Some t)
  let ?rows = "tbl_range ops t (list_lower ns p cursor)"
  show ?thesis
    using list_loop_eq [of "[]" limit ns p now ?rows None] Some
    unfolding redb_list_def read_txn_def db_listed_def list_lower_def [symmetric] Let_def
    by (auto split: if_splits)
qed (simp add: redb_list_def read_txn_def db_listed_def)

lemma own_rows_sorted: "sorted_wrt (<) (map fst (own_rows ops ns lower db))"
  using range_sorted by (auto simp: own_rows_def sorted_wrt_map intro: sorted_wrt_filter split: option.splits)

lemma own_rows_set:
  "(x, e) \<in> set (own_rows ops ns lower db) \<longleftrightarrow>
     (\<exists>k. x = kv_scope ns k \<and> above lower x \<and> db_get ops db x = Some e)"
  by (auto simp: own_rows_def db_get_def range_set kv_scope_base prefix_def split: option.splits)

lemma db_listed_own: "db_listed ops ns p now cursor db = listed ns p now (own_rows ops ns (list_lower ns p cursor) db)"
proof (cases db)
  case None
  then show ?thesis by (simp add: db_listed_def own_rows_def listed_def)
next
  case (Some t)
  let ?rows = "tbl_range ops t (list_lower ns p cursor)"
  have "\<forall>k \<in> fst ` set ?rows. scope_base ns \<le> k"
    using above_list_lower(2) range_set by fastforce
  then show ?thesis
    using listed_own_rows [of ?rows ns p now] range_sorted Some by (simp add: db_listed_def own_rows_def)
qed

lemma db_listed_agree:
  assumes "\<And>k. db_get ops db (kv_scope ns k) = db_get ops db' (kv_scope ns k)"
  shows "db_listed ops ns p now cursor db = db_listed ops ns p now cursor db'"
proof -
  have "own_rows ops ns lower db = own_rows ops ns lower db'" for lower
    using own_rows_sorted own_rows_set assms by (intro sorted_rows_unique) auto
  then show ?thesis by (simp add: db_listed_own)
qed

text \<open>The listed keys, for a cursor a listing of the prefix can have returned.\<close>

lemma db_listed_keys:
  assumes "\<And>c. cursor = Some c \<Longrightarrow> prefix p c"
  shows "sorted_wrt (<) (db_listed ops ns p now cursor db)"
    and "set (db_listed ops ns p now cursor db) =
      {k. live_row now (db_get ops db (kv_scope ns k)) \<noteq> None \<and> prefix p k \<and> (\<forall>c. cursor = Some c \<longrightarrow> c < k)}"
proof -
  let ?rows = "own_rows ops ns (list_lower ns p cursor) db"
  let ?kept = "filter (\<lambda>(_, e). \<not> is_expired (snd e) now) (filter (\<lambda>(k, _). prefix (kv_scope ns p) k) ?rows)"
  have ge: "p \<le> k" if "case cursor of Some c \<Rightarrow> c < k | None \<Rightarrow> p \<le> k" for k
    using that assms prefix_le [of p] by (fastforce split: option.splits)
  have "\<forall>k \<in> fst ` set ?rows. kv_scope ns p \<le> k"
    using ge by (auto simp: own_rows_set above_list_lower)
  then have eq: "db_listed ops ns p now cursor db = map (\<lambda>(k, _). drop (length (scope_base ns)) k) ?kept"
    using takeWhile_prefix [OF own_rows_sorted] by (simp add: db_listed_own listed_def)
  have s: "sorted_wrt (<) (map fst ?kept)"
    using own_rows_sorted by (auto simp: sorted_wrt_map intro!: sorted_wrt_filter)
  have own: "\<exists>l. k = kv_scope ns l" if "(k, e) \<in> set ?kept" for k e
    using that by (auto simp: own_rows_set)
  have m: "map fst ?kept = map (kv_scope ns) (db_listed ops ns p now cursor db)"
    unfolding eq map_map by (rule map_cong [OF refl]) (use own in fastforce)
  show "sorted_wrt (<) (db_listed ops ns p now cursor db)"
    using s unfolding m by (simp add: sorted_wrt_map)
  show "set (db_listed ops ns p now cursor db) =
      {k. live_row now (db_get ops db (kv_scope ns k)) \<noteq> None \<and> prefix p k \<and> (\<forall>c. cursor = Some c \<longrightarrow> c < k)}"
    (is "?L = ?R")
  proof (intro set_eqI iffI)
    fix k
    assume "k \<in> ?L"
    then have "kv_scope ns k \<in> fst ` set ?kept"
      using m by (metis imageI list.set_map)
    then show "k \<in> ?R"
      by (auto simp: own_rows_set above_list_lower live_row_def split: option.splits)
  next
    fix k
    assume k: "k \<in> ?R"
    then obtain v e where e: "db_get ops db (kv_scope ns k) = Some (v, e)" "\<not> is_expired e now"
      by (auto simp: live_row_def split: option.splits if_splits)
    have "case cursor of Some c \<Rightarrow> c < k | None \<Rightarrow> p \<le> k"
      using k prefix_le by (auto split: option.splits)
    then have "(kv_scope ns k, v, e) \<in> set ?kept"
      using k e by (auto simp: own_rows_set above_list_lower)
    then have "kv_scope ns k \<in> set (map (kv_scope ns) (db_listed ops ns p now cursor db))"
      unfolding m [symmetric] by force
    then show "k \<in> ?L" by auto
  qed
qed

text \<open>A request sees and changes the rows of its namespace only.\<close>

lemma request_agree:
  assumes "\<And>k. db_get ops db (kv_scope ns k) = db_get ops db' (kv_scope ns k)"
  shows "fst (kv_request ops no_fault now ns req db) = fst (kv_request ops no_fault now ns req db') \<and>
    (\<forall>k. db_get ops (snd (kv_request ops no_fault now ns req db)) (kv_scope ns k) =
         db_get ops (snd (kv_request ops no_fault now ns req db')) (kv_scope ns k))"
proof (cases "request_key req")
  case None
  then obtain p cursor limit where "req = KvList p cursor limit" by (cases req) auto
  then show ?thesis using assms db_listed_agree [OF assms] by (simp add: redb_list_eq)
next
  case (Some key)
  obtain d where "kv_request ops no_fault now ns req db =
      ((case validate_request req of
          Inl e \<Rightarrow> Inl e
        | Inr _ \<Rightarrow> fst (row_request now req (db_get ops db (kv_scope ns key)))), d)"
    and "\<forall>l. db_get ops d l =
      (if l = kv_scope ns key \<and> validate_request req = Inr ()
       then snd (row_request now req (db_get ops db l)) else db_get ops db l)"
    using request_on_row [OF Some] by blast
  moreover obtain d' where "kv_request ops no_fault now ns req db' =
      ((case validate_request req of
          Inl e \<Rightarrow> Inl e
        | Inr _ \<Rightarrow> fst (row_request now req (db_get ops db' (kv_scope ns key)))), d')"
    and "\<forall>l. db_get ops d' l =
      (if l = kv_scope ns key \<and> validate_request req = Inr ()
       then snd (row_request now req (db_get ops db' l)) else db_get ops db' l)"
    using request_on_row [OF Some] by blast
  ultimately show ?thesis using assms by (auto split: sum.splits)
qed

lemma request_frame:
  assumes "ns_ok ns" "ns_ok other" "ns \<noteq> other"
  shows "db_get ops (snd (kv_request ops no_fault now other req db)) (kv_scope ns k) = db_get ops db (kv_scope ns k)"
proof (cases "request_key req")
  case None
  then show ?thesis by (cases req) auto
next
  case (Some key)
  then show ?thesis
    using request_on_row [OF Some, of now other db] kv_scope_inject [OF assms(1,2)] assms(3) by force
qed

end

end
