(* ===== verification/KvRuns.thy ===== *)
theory KvRuns
  imports KvProps
begin

text \<open>
  Sequences of requests to the key-value store: requests of several namespaces interleaved,
  the pages of a listing followed to the end, and a run of one namespace against the
  specification, a map that forgets an entry the moment it expires.
\<close>

subsection \<open>Runs\<close>

fun kv_run :: "'t TableOps \<Rightarrow> (string \<times> u64 \<times> KvRequest) list \<Rightarrow> 't option \<Rightarrow> (string \<times> KvReply kv_result) list" where
  "kv_run ops [] db = []"
| "kv_run ops ((ns, now, req) # evs) db =
     (let (r, db') = kv_request ops no_fault now ns req db in (ns, r) # kv_run ops evs db')"

text \<open>Listing page after page, \<open>None\<close> when the fuel does not suffice.\<close>

fun kv_pages :: "nat \<Rightarrow> 't TableOps \<Rightarrow> u64 \<Rightarrow> string \<Rightarrow> string \<Rightarrow> string option \<Rightarrow> nat \<Rightarrow> 't option \<Rightarrow> string list option" where
  "kv_pages 0 ops now ns p cursor limit db = None"
| "kv_pages (Suc n) ops now ns p cursor limit db =
     (case fst (kv_request ops no_fault now ns (KvList p cursor limit) db) of
        Inr (Page page None) \<Rightarrow> Some page
      | Inr (Page page (Some c)) \<Rightarrow> map_option ((@) page) (kv_pages n ops now ns p (Some c) limit db)
      | _ \<Rightarrow> None)"

definition live_keys :: "'t TableOps \<Rightarrow> u64 \<Rightarrow> string \<Rightarrow> string \<Rightarrow> 't option \<Rightarrow> string set" where
  "live_keys ops now ns p db = {k. live_row now (db_get ops db (kv_scope ns k)) \<noteq> None \<and> prefix p k}"

lemma normalize_list_limit_pos [simp]: "0 < normalize_list_limit limit"
  by (simp add: normalize_list_limit_def LIST_DEFAULT_LIMIT_def LIST_MAX_LIMIT_def)

subsection \<open>The specification\<close>

text \<open>
  A map of entries none of which has expired. An operation on a key never looks at the clock to
  decide whether an entry is there; a step of the specification first drops what has expired.
\<close>

fun spec_row :: "u64 \<Rightarrow> KvRequest \<Rightarrow> entry option \<Rightarrow> KvReply kv_result \<times> entry option" where
  "spec_row now (KvGet key) row = (Inr (GotValue (map_option fst row)), row)"
| "spec_row now (KvSet key v ttl_ms) row = (Inr Stored, Some (v, expiry now ttl_ms))"
| "spec_row now (KvDelete key) row = (Inr (Answered (row \<noteq> None)), None)"
| "spec_row now (KvIncr key delta ttl_ms) row =
     (case (case row of None \<Rightarrow> Some 0 | Some (v, _) \<Rightarrow> parse_i64 v) of
        None \<Rightarrow> (Inl NonNumeric, row)
      | Some n \<Rightarrow>
          if in_i64 (n + delta)
          then (Inr (Counted (n + delta)),
                Some (show_int (n + delta), case row of None \<Rightarrow> expiry now ttl_ms | Some (_, e) \<Rightarrow> e))
          else (Inl Overflow, row))"
| "spec_row now (KvSetIfAbsent key v ttl_ms) row =
     (Inr (Answered (row = None)), if row = None then Some (v, expiry now ttl_ms) else row)"
| "spec_row now (KvExpire key ttl_ms) row =
     (Inr (Answered (row \<noteq> None)), map_option (\<lambda>(v, _). (v, expiry now (Some ttl_ms))) row)"
| "spec_row now (KvTtl key) row =
     (Inr (TtlIs (case row of
        None \<Rightarrow> Missing | Some (_, None) \<Rightarrow> NoExpiry | Some (_, Some at) \<Rightarrow> ExpiresInMs (at - now))), row)"
| "spec_row now (KvPersist key) row =
     (Inr (Answered (\<exists>v at. row = Some (v, Some at))), map_option (\<lambda>(v, _). (v, None)) row)"
| "spec_row now (KvList key_prefix cursor limit) row = (Inr (Page [] None), row)"

fun after_cursor :: "string option \<Rightarrow> string \<Rightarrow> bool" where
  "after_cursor None k = True"
| "after_cursor (Some c) k = (c < k)"

definition spec_page :: "string \<Rightarrow> string option \<Rightarrow> nat \<Rightarrow> (string \<rightharpoonup> entry) \<Rightarrow> KvReply" where
  "spec_page p cursor limit m =
     (let L = sorted_list_of_set {k \<in> dom m. prefix p k \<and> after_cursor cursor k};
          n = normalize_list_limit limit
      in Page (take n L) (if n < length L then Some (last (take n L)) else None))"

definition spec_step :: "u64 \<Rightarrow> KvRequest \<Rightarrow> (string \<rightharpoonup> entry) \<Rightarrow> KvReply kv_result \<times> (string \<rightharpoonup> entry)" where
  "spec_step now req m0 =
     (let m = (\<lambda>k. live_row now (m0 k))
      in case validate_request req of
           Inl e \<Rightarrow> (Inl e, m)
         | Inr _ \<Rightarrow>
             (case req of
                KvList p cursor limit \<Rightarrow> (Inr (spec_page p cursor limit m), m)
              | _ \<Rightarrow>
                  (let key = the (request_key req); (r, row) = spec_row now req (m key)
                   in (r, m(key := row)))))"

fun spec_run :: "(u64 \<times> KvRequest) list \<Rightarrow> (string \<rightharpoonup> entry) \<Rightarrow> KvReply kv_result list" where
  "spec_run [] m = []"
| "spec_run ((now, req) # evs) m = (let (r, m') = spec_step now req m in r # spec_run evs m')"

text \<open>A cursor that a listing of the prefix can have returned.\<close>

fun proper_cursor :: "KvRequest \<Rightarrow> bool" where
  "proper_cursor (KvList p (Some c) limit) = prefix p c"
| "proper_cursor req = True"

lemma live_row_later [simp]: "now \<le> t \<Longrightarrow> live_row t (live_row now row) = live_row t row"
  by (auto simp: live_row_def is_expired_def split: option.splits)

text \<open>An operation on a row answers as the specification does on the live row, and leaves the same live row.\<close>

lemma spec_row_live:
  assumes "now \<le> t"
  shows "fst (row_request now req row) = fst (spec_row now req (live_row now row))"
    and "live_row t (snd (row_request now req row)) = live_row t (snd (spec_row now req (live_row now row)))"
proof -
  show "fst (row_request now req row) = fst (spec_row now req (live_row now row))"
    by (cases req) (auto split: option.splits)
  have later: "live_row t row = live_row t (live_row now row)" using assms by simp
  show "live_row t (snd (row_request now req row)) = live_row t (snd (spec_row now req (live_row now row)))"
    by (cases req; cases "live_row now row") (auto simp: later split: option.splits)
qed

context ordered_table
begin

lemma db_listed_all:
  "set (db_listed ops ns p now None db) = live_keys ops now ns p db"
  "sorted_wrt (<) (db_listed ops ns p now None db)"
  using db_listed_keys [of None p] by (auto simp: live_keys_def)

text \<open>The page after the key at the end of a page goes on where that page ended.\<close>

lemma db_listed_next:
  assumes "\<And>c. cursor = Some c \<Longrightarrow> prefix p c" "n < length (db_listed ops ns p now cursor db)" "0 < n"
  shows "db_listed ops ns p now (Some (last (take n (db_listed ops ns p now cursor db)))) db =
         drop n (db_listed ops ns p now cursor db)"
    and "prefix p (last (take n (db_listed ops ns p now cursor db)))"
proof -
  let ?L = "db_listed ops ns p now cursor db" and ?c = "last (take n (db_listed ops ns p now cursor db))"
  note L = db_listed_keys [OF assms(1)]
  have c: "?c = ?L ! (n - 1)" using assms(2,3) by (subst last_conv_nth) (auto simp: min_def)
  then have "?c \<in> set ?L" using assms(2) by simp
  then show pc: "prefix p ?c" using L(2) by blast
  have sorted: "?L ! i < ?L ! j \<longleftrightarrow> i < j" if "i < length ?L" "j < length ?L" for i j
    using L(1) that by (metis linorder_cases order_less_asym order_less_irrefl sorted_wrt_iff_nth_less)
  have "set (drop n ?L) = {k \<in> set ?L. ?c < k}"
  proof (intro set_eqI iffI)
    fix k
    assume "k \<in> set (drop n ?L)"
    then obtain i where i: "k = ?L ! (n + i)" "n + i < length ?L"
      by (metis in_set_conv_nth length_drop less_diff_conv nth_drop add.commute less_imp_le assms(2))
    then show "k \<in> {k \<in> set ?L. ?c < k}" using sorted [of "n - 1" "n + i"] assms(2,3) c by simp
  next
    fix k
    assume "k \<in> {k \<in> set ?L. ?c < k}"
    then obtain i where i: "k = ?L ! i" "i < length ?L" "?c < k" by (auto simp: in_set_conv_nth)
    then have "n - 1 < i" using sorted [of "n - 1" i] assms(2,3) c by simp
    then have "k = drop n ?L ! (i - n)" "i - n < length (drop n ?L)" using i assms(2,3) by auto
    then show "k \<in> set (drop n ?L)" by (metis nth_mem)
  qed
  moreover have "set (db_listed ops ns p now (Some ?c) db) = {k \<in> set ?L. ?c < k}"
  proof -
    have "d < k" if "cursor = Some d" "?c < k" for d k
      using that \<open>?c \<in> set ?L\<close> L(2) by (auto dest: order_less_trans)
    then show ?thesis using db_listed_keys(2) [of "Some ?c" p] pc L(2) by auto
  qed
  moreover have "sorted_wrt (<) (drop n ?L)" using L(1) by (rule sorted_wrt_drop)
  moreover have "sorted_wrt (<) (db_listed ops ns p now (Some ?c) db)"
    using db_listed_keys(1) [of "Some ?c" p] pc by simp
  ultimately show "db_listed ops ns p now (Some ?c) db = drop n ?L"
    by (intro strict_sorted_equal) auto
qed

lemma kv_pages_listed:
  assumes "\<And>c. cursor = Some c \<Longrightarrow> prefix p c" "length (db_listed ops ns p now cursor db) < fuel"
  shows "kv_pages fuel ops now ns p cursor limit db = Some (db_listed ops ns p now cursor db)"
  using assms
proof (induction fuel arbitrary: cursor)
  case (Suc fuel)
  let ?L = "db_listed ops ns p now cursor db" and ?n = "normalize_list_limit limit"
  show ?case
  proof (cases "?n < length ?L")
    case True
    let ?c = "last (take ?n ?L)"
    note next_page = db_listed_next [OF Suc.prems(1) True normalize_list_limit_pos]
    have "length (drop ?n ?L) < fuel"
      using Suc.prems(2) True normalize_list_limit_pos [of limit] unfolding length_drop by linarith
    then have "kv_pages fuel ops now ns p (Some ?c) limit db = Some (drop ?n ?L)"
      using Suc.IH [of "Some ?c"] next_page by simp
    then show ?thesis using True by (simp add: redb_list_eq Let_def)
  next
    case False
    then show ?thesis by (simp add: redb_list_eq)
  qed
qed simp

lemma run_agree:
  assumes "\<And>k. db_get ops db (kv_scope ns k) = db_get ops db' (kv_scope ns k)"
    and "ns_ok ns" "\<forall>ev \<in> set evs. ns_ok (fst ev)"
  shows "filter (\<lambda>ev. fst ev = ns) (kv_run ops evs db) = kv_run ops (filter (\<lambda>ev. fst ev = ns) evs) db'"
  using assms
proof (induction evs arbitrary: db db')
  case (Cons ev evs)
  obtain m now req where ev: "ev = (m, now, req)" by (cases ev) auto
  let ?db = "snd (kv_request ops no_fault now m req db)"
  show ?case
  proof (cases "m = ns")
    case True
    let ?db' = "snd (kv_request ops no_fault now m req db')"
    have "filter (\<lambda>ev. fst ev = ns) (kv_run ops evs ?db) = kv_run ops (filter (\<lambda>ev. fst ev = ns) evs) ?db'"
      using Cons.IH [of ?db ?db'] request_agree [OF Cons.prems(1)] Cons.prems True by auto
    then show ?thesis
      using request_agree [OF Cons.prems(1), of now req] True by (simp add: ev case_prod_beta)
  next
    case False
    have "filter (\<lambda>ev. fst ev = ns) (kv_run ops evs ?db) = kv_run ops (filter (\<lambda>ev. fst ev = ns) evs) db'"
      using Cons.IH [of ?db db'] request_frame [of ns m now req db] Cons.prems False ev by auto
    then show ?thesis using False by (simp add: ev case_prod_beta)
  qed
qed simp

lemma step_refines:
  assumes rel: "\<And>k t. t0 \<le> t \<Longrightarrow> live_row t (db_get ops db (kv_scope ns k)) = live_row t (m k)"
    and now: "t0 \<le> now" and cur: "proper_cursor req"
  shows "fst (kv_request ops no_fault now ns req db) = fst (spec_step now req m)"
    and "now \<le> t \<Longrightarrow> live_row t (db_get ops (snd (kv_request ops no_fault now ns req db)) (kv_scope ns k)) =
           live_row t (snd (spec_step now req m) k)"
proof -
  have rel': "live_row t (db_get ops db (kv_scope ns k)) = live_row t (m k)" if "now \<le> t" for t k
    using rel now that by (meson order_trans)
  have key: "fst (kv_request ops no_fault now ns req db) = fst (spec_step now req m) \<and>
    (now \<le> t \<longrightarrow> live_row t (db_get ops (snd (kv_request ops no_fault now ns req db)) (kv_scope ns k)) =
       live_row t (snd (spec_step now req m) k))"
  proof (cases "request_key req")
    case None
    then obtain p cursor limit where req: "req = KvList p cursor limit" by (cases req) auto
    let ?L = "db_listed ops ns p now cursor db"
    have c: "\<And>c. cursor = Some c \<Longrightarrow> prefix p c" using cur req by (cases cursor) auto
    have "set ?L = {k \<in> dom (\<lambda>k. live_row now (m k)). prefix p k \<and> after_cursor cursor k}"
      using db_listed_keys(2) [of cursor p ns now db] c rel' [of now] by (cases cursor) auto
    then have "?L = sorted_list_of_set {k \<in> dom (\<lambda>k. live_row now (m k)). prefix p k \<and> after_cursor cursor k}"
      using db_listed_keys(1) [of cursor p ns now db] c by (metis sorted_list_of_set.idem_if_sorted_distinct strict_sorted_iff)
    then show ?thesis using rel' by (simp add: req redb_list_eq spec_step_def spec_page_def Let_def)
  next
    case (Some key)
    then have step: "spec_step now req m = (case validate_request req of
        Inl e \<Rightarrow> (Inl e, \<lambda>k. live_row now (m k))
      | Inr _ \<Rightarrow> (fst (spec_row now req (live_row now (m key))),
                  (\<lambda>k. live_row now (m k))(key := snd (spec_row now req (live_row now (m key))))))"
      by (cases req) (auto simp: spec_step_def Let_def case_prod_beta split: sum.splits)
    obtain d where d: "kv_request ops no_fault now ns req db =
        ((case validate_request req of
            Inl e \<Rightarrow> Inl e
          | Inr _ \<Rightarrow> fst (row_request now req (db_get ops db (kv_scope ns key)))), d)"
      "\<forall>l. db_get ops d l =
        (if l = kv_scope ns key \<and> validate_request req = Inr ()
         then snd (row_request now req (db_get ops db l)) else db_get ops db l)"
      using request_on_row [OF Some] by blast
    show ?thesis
      using spec_row_live [of now _ req "db_get ops db (kv_scope ns key)"] rel'
      by (cases "validate_request req") (auto simp: step d)
  qed
  show "fst (kv_request ops no_fault now ns req db) = fst (spec_step now req m)" using key by blast
  show "now \<le> t \<Longrightarrow> live_row t (db_get ops (snd (kv_request ops no_fault now ns req db)) (kv_scope ns k)) =
      live_row t (snd (spec_step now req m) k)" using key by blast
qed

lemma run_refines:
  assumes "\<And>k t. t0 \<le> t \<Longrightarrow> live_row t (db_get ops db (kv_scope ns k)) = live_row t (m k)"
    and "sorted (t0 # map fst evs)" "\<forall>ev \<in> set evs. proper_cursor (snd ev)"
  shows "map snd (kv_run ops (map (Pair ns) evs) db) = spec_run evs m"
  using assms
proof (induction evs arbitrary: t0 db m)
  case (Cons ev evs)
  obtain now req where ev: "ev = (now, req)" by (cases ev)
  have now: "t0 \<le> now" and cur: "proper_cursor req" using Cons.prems by (auto simp: ev)
  note step = step_refines [OF Cons.prems(1) now cur]
  have "map snd (kv_run ops (map (Pair ns) evs) (snd (kv_request ops no_fault now ns req db))) =
      spec_run evs (snd (spec_step now req m))"
    using step(2) Cons.prems by (intro Cons.IH [of now]) (auto simp: ev)
  then show ?case using step(1) by (simp add: ev case_prod_beta)
qed simp

end

subsection \<open>Properties\<close>

text \<open>
  \<^bold>\<open>C8\<close>: Tenants do not see one another. In any interleaving of requests of several
  namespaces on one database, the answers a namespace gets are those it would get if its requests
  ran alone on that database. The namespaces are those the constructors of
  \<^verbatim>\<open>Namespace\<close> accept; the table is any that keeps the laws of an ordered table.
\<close>

theorem namespaces_are_isolated:
  assumes "ordered_table ops"
    and "namespace_app app = Inr ns \<or> namespace_platform app = Inr ns"
    and "\<forall>ev \<in> set evs. \<exists>name. namespace_app name = Inr (fst ev) \<or> namespace_platform name = Inr (fst ev)"
  shows "filter (\<lambda>ev. fst ev = ns) (kv_run ops evs db) = kv_run ops (filter (\<lambda>ev. fst ev = ns) evs) db"
proof (rule ordered_table.run_agree [OF assms(1)])
  show "ns_ok ns" using assms(2) namespaces_ok by blast
  show "\<forall>ev \<in> set evs. ns_ok (fst ev)" using assms(3) namespaces_ok by blast
qed simp

theorem namespaces_are_isolated_witness:
  "filter (\<lambda>ev. fst ev = ''a'') (kv_run rbt_ops
     [(''a'', 5, KvSet ''k'' ''v'' None), (''platform:a'', 6, KvSet ''k'' ''w'' None), (''a'', 7, KvGet ''k'')] None) =
   kv_run rbt_ops [(''a'', 5, KvSet ''k'' ''v'' None), (''a'', 7, KvGet ''k'')] None"
proof -
  have a: "namespace_app ''a'' = Inr ''a''" and b: "namespace_platform ''a'' = Inr ''platform:a''"
    by (code_simp, code_simp)
  show ?thesis
    using namespaces_are_isolated [OF rbt_table.ordered_table_axioms disjI1 [OF a],
        of "[(''a'', 5, KvSet ''k'' ''v'' None), (''platform:a'', 6, KvSet ''k'' ''w'' None), (''a'', 7, KvGet ''k'')]" None]
      a b by auto
qed

text \<open>
  \<^bold>\<open>C6\<close>: The store is a map with expiry. On a clock that does not run backwards, a run of
  requests of one namespace answers as the specification does: a map that drops an entry the moment
  it expires, operations that never look at an expired entry, increments that are exact or refused,
  and listings that are slices of the sorted live keys. The store itself leaves expired rows in the
  table and skips them.
\<close>

theorem store_refines_expiring_map:
  assumes "ordered_table ops" "sorted (map fst evs)" "\<forall>ev \<in> set evs. proper_cursor (snd ev)"
  shows "map snd (kv_run ops (map (Pair ns) evs) None) = spec_run evs Map.empty"
proof (rule ordered_table.run_refines [OF assms(1), of 0])
  show "sorted (0 # map fst evs)" using assms(2) by simp
qed (use assms(3) in \<open>simp_all add: ordered_table.db_get_simps [OF assms(1)]\<close>)

theorem store_refines_expiring_map_witness:
  "map snd (kv_run rbt_ops (map (Pair ''a'')
     [(5, KvSet ''k'' ''1'' (Some 10)), (9, KvIncr ''k'' 2 None), (15, KvSetIfAbsent ''k'' ''x'' None),
      (20, KvList ''k'' (Some ''k'') 2)]) None) =
   spec_run [(5, KvSet ''k'' ''1'' (Some 10)), (9, KvIncr ''k'' 2 None), (15, KvSetIfAbsent ''k'' ''x'' None),
     (20, KvList ''k'' (Some ''k'') 2)] Map.empty"
  by (rule store_refines_expiring_map [OF rbt_table.ordered_table_axioms]) simp_all

text \<open>
  \<^bold>\<open>C22\<close>: Following the cursor of a listing from page to page ends, after at most one page more
  than there are live keys, and the pages together hold every live key with the prefix exactly
  once, in order, whatever the limit asked for.
\<close>

theorem pages_list_every_live_key:
  assumes "ordered_table ops" "card (live_keys ops now ns p db) < fuel"
  shows "finite (live_keys ops now ns p db) \<and>
    kv_pages fuel ops now ns p None limit db = Some (sorted_list_of_set (live_keys ops now ns p db))"
proof -
  note L = ordered_table.db_listed_all [OF assms(1), of ns p now db]
  have "finite (live_keys ops now ns p db)" using L(1) by (metis List.finite_set)
  moreover have "db_listed ops ns p now None db = sorted_list_of_set (live_keys ops now ns p db)"
    using L by (metis sorted_list_of_set.idem_if_sorted_distinct strict_sorted_iff)
  moreover have "length (db_listed ops ns p now None db) = card (live_keys ops now ns p db)"
    using L by (metis distinct_card strict_sorted_iff)
  ultimately show ?thesis
    using ordered_table.kv_pages_listed [OF assms(1), of None p ns now db fuel limit] assms(2) by simp
qed

theorem pages_list_every_live_key_witness:
  "let db = Some (RBT.insert ''{a}:k1'' (''v'', None) (RBT.insert ''{a}:k2'' (''w'', Some 9) RBT.empty))
   in live_keys rbt_ops 7 ''a'' ''k'' db = {''k1'', ''k2''} \<and> finite (live_keys rbt_ops 7 ''a'' ''k'' db) \<and>
      kv_pages 3 rbt_ops 7 ''a'' ''k'' None 1 db = Some [''k1'', ''k2'']"
proof -
  let ?db = "Some (RBT.insert ''{a}:k1'' (''v'', None) (RBT.insert ''{a}:k2'' (''w'', Some 9) RBT.empty))"
  have keys: "live_keys rbt_ops 7 ''a'' ''k'' ?db = {''k1'', ''k2''}"
    by (auto simp: live_keys_def live_row_def is_expired_def db_get_def rbt_ops_def kv_scope_def split: if_splits)
  moreover have "sorted_list_of_set {''k1'', ''k2''} = [''k1'', ''k2'']" by simp
  ultimately show ?thesis
    using pages_list_every_live_key [OF rbt_table.ordered_table_axioms, of 7 "''a''" "''k''" ?db 3 1]
    by (simp add: Let_def)
qed

end
