(* ===== verification/CronParse.thy ===== *)
theory CronParse
  imports NetAddr Decimal
begin

text \<open>
  Cron expressions of workflow schedules
  (\<^verbatim>\<open>crates/zeroship-workflow-calendar/src/calendar.rs\<close>: \<^verbatim>\<open>normalize_cron_expr\<close>,
  \<^verbatim>\<open>parse_cron_expr\<close>, \<^verbatim>\<open>parse_cron_field\<close>, \<^verbatim>\<open>parse_cron_part\<close>, \<^verbatim>\<open>parse_u32\<close>).

  An error carries its reason instead of its message. A field is the sorted list of its values,
  as the ordered set of the source iterates; numbers are integers, with the 32-bit bound written
  out. The lemmas say which values an accepted field can have, and that a printed schedule is
  parsed to the values it denotes.
\<close>

subsection \<open>Text\<close>

definition rstr :: "string \<Rightarrow> rtext" where
  "rstr s = map of_char s"

fun split_when :: "('a \<Rightarrow> bool) \<Rightarrow> 'a list \<Rightarrow> 'a list list" where
  "split_when p [] = [[]]"
| "split_when p (c # cs) =
     (if p c then [] # split_when p cs
      else case split_when p cs of [] \<Rightarrow> [[c]] | w # ws \<Rightarrow> (c # w) # ws)"

definition split_whitespace :: "rtext \<Rightarrow> rtext list" where
  "split_whitespace s = filter (\<lambda>w. w \<noteq> []) (split_when is_whitespace s)"

fun join_with :: "'a list \<Rightarrow> 'a list list \<Rightarrow> 'a list" where
  "join_with sep [] = []"
| "join_with sep [w] = w"
| "join_with sep (w # v # ws) = w @ sep @ join_with sep (v # ws)"

definition utf8_len :: "rtext \<Rightarrow> int" where
  "utf8_len s = sum_list (map (\<lambda>c. if c < 0x80 then 1 else if c < 0x800 then 2 else if c < 0x10000 then 3 else 4) s)"

definition is_ascii_digit :: "u32 \<Rightarrow> bool" where
  "is_ascii_digit c \<longleftrightarrow> 0x30 \<le> c \<and> c \<le> 0x39"

definition is_ascii_alphabetic :: "u32 \<Rightarrow> bool" where
  "is_ascii_alphabetic c \<longleftrightarrow> 0x41 \<le> c \<and> c \<le> 0x5A \<or> 0x61 \<le> c \<and> c \<le> 0x7A"

subsection \<open>The parser\<close>

datatype CalendarError =
    ExpressionTooLong | ExpressionEmpty | UnsupportedMacro | SubMinute | NotFiveFields
  | UnknownTimezone
  | FieldEmpty | UnsupportedToken | EmptyListItem | MalformedStep | StepNotPositive
  | SteppedDayWildcard | MalformedRange | FieldOutOfRange | DayAbove28 | NotAnInteger | IntegerInvalid
  | NoNextFire | IntervalNotPositive | TimestampOutOfRange

datatype FieldLabel = Minute | Hour | DayOfMonth | Month | DayOfWeek

record CronField =
  cf_values :: "int list"
  cf_wildcard :: bool

record ParsedCron =
  minutes :: CronField
  hours :: CronField
  days_of_month :: CronField
  months :: CronField
  days_of_week :: CronField

definition normalize_cron_expr :: "rtext \<Rightarrow> CalendarError + rtext" where
  "normalize_cron_expr expr =
     (let compact = join_with (rstr '' '') (split_whitespace expr)
      in if compact = [] then Inl ExpressionEmpty
         else and_then
           (if compact = rstr ''@hourly'' then Inr (rstr ''0 * * * *'')
            else if compact = rstr ''@daily'' then Inr (rstr ''0 0 * * *'')
            else if compact = rstr ''@weekly'' then Inr (rstr ''0 0 * * 0'')
            else if compact = rstr ''@monthly'' then Inr (rstr ''0 0 1 * *'')
            else if compact = rstr ''@yearly'' then Inr (rstr ''0 0 1 1 *'')
            else if hd compact = of_char (CHR ''@'') then Inl UnsupportedMacro
            else Inr compact)
           (\<lambda>normalized.
             let field_count = length (split_whitespace normalized)
             in if field_count = 6 then Inl SubMinute
                else if field_count \<noteq> 5 then Inl NotFiveFields
                else Inr normalized))"

definition digits_value :: "rtext \<Rightarrow> int" where
  "digits_value s = foldl (\<lambda>n c. 10 * n + (uint c - 48)) 0 s"

definition parse_u32 :: "rtext \<Rightarrow> CalendarError + int" where
  "parse_u32 s =
     (if s = [] \<or> \<not> list_all is_ascii_digit s then Inl NotAnInteger
      else if digits_value s < 2 ^ 32 then Inr (digits_value s)
      else Inl IntegerInvalid)"

definition u32_checked_add :: "int \<Rightarrow> int \<Rightarrow> int option" where
  "u32_checked_add a b = (if a + b < 2 ^ 32 then Some (a + b) else None)"

text \<open>
  The loop that inserts the values of a part. Its step is positive wherever the parser enters it,
  which the first test repeats for the sake of termination.
\<close>

function insert_steps :: "int \<Rightarrow> int \<Rightarrow> int \<Rightarrow> int list \<Rightarrow> int list" where
  "insert_steps step end value values =
     (if 0 < step \<and> value \<le> end then
        (let values = insort_insert value values
         in case u32_checked_add value step of
              Some next \<Rightarrow> insert_steps step end next values
            | None \<Rightarrow> values)
      else values)"
  by pat_completeness auto
termination
  by (relation "measure (\<lambda>(step, end, value, values). nat (end + 1 - value))")
    (auto simp: u32_checked_add_def split: if_splits)

declare insert_steps.simps [simp del]

definition parse_range :: "rtext \<Rightarrow> CalendarError + int \<times> int" where
  "parse_range base =
     (let range = split_when (\<lambda>c. c = of_char (CHR ''-'')) base
      in if length range > 2 \<or> range ! 0 = [] \<or> (length range = 2 \<and> range ! 1 = []) then Inl MalformedRange
         else and_then (parse_u32 (range ! 0)) (\<lambda>start.
           and_then (if length range = 2 then parse_u32 (range ! 1) else Inr start) (\<lambda>end.
             Inr (start, end))))"

definition parse_cron_part ::
  "FieldLabel \<Rightarrow> int \<Rightarrow> int \<Rightarrow> int option \<Rightarrow> rtext \<Rightarrow> int list \<Rightarrow> CalendarError + int list" where
  "parse_cron_part label lo hi explicit_max part values =
     (if part = [] then Inl EmptyListItem
      else
        let pieces = split_when (\<lambda>c. c = of_char (CHR ''/'')) part
        in if length pieces > 2 \<or> pieces ! 0 = [] \<or> (length pieces = 2 \<and> pieces ! 1 = []) then Inl MalformedStep
           else and_then
             (if length pieces = 2
              then and_then (parse_u32 (pieces ! 1)) (\<lambda>step. if step = 0 then Inl StepNotPositive else Inr step)
              else Inr 1)
             (\<lambda>step.
               let base = pieces ! 0
               in if label = DayOfMonth \<and> base = rstr ''*'' \<and> length pieces = 2 then Inl SteppedDayWildcard
                  else and_then (if base = rstr ''*'' then Inr (lo, hi) else parse_range base) (\<lambda>(start, end).
                    if start < lo \<or> start > hi \<or> end < lo \<or> end > hi \<or> start > end then Inl FieldOutOfRange
                    else if (case explicit_max of Some limit \<Rightarrow> end > limit | None \<Rightarrow> False) \<and> base \<noteq> rstr ''*''
                    then Inl DayAbove28
                    else Inr (insert_steps step end start values))))"

definition parse_cron_field :: "FieldLabel \<Rightarrow> int \<Rightarrow> int \<Rightarrow> int option \<Rightarrow> rtext \<Rightarrow> CalendarError + CronField" where
  "parse_cron_field label lo hi explicit_max field =
     (if field = [] then Inl FieldEmpty
      else if list_ex (\<lambda>c. is_ascii_alphabetic c \<or> c = of_char (CHR ''?'') \<or> c = of_char (CHR ''#'') \<or>
          c = of_char (CHR ''L'') \<or> c = of_char (CHR ''W'')) field
      then Inl UnsupportedToken
      else
        let wildcard = (field = rstr ''*'')
        in and_then
          (try_fold (parse_cron_part label lo hi explicit_max) (split_when (\<lambda>c. c = of_char (CHR '','')) field) [])
          (\<lambda>values.
            let values = (if label = DayOfWeek \<and> 7 \<in> set values
                          then insort_insert 0 (remove1 7 values) else values)
            in Inr \<lparr>cf_values = values, cf_wildcard = wildcard\<rparr>))"

definition parse_cron_expr :: "rtext \<Rightarrow> CalendarError + ParsedCron" where
  "parse_cron_expr expr =
     and_then (normalize_cron_expr expr) (\<lambda>normalized.
       let fields = split_whitespace normalized
       in and_then (parse_cron_field Minute 0 59 None (fields ! 0)) (\<lambda>mi.
          and_then (parse_cron_field Hour 0 23 None (fields ! 1)) (\<lambda>ho.
          and_then (parse_cron_field DayOfMonth 1 31 (Some 28) (fields ! 2)) (\<lambda>dm.
          and_then (parse_cron_field Month 1 12 None (fields ! 3)) (\<lambda>mo.
          and_then (parse_cron_field DayOfWeek 0 7 None (fields ! 4)) (\<lambda>dw.
            Inr \<lparr>minutes = mi, hours = ho, days_of_month = dm, months = mo, days_of_week = dw\<rparr>))))))"

record 'z Calendar =
  cal_expression :: rtext
  cal_timezone :: 'z
  cal_cron :: ParsedCron

text \<open>The names of the time zones belong to a database; looking one up is an argument.\<close>

definition calendar_parse :: "(rtext \<Rightarrow> 'z option) \<Rightarrow> rtext \<Rightarrow> rtext \<Rightarrow> CalendarError + 'z Calendar" where
  "calendar_parse parse_tz expression timezone =
     (if utf8_len expression > 256 then Inl ExpressionTooLong
      else and_then (normalize_cron_expr expression) (\<lambda>expression.
        and_then (case parse_tz timezone of None \<Rightarrow> Inl UnknownTimezone | Some tz \<Rightarrow> Inr tz) (\<lambda>tz.
        and_then (parse_cron_expr expression) (\<lambda>cron.
          Inr \<lparr>cal_expression = expression, cal_timezone = tz, cal_cron = cron\<rparr>))))"

subsection \<open>The values of a field\<close>

definition steps_between :: "int \<Rightarrow> int \<Rightarrow> int \<Rightarrow> int set" where
  "steps_between step start end = {v. start \<le> v \<and> v \<le> end \<and> step dvd v - start}"

definition ordered_set :: "int list \<Rightarrow> bool" where
  "ordered_set values \<longleftrightarrow> sorted_wrt (<) values"

lemma ordered_set_simps [simp]:
  "ordered_set []"
  "ordered_set values \<Longrightarrow> ordered_set (insort_insert v values)"
  "ordered_set values \<Longrightarrow> ordered_set (remove1 v values)"
  "ordered_set values \<Longrightarrow> set (remove1 v values) = set values - {v}"
  by (simp_all add: ordered_set_def strict_sorted_iff sorted_insort_insert distinct_insort_insert sorted_remove1
      set_remove1_eq)

lemma steps_between_unfold:
  assumes "0 < step"
  shows "steps_between step start end =
    (if start \<le> end then insert start (steps_between step (start + step) end) else {})"
proof -
  have "start + step \<le> v" if "start \<le> v" "step dvd v - start" "v \<noteq> start" for v
    using zdvd_imp_le [OF that(2)] that by simp
  moreover have "step dvd v - start \<longleftrightarrow> step dvd v - (start + step)" for v
    using dvd_add_triv_right_iff [of step "v - (start + step)"] by simp
  ultimately show ?thesis using assms by (auto simp: steps_between_def)
qed

lemma insert_steps_values:
  assumes "0 < step" "end < 2 ^ 32" "ordered_set values"
  shows "ordered_set (insert_steps step end value values)"
    and "set (insert_steps step end value values) = set values \<union> steps_between step value end"
proof -
  have "ordered_set (insert_steps step end value values) \<and>
      set (insert_steps step end value values) = set values \<union> steps_between step value end"
    using assms
  proof (induction step "end" "value" "values" rule: insert_steps.induct)
    case (1 step "end" "value" "values")
    have past: "steps_between step (value + step) end = {}" if "\<not> value + step < 2 ^ 32"
      using that "1.prems"(2) by (auto simp: steps_between_def)
    show ?case
    proof (cases "value \<le> end")
      case True
      show ?thesis
      proof (cases "value + step < 2 ^ 32")
        case nx: True
        note IH = "1.IH" [OF _ refl, of "value + step"]
        show ?thesis
          using IH True nx "1.prems" steps_between_unfold [of step "value" "end"]
          by (subst (1 2) insert_steps.simps) (auto simp: u32_checked_add_def set_insort_insert)
      next
        case False
        then show ?thesis
          using True past "1.prems" steps_between_unfold [of step "value" "end"]
          by (subst (1 2) insert_steps.simps) (auto simp: u32_checked_add_def set_insort_insert)
      qed
    next
      case False
      then show ?thesis
        using steps_between_unfold [of step "value" "end"] "1.prems"
        by (subst (1 2) insert_steps.simps) auto
    qed
  qed
  then show "ordered_set (insert_steps step end value values)"
    "set (insert_steps step end value values) = set values \<union> steps_between step value end" by blast+
qed

lemma parse_u32_bounds: "parse_u32 s = Inr n \<Longrightarrow> 0 \<le> n \<and> n < 2 ^ 32"
proof -
  have "0 \<le> acc \<Longrightarrow> list_all is_ascii_digit s \<Longrightarrow> 0 \<le> foldl (\<lambda>n c. 10 * n + (uint c - 48)) acc s" for acc s
    by (induction s arbitrary: acc) (auto simp: is_ascii_digit_def word_le_def)
  then show "parse_u32 s = Inr n \<Longrightarrow> 0 \<le> n \<and> n < 2 ^ 32"
    by (auto simp: parse_u32_def digits_value_def split: if_splits)
qed

text \<open>What an accepted part adds: an arithmetic progression within the bounds of the field.\<close>

lemma parse_cron_part_values:
  assumes "parse_cron_part label lo hi explicit_max part values = Inr values'"
    and "ordered_set values" "lo \<le> hi" "hi < 2 ^ 32"
  shows "\<exists>step start end. 0 < step \<and> lo \<le> start \<and> start \<le> end \<and> end \<le> hi \<and>
    (explicit_max = None \<or> start = lo \<or> (\<exists>limit. explicit_max = Some limit \<and> end \<le> limit)) \<and>
    ordered_set values' \<and> set values' = set values \<union> steps_between step start end"
proof -
  from assms(1) obtain step start "end" where v: "values' = insert_steps step end start values"
    and step: "0 < step" and se: "lo \<le> start" "start \<le> end" "end \<le> hi"
    and m: "explicit_max = None \<or> start = lo \<or> (\<exists>limit. explicit_max = Some limit \<and> end \<le> limit)"
    unfolding parse_cron_part_def
    by (auto simp: Let_def and_then_Inr not_less split: if_splits option.splits dest: parse_u32_bounds)
  show ?thesis using insert_steps_values [OF step, of "end" "values" start] v step se m assms by fastforce
qed

lemma split_when_nonempty [simp]: "split_when p s \<noteq> []"
  by (induction s) (auto split: list.splits)

lemma parse_cron_parts_values:
  assumes "try_fold (parse_cron_part label lo hi explicit_max) parts values = Inr values'"
    and "ordered_set values" "lo \<le> hi" "hi < 2 ^ 32" "case explicit_max of None \<Rightarrow> True | Some limit \<Rightarrow> lo \<le> limit"
  shows "ordered_set values' \<and> set values \<subseteq> set values' \<and> set values' \<subseteq> set values \<union> {lo..hi} \<and>
    (parts \<noteq> [] \<longrightarrow> (\<exists>v \<in> set values'. lo \<le> v \<and> v \<le> (case explicit_max of None \<Rightarrow> hi | Some limit \<Rightarrow> limit)))"
  using assms
proof (induction parts arbitrary: "values")
  case (Cons part parts)
  then obtain mid where mid: "parse_cron_part label lo hi explicit_max part values = Inr mid"
    and rest: "try_fold (parse_cron_part label lo hi explicit_max) parts mid = Inr values'"
    by (auto simp: and_then_Inr)
  obtain step start "end" where m: "lo \<le> start" "start \<le> end" "end \<le> hi"
    "explicit_max = None \<or> start = lo \<or> (\<exists>limit. explicit_max = Some limit \<and> end \<le> limit)"
    "ordered_set mid" "set mid = set values \<union> steps_between step start end"
    using parse_cron_part_values [OF mid] Cons.prems by auto
  have "start \<in> set mid" "steps_between step start end \<subseteq> {lo..hi}"
    using m by (auto simp: steps_between_def)
  moreover have "start \<le> (case explicit_max of None \<Rightarrow> hi | Some limit \<Rightarrow> limit)"
    using m Cons.prems(5) by (auto split: option.splits)
  ultimately show ?case using Cons.IH [OF rest m(5) Cons.prems(3,4,5)] m(1,6) by blast
qed simp

definition field_ok :: "int \<Rightarrow> int \<Rightarrow> CronField \<Rightarrow> bool" where
  "field_ok lo hi f \<longleftrightarrow> ordered_set (cf_values f) \<and> cf_values f \<noteq> [] \<and> set (cf_values f) \<subseteq> {lo..hi}"

lemma parse_cron_field_ok:
  assumes "parse_cron_field label lo hi explicit_max field = Inr f" "lo \<le> hi" "hi < 2 ^ 32"
    and "case explicit_max of None \<Rightarrow> True | Some limit \<Rightarrow> lo \<le> limit"
  shows "label \<noteq> DayOfWeek \<Longrightarrow> field_ok lo hi f \<and>
      (\<forall>limit. explicit_max = Some limit \<longrightarrow> (\<exists>v \<in> set (cf_values f). v \<le> limit))"
    and "label = DayOfWeek \<Longrightarrow> lo = 0 \<Longrightarrow> hi = 7 \<Longrightarrow> field_ok 0 6 f"
proof -
  obtain vs where vs: "try_fold (parse_cron_part label lo hi explicit_max)
      (split_when (\<lambda>c. c = of_char (CHR '','')) field) [] = Inr vs"
    and f: "cf_values f = (if label = DayOfWeek \<and> 7 \<in> set vs then insort_insert 0 (remove1 7 vs) else vs)"
    using assms(1) by (auto simp: parse_cron_field_def Let_def and_then_Inr split: if_splits)
  note V = parse_cron_parts_values [OF vs _ assms(2,3,4)]
  show "label \<noteq> DayOfWeek \<Longrightarrow> field_ok lo hi f \<and>
      (\<forall>limit. explicit_max = Some limit \<longrightarrow> (\<exists>v \<in> set (cf_values f). v \<le> limit))"
    using V f by (auto simp: field_ok_def)
  show "field_ok 0 6 f" if "label = DayOfWeek" "lo = 0" "hi = 7"
  proof -
    have v: "ordered_set vs" "set vs \<subseteq> {0..7}" "vs \<noteq> []" using V that by auto
    have small: "v \<in> set vs \<Longrightarrow> 0 \<le> v" "v \<in> set vs \<Longrightarrow> v \<noteq> 7 \<Longrightarrow> v \<le> 6" for v using v(2) by force+
    show ?thesis
    proof (cases "7 \<in> set vs")
      case True
      then have "set (cf_values f) = insert 0 (set vs - {7})" "ordered_set (cf_values f)"
        using f v(1) \<open>label = DayOfWeek\<close> by (simp_all add: set_insort_insert)
      moreover from this small have "set (cf_values f) \<subseteq> {0..6}" "cf_values f \<noteq> []" by force+
      ultimately show ?thesis by (simp add: field_ok_def)
    next
      case False
      then have "cf_values f = vs" using f by simp
      then show ?thesis using v(1,3) small False by (metis atLeastAtMost_iff field_ok_def subsetI)
    qed
  qed
qed

definition cron_ok :: "ParsedCron \<Rightarrow> bool" where
  "cron_ok cron \<longleftrightarrow> field_ok 0 59 (minutes cron) \<and> field_ok 0 23 (hours cron) \<and>
     field_ok 1 31 (days_of_month cron) \<and> (\<exists>v \<in> set (cf_values (days_of_month cron)). v \<le> 28) \<and>
     field_ok 1 12 (months cron) \<and> field_ok 0 6 (days_of_week cron)"

lemma parse_cron_expr_ok: "parse_cron_expr expr = Inr cron \<Longrightarrow> cron_ok cron"
  by (auto simp: parse_cron_expr_def Let_def and_then_Inr cron_ok_def
      dest: parse_cron_field_ok(1) parse_cron_field_ok(2))

subsection \<open>Printed schedules\<close>

datatype ItemRange = AnyValue | OneValue nat | ValueRange nat nat

type_synonym item = "ItemRange \<times> nat option"

fun show_range :: "ItemRange \<Rightarrow> rtext" where
  "show_range AnyValue = rstr ''*''"
| "show_range (OneValue a) = rstr (show_nat a)"
| "show_range (ValueRange a b) = rstr (show_nat a) @ rstr ''-'' @ rstr (show_nat b)"

fun show_item :: "item \<Rightarrow> rtext" where
  "show_item (r, None) = show_range r"
| "show_item (r, Some k) = show_range r @ rstr ''/'' @ rstr (show_nat k)"

definition show_field :: "item list \<Rightarrow> rtext" where
  "show_field items = join_with (rstr '','') (map show_item items)"

definition show_schedule :: "item list list \<Rightarrow> rtext" where
  "show_schedule fs = join_with (rstr '' '') (map show_field fs)"

fun range_bounds :: "int \<Rightarrow> int \<Rightarrow> ItemRange \<Rightarrow> int \<times> int" where
  "range_bounds lo hi AnyValue = (lo, hi)"
| "range_bounds lo hi (OneValue a) = (int a, int a)"
| "range_bounds lo hi (ValueRange a b) = (int a, int b)"

definition item_step :: "item \<Rightarrow> int" where
  "item_step item = (case snd item of None \<Rightarrow> 1 | Some k \<Rightarrow> int k)"

text \<open>Which items a field accepts, and the values an accepted one stands for.\<close>

definition item_ok :: "FieldLabel \<Rightarrow> int \<Rightarrow> int \<Rightarrow> int option \<Rightarrow> item \<Rightarrow> bool" where
  "item_ok label lo hi explicit_max item \<longleftrightarrow>
     (let (start, end) = range_bounds lo hi (fst item)
      in 0 < item_step item \<and> item_step item < 2 ^ 32 \<and>
         \<not> (label = DayOfMonth \<and> fst item = AnyValue \<and> snd item \<noteq> None) \<and>
         lo \<le> start \<and> start \<le> end \<and> end \<le> hi \<and>
         (case explicit_max of None \<Rightarrow> True | Some limit \<Rightarrow> fst item = AnyValue \<or> end \<le> limit))"

definition item_values :: "int \<Rightarrow> int \<Rightarrow> item \<Rightarrow> int set" where
  "item_values lo hi item =
     (let (start, end) = range_bounds lo hi (fst item) in steps_between (item_step item) start end)"

definition field_values :: "FieldLabel \<Rightarrow> int \<Rightarrow> int \<Rightarrow> item list \<Rightarrow> int set" where
  "field_values label lo hi items =
     (\<lambda>v. if label = DayOfWeek \<and> v = 7 then 0 else v) ` (\<Union>item \<in> set items. item_values lo hi item)"

definition cron_char :: "u32 \<Rightarrow> bool" where
  "cron_char c \<longleftrightarrow> is_ascii_digit c \<or> c = 0x2A \<or> c = 0x2F \<or> c = 0x2D \<or> c = 0x2C"

lemma rstr_simps [simp]:
  "rstr [] = []" "rstr (c # s) = of_char c # rstr s" "rstr (s @ t) = rstr s @ rstr t"
  by (simp_all add: rstr_def)

lemma split_when_append:
  assumes "\<forall>c \<in> set w. \<not> p c" "p sep"
  shows "split_when p (w @ sep # rest) = w # split_when p rest"
  using assms by (induction w) auto

lemma split_when_none: "\<forall>c \<in> set w. \<not> p c \<Longrightarrow> split_when p w = [w]"
  by (induction w) auto

lemma split_when_join:
  assumes "ws \<noteq> []" "\<forall>w \<in> set ws. \<forall>c \<in> set w. \<not> p c" "p sep"
  shows "split_when p (join_with [sep] ws) = ws"
  using assms by (induction "[sep]" ws rule: join_with.induct) (auto simp: split_when_append split_when_none)

lemma digit_char_digit:
  assumes "d < 10"
  shows "is_ascii_digit (of_char (digit_char d))" and "uint (of_char (digit_char d) :: u32) = 48 + int d"
proof -
  have "of_char (digit_char d) = (of_nat (48 + d) :: u32)"
    using assms by (subst of_nat_of_char [symmetric]) (simp add: digit_char_def)
  moreover have "uint (of_nat (48 + d) :: u32) = 48 + int d"
    using assms by (subst unsigned_of_nat) (simp add: take_bit_nat_eq_self)
  ultimately show "uint (of_char (digit_char d) :: u32) = 48 + int d" by simp
  then show "is_ascii_digit (of_char (digit_char d))" using assms by (simp add: is_ascii_digit_def word_le_def)
qed

lemma show_nat_digits: "list_all is_ascii_digit (rstr (show_nat n))" "digits_value (rstr (show_nat n)) = int n"
proof (induction n rule: show_nat.induct)
  case (1 n)
  {
    case 1
    show ?case using "1.IH"(1) digit_char_digit by (subst show_nat.simps) auto
  next
    case 2
    have "10 * int (n div 10) + int (n mod 10) = int n" by presburger
    then show ?case using "1.IH"(2) digit_char_digit by (subst show_nat.simps) (auto simp: digits_value_def)
  }
qed

lemma parse_show_nat: "parse_u32 (rstr (show_nat n)) = (if int n < 2 ^ 32 then Inr (int n) else Inl IntegerInvalid)"
  using show_nat_digits [of n] show_nat_nonempty [of n] by (simp add: parse_u32_def rstr_def)

lemma separators_are_not_digits [simp]:
  "\<not> is_ascii_digit 0x2A" "\<not> is_ascii_digit 0x2F" "\<not> is_ascii_digit 0x2D" "\<not> is_ascii_digit 0x2C" "\<not> is_ascii_digit 0x20"
  by (simp_all add: is_ascii_digit_def)

lemma show_nat_free:
  "c \<in> set (rstr (show_nat n)) \<Longrightarrow> is_ascii_digit c"
  using show_nat_digits(1) [of n] by (simp add: list_all_iff)

lemma show_range_chars:
  assumes "c \<in> set (show_range r)"
  shows "cron_char c" and "c \<noteq> 0x2C" and "c \<noteq> 0x2F"
  using assms by (cases r; auto simp: cron_char_def dest!: show_nat_free)+

lemma show_item_chars:
  assumes "c \<in> set (show_item item)"
  shows "cron_char c" and "c \<noteq> 0x2C"
proof -
  obtain r st where item: "item = (r, st)" by (cases item)
  have n: "cron_char c \<and> c \<noteq> 0x2C" if "c \<in> set (rstr (show_nat n))" for n
    using show_nat_free [OF that] by (auto simp: cron_char_def)
  have "cron_char c \<and> c \<noteq> 0x2C"
    using assms n show_range_chars [of c r] by (cases st) (auto simp: item cron_char_def)
  then show "cron_char c" "c \<noteq> 0x2C" by auto
qed

lemma shown_nonempty [simp]: "rstr (show_nat n) \<noteq> []" "show_range r \<noteq> []" "show_item item \<noteq> []"
proof -
  show n: "rstr (show_nat n) \<noteq> []" for n using show_nat_nonempty [of n] by (simp add: rstr_def)
  then show r: "show_range r \<noteq> []" for r by (cases r) auto
  show "show_item item \<noteq> []" using r by (cases item; cases "snd item") auto
qed

lemma show_range_star [simp]: "show_range r = [0x2A] \<longleftrightarrow> r = AnyValue"
proof -
  have "rstr (show_nat n) \<noteq> 0x2A # w" for n w using show_nat_free [of "0x2A" n] by force
  then show ?thesis by (cases r) (auto simp: append_eq_Cons_conv)
qed

lemma parse_shown_range:
  assumes "r \<noteq> AnyValue"
  shows "parse_range (show_range r) =
    (let (start, end) = range_bounds lo hi r
     in if start < 2 ^ 32 \<and> end < 2 ^ 32 then Inr (start, end) else Inl IntegerInvalid)"
proof -
  have free: "\<forall>c \<in> set (rstr (show_nat n)). c \<noteq> 0x2D" for n by (auto dest!: show_nat_free)
  show ?thesis
  proof (cases r)
    case (OneValue a)
    then show ?thesis
      using split_when_none [OF free] by (simp add: parse_range_def parse_show_nat)
  next
    case (ValueRange a b)
    then show ?thesis
      using split_when_none [OF free] split_when_append [OF free]
      by (simp add: parse_range_def parse_show_nat)
  qed (use assms in simp)
qed

lemma parse_shown_item:
  assumes "hi < 2 ^ 32"
  shows "item_ok label lo hi explicit_max item \<Longrightarrow>
      parse_cron_part label lo hi explicit_max (show_item item) vs =
        (let (start, end) = range_bounds lo hi (fst item) in Inr (insert_steps (item_step item) end start vs))"
    and "\<not> item_ok label lo hi explicit_max item \<Longrightarrow>
      \<exists>e. parse_cron_part label lo hi explicit_max (show_item item) vs = Inl e"
proof -
  obtain r st where item: "item = (r, st)" by (cases item)
  let ?slash = "\<lambda>c. c = (of_char (CHR ''/'') :: u32)"
  let ?digits = "rstr (show_nat (the st))"
  have pieces: "split_when ?slash (show_item item) = (case st of None \<Rightarrow> [show_range r] | Some k \<Rightarrow> [show_range r, ?digits])"
  proof -
    have "\<forall>c \<in> set (show_range r). \<not> ?slash c" using show_range_chars(3) by auto
    moreover have "\<forall>c \<in> set (rstr (show_nat n)). \<not> ?slash c" for n by (auto dest!: show_nat_free)
    ultimately show ?thesis
      by (cases st) (simp_all add: item split_when_none split_when_append)
  qed
  obtain start "end" where b: "range_bounds lo hi r = (start, end)" by (cases "range_bounds lo hi r")
  show "item_ok label lo hi explicit_max item \<Longrightarrow>
      parse_cron_part label lo hi explicit_max (show_item item) vs =
        (let (start, end) = range_bounds lo hi (fst item) in Inr (insert_steps (item_step item) end start vs))"
    using assms b unfolding parse_cron_part_def pieces item_ok_def
    by (cases st; cases "r = AnyValue"; cases explicit_max)
      (auto simp: item item_step_def parse_show_nat parse_shown_range [of r lo hi] Let_def)
  show "\<exists>e. parse_cron_part label lo hi explicit_max (show_item item) vs = Inl e"
    if "\<not> item_ok label lo hi explicit_max item"
    using that assms b unfolding parse_cron_part_def pieces item_ok_def
    by (cases st; cases "r = AnyValue"; cases explicit_max)
      (auto simp: item item_step_def parse_show_nat parse_shown_range [of r lo hi] Let_def)
qed

lemma parse_shown_items:
  assumes "hi < 2 ^ 32" "ordered_set vs"
  shows "\<forall>item \<in> set items. item_ok label lo hi explicit_max item \<Longrightarrow>
      \<exists>vs'. try_fold (parse_cron_part label lo hi explicit_max) (map show_item items) vs = Inr vs' \<and>
        ordered_set vs' \<and> set vs' = set vs \<union> (\<Union>item \<in> set items. item_values lo hi item)"
    and "\<not> (\<forall>item \<in> set items. item_ok label lo hi explicit_max item) \<Longrightarrow>
      \<exists>e. try_fold (parse_cron_part label lo hi explicit_max) (map show_item items) vs = Inl e"
proof -
  show "\<exists>vs'. try_fold (parse_cron_part label lo hi explicit_max) (map show_item items) vs = Inr vs' \<and>
        ordered_set vs' \<and> set vs' = set vs \<union> (\<Union>item \<in> set items. item_values lo hi item)"
    if "\<forall>item \<in> set items. item_ok label lo hi explicit_max item"
    using that assms
  proof (induction items arbitrary: vs)
    case (Cons item items)
    obtain start "end" where b: "range_bounds lo hi (fst item) = (start, end)" by (cases "range_bounds lo hi (fst item)")
    let ?vs = "insert_steps (item_step item) end start vs"
    have ok: "0 < item_step item" "end < 2 ^ 32" using Cons.prems b by (auto simp: item_ok_def)
    have "ordered_set ?vs" "set ?vs = set vs \<union> item_values lo hi item"
      using insert_steps_values [OF ok Cons.prems(3)] b by (simp_all add: item_values_def)
    then show ?case
      using Cons.IH [of ?vs] Cons.prems parse_shown_item(1) [OF assms(1), of label lo explicit_max item vs] b by auto
  qed simp
  show "\<exists>e. try_fold (parse_cron_part label lo hi explicit_max) (map show_item items) vs = Inl e"
    if "\<not> (\<forall>item \<in> set items. item_ok label lo hi explicit_max item)"
    using that
  proof (induction items arbitrary: vs)
    case (Cons item items)
    show ?case
    proof (cases "item_ok label lo hi explicit_max item")
      case True
      then show ?thesis using Cons parse_shown_item(1) [OF assms(1) True, of vs] by (auto simp: case_prod_beta)
    next
      case False
      then show ?thesis using parse_shown_item(2) [OF assms(1) False, of vs] by auto
    qed
  qed simp
qed

lemma ordered_set_unique: "ordered_set vs \<Longrightarrow> vs = sorted_list_of_set (set vs)"
  by (simp add: ordered_set_def strict_sorted_iff sorted_list_of_set.idem_if_sorted_distinct)

lemma cron_char_plain:
  assumes "cron_char c"
  shows "\<not> is_ascii_alphabetic c" "c \<noteq> 0x3F" "c \<noteq> 0x23" "c \<noteq> 0x4C" "c \<noteq> 0x57" "c \<noteq> 0x40" "\<not> is_whitespace c"
proof -
  have "uint c \<in> {42, 44, 45, 47} \<union> {48..57}"
    using assms by (auto simp: cron_char_def is_ascii_digit_def word_le_def)
  then show "\<not> is_ascii_alphabetic c" "c \<noteq> 0x3F" "c \<noteq> 0x23" "c \<noteq> 0x4C" "c \<noteq> 0x57" "c \<noteq> 0x40" "\<not> is_whitespace c"
    by (auto simp: is_ascii_alphabetic_def is_whitespace_def word_le_def)
qed

lemma join_with_chars: "c \<in> set (join_with sep ws) \<Longrightarrow> c \<in> set sep \<or> (\<exists>w \<in> set ws. c \<in> set w)"
  by (induction sep ws rule: join_with.induct) auto

lemma show_field_chars: "c \<in> set (show_field items) \<Longrightarrow> cron_char c"
  using show_item_chars(1) by (force simp: show_field_def cron_char_def [of "0x2C"] dest!: join_with_chars)

lemma show_item_star [simp]: "show_item item = [0x2A] \<longleftrightarrow> item = (AnyValue, None)"
  by (cases item; cases "snd item") (auto simp: append_eq_Cons_conv)

lemma show_field_star: "show_field items = [0x2A] \<longleftrightarrow> items = [(AnyValue, None)]"
  by (cases items rule: remdups_adj.cases) (auto simp: show_field_def append_eq_Cons_conv)

lemma show_field_nonempty: "items \<noteq> [] \<Longrightarrow> show_field items \<noteq> []"
  by (cases items rule: remdups_adj.cases) (auto simp: show_field_def)

definition parsed_field :: "FieldLabel \<Rightarrow> int \<Rightarrow> int \<Rightarrow> item list \<Rightarrow> CronField" where
  "parsed_field label lo hi items =
     \<lparr>cf_values = sorted_list_of_set (field_values label lo hi items), cf_wildcard = (items = [(AnyValue, None)])\<rparr>"

lemma parse_shown_field:
  assumes "items \<noteq> []" "hi < 2 ^ 32"
  shows "parse_cron_field label lo hi explicit_max (show_field items) = Inr f \<longleftrightarrow>
    (\<forall>item \<in> set items. item_ok label lo hi explicit_max item) \<and> f = parsed_field label lo hi items"
proof -
  let ?parts = "split_when (\<lambda>c. c = of_char (CHR '','')) (show_field items)"
  have parts: "?parts = map show_item items"
    using assms show_item_chars(2) by (simp add: show_field_def split_when_join)
  have plain: "\<not> list_ex (\<lambda>c. is_ascii_alphabetic c \<or> c = of_char (CHR ''?'') \<or> c = of_char (CHR ''#'') \<or>
      c = of_char (CHR ''L'') \<or> c = of_char (CHR ''W'')) (show_field items)"
    using cron_char_plain [OF show_field_chars] by (force simp: list_ex_iff)
  show ?thesis
  proof (cases "\<forall>item \<in> set items. item_ok label lo hi explicit_max item")
    case True
    then obtain vs where vs: "try_fold (parse_cron_part label lo hi explicit_max) (map show_item items) [] = Inr vs"
      "ordered_set vs" "set vs = (\<Union>item \<in> set items. item_values lo hi item)"
      using parse_shown_items(1) [OF assms(2), of "[]" items label lo explicit_max] by auto
    let ?vs = "if label = DayOfWeek \<and> 7 \<in> set vs then insort_insert 0 (remove1 7 vs) else vs"
    have "ordered_set ?vs" "set ?vs = field_values label lo hi items"
      using vs by (auto simp: field_values_def set_insort_insert)
    then have "?vs = sorted_list_of_set (field_values label lo hi items)"
      using ordered_set_unique [of ?vs] by simp
    then show ?thesis
      using True vs(1) plain parts assms(1)
      by (auto simp: parse_cron_field_def parsed_field_def show_field_nonempty show_field_star Let_def)
  next
    case False
    then show ?thesis
      using parse_shown_items(2) [OF assms(2) _ False, of "[]"] plain parts assms(1)
      by (auto simp: parse_cron_field_def show_field_nonempty)
  qed
qed

lemma split_whitespace_join:
  assumes "ws \<noteq> []" "\<forall>w \<in> set ws. w \<noteq> [] \<and> (\<forall>c \<in> set w. \<not> is_whitespace c)"
  shows "split_whitespace (join_with [0x20] ws) = ws"
proof -
  have "is_whitespace 0x20" by (simp add: is_whitespace_def)
  then have "split_when is_whitespace (join_with [0x20] ws) = ws"
    using assms by (intro split_when_join) auto
  then show ?thesis using assms(2) by (simp add: split_whitespace_def filter_id_conv)
qed

lemma split_shown_schedule:
  assumes "fs \<noteq> []" "\<forall>items \<in> set fs. items \<noteq> []"
  shows "split_whitespace (show_schedule fs) = map show_field fs"
proof -
  have "\<forall>items \<in> set fs. show_field items \<noteq> [] \<and> (\<forall>c \<in> set (show_field items). \<not> is_whitespace c)"
    using assms(2) cron_char_plain(7) [OF show_field_chars] show_field_nonempty by blast
  then show ?thesis
    using assms(1) split_whitespace_join [of "map show_field fs"] by (simp add: show_schedule_def)
qed

lemma normalize_shown_schedule:
  assumes "length fs = 5" "\<forall>items \<in> set fs. items \<noteq> []"
  shows "normalize_cron_expr (show_schedule fs) = Inr (show_schedule fs)"
proof -
  have ne: "fs \<noteq> []" using assms(1) by auto
  have ws: "split_whitespace (show_schedule fs) = map show_field fs"
    using split_shown_schedule [OF ne assms(2)] .
  have compact: "join_with [0x20] (map show_field fs) = show_schedule fs" by (simp add: show_schedule_def)
  obtain w ws' where w: "map show_field fs = w # ws'" "w \<noteq> []" "\<forall>c \<in> set w. cron_char c"
    using ne assms(2) show_field_nonempty show_field_chars by (cases fs) auto
  then obtain c rest where c: "show_schedule fs = c # rest" "cron_char c"
    by (cases w; cases ws') (auto simp: show_schedule_def)
  then have "c \<noteq> 0x40" using cron_char_plain by blast
  then show ?thesis
    using assms(1) ws compact by (simp add: normalize_cron_expr_def c(1))
qed

text \<open>
  \<^bold>\<open>C24\<close>: Printed schedules are parsed to what they denote. A schedule of five fields, each a
  list of wildcards, numbers, ranges and steps, is accepted exactly when every item is in the
  bounds of its field, no step is zero, no day of the month above 28 is written and no stepped
  wildcard stands for the days of the month. The parsed fields then hold exactly the values of
  the arithmetic progressions written, in order, Sunday written as seven being zero.
\<close>

theorem printed_schedule_is_parsed:
  assumes "mi \<noteq> []" "ho \<noteq> []" "dm \<noteq> []" "mo \<noteq> []" "dw \<noteq> []"
  shows "parse_cron_expr (show_schedule [mi, ho, dm, mo, dw]) = Inr cron \<longleftrightarrow>
    (\<forall>item \<in> set mi. item_ok Minute 0 59 None item) \<and>
    (\<forall>item \<in> set ho. item_ok Hour 0 23 None item) \<and>
    (\<forall>item \<in> set dm. item_ok DayOfMonth 1 31 (Some 28) item) \<and>
    (\<forall>item \<in> set mo. item_ok Month 1 12 None item) \<and>
    (\<forall>item \<in> set dw. item_ok DayOfWeek 0 7 None item) \<and>
    cron = \<lparr>minutes = parsed_field Minute 0 59 mi, hours = parsed_field Hour 0 23 ho,
      days_of_month = parsed_field DayOfMonth 1 31 dm, months = parsed_field Month 1 12 mo,
      days_of_week = parsed_field DayOfWeek 0 7 dw\<rparr>"
proof -
  let ?fs = "[mi, ho, dm, mo, dw]"
  have "normalize_cron_expr (show_schedule ?fs) = Inr (show_schedule ?fs)"
    using assms by (intro normalize_shown_schedule) auto
  moreover have "split_whitespace (show_schedule ?fs) = map show_field ?fs"
    using assms by (intro split_shown_schedule) auto
  ultimately show ?thesis
    using parse_shown_field [OF assms(1), of 59 Minute 0 None] parse_shown_field [OF assms(2), of 23 Hour 0 None]
      parse_shown_field [OF assms(3), of 31 DayOfMonth 1 "Some 28"] parse_shown_field [OF assms(4), of 12 Month 1 None]
      parse_shown_field [OF assms(5), of 7 DayOfWeek 0 None]
    by (auto simp: parse_cron_expr_def Let_def and_then_Inr)
qed

theorem printed_schedule_is_parsed_witness:
  "show_schedule [[(OneValue 5, None), (ValueRange 20 40, Some 10)], [(ValueRange 9 10, None)],
     [(AnyValue, None)], [(AnyValue, None)], [(ValueRange 1 5, None), (OneValue 7, None)]] =
     rstr ''5,20-40/10 9-10 * * 1-5,7'' \<and>
   (\<exists>cron. parse_cron_expr (rstr ''5,20-40/10 9-10 * * 1-5,7'') = Inr cron \<and>
     cf_values (days_of_week cron) = sorted_list_of_set (field_values DayOfWeek 0 7 [(ValueRange 1 5, None), (OneValue 7, None)]))"
proof -
  have shown: "show_schedule [[(OneValue 5, None), (ValueRange 20 40, Some 10)], [(ValueRange 9 10, None)],
     [(AnyValue, None)], [(AnyValue, None)], [(ValueRange 1 5, None), (OneValue 7, None)]] =
     rstr ''5,20-40/10 9-10 * * 1-5,7''"
    by code_simp
  then show ?thesis
    using printed_schedule_is_parsed [of "[(OneValue 5, None), (ValueRange 20 40, Some 10)]" "[(ValueRange 9 10, None)]"
        "[(AnyValue, None)]" "[(AnyValue, None)]" "[(ValueRange 1 5, None), (OneValue 7, None)]"]
    by (simp add: item_ok_def item_step_def parsed_field_def)
qed

end
