(* ===== verification/CronNext.thy ===== *)
theory CronNext
  imports CronParse
begin

text \<open>
  The next occurrence of a schedule
  (\<^verbatim>\<open>crates/zeroship-workflow-calendar/src/calendar.rs\<close>: \<^verbatim>\<open>first_cron_fire_after\<close>,
  \<^verbatim>\<open>resolve_local_nominal\<close>, \<^verbatim>\<open>date_matches\<close>; \<^verbatim>\<open>timing.rs\<close>: \<^verbatim>\<open>next_after\<close>).

  Instants and local date-times are nanoseconds, dates are day numbers. The calendar and the time
  zones belong to a date library and are arguments: what month, day and weekday a date has, the
  last date it can represent, the local time at an instant and the instants with a local time.
  The laws of the two are the locales \<open>civil_calendar\<close> and \<open>time_zone\<close>.
\<close>

definition MINUTE :: int where "MINUTE = 60 * 10 ^ 9"
definition HOUR :: int where "HOUR = 60 * MINUTE"
definition DAY :: int where "DAY = 24 * HOUR"

record CivilOps =
  civil_month :: "int \<Rightarrow> int"
  civil_day :: "int \<Rightarrow> int"
  civil_weekday :: "int \<Rightarrow> int"
  civil_min :: int
  civil_max :: int

datatype LocalResult = SingleTime int | AmbiguousTime int int | NoTime

record ZoneOps =
  zone_local :: "int \<Rightarrow> int"
  zone_from_local :: "int \<Rightarrow> LocalResult"

definition date_add :: "CivilOps \<Rightarrow> int \<Rightarrow> int \<Rightarrow> int option" where
  "date_add cal date days = (if date + days \<le> civil_max cal then Some (date + days) else None)"

definition naive_add :: "CivilOps \<Rightarrow> int \<Rightarrow> int \<Rightarrow> int option" where
  "naive_add cal n d = (if n + d < (civil_max cal + 1) * DAY then Some (n + d) else None)"

definition and_hms_opt :: "int \<Rightarrow> int \<Rightarrow> int \<Rightarrow> int option" where
  "and_hms_opt date h m =
     (if 0 \<le> h \<and> h < 24 \<and> 0 \<le> m \<and> m < 60 then Some (date * DAY + h * HOUR + m * MINUTE) else None)"

subsection \<open>The search\<close>

definition field_matches :: "CronField \<Rightarrow> int \<Rightarrow> bool" where
  "field_matches f v = (v \<in> set (cf_values f))"

definition date_matches :: "CivilOps \<Rightarrow> ParsedCron \<Rightarrow> int \<Rightarrow> bool" where
  "date_matches cal cron date =
     (if \<not> field_matches (months cron) (civil_month cal date) then False
      else
        let dom = field_matches (days_of_month cron) (civil_day cal date);
            dow = field_matches (days_of_week cron) (civil_weekday cal date)
        in case (cf_wildcard (days_of_month cron), cf_wildcard (days_of_week cron)) of
             (True, True) \<Rightarrow> True
           | (True, False) \<Rightarrow> dow
           | (False, True) \<Rightarrow> dom
           | (False, False) \<Rightarrow> dom \<or> dow)"

text \<open>The minutes after a local time that does not exist, one by one for two days.\<close>

function probe_gap :: "CivilOps \<Rightarrow> ZoneOps \<Rightarrow> int \<Rightarrow> int \<Rightarrow> int option" where
  "probe_gap cal z tried probe =
     (if tried < 48 * 60 then
        (case naive_add cal probe MINUTE of
           None \<Rightarrow> None
         | Some next \<Rightarrow>
             (case zone_from_local z next of
                SingleTime t \<Rightarrow> Some t
              | AmbiguousTime a b \<Rightarrow> Some (min a b)
              | NoTime \<Rightarrow> probe_gap cal z (tried + 1) next))
      else None)"
  by pat_completeness auto
termination
  by (relation "measure (\<lambda>(cal, z, tried, probe). nat (48 * 60 - tried))") auto

declare probe_gap.simps [simp del]

definition resolve_local_nominal :: "CivilOps \<Rightarrow> ZoneOps \<Rightarrow> int \<Rightarrow> int option" where
  "resolve_local_nominal cal z nominal =
     (case zone_from_local z nominal of
        SingleTime t \<Rightarrow> Some t
      | AmbiguousTime a b \<Rightarrow> Some (min a b)
      | NoTime \<Rightarrow> probe_gap cal z 0 nominal)"

fun fire_in_minutes :: "CivilOps \<Rightarrow> ZoneOps \<Rightarrow> int \<Rightarrow> int \<Rightarrow> int \<Rightarrow> int list \<Rightarrow> int option" where
  "fire_in_minutes cal z after date h [] = None"
| "fire_in_minutes cal z after date h (m # ms) =
     (case and_hms_opt date h m of
        None \<Rightarrow> fire_in_minutes cal z after date h ms
      | Some nominal \<Rightarrow>
          (case resolve_local_nominal cal z nominal of
             None \<Rightarrow> fire_in_minutes cal z after date h ms
           | Some candidate \<Rightarrow>
               if candidate > after then Some candidate else fire_in_minutes cal z after date h ms))"

fun fire_in_hours :: "CivilOps \<Rightarrow> ZoneOps \<Rightarrow> int \<Rightarrow> int \<Rightarrow> int list \<Rightarrow> int list \<Rightarrow> int option" where
  "fire_in_hours cal z after date [] ms = None"
| "fire_in_hours cal z after date (h # hs) ms =
     (case fire_in_minutes cal z after date h ms of
        Some candidate \<Rightarrow> Some candidate
      | None \<Rightarrow> fire_in_hours cal z after date hs ms)"

function fire_in_days :: "CivilOps \<Rightarrow> ZoneOps \<Rightarrow> ParsedCron \<Rightarrow> int \<Rightarrow> int \<Rightarrow> int \<Rightarrow> int option" where
  "fire_in_days cal z cron after start day_offset =
     (if day_offset \<le> 366 * 8 then
        (case date_add cal start day_offset of
           None \<Rightarrow> None
         | Some date \<Rightarrow>
             (case (if date_matches cal cron date
                    then fire_in_hours cal z after date (cf_values (hours cron)) (cf_values (minutes cron))
                    else None) of
                Some candidate \<Rightarrow> Some candidate
              | None \<Rightarrow> fire_in_days cal z cron after start (day_offset + 1)))
      else None)"
  by pat_completeness auto
termination
  by (relation "measure (\<lambda>(cal, z, cron, after, start, day_offset). nat (366 * 8 + 1 - day_offset))") auto

declare fire_in_days.simps [simp del]

definition first_cron_fire_after :: "CivilOps \<Rightarrow> ZoneOps \<Rightarrow> ParsedCron \<Rightarrow> int \<Rightarrow> CalendarError + int" where
  "first_cron_fire_after cal z cron after =
     (let start = zone_local z after div DAY
      in case fire_in_days cal z cron after start 0 of
           Some candidate \<Rightarrow> Inr candidate
         | None \<Rightarrow> Inl NoNextFire)"

definition calendar_next_after :: "CivilOps \<Rightarrow> ('z \<Rightarrow> ZoneOps) \<Rightarrow> 'z Calendar \<Rightarrow> int \<Rightarrow> CalendarError + int" where
  "calendar_next_after cal zones c after = first_cron_fire_after cal (zones (cal_timezone c)) (cal_cron c) after"

subsection \<open>Schedules\<close>

datatype IntervalAnchor = Epoch | Deploy

datatype ScheduleTiming = CronTiming rtext rtext | IntervalTiming int IntervalAnchor

definition from_timestamp_millis :: "CivilOps \<Rightarrow> int \<Rightarrow> int option" where
  "from_timestamp_millis cal ms =
     (let t = ms * 10 ^ 6
      in if civil_min cal * DAY \<le> t \<and> t < (civil_max cal + 1) * DAY then Some t else None)"

definition or_overflow :: "'a option \<Rightarrow> CalendarError + 'a" where
  "or_overflow x = (case x of None \<Rightarrow> Inl TimestampOutOfRange | Some v \<Rightarrow> Inr v)"

text \<open>Integer division rounding down for a positive divisor, the only one it is used with.\<close>

definition div_euclid :: "int \<Rightarrow> int \<Rightarrow> int" where
  "div_euclid a b = (if b > 0 then a div b else - (a div (- b)))"

definition timing_next_after ::
  "CivilOps \<Rightarrow> (rtext \<Rightarrow> 'z option) \<Rightarrow> ('z \<Rightarrow> ZoneOps) \<Rightarrow> ScheduleTiming \<Rightarrow> int \<Rightarrow> int \<Rightarrow> CalendarError + int" where
  "timing_next_after cal parse_tz zones timing after activated_at =
     (case timing of
        CronTiming cron_expr tz \<Rightarrow>
          and_then (calendar_parse parse_tz cron_expr tz) (\<lambda>c.
          and_then (or_overflow (from_timestamp_millis cal after)) (\<lambda>t.
          and_then (calendar_next_after cal zones c t) (\<lambda>time.
            Inr (time div 10 ^ 6))))
      | IntervalTiming interval_ms anchor_kind \<Rightarrow>
          if interval_ms \<le> 0 then Inl IntervalNotPositive
          else
            let anchor = (if anchor_kind = Epoch then 0 else activated_at)
            in and_then (or_overflow (check_i64 (after - anchor))) (\<lambda>elapsed.
               and_then (or_overflow (check_i64 (div_euclid elapsed interval_ms + 1))) (\<lambda>periods.
               and_then (or_overflow (check_i64 (periods * interval_ms))) (\<lambda>offset.
               and_then (or_overflow (check_i64 (anchor + offset))) (\<lambda>next.
               and_then (or_overflow (from_timestamp_millis cal next)) (\<lambda>_.
                 Inr next))))))"

subsection \<open>Laws of the calendar and of a time zone\<close>

definition earliest :: "ZoneOps \<Rightarrow> int \<Rightarrow> int option" where
  "earliest z n =
     (case zone_from_local z n of SingleTime t \<Rightarrow> Some t | AmbiguousTime a b \<Rightarrow> Some (min a b) | NoTime \<Rightarrow> None)"

text \<open>
  A time zone: the instants it gives for a local time have that local time and none is missed
  when it gives none; the first instant with a local time comes before every instant with a later
  local time; a gap begins and ends at a whole minute; the clock is set back by a day at most and
  forward by two days at most. Whole minutes are a restriction: zone rules of today are set to the minute, while
  the change from local mean time to standard time, a century ago in most zones, was not.
\<close>

locale time_zone =
  fixes z :: ZoneOps
  assumes single: "zone_from_local z n = SingleTime t \<Longrightarrow> zone_local z t = n"
    and ambiguous: "zone_from_local z n = AmbiguousTime a b \<Longrightarrow> zone_local z a = n \<and> zone_local z b = n"
    and exists_local: "zone_from_local z (zone_local z t) \<noteq> NoTime"
    and earliest_first: "earliest z n = Some t \<Longrightarrow> n \<le> zone_local z u \<Longrightarrow> t \<le> u"
    and whole_minutes: "zone_from_local z n = NoTime \<longleftrightarrow> zone_from_local z (n div MINUTE * MINUTE) = NoTime"
    and back_a_day: "t \<le> u \<Longrightarrow> zone_local z t \<le> zone_local z u + DAY"
    and forward_two_days: "\<exists>k. 0 \<le> k \<and> k \<le> 48 * 60 \<and> zone_from_local z (n + k * MINUTE) \<noteq> NoTime"

text \<open>
  A calendar: weekdays follow one another, every month begins within any 367 days, and the first
  28 days of a month follow its beginning.
\<close>

locale civil_calendar =
  fixes cal :: CivilOps
  assumes weekday_range: "0 \<le> civil_weekday cal d \<and> civil_weekday cal d < 7"
    and weekday_next: "civil_weekday cal (d + 1) = (civil_weekday cal d + 1) mod 7"
    and month_begins: "1 \<le> m \<Longrightarrow> m \<le> 12 \<Longrightarrow>
      \<exists>b. d \<le> b \<and> b \<le> d + 366 \<and> civil_month cal b = m \<and> civil_day cal b = 1"
    and month_runs: "civil_day cal b = 1 \<Longrightarrow> 0 \<le> k \<Longrightarrow> k < 28 \<Longrightarrow>
      civil_month cal (b + k) = civil_month cal b \<and> civil_day cal (b + k) = k + 1"

subsection \<open>Resolving a local time\<close>

lemma units [simp]: "0 < MINUTE" "0 < HOUR" "0 < DAY" "MINUTE \<noteq> 0" "DAY \<noteq> 0"
  by (simp_all add: MINUTE_def HOUR_def DAY_def)

lemma earliest_iff: "earliest z n = None \<longleftrightarrow> zone_from_local z n = NoTime"
  by (simp add: earliest_def split: LocalResult.splits)

lemma probe_gap_step:
  "probe_gap cal z tried probe =
     (if tried < 48 * 60 then
        (case naive_add cal probe MINUTE of
           None \<Rightarrow> None
         | Some next \<Rightarrow> (case earliest z next of Some t \<Rightarrow> Some t | None \<Rightarrow> probe_gap cal z (tried + 1) next))
      else None)"
  by (subst probe_gap.simps) (auto simp: earliest_def split: option.splits LocalResult.splits)

lemma resolve_earliest:
  "resolve_local_nominal cal z n = (case earliest z n of Some t \<Rightarrow> Some t | None \<Rightarrow> probe_gap cal z 0 n)"
  by (simp add: resolve_local_nominal_def earliest_def split: LocalResult.splits)

text \<open>A resolved time is the earliest instant of the first minute, from the nominal one on, that exists.\<close>

lemma probe_gap_first:
  assumes "probe_gap cal z tried probe = Some t" "earliest z probe = None"
  shows "\<exists>k > 0. earliest z (probe + k * MINUTE) = Some t \<and> (\<forall>j. 0 \<le> j \<and> j < k \<longrightarrow> earliest z (probe + j * MINUTE) = None)"
  using assms
proof (induction cal z tried probe rule: probe_gap.induct)
  case (1 cal z tried probe)
  let ?next = "probe + MINUTE"
  from "1.prems"(1) have nx: "tried < 48 * 60" "naive_add cal probe MINUTE = Some ?next"
    by (subst (asm) probe_gap_step; simp add: naive_add_def split: if_splits)+
  show ?case
  proof (cases "earliest z ?next")
    case (Some u)
    then have "u = t" using "1.prems"(1) nx by (subst (asm) probe_gap_step) simp
    moreover have "earliest z (probe + j * MINUTE) = None" if "0 \<le> j" "j < 1" for j
    proof -
      have "j = 0" using that by simp
      then show ?thesis using "1.prems"(2) by simp
    qed
    ultimately show ?thesis using Some "1.prems"(2) by (intro exI [of _ 1]) auto
  next
    case None
    have "probe_gap cal z (tried + 1) ?next = Some t"
      using None "1.prems"(1) nx by (subst (asm) probe_gap_step) simp
    then obtain k where k: "k > 0" "earliest z (?next + k * MINUTE) = Some t"
      "\<forall>j. 0 \<le> j \<and> j < k \<longrightarrow> earliest z (?next + j * MINUTE) = None"
      using "1.IH" [OF nx] None by (auto simp: earliest_iff)
    have "earliest z (probe + j * MINUTE) = None" if "0 \<le> j" "j < k + 1" for j
    proof (cases "j = 0")
      case False
      then show ?thesis using k(3) [rule_format, of "j - 1"] that by (simp add: algebra_simps)
    qed (use "1.prems"(2) in simp)
    then show ?thesis using k by (intro exI [of _ "k + 1"]) (auto simp: algebra_simps)
  qed
qed

lemma resolve_first:
  assumes "resolve_local_nominal cal z n = Some t"
  obtains k where "0 \<le> k" "earliest z (n + k * MINUTE) = Some t"
    "\<And>j. 0 \<le> j \<Longrightarrow> j < k \<Longrightarrow> earliest z (n + j * MINUTE) = None"
proof (cases "earliest z n")
  case None
  then have "probe_gap cal z 0 n = Some t" using assms by (simp add: resolve_earliest)
  from probe_gap_first [OF this None] show ?thesis using that by (meson less_imp_le)
next
  case (Some u)
  then show ?thesis using assms that [of 0] by (auto simp: resolve_earliest)
qed

context time_zone
begin

lemma earliest_local: "earliest z n = Some t \<Longrightarrow> zone_local z t = n"
  by (auto simp: earliest_def min_def split: LocalResult.splits if_splits dest: single ambiguous)

lemma resolve_before:
  assumes "resolve_local_nominal cal z n = Some t" "MINUTE dvd n" "n \<le> zone_local z u"
  shows "t \<le> u"
proof -
  obtain k where k: "0 \<le> k" "earliest z (n + k * MINUTE) = Some t"
    "\<And>j. 0 \<le> j \<Longrightarrow> j < k \<Longrightarrow> earliest z (n + j * MINUTE) = None"
    using resolve_first [OF assms(1)] by blast
  define p where "p = zone_local z u div MINUTE * MINUTE"
  obtain a where "n = MINUTE * a" using assms(2) by (rule dvdE)
  then have n: "n = a * MINUTE" by (simp add: mult.commute)
  have q: "p \<le> zone_local z u" by (simp add: p_def minus_mod_eq_div_mult [symmetric])
  have "a \<le> zone_local z u div MINUTE"
    using zdiv_mono1 [OF assms(3) units(1)] n by simp
  then obtain j where j: "0 \<le> j" "p = n + j * MINUTE"
    by (metis p_def n diff_ge_0_iff_ge add_diff_cancel_left' diff_add_cancel distrib_right add.commute)
  have "earliest z p \<noteq> None" unfolding p_def earliest_iff using exists_local whole_minutes by blast
  then have "k \<le> j" using k(3) [of j] j by force
  then have "k * MINUTE \<le> j * MINUTE" by (simp add: mult_right_mono)
  then have "n + k * MINUTE \<le> zone_local z u" using j(2) q by linarith
  then show ?thesis using earliest_first [OF k(2)] by blast
qed

lemma resolve_mono:
  assumes "resolve_local_nominal cal z n = Some t" "resolve_local_nominal cal z n' = Some t'"
    and "MINUTE dvd n" "n \<le> n'"
  shows "t \<le> t'"
proof -
  obtain k where k: "0 \<le> k" "earliest z (n' + k * MINUTE) = Some t'" by (rule resolve_first [OF assms(2)])
  have "n' \<le> zone_local z t'"
    using earliest_local [OF k(2)] mult_nonneg_nonneg [OF k(1) less_imp_le [OF units(1)]] by simp
  then show ?thesis using resolve_before [OF assms(1,3), of t'] assms(4) by simp
qed

text \<open>Two days on, a local time is resolved to a later instant.\<close>

lemma resolve_later:
  assumes "resolve_local_nominal cal z n = Some t" "zone_local z u + DAY < n"
  shows "u < t"
proof -
  obtain k where k: "0 \<le> k" "earliest z (n + k * MINUTE) = Some t" by (rule resolve_first [OF assms(1)])
  have "zone_local z u + DAY < zone_local z t"
    using earliest_local [OF k(2)] mult_nonneg_nonneg [OF k(1) less_imp_le [OF units(1)]] assms(2) by simp
  then show ?thesis using back_a_day [of t u] by linarith
qed

lemma probe_gap_found:
  assumes "0 \<le> tried" "n + (48 * 60 - tried) * MINUTE < (civil_max cal + 1) * DAY"
    and "tried < k" "k \<le> 48 * 60" "earliest z (n + (k - tried) * MINUTE) \<noteq> None"
  shows "probe_gap cal z tried n \<noteq> None"
  using assms
proof (induction "nat (48 * 60 - tried)" arbitrary: tried n)
  case (Suc x)
  have "1 * MINUTE \<le> (48 * 60 - tried) * MINUTE"
    using Suc.prems(3,4) by (intro mult_right_mono) (auto intro: less_imp_le)
  then have "n + MINUTE < (civil_max cal + 1) * DAY" using Suc.prems(2) by linarith
  then have add: "naive_add cal n MINUTE = Some (n + MINUTE)" by (simp add: naive_add_def)
  show ?case
  proof (cases "earliest z (n + MINUTE)")
    case None
    then have "k \<noteq> tried + 1" using Suc.prems(5) by auto
    then have "probe_gap cal z (tried + 1) (n + MINUTE) \<noteq> None"
      using Suc.prems Suc.hyps(2) by (intro Suc.hyps(1)) (auto simp: algebra_simps)
    then show ?thesis using None add Suc.prems(3,4) by (subst probe_gap_step) simp
  next
    case (Some t)
    then show ?thesis using add Suc.prems(3,4) by (subst probe_gap_step) simp
  qed
qed simp

lemma resolve_found:
  assumes "n + 48 * 60 * MINUTE < (civil_max cal + 1) * DAY"
  shows "resolve_local_nominal cal z n \<noteq> None"
proof -
  obtain k where k: "0 \<le> k" "k \<le> 48 * 60" "earliest z (n + k * MINUTE) \<noteq> None"
    using forward_two_days [of n] by (auto simp: earliest_iff)
  show ?thesis
  proof (cases "earliest z n")
    case None
    then have "k \<noteq> 0" using k(3) by auto
    then show ?thesis using probe_gap_found [of 0 n cal k] k None assms by (simp add: resolve_earliest)
  qed (simp add: resolve_earliest)
qed

end

subsection \<open>The search finds the first occurrence\<close>

definition nominal :: "int \<Rightarrow> int \<Rightarrow> int \<Rightarrow> int" where
  "nominal date h m = date * DAY + h * HOUR + m * MINUTE"

lemma nominal_minute: "MINUTE dvd nominal date h m"
  by (simp add: nominal_def DAY_def HOUR_def)

lemma nominal_day:
  assumes "0 \<le> h" "h \<le> 23" "0 \<le> m" "m \<le> 59"
  shows "date * DAY \<le> nominal date h m" "nominal date h m < (date + 1) * DAY"
  using assms by (simp_all add: nominal_def DAY_def HOUR_def MINUTE_def)

lemma nominal_hour:
  assumes "0 \<le> m" "m \<le> 59" "0 \<le> m'" "m' \<le> 59" "h < h'"
  shows "nominal date h m < nominal date h' m'"
  using assms by (simp add: nominal_def HOUR_def MINUTE_def)

text \<open>The local times a schedule names.\<close>

definition cron_times :: "CivilOps \<Rightarrow> ParsedCron \<Rightarrow> int set" where
  "cron_times cal cron =
     {n. \<exists>date h m. n = nominal date h m \<and> date_matches cal cron date \<and>
        h \<in> set (cf_values (hours cron)) \<and> m \<in> set (cf_values (minutes cron))}"

text \<open>\<open>first_of\<close>: a result is resolved from a time of the set after all whose candidates have passed.\<close>

definition first_of :: "CivilOps \<Rightarrow> ZoneOps \<Rightarrow> int \<Rightarrow> int set \<Rightarrow> int option \<Rightarrow> bool" where
  "first_of cal z after N result \<longleftrightarrow>
     (case result of
        None \<Rightarrow> \<forall>n \<in> N. \<forall>t. resolve_local_nominal cal z n = Some t \<longrightarrow> t \<le> after
      | Some t \<Rightarrow> after < t \<and> (\<exists>n \<in> N. resolve_local_nominal cal z n = Some t \<and>
          (\<forall>n' \<in> N. \<forall>t'. n' < n \<longrightarrow> resolve_local_nominal cal z n' = Some t' \<longrightarrow> t' \<le> after)))"

lemma first_of_empty: "first_of cal z after {} None"
  by (simp add: first_of_def)

lemma first_of_Un:
  assumes "first_of cal z after A r" "\<And>a b. a \<in> A \<Longrightarrow> b \<in> B \<Longrightarrow> a < b"
    and "r = None \<Longrightarrow> first_of cal z after B s"
  shows "first_of cal z after (A \<union> B) (case r of Some t \<Rightarrow> Some t | None \<Rightarrow> s)"
proof (cases r)
  case None
  then have A: "\<forall>n \<in> A. \<forall>t. resolve_local_nominal cal z n = Some t \<longrightarrow> t \<le> after"
    using assms(1) by (simp add: first_of_def)
  show ?thesis
  proof (cases s)
    case (Some t)
    then obtain n where "after < t" "n \<in> B" "resolve_local_nominal cal z n = Some t"
      "\<forall>n' \<in> B. \<forall>t'. n' < n \<longrightarrow> resolve_local_nominal cal z n' = Some t' \<longrightarrow> t' \<le> after"
      using assms(3) None by (auto simp: first_of_def)
    then show ?thesis using A None Some by (auto simp: first_of_def)
  qed (use assms(3) None A in \<open>auto simp: first_of_def\<close>)
next
  case (Some t)
  then obtain n where "after < t" "n \<in> A" "resolve_local_nominal cal z n = Some t"
    "\<forall>n' \<in> A. \<forall>t'. n' < n \<longrightarrow> resolve_local_nominal cal z n' = Some t' \<longrightarrow> t' \<le> after"
    using assms(1) by (auto simp: first_of_def)
  then show ?thesis using Some assms(2) by (force simp: first_of_def)
qed

lemma fire_in_minutes_first:
  assumes "sorted_wrt (<) ms" "set ms \<subseteq> {0..59}" "0 \<le> h" "h \<le> 23"
  shows "first_of cal z after (nominal date h ` set ms) (fire_in_minutes cal z after date h ms)"
  using assms(1,2)
proof (induction ms)
  case (Cons m ms)
  let ?n = "nominal date h m"
  have n: "and_hms_opt date h m = Some ?n" using Cons.prems(2) assms(3,4) by (simp add: and_hms_opt_def nominal_def)
  let ?r = "case resolve_local_nominal cal z ?n of Some t \<Rightarrow> if t > after then Some t else None | None \<Rightarrow> None"
  have fire: "fire_in_minutes cal z after date h (m # ms) =
      (case ?r of Some t \<Rightarrow> Some t | None \<Rightarrow> fire_in_minutes cal z after date h ms)"
    using n by (simp split: option.splits)
  have "first_of cal z after {?n} ?r" by (auto simp: first_of_def split: option.splits)
  moreover have "a < b" if "a \<in> {?n}" "b \<in> nominal date h ` set ms" for a b
    using that Cons.prems(1) by (auto simp: nominal_def)
  moreover have "nominal date h ` set (m # ms) = {?n} \<union> nominal date h ` set ms" by auto
  ultimately show ?case using first_of_Un [of cal z after "{?n}" ?r] Cons unfolding fire by force
qed (simp add: first_of_empty)

lemma fire_in_hours_first:
  assumes "sorted_wrt (<) hs" "set hs \<subseteq> {0..23}" "sorted_wrt (<) ms" "set ms \<subseteq> {0..59}"
  shows "first_of cal z after (\<Union>h \<in> set hs. nominal date h ` set ms) (fire_in_hours cal z after date hs ms)"
  using assms(1,2)
proof (induction hs)
  case (Cons h hs)
  let ?r = "fire_in_minutes cal z after date h ms"
  have "first_of cal z after (nominal date h ` set ms) ?r"
    using Cons.prems(2) assms(3,4) by (intro fire_in_minutes_first) auto
  moreover have "a < b" if "a \<in> nominal date h ` set ms" "b \<in> (\<Union>h \<in> set hs. nominal date h ` set ms)" for a b
  proof -
    from that obtain m h' m' where "a = nominal date h m" "b = nominal date h' m'" "m \<in> set ms" "m' \<in> set ms" "h' \<in> set hs"
      by auto
    moreover from this have "h < h'" "m \<in> {0..59}" "m' \<in> {0..59}" using Cons.prems(1) assms(4) by auto
    ultimately show ?thesis using nominal_hour by simp
  qed
  moreover have "fire_in_hours cal z after date (h # hs) ms =
      (case ?r of Some t \<Rightarrow> Some t | None \<Rightarrow> fire_in_hours cal z after date hs ms)"
    by (simp split: option.splits)
  moreover have "first_of cal z after (\<Union>h \<in> set hs. nominal date h ` set ms) (fire_in_hours cal z after date hs ms)"
    using Cons by simp
  ultimately show ?case
    using first_of_Un [of cal z after "nominal date h ` set ms" ?r "\<Union>h \<in> set hs. nominal date h ` set ms"] by simp
qed (simp add: first_of_empty)

definition day_times :: "CivilOps \<Rightarrow> ParsedCron \<Rightarrow> int \<Rightarrow> int set" where
  "day_times cal cron date =
     (if date_matches cal cron date
      then \<Union>h \<in> set (cf_values (hours cron)). nominal date h ` set (cf_values (minutes cron)) else {})"

lemma cron_times_days: "cron_times cal cron = (\<Union>date. day_times cal cron date)"
  by (auto simp: cron_times_def day_times_def)

lemma cron_ok_sorted:
  assumes "cron_ok cron"
  shows "sorted_wrt (<) (cf_values (hours cron))" "set (cf_values (hours cron)) \<subseteq> {0..23}"
    "sorted_wrt (<) (cf_values (minutes cron))" "set (cf_values (minutes cron)) \<subseteq> {0..59}"
  using assms by (auto simp: cron_ok_def field_ok_def ordered_set_def)

lemma day_times_bounds:
  assumes "cron_ok cron" "n \<in> day_times cal cron date"
  shows "date * DAY \<le> n" "n < (date + 1) * DAY" "MINUTE dvd n"
proof -
  from assms(2) obtain h m where n: "n = nominal date h m" "h \<in> set (cf_values (hours cron))" "m \<in> set (cf_values (minutes cron))"
    by (auto simp: day_times_def split: if_splits)
  then have "h \<in> {0..23}" "m \<in> {0..59}" using cron_ok_sorted(2,4) [OF assms(1)] by blast+
  then show "date * DAY \<le> n" "n < (date + 1) * DAY" "MINUTE dvd n" using n(1) nominal_day nominal_minute by simp_all
qed

lemma day_times_order:
  assumes "cron_ok cron" "a \<in> day_times cal cron d" "b \<in> day_times cal cron e" "d < e"
  shows "a < b"
proof -
  have "(d + 1) * DAY \<le> e * DAY" using assms(4) by (intro mult_right_mono) (auto intro: less_imp_le)
  then show ?thesis using day_times_bounds [OF assms(1,2)] day_times_bounds [OF assms(1,3)] by linarith
qed

lemma fire_in_days_first:
  assumes "cron_ok cron"
  shows "first_of cal z after (\<Union>date \<in> {start + k..min (start + 366 * 8) (civil_max cal)}. day_times cal cron date)
    (fire_in_days cal z cron after start k)"
proof (induction "nat (366 * 8 + 1 - k)" arbitrary: k)
  case 0
  then show ?case by (subst fire_in_days.simps) (simp add: first_of_empty)
next
  case (Suc x)
  let ?N = "\<lambda>k. \<Union>date \<in> {start + k..min (start + 366 * 8) (civil_max cal)}. day_times cal cron date"
  let ?r = "if date_matches cal cron (start + k)
    then fire_in_hours cal z after (start + k) (cf_values (hours cron)) (cf_values (minutes cron)) else None"
  have k: "k \<le> 366 * 8" using Suc.hyps(2) by simp
  show ?case
  proof (cases "start + k \<le> civil_max cal")
    case True
    have "{start + k..min (start + 366 * 8) (civil_max cal)} =
        insert (start + k) {start + (k + 1)..min (start + 366 * 8) (civil_max cal)}"
      using True k by auto
    then have "?N k = day_times cal cron (start + k) \<union> ?N (k + 1)" by simp
    moreover have "first_of cal z after (day_times cal cron (start + k)) ?r"
      using fire_in_hours_first [OF cron_ok_sorted [OF assms]] by (simp add: day_times_def first_of_empty)
    moreover have "a < b" if "a \<in> day_times cal cron (start + k)" "b \<in> ?N (k + 1)" for a b
      using that day_times_order [OF assms] by force
    moreover have "first_of cal z after (?N (k + 1)) (fire_in_days cal z cron after start (k + 1))"
      using Suc.hyps by (intro Suc.hyps(1)) simp
    moreover have "fire_in_days cal z cron after start k =
        (case ?r of Some t \<Rightarrow> Some t | None \<Rightarrow> fire_in_days cal z cron after start (k + 1))"
      using True k by (subst fire_in_days.simps) (simp add: date_add_def)
    ultimately show ?thesis using first_of_Un [of cal z after "day_times cal cron (start + k)" ?r "?N (k + 1)"] by auto
  next
    case False
    then show ?thesis by (subst fire_in_days.simps) (simp add: date_add_def first_of_empty)
  qed
qed

context time_zone
begin

lemma first_fire_least:
  assumes "cron_ok cron" "first_cron_fire_after cal z cron after = Inr t"
  shows "after < t" "\<exists>n \<in> cron_times cal cron. resolve_local_nominal cal z n = Some t"
    "\<And>n t'. n \<in> cron_times cal cron \<Longrightarrow> resolve_local_nominal cal z n = Some t' \<Longrightarrow> after < t' \<Longrightarrow> t \<le> t'"
proof -
  define start where "start = zone_local z after div DAY"
  let ?N = "\<Union>date \<in> {start..min (start + 366 * 8) (civil_max cal)}. day_times cal cron date"
  have fire: "fire_in_days cal z cron after start 0 = Some t"
    using assms(2) by (simp add: first_cron_fire_after_def start_def Let_def split: option.splits)
  then have f: "first_of cal z after ?N (Some t)" using fire_in_days_first [OF assms(1), of cal z after start 0] by simp
  then obtain n where n: "after < t" "n \<in> ?N" "resolve_local_nominal cal z n = Some t"
    "\<forall>n' \<in> ?N. \<forall>t'. n' < n \<longrightarrow> resolve_local_nominal cal z n' = Some t' \<longrightarrow> t' \<le> after"
    by (auto simp: first_of_def)
  then obtain date where date: "n \<in> day_times cal cron date" "start \<le> date" "date \<le> start + 366 * 8" "date \<le> civil_max cal"
    by auto
  show "after < t" using n by simp
  show "\<exists>n \<in> cron_times cal cron. resolve_local_nominal cal z n = Some t"
    using n(3) date(1) by (auto simp: cron_times_days)
  show "t \<le> t'" if "m \<in> cron_times cal cron" "resolve_local_nominal cal z m = Some t'" "after < t'" for m t'
  proof -
    from that(1) obtain d where d: "m \<in> day_times cal cron d" by (auto simp: cron_times_days)
    note bounds = day_times_bounds [OF assms(1) d]
    show ?thesis
    proof (cases "n \<le> m")
      case True
      then show ?thesis using resolve_mono [OF n(3) that(2)] day_times_bounds(3) [OF assms(1) date(1)] by blast
    next
      case False
      then have "d \<le> date" using day_times_order [OF assms(1) date(1) d] by (meson linorder_not_less order_less_imp_le)
      have "d < start"
      proof (rule ccontr)
        assume "\<not> d < start"
        then have "m \<in> ?N" using d date \<open>d \<le> date\<close> by auto
        then have "t' \<le> after" using n(4) False that(2) by auto
        then show False using that(3) by simp
      qed
      then have "(d + 1) * DAY \<le> start * DAY" by (intro mult_right_mono) (auto intro: less_imp_le)
      also have "\<dots> \<le> zone_local z after" by (simp add: start_def minus_mod_eq_div_mult [symmetric])
      finally have "m \<le> zone_local z after" using bounds(2) by linarith
      then have "t' \<le> after" using resolve_before [OF that(2) bounds(3)] by blast
      then show ?thesis using that(3) by simp
    qed
  qed
qed

end

end
