(* ===== verification/CronProps.thy ===== *)
theory CronProps
  imports CronNext
begin

text \<open>
  What the schedule calculations promise: the next occurrence is the first one, an accepted
  schedule always has one within the search horizon, and an interval stays on its grid. The laws
  of the calendar hold for the Gregorian calendar, those of a time zone for UTC and for a zone
  whose clock is set forward and back.
\<close>

subsection \<open>The search horizon\<close>

lemma field_ok_some: "field_ok lo hi f \<Longrightarrow> \<exists>v \<in> set (cf_values f). lo \<le> v \<and> v \<le> hi"
  by (cases "cf_values f") (auto simp: field_ok_def)

context civil_calendar
begin

lemma weekday_add: "civil_weekday cal (d + int k) = (civil_weekday cal d + int k) mod 7"
proof (induction k)
  case 0
  then show ?case using weekday_range [of d] by simp
next
  case (Suc k)
  have "civil_weekday cal (d + int (Suc k)) = (civil_weekday cal (d + int k) + 1) mod 7"
    using weekday_next [of "d + int k"] by (simp add: ac_simps)
  then show ?case using Suc by (simp add: mod_simps ac_simps)
qed

lemma weekday_within:
  assumes "0 \<le> w" "w < 7"
  shows "\<exists>k. 0 \<le> k \<and> k < 7 \<and> civil_weekday cal (d + k) = w"
proof -
  define k where "k = (w - civil_weekday cal d) mod 7"
  have "civil_weekday cal (d + k) = (civil_weekday cal d + k) mod 7"
    using weekday_add [of d "nat k"] by (simp add: k_def)
  also have "\<dots> = w" using assms by (simp add: k_def mod_simps)
  finally show ?thesis by (intro exI [of _ k]) (simp add: k_def)
qed

text \<open>A schedule names a date within 367 days and four weeks of any date.\<close>

lemma matching_date:
  assumes "cron_ok cron"
  shows "\<exists>date. d \<le> date \<and> date \<le> d + 366 + 27 \<and> date_matches cal cron date"
proof -
  obtain m where m: "m \<in> set (cf_values (months cron))" "1 \<le> m" "m \<le> 12"
    using assms field_ok_some [of 1 12] by (auto simp: cron_ok_def)
  obtain b where b: "d \<le> b" "b \<le> d + 366" "civil_month cal b = m" "civil_day cal b = 1"
    using month_begins [OF m(2,3)] by blast
  obtain v where v: "v \<in> set (cf_values (days_of_month cron))" "1 \<le> v" "v \<le> 28"
    using assms by (auto simp: cron_ok_def field_ok_def)
  obtain w where w: "w \<in> set (cf_values (days_of_week cron))" "0 \<le> w" "w < 7"
    using assms field_ok_some [of 0 6] by (force simp: cron_ok_def)
  obtain k where k: "0 \<le> k" "k < 7" "civil_weekday cal (b + k) = w"
    using weekday_within [OF w(2,3)] by blast
  show ?thesis
  proof (cases "cf_wildcard (days_of_month cron)")
    case True
    then have "date_matches cal cron (b + k)"
      using month_runs [OF b(4) k(1)] k m(1) b(3) w(1)
      by (simp add: date_matches_def field_matches_def split: bool.splits)
    then show ?thesis using b k by (intro exI [of _ "b + k"]) auto
  next
    case False
    then have "date_matches cal cron (b + (v - 1))"
      using month_runs [OF b(4), of "v - 1"] v m(1) b(3)
      by (simp add: date_matches_def field_matches_def split: bool.splits)
    then show ?thesis using b v by (intro exI [of _ "b + (v - 1)"]) auto
  qed
qed

end

locale schedule_env = time_zone z + civil_calendar cal for z cal
begin

lemma next_fire_exists:
  assumes "cron_ok cron" "zone_local z after div DAY + 366 + 32 \<le> civil_max cal"
  shows "\<exists>t. first_cron_fire_after cal z cron after = Inr t"
proof (rule ccontr)
  define start where "start = zone_local z after div DAY"
  assume "\<nexists>t. first_cron_fire_after cal z cron after = Inr t"
  then have "fire_in_days cal z cron after start 0 = None"
    by (auto simp: first_cron_fire_after_def start_def Let_def split: option.splits)
  then have none: "first_of cal z after (\<Union>date \<in> {start..min (start + 366 * 8) (civil_max cal)}. day_times cal cron date) None"
    using fire_in_days_first [OF assms(1), of cal z after start 0] by simp
  obtain date where date: "start + 2 \<le> date" "date \<le> start + 2 + 366 + 27" "date_matches cal cron date"
    using matching_date [OF assms(1)] by blast
  obtain h where h: "h \<in> set (cf_values (hours cron))"
    using assms(1) field_ok_some [of 0 23] by (auto simp: cron_ok_def)
  obtain m where m: "m \<in> set (cf_values (minutes cron))"
    using assms(1) field_ok_some [of 0 59] by (auto simp: cron_ok_def)
  let ?n = "nominal date h m"
  have n: "?n \<in> day_times cal cron date" using date(3) h m by (auto simp: day_times_def)
  note bounds = day_times_bounds [OF assms(1) n]
  have "(date + 3) * DAY \<le> (civil_max cal + 1) * DAY"
    using date(2) assms(2) by (intro mult_right_mono) (auto simp: start_def intro: less_imp_le)
  then have "?n + 48 * 60 * MINUTE < (civil_max cal + 1) * DAY"
    using bounds(2) by (simp add: DAY_def HOUR_def MINUTE_def)
  then obtain t where t: "resolve_local_nominal cal z ?n = Some t" using resolve_found by blast
  have "zone_local z after < (start + 1) * DAY"
    using pos_mod_bound [OF units(3), of "zone_local z after"] div_mult_mod_eq [of "zone_local z after" DAY]
    unfolding start_def distrib_right by linarith
  moreover have "(start + 2) * DAY \<le> date * DAY"
    using date(1) by (intro mult_right_mono) (auto intro: less_imp_le)
  ultimately have "zone_local z after + DAY < ?n" using bounds(1) by (simp add: algebra_simps)
  then have "after < t" using resolve_later [OF t] by blast
  moreover have "t \<le> after"
  proof -
    have "?n \<in> (\<Union>date \<in> {start..min (start + 366 * 8) (civil_max cal)}. day_times cal cron date)"
      using n date(1,2) assms(2) by (intro UN_I [of date]) (auto simp: start_def)
    then show ?thesis using none t unfolding first_of_def by auto
  qed
  ultimately show False by simp
qed

end

subsection \<open>The Gregorian calendar\<close>

text \<open>
  Day numbers count from 1970-01-01. Years begin in March, so that a leap day ends its year:
  \<open>year_start\<close> is the day a year begins, counted from the March of year zero.
\<close>

definition year_start :: "int \<Rightarrow> int" where
  "year_start y = 365 * y + y div 4 - y div 100 + y div 400"

definition year_of :: "int \<Rightarrow> int" where
  "year_of d = (let y = 400 * d div 146097 in if year_start (y + 1) \<le> d then y + 1 else y)"

definition day_of_year :: "int \<Rightarrow> int" where
  "day_of_year date = (let d = date + 719468 in d - year_start (year_of d))"

definition greg_month :: "int \<Rightarrow> int" where
  "greg_month date = (let mp = (5 * day_of_year date + 2) div 153 in if mp < 10 then mp + 3 else mp - 9)"

definition greg_day :: "int \<Rightarrow> int" where
  "greg_day date = (let doy = day_of_year date; mp = (5 * doy + 2) div 153 in doy - (153 * mp + 2) div 5 + 1)"

definition gregorian :: CivilOps where
  "gregorian = \<lparr>civil_month = greg_month, civil_day = greg_day, civil_weekday = (\<lambda>date. (date + 4) mod 7),
     civil_min = - 96465292, civil_max = 95026236\<rparr>"

lemma year_start_step: "year_start y + 365 \<le> year_start (y + 1)" "year_start (y + 1) \<le> year_start y + 366"
proof -
  have next_div: "(x + 1) div c = x div c \<or> (x + 1) div c = x div c + 1" if "0 < c" for x c :: int
  proof -
    have "(x + 1) div c \<le> (x + c) div c" using that by (intro zdiv_mono1) simp_all
    moreover have "x div c \<le> (x + 1) div c" using that by (intro zdiv_mono1) simp_all
    moreover have "(x + c) div c = x div c + 1" using that by simp
    ultimately show ?thesis by linarith
  qed
  have hundreds: "x div 100 = x div 4 div 25" "x div 400 = x div 4 div 25 div 4" for x :: int
    by (simp_all add: zdiv_zmult2_eq [symmetric])
  define a b where "a = y div 4" and "b = a div 25"
  have year: "year_start y = 365 * y + a - b + b div 4"
    "year_start (y + 1) = 365 * y + 365 + (y + 1) div 4 - (y + 1) div 4 div 25 + (y + 1) div 4 div 25 div 4"
    by (simp_all add: year_start_def hundreds a_def b_def)
  have "(y + 1) div 4 = a \<or> (y + 1) div 4 = a + 1" using next_div [of 4 y] by (simp add: a_def)
  then have "year_start y + 365 \<le> year_start (y + 1) \<and> year_start (y + 1) \<le> year_start y + 366"
  proof
    assume "(y + 1) div 4 = a"
    then show ?thesis unfolding year by (simp add: b_def)
  next
    assume a: "(y + 1) div 4 = a + 1"
    have "(a + 1) div 25 = b \<or> (a + 1) div 25 = b + 1" using next_div [of 25 a] by (simp add: b_def)
    then show ?thesis using next_div [of 4 b] unfolding year a by auto
  qed
  then show "year_start y + 365 \<le> year_start (y + 1)" "year_start (y + 1) \<le> year_start y + 366" by simp_all
qed

lemma year_start_mono: "y \<le> x \<Longrightarrow> year_start y \<le> year_start x"
proof (induction x rule: int_ge_induct)
  case (step x)
  then show ?case using year_start_step(1) [of x] by linarith
qed simp

lemma year_of_bounds: "year_start (year_of d) \<le> d" "d < year_start (year_of d + 1)"
proof -
  define y where "y = 400 * d div 146097"
  have y: "146097 * y \<le> 400 * d" "400 * d < 146097 * y + 146097" unfolding y_def by linarith+
  have "year_start y \<le> d" using y unfolding year_start_def by linarith
  moreover have "d < year_start (y + 1 + 1)"
  proof -
    define e where "e = y + 1 + 1"
    have "e < 4 * (e div 4) + 4" "100 * (e div 100) \<le> e" "e < 400 * (e div 400) + 400" by simp_all
    then show ?thesis using y unfolding e_def [symmetric] year_start_def by (simp add: e_def)
  qed
  ultimately show "year_start (year_of d) \<le> d" "d < year_start (year_of d + 1)"
    by (auto simp: year_of_def y_def [symmetric] Let_def)
qed

lemma year_of_unique:
  assumes "year_start y \<le> d" "d < year_start (y + 1)"
  shows "year_of d = y"
proof (rule ccontr)
  assume "year_of d \<noteq> y"
  then consider "year_of d + 1 \<le> y" | "y + 1 \<le> year_of d" by linarith
  then show False
    using year_start_mono [of "year_of d + 1" y] year_start_mono [of "y + 1" "year_of d"] year_of_bounds [of d] assms
    by cases auto
qed

text \<open>The day of the year on which the months begin, from March on.\<close>

definition month_offset :: "int \<Rightarrow> int" where
  "month_offset mp = (153 * mp + 2) div 5"

lemma div_eq_iff_bounds: "c * q \<le> x \<Longrightarrow> x < c * q + c \<Longrightarrow> x div c = q" for x c q :: int
  by (intro int_div_pos_eq [of _ _ _ "x - c * q"]) auto

lemma month_of_offset:
  assumes "0 \<le> mp" "mp \<le> 11" "0 \<le> k" "k < 28"
  shows "(5 * (month_offset mp + k) + 2) div 153 = mp" "0 \<le> month_offset mp + k" "month_offset mp + k \<le> 364"
proof -
  have "mp \<in> {0, 1, 2, 3, 4, 5, 6, 7, 8, 9, 10, 11}" using assms(1,2) by (simp, presburger)
  then show "(5 * (month_offset mp + k) + 2) div 153 = mp"
    using assms(3,4) by (elim insertE emptyE) (auto simp: month_offset_def intro!: div_eq_iff_bounds)
  show "0 \<le> month_offset mp + k" "month_offset mp + k \<le> 364"
    using assms unfolding month_offset_def by linarith+
qed

lemma day_of_year_range: "0 \<le> day_of_year date" "day_of_year date \<le> 365"
  using year_of_bounds [of "date + 719468"] year_start_step(2) [of "year_of (date + 719468)"]
  by (auto simp: day_of_year_def Let_def)

lemma day_of_year_at:
  assumes "0 \<le> doy" "doy \<le> 364"
  shows "day_of_year (year_start y + doy - 719468) = doy"
proof -
  have "year_of (year_start y + doy) = y"
    using assms year_start_step(1) [of y] by (intro year_of_unique) auto
  then show ?thesis by (simp add: day_of_year_def)
qed

interpretation gregorian_calendar: civil_calendar gregorian
proof
  fix d m b k :: int
  show "0 \<le> civil_weekday gregorian d \<and> civil_weekday gregorian d < 7" by (simp add: gregorian_def)
  show "civil_weekday gregorian (d + 1) = (civil_weekday gregorian d + 1) mod 7"
    by (simp add: gregorian_def mod_simps ac_simps)
  show "\<exists>b. d \<le> b \<and> b \<le> d + 366 \<and> civil_month gregorian b = m \<and> civil_day gregorian b = 1"
    if "1 \<le> m" "m \<le> 12"
  proof -
    define mp where "mp = (if m < 3 then m + 9 else m - 3)"
    define y where "y = year_of (d + 719468)"
    have mp: "0 \<le> mp" "mp \<le> 11" using that by (auto simp: mp_def)
    let ?at = "\<lambda>y. year_start y + month_offset mp - 719468"
    note off = month_of_offset [OF mp, of 0, simplified]
    have "day_of_year (?at y) = month_offset mp" for y using day_of_year_at off by simp
    then have at: "civil_month gregorian (?at y) = m" "civil_day gregorian (?at y) = 1" for y
      using off that by (auto simp: gregorian_def greg_month_def greg_day_def mp_def month_offset_def [symmetric])
    have y: "year_start y \<le> d + 719468" "d + 719468 < year_start (y + 1)" unfolding y_def by (rule year_of_bounds)+
    show ?thesis
    proof (cases "d \<le> ?at y")
      case True
      then show ?thesis using at y(1) off by (intro exI [of _ "?at y"]) auto
    next
      case False
      then show ?thesis using at y off year_start_step(2) [of y] by (intro exI [of _ "?at (y + 1)"]) auto
    qed
  qed
  show "civil_month gregorian (b + k) = civil_month gregorian b \<and> civil_day gregorian (b + k) = k + 1"
    if first: "civil_day gregorian b = 1" and k: "0 \<le> k" "k < 28"
  proof -
    define mp where "mp = (5 * day_of_year b + 2) div 153"
    define y where "y = year_of (b + 719468)"
    have mp: "0 \<le> mp" "mp \<le> 11" using day_of_year_range [of b] unfolding mp_def by linarith+
    have doy: "day_of_year b = month_offset mp"
      using first by (simp add: gregorian_def greg_day_def mp_def month_offset_def Let_def)
    have b: "b = year_start y + month_offset mp - 719468"
      using doy by (simp add: day_of_year_def y_def Let_def)
    note off = month_of_offset [OF mp k] month_of_offset [OF mp, of 0, simplified]
    have "day_of_year (b + k) = month_offset mp + k"
    proof -
      have at: "b + k = year_start y + (month_offset mp + k) - 719468" using b by simp
      show ?thesis unfolding at by (rule day_of_year_at [OF off(2,3)])
    qed
    then show ?thesis
      using off doy by (simp add: gregorian_def greg_month_def greg_day_def month_offset_def [symmetric])
  qed
qed

subsection \<open>Time zones\<close>

definition utc :: ZoneOps where
  "utc = \<lparr>zone_local = (\<lambda>t. t), zone_from_local = SingleTime\<rparr>"

interpretation utc_zone: time_zone utc
proof
  fix n t u :: int
  show "\<exists>k. 0 \<le> k \<and> k \<le> 48 * 60 \<and> zone_from_local utc (n + k * MINUTE) \<noteq> NoTime"
    by (simp add: utc_def exI [of _ 0])
  show "t \<le> u \<Longrightarrow> zone_local utc t \<le> zone_local utc u + DAY"
    by (simp add: utc_def DAY_def HOUR_def MINUTE_def)
qed (auto simp: utc_def earliest_def)

text \<open>
  A zone four hours behind between two instants, the spring and the autumn of 2026 in New York,
  and five hours behind before and after.
\<close>

definition spring :: int where "spring = 1772953200 * 10 ^ 9"
definition autumn :: int where "autumn = 1793512800 * 10 ^ 9"

definition zone_2026 :: ZoneOps where
  "zone_2026 =
     (let local = (\<lambda>t. if spring \<le> t \<and> t < autumn then t - 4 * HOUR else t - 5 * HOUR)
      in \<lparr>zone_local = local,
          zone_from_local = (\<lambda>n.
            if local (n + 4 * HOUR) = n
            then (if local (n + 5 * HOUR) = n then AmbiguousTime (n + 4 * HOUR) (n + 5 * HOUR) else SingleTime (n + 4 * HOUR))
            else if local (n + 5 * HOUR) = n then SingleTime (n + 5 * HOUR) else NoTime)\<rparr>)"

lemma zone_2026_local: "zone_local zone_2026 t = (if spring \<le> t \<and> t < autumn then t - 4 * HOUR else t - 5 * HOUR)"
  by (simp add: zone_2026_def)

lemma zone_2026_from_local:
  "zone_from_local zone_2026 n =
     (if spring \<le> n + 4 * HOUR \<and> n + 4 * HOUR < autumn
      then if n + 5 * HOUR < autumn then SingleTime (n + 4 * HOUR) else AmbiguousTime (n + 4 * HOUR) (n + 5 * HOUR)
      else if spring \<le> n + 5 * HOUR \<and> n + 5 * HOUR < autumn then NoTime else SingleTime (n + 5 * HOUR))"
  by (auto simp: zone_2026_def Let_def HOUR_def MINUTE_def spring_def autumn_def)

lemma zone_2026_earliest:
  "earliest zone_2026 n =
     (if spring \<le> n + 4 * HOUR \<and> n + 4 * HOUR < autumn then Some (n + 4 * HOUR)
      else if spring \<le> n + 5 * HOUR \<and> n + 5 * HOUR < autumn then None else Some (n + 5 * HOUR))"
  by (simp add: earliest_def zone_2026_from_local HOUR_def MINUTE_def)

interpretation zone_2026: time_zone zone_2026
proof
  fix n t u a b :: int
  note units_simps = HOUR_def DAY_def spring_def autumn_def MINUTE_def
  show "zone_from_local zone_2026 n = SingleTime t \<Longrightarrow> zone_local zone_2026 t = n"
    by (auto simp: zone_2026_from_local zone_2026_local units_simps split: if_splits)
  show "zone_from_local zone_2026 n = AmbiguousTime a b \<Longrightarrow> zone_local zone_2026 a = n \<and> zone_local zone_2026 b = n"
    by (auto simp: zone_2026_from_local zone_2026_local units_simps split: if_splits)
  show "zone_from_local zone_2026 (zone_local zone_2026 t) \<noteq> NoTime"
    by (auto simp: zone_2026_from_local zone_2026_local units_simps)
  show "earliest zone_2026 n = Some t \<Longrightarrow> n \<le> zone_local zone_2026 u \<Longrightarrow> t \<le> u"
    by (auto simp: zone_2026_earliest zone_2026_local units_simps split: if_splits)
  show "t \<le> u \<Longrightarrow> zone_local zone_2026 t \<le> zone_local zone_2026 u + DAY"
    by (auto simp: zone_2026_local units_simps)
  show "\<exists>k. 0 \<le> k \<and> k \<le> 48 * 60 \<and> zone_from_local zone_2026 (n + k * MINUTE) \<noteq> NoTime"
  proof (cases "zone_from_local zone_2026 n = NoTime")
    case True
    then have "zone_from_local zone_2026 (n + 60 * MINUTE) \<noteq> NoTime"
      by (auto simp: zone_2026_from_local units_simps split: if_splits)
    then show ?thesis by (intro exI [of _ 60]) auto
  qed (auto intro: exI [of _ 0])
  have missing: "zone_from_local zone_2026 n = NoTime \<longleftrightarrow> 29548920 * MINUTE \<le> n \<and> n < 29548980 * MINUTE" for n
    by (auto simp: zone_2026_from_local units_simps)
  have "c * MINUTE \<le> n \<longleftrightarrow> c * MINUTE \<le> n div MINUTE * MINUTE" for c
  proof
    assume "c * MINUTE \<le> n"
    then have "c * MINUTE div MINUTE \<le> n div MINUTE" by (rule zdiv_mono1) simp
    then show "c * MINUTE \<le> n div MINUTE * MINUTE" by (simp add: mult_right_mono)
  next
    assume "c * MINUTE \<le> n div MINUTE * MINUTE"
    also have "\<dots> \<le> n" by (simp add: minus_mod_eq_div_mult [symmetric])
    finally show "c * MINUTE \<le> n" .
  qed
  then show "zone_from_local zone_2026 n = NoTime \<longleftrightarrow> zone_from_local zone_2026 (n div MINUTE * MINUTE) = NoTime"
    unfolding missing by (meson linorder_not_le)
qed

subsection \<open>Properties\<close>

text \<open>
  \<^bold>\<open>C9\<close>: The next occurrence is the first one. For every accepted cron expression and every time
  zone, what the search returns is later than the given instant, is the resolution of a local
  time the expression names, and no local time the expression names, on any date, resolves to
  an instant strictly between the two. A local time in a gap resolves to the end of the gap and a
  repeated one to its first occurrence.
\<close>

theorem next_occurrence_is_first:
  assumes "time_zone z" "parse_cron_expr expr = Inr cron" "first_cron_fire_after cal z cron after = Inr t"
  shows "after < t \<and> (\<exists>n \<in> cron_times cal cron. resolve_local_nominal cal z n = Some t) \<and>
    (\<forall>n \<in> cron_times cal cron. \<forall>t'. resolve_local_nominal cal z n = Some t' \<and> after < t' \<longrightarrow> t \<le> t')"
  using time_zone.first_fire_least [OF assms(1) parse_cron_expr_ok [OF assms(2)] assms(3)] by blast

text \<open>Half past two on the night the clock goes from two to three: seven o'clock in UTC.\<close>

definition spring_night :: int where
  "spring_night = 1772949600 * 10 ^ 9"

theorem next_occurrence_is_first_witness:
  "\<exists>cron. parse_cron_expr (rstr ''30 2 * * *'') = Inr cron \<and>
     first_cron_fire_after gregorian zone_2026 cron spring_night = Inr spring \<and> spring_night < spring \<and>
     (\<forall>n \<in> cron_times gregorian cron. \<forall>t'.
       resolve_local_nominal gregorian zone_2026 n = Some t' \<and> spring_night < t' \<longrightarrow> spring \<le> t')"
proof -
  have parsed: "\<not> isl (parse_cron_expr (rstr ''30 2 * * *''))" by code_simp
  then obtain cron where cron: "parse_cron_expr (rstr ''30 2 * * *'') = Inr cron" by (metis sum.collapse(2))
  have "and_then (parse_cron_expr (rstr ''30 2 * * *'')) (\<lambda>cron.
      first_cron_fire_after gregorian zone_2026 cron spring_night) = Inr spring" by code_simp
  then have "first_cron_fire_after gregorian zone_2026 cron spring_night = Inr spring" unfolding cron by simp
  then show ?thesis
    using next_occurrence_is_first [OF zone_2026.time_zone_axioms cron] cron by blast
qed

text \<open>
  \<^bold>\<open>C11\<close>: An accepted schedule always has a next occurrence. Whatever the expression, the zone and
  the instant, the search does not run out of its horizon: the dates below the 29th, the months
  and the weekdays an accepted expression can ask for all come within fourteen months. The only
  other end of the search is the last date of the calendar, taken to be that far away.
\<close>

theorem accepted_schedule_has_a_next_fire:
  assumes "time_zone z" "civil_calendar cal" "parse_cron_expr expr = Inr cron"
    and "zone_local z after div DAY + 398 \<le> civil_max cal"
  shows "\<exists>t. first_cron_fire_after cal z cron after = Inr t"
proof -
  have env: "schedule_env z cal" using assms(1,2) by (simp add: schedule_env_def)
  show ?thesis
    using schedule_env.next_fire_exists [OF env parse_cron_expr_ok [OF assms(3)], of after] assms(4) by simp
qed

theorem accepted_schedule_has_a_next_fire_witness:
  "\<exists>cron t. parse_cron_expr (rstr ''0 0 28 2 *'') = Inr cron \<and>
     first_cron_fire_after gregorian zone_2026 cron spring_night = Inr t"
proof -
  have "\<not> isl (parse_cron_expr (rstr ''0 0 28 2 *''))" by code_simp
  then obtain cron where cron: "parse_cron_expr (rstr ''0 0 28 2 *'') = Inr cron" by (metis sum.collapse(2))
  have "zone_local zone_2026 spring_night div DAY + 398 \<le> civil_max gregorian" by code_simp
  from accepted_schedule_has_a_next_fire [OF zone_2026.time_zone_axioms gregorian_calendar.civil_calendar_axioms cron this]
  show ?thesis using cron by blast
qed

text \<open>
  Intervals stay on their grid and do not overflow. For a positive interval the answer is
  the one point of the grid through the anchor that lies after the given instant by at most the
  interval, before and after the anchor alike; it is refused only when that point, its distance
  from the anchor or the elapsed time is out of range.
\<close>

theorem interval_next_is_on_the_grid:
  assumes "0 < interval_ms" and anchor_def: "anchor = (if kind = Epoch then 0 else activated_at)"
  shows "case timing_next_after cal parse_tz zones (IntervalTiming interval_ms kind) after activated_at of
      Inr next \<Rightarrow> after < next \<and> next \<le> after + interval_ms \<and> interval_ms dvd next - anchor \<and> in_i64 next
    | Inl e \<Rightarrow> e = TimestampOutOfRange \<and>
        (\<exists>next. after < next \<and> next \<le> after + interval_ms \<and> interval_ms dvd next - anchor \<and>
          (\<not> in_i64 (after - anchor) \<or> \<not> in_i64 (next - anchor) \<or> \<not> in_i64 next \<or> from_timestamp_millis cal next = None))"
proof -
  define periods where "periods = (after - anchor) div interval_ms + 1"
  define grid where "grid = anchor + periods * interval_ms"
  have q: "(after - anchor) div interval_ms * interval_ms \<le> after - anchor"
    "after - anchor < (after - anchor) div interval_ms * interval_ms + interval_ms"
    using assms(1) pos_mod_bound [OF assms(1), of "after - anchor"] pos_mod_sign [OF assms(1), of "after - anchor"]
      div_mult_mod_eq [of "after - anchor" interval_ms] by linarith+
  have grid: "after < grid" "grid \<le> after + interval_ms" "interval_ms dvd grid - anchor" "grid - anchor = periods * interval_ms"
    using q by (auto simp: grid_def periods_def distrib_right)
  have small: "in_i64 periods" if "in_i64 (after - anchor)" "in_i64 (periods * interval_ms)"
  proof -
    have "0 \<le> periods \<longrightarrow> periods \<le> periods * interval_ms" "periods < 0 \<longrightarrow> periods * interval_ms \<le> periods"
      using assms(1) by (simp_all add: mult_le_cancel_left1 mult_le_cancel_left2)
    then show ?thesis using that(2) unfolding in_i64_def i64_min_def i64_max_def by linarith
  qed
  have "timing_next_after cal parse_tz zones (IntervalTiming interval_ms kind) after activated_at =
      (if in_i64 (after - anchor) \<and> in_i64 (grid - anchor) \<and> in_i64 grid \<and> from_timestamp_millis cal grid \<noteq> None
       then Inr grid else Inl TimestampOutOfRange)"
    using assms(1) small unfolding grid(4)
    by (auto simp: timing_next_after_def or_overflow_def check_i64_def div_euclid_def anchor_def [symmetric] Let_def
        periods_def [symmetric] grid_def [symmetric] split: option.splits)
  then show ?thesis using grid by auto
qed

theorem interval_next_is_on_the_grid_witness:
  "timing_next_after gregorian (\<lambda>_. None :: unit option) (\<lambda>_. utc) (IntervalTiming 1000 Deploy) (- 1) 2500 = Inr 500 \<and>
   (1000 :: int) dvd 500 - 2500"
proof -
  have n: "timing_next_after gregorian (\<lambda>_. None :: unit option) (\<lambda>_. utc) (IntervalTiming 1000 Deploy) (- 1) 2500 = Inr 500"
    by code_simp
  then show ?thesis
    using interval_next_is_on_the_grid [where interval_ms = 1000 and anchor = 2500 and kind = Deploy and
        activated_at = 2500 and cal = gregorian and parse_tz = "\<lambda>_. None :: unit option" and zones = "\<lambda>_. utc" and
        after = "- 1"]
    by simp
qed

end
