(* ===== verification/WsFrames.thy ===== *)
theory WsFrames
  imports Prelude
begin

text \<open>
  WebSocket frames of the runtime
  (\<^verbatim>\<open>crates/zeroship-runtime/src/web/websocket/frame_writer.rs\<close>, \<^verbatim>\<open>frame_reader.rs\<close>, and the
  reader loop and the frame handlers of \<^verbatim>\<open>network.rs\<close>).

  Sizes are natural numbers with the 64-bit bound written out. A string is its UTF-8 bytes, with
  the validation of the standard library. The reader state is returned next to each result, since a
  failing step can change it. A stream is the list of the bytes it still delivers; the reads of the
  reader loop are the list of their results, so that a run is a function of the chunks in which
  the bytes arrive.
\<close>

unbundle bit_operations_syntax

type_synonym u16w = "16 word"

subsection \<open>Bytes\<close>

definition be16 :: "u8 \<Rightarrow> u8 \<Rightarrow> nat" where
  "be16 a b = 256 * unat a + unat b"

definition be_nat :: "u8 list \<Rightarrow> nat" where
  "be_nat bs = foldl (\<lambda>n b. 256 * n + unat b) 0 bs"

fun to_be_bytes :: "nat \<Rightarrow> nat \<Rightarrow> u8 list" where
  "to_be_bytes 0 n = []"
| "to_be_bytes (Suc k) n = to_be_bytes k (n div 256) @ [of_nat (n mod 256)]"

definition utf8_cont :: "u8 \<Rightarrow> bool" where
  "utf8_cont b \<longleftrightarrow> 0x80 \<le> b \<and> b \<le> 0xBF"

fun utf8_valid :: "u8 list \<Rightarrow> bool" where
  "utf8_valid [] = True"
| "utf8_valid [a] = (a < 0x80)"
| "utf8_valid [a, b] =
     (if a < 0x80 then utf8_valid [b] else if 0xC2 \<le> a \<and> a \<le> 0xDF then utf8_cont b else False)"
| "utf8_valid [a, b, c] =
     (if a < 0x80 then utf8_valid [b, c]
      else if 0xC2 \<le> a \<and> a \<le> 0xDF then (if utf8_cont b then utf8_valid [c] else False)
      else if a = 0xE0 then 0xA0 \<le> b \<and> b \<le> 0xBF \<and> utf8_cont c
      else if a = 0xED then 0x80 \<le> b \<and> b \<le> 0x9F \<and> utf8_cont c
      else if 0xE1 \<le> a \<and> a \<le> 0xEF then utf8_cont b \<and> utf8_cont c
      else False)"
| "utf8_valid (a # b # c # d # s) =
     (if a < 0x80 then utf8_valid (b # c # d # s)
      else if 0xC2 \<le> a \<and> a \<le> 0xDF then (if utf8_cont b then utf8_valid (c # d # s) else False)
      else if 0xE0 \<le> a \<and> a \<le> 0xEF then
        (if (if a = 0xE0 then 0xA0 \<le> b \<and> b \<le> 0xBF else if a = 0xED then 0x80 \<le> b \<and> b \<le> 0x9F else utf8_cont b) \<and>
            utf8_cont c
         then utf8_valid (d # s) else False)
      else if 0xF0 \<le> a \<and> a \<le> 0xF4 then
        (if (if a = 0xF0 then 0x90 \<le> b \<and> b \<le> 0xBF else if a = 0xF4 then 0x80 \<le> b \<and> b \<le> 0x8F else utf8_cont b) \<and>
            utf8_cont c \<and> utf8_cont d
         then utf8_valid s else False)
      else False)"

subsection \<open>The writer\<close>

definition OPCODE_CONTINUATION :: u8 where "OPCODE_CONTINUATION = 0x0"
definition OPCODE_TEXT :: u8 where "OPCODE_TEXT = 0x1"
definition OPCODE_BINARY :: u8 where "OPCODE_BINARY = 0x2"
definition OPCODE_CLOSE :: u8 where "OPCODE_CLOSE = 0x8"
definition OPCODE_PING :: u8 where "OPCODE_PING = 0x9"
definition OPCODE_PONG :: u8 where "OPCODE_PONG = 0xA"

text \<open>The four bytes of the mask are random and an argument.\<close>

definition mask_payload :: "u8 list \<Rightarrow> u8 list \<Rightarrow> u8 list" where
  "mask_payload mkey payload = map (\<lambda>(i, b). b XOR mkey ! (i mod 4)) (enumerate 0 payload)"

definition encode_with_mask :: "u8 \<Rightarrow> bool \<Rightarrow> u8 list \<Rightarrow> u8 list \<Rightarrow> u8 list" where
  "encode_with_mask opcode fin payload mkey =
     (let payload_len = length payload;
          fin_bit = (if fin then 0x80 else 0x00)
      in [fin_bit OR (opcode AND 0x0F)] @
         (if payload_len \<le> 125 then [0x80 OR of_nat payload_len]
          else if payload_len \<le> 65535 then [0x80 OR 126] @ to_be_bytes 2 payload_len
          else [0x80 OR 127] @ to_be_bytes 8 payload_len) @
         mkey @ mask_payload mkey payload)"

definition encode_text_frame :: "u8 list \<Rightarrow> u8 list \<Rightarrow> u8 list" where
  "encode_text_frame mkey payload = encode_with_mask OPCODE_TEXT True payload mkey"

definition encode_binary_frame :: "u8 list \<Rightarrow> u8 list \<Rightarrow> u8 list" where
  "encode_binary_frame mkey payload = encode_with_mask OPCODE_BINARY True payload mkey"

definition encode_close_frame :: "u8 list \<Rightarrow> u16w option \<Rightarrow> u8 list \<Rightarrow> u8 list" where
  "encode_close_frame mkey code reason =
     (let payload = (case code of None \<Rightarrow> [] | Some c \<Rightarrow> to_be_bytes 2 (unat c) @ reason)
      in encode_with_mask OPCODE_CLOSE True payload mkey)"

definition encode_ping_frame :: "u8 list \<Rightarrow> u8 list \<Rightarrow> u8 list" where
  "encode_ping_frame mkey payload = encode_with_mask OPCODE_PING True payload mkey"

definition encode_pong_frame :: "u8 list \<Rightarrow> u8 list \<Rightarrow> u8 list" where
  "encode_pong_frame mkey payload = encode_with_mask OPCODE_PONG True payload mkey"

subsection \<open>The reader\<close>

datatype DecodedFrame =
    TextFrame "u8 list"
  | BinaryFrame "u8 list"
  | PingFrame "u8 list"
  | PongFrame "u8 list"
  | CloseFrame u16w "u8 list"

datatype DecodeError =
    IoError
  | MaskedServerFrame
  | NonZeroReserved
  | FragmentedControlFrame
  | OversizedControlFrame nat
  | OrphanContinuation
  | InterleavedDataFrame
  | FrameTooLarge nat nat
  | MessageTooLarge nat nat
  | InvalidUtf8
  | UnknownOpcode u8

record FragmentedMessage =
  is_text :: bool
  frag_bytes :: "u8 list"

record FrameReader =
  fragmented_message :: "FragmentedMessage option"
  max_frame_size :: nat
  max_message_size :: nat

datatype StepResult =
    StepFrame DecodedFrame nat
  | NeedMoreContinuation nat
  | NeedMoreBytes

definition frame_reader_new :: "nat \<Rightarrow> nat \<Rightarrow> FrameReader" where
  "frame_reader_new frame_size message_size =
     \<lparr>fragmented_message = None, max_frame_size = frame_size, max_message_size = message_size\<rparr>"

definition USIZE_MAX :: nat where "USIZE_MAX = 2 ^ 64 - 1"

definition usize_saturating_add :: "nat \<Rightarrow> nat \<Rightarrow> nat" where
  "usize_saturating_add a b = min (a + b) USIZE_MAX"

definition from_utf8 :: "u8 list \<Rightarrow> DecodeError + u8 list" where
  "from_utf8 bs = (if utf8_valid bs then Inr bs else Inl InvalidUtf8)"

text \<open>The dispatch of a whole frame by its opcode.\<close>

definition decode_payload ::
  "FrameReader \<Rightarrow> bool \<Rightarrow> u8 \<Rightarrow> nat \<Rightarrow> u8 list \<Rightarrow> nat \<Rightarrow> (DecodeError + StepResult) \<times> FrameReader" where
  "decode_payload r fin opcode payload_len payload consumed =
     (if opcode = OPCODE_CONTINUATION then
          (case fragmented_message r of
             None \<Rightarrow> (Inl OrphanContinuation, r)
           | Some frag \<Rightarrow>
               let new_total = usize_saturating_add (length (frag_bytes frag)) payload_len
               in if new_total > max_message_size r
                  then (Inl (MessageTooLarge new_total (max_message_size r)), r)
                  else
                    let frag = frag\<lparr>frag_bytes := frag_bytes frag @ payload\<rparr>
                    in if fin then
                         (and_then
                            (if is_text frag
                             then and_then (from_utf8 (frag_bytes frag)) (\<lambda>s. Inr (TextFrame s))
                             else Inr (BinaryFrame (frag_bytes frag)))
                            (\<lambda>frame. Inr (StepFrame frame consumed)),
                          r\<lparr>fragmented_message := None\<rparr>)
                       else (Inr (NeedMoreContinuation consumed), r\<lparr>fragmented_message := Some frag\<rparr>))
        else if opcode = OPCODE_TEXT \<or> opcode = OPCODE_BINARY then
          (if fragmented_message r \<noteq> None then (Inl InterleavedDataFrame, r)
           else if fin then
             (if payload_len > max_message_size r
              then (Inl (MessageTooLarge payload_len (max_message_size r)), r)
              else
                (and_then
                   (if opcode = OPCODE_TEXT
                    then and_then (from_utf8 payload) (\<lambda>s. Inr (TextFrame s))
                    else Inr (BinaryFrame payload))
                   (\<lambda>frame. Inr (StepFrame frame consumed)), r))
           else
             (if payload_len > max_message_size r
              then (Inl (MessageTooLarge payload_len (max_message_size r)), r)
              else (Inr (NeedMoreContinuation consumed),
                    r\<lparr>fragmented_message :=
                      Some \<lparr>is_text = (opcode = OPCODE_TEXT), frag_bytes = payload\<rparr>\<rparr>)))
        else if opcode = OPCODE_CLOSE then
          (and_then
             (if payload = [] then Inr (CloseFrame 1005 [])
              else if length payload = 1 then Inl (OversizedControlFrame 1)
              else and_then (from_utf8 (drop 2 payload))
                     (\<lambda>reason. Inr (CloseFrame (of_nat (be16 (payload ! 0) (payload ! 1))) reason)))
             (\<lambda>frame. Inr (StepFrame frame consumed)), r)
        else if opcode = OPCODE_PING then (Inr (StepFrame (PingFrame payload) consumed), r)
        else if opcode = OPCODE_PONG then (Inr (StepFrame (PongFrame payload) consumed), r)
        else (Inl (UnknownOpcode opcode), r))"

text \<open>The length of the payload and of the header, \<open>None\<close> when bytes of the header are missing.\<close>

definition frame_length :: "FrameReader \<Rightarrow> u8 \<Rightarrow> u8 list \<Rightarrow> (DecodeError + nat \<times> nat) option" where
  "frame_length r len_marker buf =
     (if len_marker \<le> 125 then Some (Inr (unat len_marker, 2))
      else if len_marker = 126 then
        (if length buf < 4 then None else Some (Inr (be16 (buf ! 2) (buf ! 3), 4)))
      else if length buf < 10 then None
      else
        let v = be_nat [buf ! 2, buf ! 3, buf ! 4, buf ! 5, buf ! 6, buf ! 7, buf ! 8, buf ! 9]
        in if v > USIZE_MAX then Some (Inl (FrameTooLarge USIZE_MAX (max_frame_size r))) else Some (Inr (v, 10)))"

text \<open>One decode attempt against the buffer.\<close>

definition decode_step :: "FrameReader \<Rightarrow> u8 list \<Rightarrow> (DecodeError + StepResult) \<times> FrameReader" where
  "decode_step r buf =
     (if length buf < 2 then (Inr NeedMoreBytes, r)
      else
        let h0 = buf ! 0; h1 = buf ! 1;
            fin = (h0 AND 0x80 \<noteq> 0); rsv = h0 AND 0x70; opcode = h0 AND 0x0F;
            masked = (h1 AND 0x80 \<noteq> 0); len_marker = h1 AND 0x7F
        in if masked then (Inl MaskedServerFrame, r)
           else if rsv \<noteq> 0 then (Inl NonZeroReserved, r)
           else
             (case frame_length r len_marker buf of
                None \<Rightarrow> (Inr NeedMoreBytes, r)
              | Some (Inl e) \<Rightarrow> (Inl e, r)
              | Some (Inr (payload_len, hdr_size)) \<Rightarrow>
                  if payload_len > max_frame_size r then (Inl (FrameTooLarge payload_len (max_frame_size r)), r)
                  else if opcode AND 0x08 \<noteq> 0 \<and> \<not> fin then (Inl FragmentedControlFrame, r)
                  else if opcode AND 0x08 \<noteq> 0 \<and> payload_len > 125 then (Inl (OversizedControlFrame payload_len), r)
                  else
                    let total = hdr_size + payload_len
                    in if length buf < total then (Inr NeedMoreBytes, r)
                       else
                         let payload = take payload_len (drop hdr_size buf); consumed = total
                         in decode_payload r fin opcode payload_len payload consumed))"

text \<open>One frame off a stream: \<open>None\<close> for a fragment that was buffered, and the bytes left.\<close>

definition read_exact :: "nat \<Rightarrow> u8 list \<Rightarrow> DecodeError + u8 list \<times> u8 list" where
  "read_exact n s = (if length s < n then Inl IoError else Inr (take n s, drop n s))"

definition read_payload ::
  "FrameReader \<Rightarrow> bool \<Rightarrow> u8 \<Rightarrow> nat \<Rightarrow> u8 list \<Rightarrow> u8 list \<Rightarrow>
     (DecodeError + DecodedFrame option \<times> u8 list) \<times> FrameReader" where
  "read_payload r fin opcode payload_len payload rest =
     (if opcode = OPCODE_CONTINUATION then
        (case fragmented_message r of
           None \<Rightarrow> (Inl OrphanContinuation, r)
         | Some frag \<Rightarrow>
             let new_total = usize_saturating_add (length (frag_bytes frag)) payload_len
             in if new_total > max_message_size r
                then (Inl (MessageTooLarge new_total (max_message_size r)), r)
                else
                  let frag = frag\<lparr>frag_bytes := frag_bytes frag @ payload\<rparr>
                  in if fin then
                       ((if is_text frag
                         then and_then (from_utf8 (frag_bytes frag)) (\<lambda>s. Inr (Some (TextFrame s), rest))
                         else Inr (Some (BinaryFrame (frag_bytes frag)), rest)),
                        r\<lparr>fragmented_message := None\<rparr>)
                     else (Inr (None, rest), r\<lparr>fragmented_message := Some frag\<rparr>))
      else if opcode = OPCODE_TEXT \<or> opcode = OPCODE_BINARY then
        (if fragmented_message r \<noteq> None then (Inl InterleavedDataFrame, r)
         else if fin then
           (if payload_len > max_message_size r
            then (Inl (MessageTooLarge payload_len (max_message_size r)), r)
            else if opcode = OPCODE_TEXT
            then (and_then (from_utf8 payload) (\<lambda>s. Inr (Some (TextFrame s), rest)), r)
            else (Inr (Some (BinaryFrame payload), rest), r))
         else if payload_len > max_message_size r
         then (Inl (MessageTooLarge payload_len (max_message_size r)), r)
         else (Inr (None, rest),
               r\<lparr>fragmented_message :=
                 Some \<lparr>is_text = (opcode = OPCODE_TEXT), frag_bytes = payload\<rparr>\<rparr>))
      else if opcode = OPCODE_CLOSE then
        (and_then
           (if payload = [] then Inr (1005, [])
            else if length payload = 1 then Inl (OversizedControlFrame 1)
            else and_then (from_utf8 (drop 2 payload))
                   (\<lambda>reason. Inr (of_nat (be16 (payload ! 0) (payload ! 1)), reason)))
           (\<lambda>(code, reason). Inr (Some (CloseFrame code reason), rest)), r)
      else if opcode = OPCODE_PING then (Inr (Some (PingFrame payload), rest), r)
      else if opcode = OPCODE_PONG then (Inr (Some (PongFrame payload), rest), r)
      else (Inl (UnknownOpcode opcode), r))"

definition stream_length :: "FrameReader \<Rightarrow> u8 \<Rightarrow> u8 list \<Rightarrow> DecodeError + nat \<times> u8 list" where
  "stream_length r len_marker s =
     (if len_marker \<le> 125 then Inr (unat len_marker, s)
      else if len_marker = 126 then
        and_then (read_exact 2 s) (\<lambda>(b, s). Inr (be16 (b ! 0) (b ! 1), s))
      else
        and_then (read_exact 8 s) (\<lambda>(b, s).
          let v = be_nat [b ! 0, b ! 1, b ! 2, b ! 3, b ! 4, b ! 5, b ! 6, b ! 7]
          in if v > USIZE_MAX then Inl (FrameTooLarge USIZE_MAX (max_frame_size r)) else Inr (v, s)))"

definition read_one :: "FrameReader \<Rightarrow> u8 list \<Rightarrow> (DecodeError + DecodedFrame option \<times> u8 list) \<times> FrameReader" where
  "read_one r s0 =
     (case read_exact 2 s0 of
        Inl e \<Rightarrow> (Inl e, r)
      | Inr (header, s1) \<Rightarrow>
          let h0 = header ! 0; h1 = header ! 1;
              fin = (h0 AND 0x80 \<noteq> 0); rsv = h0 AND 0x70; opcode = h0 AND 0x0F;
              masked = (h1 AND 0x80 \<noteq> 0); len_marker = h1 AND 0x7F
          in if masked then (Inl MaskedServerFrame, r)
             else if rsv \<noteq> 0 then (Inl NonZeroReserved, r)
             else
               (case stream_length r len_marker s1 of
                  Inl e \<Rightarrow> (Inl e, r)
                | Inr (payload_len, s2) \<Rightarrow>
                    if payload_len > max_frame_size r then (Inl (FrameTooLarge payload_len (max_frame_size r)), r)
                    else if opcode AND 0x08 \<noteq> 0 \<and> \<not> fin then (Inl FragmentedControlFrame, r)
                    else if opcode AND 0x08 \<noteq> 0 \<and> payload_len > 125 then (Inl (OversizedControlFrame payload_len), r)
                    else
                      (case (if payload_len > 0 then read_exact payload_len s2 else Inr ([], s2)) of
                         Inl e \<Rightarrow> (Inl e, r)
                       | Inr (payload, rest) \<Rightarrow> read_payload r fin opcode payload_len payload rest)))"

subsection \<open>The reader loop\<close>

datatype FailReason = DecodeFailed DecodeError | ReadFailed | EofWithoutClose | WriteFailed | ConnectAborted | ConnectFailed

datatype WsEvent =
    OpenEvent "u8 list" "u8 list"
  | MessageText "u8 list"
  | MessageBinary "u8 list"
  | ErrorEvent FailReason
  | CloseEvent u16w "u8 list" bool

datatype WsFrame =
    SendText "u8 list"
  | SendBinary "u8 list"
  | SendBlob nat
  | SendPong "u8 list"
  | SendClose "u16w option" "u8 list"

text \<open>The events and the outbound frames of a decoded frame, and whether reading goes on.\<close>

fun handle_frame_plain :: "DecodedFrame \<Rightarrow> WsEvent list \<times> WsFrame list \<times> bool" where
  "handle_frame_plain (TextFrame s) = ([MessageText s], [], True)"
| "handle_frame_plain (BinaryFrame b) = ([MessageBinary b], [], True)"
| "handle_frame_plain (PingFrame payload) = ([], [SendPong payload], True)"
| "handle_frame_plain (PongFrame payload) = ([], [], True)"
| "handle_frame_plain (CloseFrame code reason) =
     ([CloseEvent code reason True], [SendClose (if code = 1005 then None else Some code) []], False)"

text \<open>The events of a failed connection.\<close>

definition fail_events :: "FailReason \<Rightarrow> WsEvent list" where
  "fail_events err = [ErrorEvent err, CloseEvent 1006 [] False]"

text \<open>What the writer does for a frame: the bytes on the wire, the close flag, and by how much the buffered amount
  goes down once they are written.\<close>

fun write_frame :: "u8 list \<Rightarrow> WsFrame \<Rightarrow> bool \<Rightarrow> u8 list \<times> bool \<times> nat option" where
  "write_frame mkey (SendText s) sent_close = (encode_text_frame mkey s, sent_close, Some (length s))"
| "write_frame mkey (SendBinary b) sent_close = (encode_binary_frame mkey b, sent_close, Some (length b))"
| "write_frame mkey (SendBlob blob_size) sent_close = ([], sent_close, Some blob_size)"
| "write_frame mkey (SendPong payload) sent_close = (encode_pong_frame mkey payload, sent_close, None)"
| "write_frame mkey (SendClose code reason) sent_close = (encode_close_frame mkey code reason, True, None)"

text \<open>What the loop has done: the events, the outbound frames, and the state it reads on in, if it does.\<close>

record LoopResult =
  loop_events :: "WsEvent list"
  loop_outbound :: "WsFrame list"
  loop_state :: "(FrameReader \<times> u8 list) option"

definition loop_prepend :: "WsEvent list \<Rightarrow> WsFrame list \<Rightarrow> LoopResult \<Rightarrow> LoopResult" where
  "loop_prepend events out res =
     res\<lparr>loop_events := events @ loop_events res, loop_outbound := out @ loop_outbound res\<rparr>"

lemma decode_payload_consumed:
  "decode_payload r fin opcode n payload consumed = (Inr (StepFrame frame m), r') \<Longrightarrow> m = consumed"
  "decode_payload r fin opcode n payload consumed = (Inr (NeedMoreContinuation m), r') \<Longrightarrow> m = consumed"
  unfolding decode_payload_def Let_def by (auto simp: and_then_Inr split: if_splits option.splits)

lemma frame_length_header:
  "frame_length r m buf = Some (Inr (n, h)) \<Longrightarrow> 2 \<le> h \<and> (2 \<le> length buf \<longrightarrow> h \<le> length buf)"
  by (auto simp: frame_length_def Let_def split: if_splits)

lemma decode_step_consumes:
  "decode_step r buf = (Inr (StepFrame frame consumed), r') \<Longrightarrow> 2 \<le> consumed \<and> consumed \<le> length buf"
  "decode_step r buf = (Inr (NeedMoreContinuation consumed), r') \<Longrightarrow> 2 \<le> consumed \<and> consumed \<le> length buf"
  unfolding decode_step_def Let_def
  by (auto dest!: decode_payload_consumed frame_length_header split: if_splits option.splits sum.splits prod.splits)

function drain_frames :: "FrameReader \<Rightarrow> u8 list \<Rightarrow> LoopResult" where
  "drain_frames r buf =
     (case decode_step r buf of
        (Inr (StepFrame frame consumed), r') \<Rightarrow>
          (case handle_frame_plain frame of
             (events, out, cont) \<Rightarrow>
               if cont then loop_prepend events out (drain_frames r' (drop consumed buf))
               else \<lparr>loop_events = events, loop_outbound = out, loop_state = None\<rparr>)
      | (Inr (NeedMoreContinuation consumed), r') \<Rightarrow> drain_frames r' (drop consumed buf)
      | (Inr NeedMoreBytes, r') \<Rightarrow> \<lparr>loop_events = [], loop_outbound = [], loop_state = Some (r', buf)\<rparr>
      | (Inl e, r') \<Rightarrow> \<lparr>loop_events = fail_events (DecodeFailed e), loop_outbound = [], loop_state = None\<rparr>)"
  by pat_completeness auto
termination
  by (relation "measure (\<lambda>(r, buf). length buf)")
    (auto dest!: decode_step_consumes [OF sym])

datatype ReadResult = ReadOk "u8 list" | ReadErr

fun run_reader_loop :: "FrameReader \<Rightarrow> u8 list \<Rightarrow> ReadResult list \<Rightarrow> LoopResult" where
  "run_reader_loop r buf [] = drain_frames r buf"
| "run_reader_loop r buf (read # reads) =
     (let res = drain_frames r buf
      in case loop_state res of
           None \<Rightarrow> res
         | Some (r', buf') \<Rightarrow>
             loop_prepend (loop_events res) (loop_outbound res)
               (case read of
                  ReadErr \<Rightarrow> \<lparr>loop_events = fail_events ReadFailed, loop_outbound = [], loop_state = None\<rparr>
                | ReadOk chunk \<Rightarrow>
                    if chunk = []
                    then \<lparr>loop_events = fail_events EofWithoutClose, loop_outbound = [], loop_state = None\<rparr>
                    else run_reader_loop r' (buf' @ chunk) reads))"

text \<open>The stream reader collects fragments until a frame is complete.\<close>

lemma read_payload_rest: "read_payload r fin opcode n payload rest = (Inr (frame, rest'), r') \<Longrightarrow> rest' = rest"
  unfolding read_payload_def Let_def by (auto simp: and_then_Inr split: if_splits option.splits)

lemma read_exact_rest: "read_exact n s = Inr (b, rest) \<Longrightarrow> length rest + n = length s"
  by (auto simp: read_exact_def split: if_splits)

lemma stream_length_rest: "stream_length r m s = Inr (n, rest) \<Longrightarrow> length rest \<le> length s"
  by (auto simp: stream_length_def Let_def and_then_Inr dest!: read_exact_rest split: if_splits)

lemma read_one_consumes: "read_one r s = (Inr (frame, rest), r') \<Longrightarrow> length rest < length s"
  unfolding read_one_def Let_def
  by (auto dest!: read_payload_rest read_exact_rest stream_length_rest split: if_splits sum.splits)

function read_frame :: "FrameReader \<Rightarrow> u8 list \<Rightarrow> (DecodeError + DecodedFrame \<times> u8 list) \<times> FrameReader" where
  "read_frame r s =
     (case read_one r s of
        (Inl e, r') \<Rightarrow> (Inl e, r')
      | (Inr (Some frame, rest), r') \<Rightarrow> (Inr (frame, rest), r')
      | (Inr (None, rest), r') \<Rightarrow> read_frame r' rest)"
  by pat_completeness auto
termination
  by (relation "measure (\<lambda>(r, s). length s)") (auto dest!: read_one_consumes [OF sym])

declare drain_frames.simps [simp del] read_frame.simps [simp del]

end
