(* ===== verification/WsProps.thy ===== *)
theory WsProps
  imports WsFrames
begin

text \<open>
  What the WebSocket reader and writer promise: the two decoders of the reader agree, a run does
  not depend on how the bytes are cut into chunks, every sequence of messages a server may send is
  decoded to these messages, what is buffered and delivered is bounded, and a frame the writer
  encodes is the frame a server reads.
\<close>

subsection \<open>A step looks at one frame\<close>

lemma decode_payload_not_more: "decode_payload r fin opcode n payload consumed \<noteq> (Inr NeedMoreBytes, r')"
  unfolding decode_payload_def Let_def by (auto simp: and_then_Inr split: if_splits option.splits)

text \<open>The part of a step after the header.\<close>

definition step_rest :: "FrameReader \<Rightarrow> u8 \<Rightarrow> nat \<Rightarrow> nat \<Rightarrow> u8 list \<Rightarrow> (DecodeError + StepResult) \<times> FrameReader" where
  "step_rest r h0 n h buf =
     (if n > max_frame_size r then (Inl (FrameTooLarge n (max_frame_size r)), r)
      else if (h0 AND 0x0F) AND 0x08 \<noteq> 0 \<and> h0 AND 0x80 = 0 then (Inl FragmentedControlFrame, r)
      else if (h0 AND 0x0F) AND 0x08 \<noteq> 0 \<and> n > 125 then (Inl (OversizedControlFrame n), r)
      else if length buf < h + n then (Inr NeedMoreBytes, r)
      else decode_payload r (h0 AND 0x80 \<noteq> 0) (h0 AND 0x0F) n (take n (drop h buf)) (h + n))"

lemma decode_step_parts:
  "decode_step r buf =
     (if length buf < 2 then (Inr NeedMoreBytes, r)
      else if buf ! 1 AND 0x80 \<noteq> 0 then (Inl MaskedServerFrame, r)
      else if buf ! 0 AND 0x70 \<noteq> 0 then (Inl NonZeroReserved, r)
      else (case frame_length r (buf ! 1 AND 0x7F) buf of
              None \<Rightarrow> (Inr NeedMoreBytes, r)
            | Some (Inl e) \<Rightarrow> (Inl e, r)
            | Some (Inr (n, h)) \<Rightarrow> step_rest r (buf ! 0) n h buf))"
  by (simp add: decode_step_def step_rest_def Let_def split: option.splits sum.splits prod.splits)

lemma decode_step_more: "decode_step r buf = (Inr NeedMoreBytes, r') \<Longrightarrow> r' = r"
  by (auto simp: decode_step_parts step_rest_def decode_payload_not_more
      split: if_splits option.splits sum.splits prod.splits)

lemma frame_length_append:
  assumes "frame_length r m buf = Some x"
  shows "frame_length r m (buf @ later) = Some x"
proof -
  have nth: "k < length buf \<Longrightarrow> (buf @ later) ! k = buf ! k" for k by (simp add: nth_append)
  consider "m \<le> 125" | "\<not> m \<le> 125" "m = 126" "4 \<le> length buf" | "\<not> m \<le> 125" "m \<noteq> 126" "10 \<le> length buf"
    using assms by (auto simp: frame_length_def split: if_splits)
  then show ?thesis
  proof cases
    case 3
    then show ?thesis using assms by (simp add: frame_length_def nth Let_def)
  qed (use assms in \<open>simp_all add: frame_length_def nth\<close>)
qed

text \<open>Bytes after the frame do not matter to a step that has one.\<close>

lemma decode_step_append:
  assumes "fst (decode_step r buf) \<noteq> Inr NeedMoreBytes"
  shows "decode_step r (buf @ later) = decode_step r buf"
proof -
  have two: "\<not> length buf < 2" using assms by (auto simp: decode_step_parts)
  then have hs: "(buf @ later) ! 0 = buf ! 0" "(buf @ later) ! 1 = buf ! 1" by (auto simp: nth_append)
  have rest: "step_rest r (buf ! 0) n h (buf @ later) = step_rest r (buf ! 0) n h buf"
    if "fst (step_rest r (buf ! 0) n h buf) \<noteq> Inr NeedMoreBytes" for n h
    using that by (auto simp: step_rest_def split: if_splits)
  show ?thesis
    using assms two rest frame_length_append [of r "buf ! 1 AND 0x7F" buf _ later]
    unfolding decode_step_parts hs by (auto split: if_splits option.splits sum.splits prod.splits)
qed

text \<open>The stream reader makes the same decisions; it runs into the end of the stream where a step asks for more.\<close>

definition as_read :: "u8 list \<Rightarrow> (DecodeError + StepResult) \<times> FrameReader \<Rightarrow>
    (DecodeError + DecodedFrame option \<times> u8 list) \<times> FrameReader" where
  "as_read s = map_prod
     (\<lambda>x. case x of
        Inl e \<Rightarrow> Inl e
      | Inr (StepFrame frame n) \<Rightarrow> Inr (Some frame, drop n s)
      | Inr (NeedMoreContinuation n) \<Rightarrow> Inr (None, drop n s)
      | Inr NeedMoreBytes \<Rightarrow> Inl IoError) id"

lemma read_payload_agrees:
  "read_payload r fin opcode n payload (drop consumed s) = as_read s (decode_payload r fin opcode n payload consumed)"
proof (cases "fragmented_message r")
  case None
  then show ?thesis
    unfolding read_payload_def decode_payload_def as_read_def Let_def by (auto simp: from_utf8_def)
next
  case (Some frag)
  then show ?thesis
    unfolding read_payload_def decode_payload_def as_read_def Let_def by (auto simp: from_utf8_def)
qed

lemma stream_length_agrees:
  "stream_length r m s =
     (case frame_length r m (h0 # h1 # s) of
        None \<Rightarrow> Inl IoError | Some (Inl e) \<Rightarrow> Inl e | Some (Inr (n, h)) \<Rightarrow> Inr (n, drop h (h0 # h1 # s)))"
  by (auto simp: stream_length_def frame_length_def read_exact_def Let_def)

lemma read_one_parts:
  "read_one r (h0 # h1 # s) =
     (if h1 AND 0x80 \<noteq> 0 then (Inl MaskedServerFrame, r)
      else if h0 AND 0x70 \<noteq> 0 then (Inl NonZeroReserved, r)
      else (case stream_length r (h1 AND 0x7F) s of
              Inl e \<Rightarrow> (Inl e, r)
            | Inr (n, s2) \<Rightarrow>
                if n > max_frame_size r then (Inl (FrameTooLarge n (max_frame_size r)), r)
                else if (h0 AND 0x0F) AND 0x08 \<noteq> 0 \<and> h0 AND 0x80 = 0 then (Inl FragmentedControlFrame, r)
                else if (h0 AND 0x0F) AND 0x08 \<noteq> 0 \<and> n > 125 then (Inl (OversizedControlFrame n), r)
                else if length s2 < n then (Inl IoError, r)
                else read_payload r (h0 AND 0x80 \<noteq> 0) (h0 AND 0x0F) n (take n s2) (drop n s2)))"
  by (simp add: read_one_def read_exact_def Let_def split: sum.splits prod.splits)

lemma read_one_agrees: "read_one r s = as_read s (decode_step r s)"
proof (cases "length s < 2")
  case True
  then show ?thesis by (simp add: read_one_def read_exact_def decode_step_parts as_read_def)
next
  case False
  then obtain h0 h1 t where s: "s = h0 # h1 # t" by (cases s; cases "tl s") auto
  have err: "as_read s (Inl e, r) = (Inl e, r)" "as_read s (Inr NeedMoreBytes, r) = (Inl IoError, r)" for e
    by (simp_all add: as_read_def)
  let ?m = "h1 AND 0x7F"
  note lengths = stream_length_agrees [of r ?m t h0 h1, folded s]
  have rest: "(if length (drop h s) < n then (Inl IoError, r)
       else read_payload r fin opcode n (take n (drop h s)) (drop n (drop h s))) =
      as_read s (if length s < h + n then (Inr NeedMoreBytes, r)
       else decode_payload r fin opcode n (take n (drop h s)) (h + n))"
    if "frame_length r ?m s = Some (Inr (n, h))" for fin opcode n h
    using frame_length_header [OF that] False read_payload_agrees [of r fin opcode n "take n (drop h s)" "h + n" s]
    by (auto simp: err add.commute)
  have step: "(if n > max_frame_size r then (Inl (FrameTooLarge n (max_frame_size r)), r)
      else if (h0 AND 0x0F) AND 0x08 \<noteq> 0 \<and> h0 AND 0x80 = 0 then (Inl FragmentedControlFrame, r)
      else if (h0 AND 0x0F) AND 0x08 \<noteq> 0 \<and> n > 125 then (Inl (OversizedControlFrame n), r)
      else if length (drop h s) < n then (Inl IoError, r)
      else read_payload r (h0 AND 0x80 \<noteq> 0) (h0 AND 0x0F) n (take n (drop h s)) (drop n (drop h s))) =
      as_read s (step_rest r h0 n h s)" if "frame_length r ?m s = Some (Inr (n, h))" for n h
    using rest [OF that] by (simp only: step_rest_def err if_distrib [of "as_read s"])
  have heads: "s ! 0 = h0" "s ! 1 = h1" by (simp_all add: s)
  show ?thesis
    unfolding decode_step_parts heads
    by (subst (1) s, subst read_one_parts) (use False step lengths in \<open>auto simp: err split: option.splits sum.splits\<close>)
qed

subsection \<open>Chunks do not matter\<close>

lemma loop_prepend_simps [simp]:
  "loop_prepend [] [] res = res"
  "loop_prepend ev out (loop_prepend ev' out' res) = loop_prepend (ev @ ev') (out @ out') res"
  "loop_events (loop_prepend ev out res) = ev @ loop_events res"
  "loop_outbound (loop_prepend ev out res) = out @ loop_outbound res"
  "loop_state (loop_prepend ev out res) = loop_state res"
  by (simp_all add: loop_prepend_def)

definition then_drain :: "LoopResult \<Rightarrow> u8 list \<Rightarrow> LoopResult" where
  "then_drain res later =
     (case loop_state res of
        None \<Rightarrow> res
      | Some (r, buf) \<Rightarrow> loop_prepend (loop_events res) (loop_outbound res) (drain_frames r (buf @ later)))"

lemma then_drain_prepend: "then_drain (loop_prepend ev out res) later = loop_prepend ev out (then_drain res later)"
  by (simp add: then_drain_def split: option.splits)

lemma drain_frames_append: "drain_frames r (buf @ later) = then_drain (drain_frames r buf) later"
proof (induction r buf rule: drain_frames.induct)
  case (1 r buf)
  obtain x r' where step: "decode_step r buf = (x, r')" by (cases "decode_step r buf")
  show ?case
  proof (cases "x = Inr NeedMoreBytes")
    case True
    then have "drain_frames r buf = \<lparr>loop_events = [], loop_outbound = [], loop_state = Some (r, buf)\<rparr>"
      using step decode_step_more [of r buf r'] by (simp add: drain_frames.simps [of r buf])
    then show ?thesis by (simp add: then_drain_def)
  next
    case False
    then have later: "decode_step r (buf @ later) = (x, r')" using decode_step_append [of r buf later] step by simp
    show ?thesis
    proof (cases x)
      case (Inl e)
      then show ?thesis using step later
        by (simp add: drain_frames.simps [of r buf] drain_frames.simps [of r "buf @ later"] then_drain_def)
    next
      case (Inr y)
      show ?thesis
      proof (cases y)
        case (StepFrame frame n)
        obtain ev out cont where h: "handle_frame_plain frame = (ev, out, cont)" by (cases "handle_frame_plain frame")
        have n: "n \<le> length buf" using decode_step_consumes(1) [of r buf frame n r'] step Inr StepFrame by simp
        show ?thesis
        proof (cases cont)
          case True
          then show ?thesis
            using "1.IH"(1) [OF step [symmetric] Inr StepFrame h [symmetric] refl] step later Inr StepFrame h n
            by (simp add: drain_frames.simps [of r buf] drain_frames.simps [of r "buf @ later"] then_drain_prepend)
        next
          case False
          then show ?thesis using step later Inr StepFrame h
            by (simp add: drain_frames.simps [of r buf] drain_frames.simps [of r "buf @ later"] then_drain_def)
        qed
      next
        case (NeedMoreContinuation n)
        have n: "n \<le> length buf" using decode_step_consumes(2) [of r buf n r'] step Inr NeedMoreContinuation by simp
        show ?thesis
          using "1.IH"(2) [OF step [symmetric] Inr NeedMoreContinuation] step later Inr NeedMoreContinuation n
          by (simp add: drain_frames.simps [of r buf] drain_frames.simps [of r "buf @ later"])
      qed (use False Inr in simp)
    qed
  qed
qed

lemma run_reader_loop_drain:
  "\<forall>c \<in> set chunks. c \<noteq> [] \<Longrightarrow> run_reader_loop r buf (map ReadOk chunks) = drain_frames r (buf @ concat chunks)"
proof (induction chunks arbitrary: r buf)
  case (Cons c chunks)
  have "drain_frames r (buf @ c @ concat chunks) = then_drain (drain_frames r buf) (c @ concat chunks)"
    by (rule drain_frames_append)
  then show ?case using Cons
    by (auto simp: then_drain_def Let_def split: option.splits)
qed simp

subsection \<open>Lengths and headers\<close>

lemma length_to_be_bytes [simp]: "length (to_be_bytes k n) = k"
  by (induction k arbitrary: n) auto

lemma to_be_bytes_empty [simp]: "to_be_bytes k n = [] \<longleftrightarrow> k = 0"
  by (cases k) auto

lemma be_nat_append: "be_nat (xs @ [b]) = 256 * be_nat xs + unat b"
  by (simp add: be_nat_def)

lemma be_nat_to_be_bytes: "be_nat (to_be_bytes k n) = n mod 256 ^ k"
proof (induction k arbitrary: n)
  case 0
  then show ?case by (simp add: be_nat_def)
next
  case (Suc k)
  have "unat (of_nat (n mod 256) :: u8) = n mod 256" by (simp add: unsigned_of_nat take_bit_nat_eq_self)
  then have "be_nat (to_be_bytes (Suc k) n) = 256 * (n div 256 mod 256 ^ k) + n mod 256"
    by (simp add: be_nat_append Suc)
  also have "\<dots> = n mod 256 ^ Suc k" by (simp add: mod_mult2_eq)
  finally show ?case .
qed

lemma be16_be_nat: "be16 a b = be_nat [a, b]"
  by (simp add: be16_def be_nat_def)

lemma list_of_length:
  "length xs = 2 \<Longrightarrow> xs = [xs ! 0, xs ! 1]"
  "length xs = 8 \<Longrightarrow> xs = [xs ! 0, xs ! 1, xs ! 2, xs ! 3, xs ! 4, xs ! 5, xs ! 6, xs ! 7]"
  by (simp_all add: list_eq_iff_nth_eq nth_Cons' less_Suc_eq numeral_eq_Suc)

text \<open>An unmasked frame as a server writes it.\<close>

definition length_bytes :: "u8 \<Rightarrow> nat \<Rightarrow> u8 list" where
  "length_bytes mask_bit n =
     (if n \<le> 125 then [mask_bit OR of_nat n]
      else if n \<le> 65535 then [mask_bit OR 126] @ to_be_bytes 2 n
      else [mask_bit OR 127] @ to_be_bytes 8 n)"

definition server_frame :: "u8 \<Rightarrow> bool \<Rightarrow> u8 list \<Rightarrow> u8 list" where
  "server_frame opcode fin payload =
     [(if fin then 0x80 else 0x00) OR opcode] @ length_bytes 0 (length payload) @ payload"

lemma small_byte:
  assumes "n \<le> 127"
  shows "(of_nat n :: u8) AND 0x7F = of_nat n" "(of_nat n :: u8) AND 0x80 = 0" "unat (of_nat n :: u8) = n"
proof -
  show u: "unat (of_nat n :: u8) = n" using assms by (simp add: unsigned_of_nat take_bit_nat_eq_self)
  have t: "take_bit 7 (of_nat n :: u8) = of_nat n"
    using assms u by (simp add: word_unat_eq_iff unsigned_take_bit_eq take_bit_nat_eq_self)
  have m: "(0x7F :: u8) = mask 7" by (simp add: mask_eq_exp_minus_1)
  then show "(of_nat n :: u8) AND 0x7F = of_nat n" using t by (metis take_bit_eq_mask)
  have z: "mask 7 AND (0x80 :: u8) = 0" by (simp add: mask_eq_exp_minus_1)
  have x: "(of_nat n :: u8) = of_nat n AND mask 7" using t unfolding take_bit_eq_mask by (rule sym)
  show "(of_nat n :: u8) AND 0x80 = 0" by (subst x) (simp only: and.assoc z and_zero_eq)
qed

lemma length_bytes_nonempty [simp]: "length_bytes b n \<noteq> []"
  by (simp add: length_bytes_def)

lemma frame_length_server:
  assumes "length payload \<le> USIZE_MAX"
  shows "(length_bytes 0 (length payload) ! 0) AND 0x80 = 0"
    and "frame_length r (length_bytes 0 (length payload) ! 0 AND 0x7F) (h0 # length_bytes 0 (length payload) @ rest) =
      Some (Inr (length payload, Suc (length (length_bytes 0 (length payload)))))"
proof -
  let ?n = "length payload"
  consider (short) "?n \<le> 125" | (medium) "125 < ?n" "?n \<le> 65535" | (long) "65535 < ?n" by linarith
  then have "(length_bytes 0 ?n ! 0) AND 0x80 = 0 \<and>
      frame_length r (length_bytes 0 ?n ! 0 AND 0x7F) (h0 # length_bytes 0 ?n @ rest) =
        Some (Inr (?n, Suc (length (length_bytes 0 ?n))))"
  proof cases
    case short
    have "(of_nat ?n :: u8) \<le> 125" using short small_byte(3) [of ?n] by (simp add: word_le_nat_alt)
    then show ?thesis using short small_byte [of ?n] by (simp add: length_bytes_def frame_length_def)
  next
    case medium
    let ?b = "to_be_bytes 2 ?n"
    have "be_nat ?b = ?n" using medium(2) by (simp add: be_nat_to_be_bytes)
    then have "be16 (?b ! 0) (?b ! 1) = ?n" using list_of_length(1) [of ?b] by (simp add: be16_be_nat)
    then show ?thesis using medium by (simp add: length_bytes_def frame_length_def nth_append)
  next
    case long
    let ?b = "to_be_bytes 8 ?n"
    have "?n < 256 ^ 8" using assms by (simp add: USIZE_MAX_def)
    then have "be_nat ?b = ?n" by (simp add: be_nat_to_be_bytes)
    then have "be_nat [?b ! 0, ?b ! 1, ?b ! 2, ?b ! 3, ?b ! 4, ?b ! 5, ?b ! 6, ?b ! 7] = ?n"
      using list_of_length(2) [of ?b] by simp
    then show ?thesis using long assms by (simp add: length_bytes_def frame_length_def nth_append Let_def)
  qed
  then show "(length_bytes 0 (length payload) ! 0) AND 0x80 = 0"
    "frame_length r (length_bytes 0 (length payload) ! 0 AND 0x7F) (h0 # length_bytes 0 (length payload) @ rest) =
      Some (Inr (length payload, Suc (length (length_bytes 0 (length payload)))))" by blast+
qed

definition opcodes :: "u8 set" where
  "opcodes = {0x0, 0x1, 0x2, 0x8, 0x9, 0xA}"

lemma opcode_bits:
  assumes "opcode \<in> opcodes"
  shows "((if fin then 0x80 else 0x00) OR opcode) AND 0x70 = 0" "((if fin then 0x80 else 0x00) OR opcode) AND 0x0F = opcode"
    "((if fin then 0x80 else 0x00) OR opcode) AND 0x80 \<noteq> 0 \<longleftrightarrow> fin" "opcode AND 0x08 \<noteq> 0 \<longleftrightarrow> opcode \<ge> 8"
  using assms by (auto simp: opcodes_def word_le_def)

lemma decode_server_frame:
  assumes "opcode \<in> opcodes" "length payload \<le> max_frame_size r" "length payload \<le> USIZE_MAX"
    and "opcode \<ge> 8 \<Longrightarrow> fin \<and> length payload \<le> 125"
  shows "decode_step r (server_frame opcode fin payload @ rest) =
    decode_payload r fin opcode (length payload) payload (length (server_frame opcode fin payload))"
proof -
  let ?h0 = "(if fin then 0x80 else 0x00) OR opcode" and ?l = "length_bytes 0 (length payload)"
  let ?buf = "?h0 # ?l @ payload @ rest"
  have buf: "server_frame opcode fin payload @ rest = ?buf" by (simp add: server_frame_def)
  note bits = opcode_bits(1-3) [OF assms(1), of fin] opcode_bits(4) [OF assms(1)]
  note lens = frame_length_server [OF assms(3)]
  have l1: "?buf ! 1 = ?l ! 0" by (simp add: nth_append)
  have "decode_step r ?buf = step_rest r ?h0 (length payload) (Suc (length ?l)) ?buf"
    unfolding decode_step_parts l1 using lens(1) lens(2) [of r ?h0 "payload @ rest"] bits(1)
    by (simp add: Suc_le_eq flip: One_nat_def)
  also have "\<dots> = decode_payload r fin opcode (length payload) payload (Suc (length ?l) + length payload)"
    unfolding step_rest_def bits(2) using bits(3,4) assms(2,4) by auto
  finally show ?thesis by (simp add: buf server_frame_def)
qed

lemma drain_frame:
  assumes "opcode \<in> opcodes" "length payload \<le> max_frame_size r" "length payload \<le> USIZE_MAX"
    and "opcode \<ge> 8 \<Longrightarrow> fin \<and> length payload \<le> 125"
    and "decode_payload r fin opcode (length payload) payload (length (server_frame opcode fin payload)) =
      (Inr (StepFrame frame (length (server_frame opcode fin payload))), r')"
    and "handle_frame_plain frame = (ev, out, cont)"
  shows "drain_frames r (server_frame opcode fin payload @ rest) =
    (if cont then loop_prepend ev out (drain_frames r' rest)
     else \<lparr>loop_events = ev, loop_outbound = out, loop_state = None\<rparr>)"
  using decode_server_frame [of opcode payload r fin rest] assms
  by (subst drain_frames.simps) auto

lemma drain_fragment:
  assumes "opcode \<in> opcodes" "length payload \<le> max_frame_size r" "length payload \<le> USIZE_MAX" "\<not> opcode \<ge> 8"
    and "decode_payload r fin opcode (length payload) payload (length (server_frame opcode fin payload)) =
      (Inr (NeedMoreContinuation (length (server_frame opcode fin payload))), r')"
  shows "drain_frames r (server_frame opcode fin payload @ rest) = drain_frames r' rest"
  using decode_server_frame [of opcode payload r fin rest] assms
  by (subst drain_frames.simps) auto

subsection \<open>Messages of a server\<close>

text \<open>
  What a server may send before it closes: whole messages, pings and pongs, and messages in
  fragments with pings and pongs between them.
\<close>

datatype Control = Ping "u8 list" | Pong "u8 list"

datatype ServerItem =
    WholeMessage bool "u8 list"
  | ControlItem Control
  | Fragments bool "u8 list" "(Control list \<times> u8 list) list" "Control list \<times> u8 list"

definition data_opcode :: "bool \<Rightarrow> u8" where
  "data_opcode text_message = (if text_message then OPCODE_TEXT else OPCODE_BINARY)"

fun control_wire :: "Control \<Rightarrow> u8 list" where
  "control_wire (Ping p) = server_frame OPCODE_PING True p"
| "control_wire (Pong p) = server_frame OPCODE_PONG True p"

definition controls_wire :: "Control list \<Rightarrow> u8 list" where
  "controls_wire cs = concat (map control_wire cs)"

fun part_wire :: "bool \<Rightarrow> Control list \<times> u8 list \<Rightarrow> u8 list" where
  "part_wire fin (cs, p) = controls_wire cs @ server_frame OPCODE_CONTINUATION fin p"

fun item_wire :: "ServerItem \<Rightarrow> u8 list" where
  "item_wire (WholeMessage t p) = server_frame (data_opcode t) True p"
| "item_wire (ControlItem c) = control_wire c"
| "item_wire (Fragments t p parts final) =
     server_frame (data_opcode t) False p @ concat (map (part_wire False) parts) @ part_wire True final"

fun control_replies :: "Control \<Rightarrow> WsFrame list" where
  "control_replies (Ping p) = [SendPong p]"
| "control_replies (Pong p) = []"

definition message_event :: "bool \<Rightarrow> u8 list \<Rightarrow> WsEvent" where
  "message_event t p = (if t then MessageText p else MessageBinary p)"

definition all_bytes :: "u8 list \<Rightarrow> (Control list \<times> u8 list) list \<Rightarrow> u8 list" where
  "all_bytes p parts = p @ concat (map snd parts)"

fun item_events :: "ServerItem \<Rightarrow> WsEvent list" where
  "item_events (WholeMessage t p) = [message_event t p]"
| "item_events (ControlItem c) = []"
| "item_events (Fragments t p parts final) = [message_event t (all_bytes p (parts @ [final]))]"

fun item_replies :: "ServerItem \<Rightarrow> WsFrame list" where
  "item_replies (WholeMessage t p) = []"
| "item_replies (ControlItem c) = control_replies c"
| "item_replies (Fragments t p parts final) =
     concat (map control_replies (concat (map fst (parts @ [final]))))"

fun control_ok :: "nat \<Rightarrow> Control \<Rightarrow> bool" where
  "control_ok f (Ping p) = (length p \<le> 125 \<and> length p \<le> f)"
| "control_ok f (Pong p) = (length p \<le> 125 \<and> length p \<le> f)"

definition message_ok :: "nat \<Rightarrow> bool \<Rightarrow> u8 list \<Rightarrow> bool" where
  "message_ok m t p \<longleftrightarrow> length p \<le> m \<and> length p \<le> USIZE_MAX \<and> (t \<longrightarrow> utf8_valid p)"

fun server_item_ok :: "nat \<Rightarrow> nat \<Rightarrow> ServerItem \<Rightarrow> bool" where
  "server_item_ok f m (WholeMessage t p) = (length p \<le> f \<and> message_ok m t p)"
| "server_item_ok f m (ControlItem c) = control_ok f c"
| "server_item_ok f m (Fragments t p parts final) =
     (length p \<le> f \<and> (\<forall>(cs, q) \<in> set (parts @ [final]). length q \<le> f \<and> (\<forall>c \<in> set cs. control_ok f c)) \<and>
      message_ok m t (all_bytes p (parts @ [final])))"

lemmas opcode_defs = OPCODE_CONTINUATION_def OPCODE_TEXT_def OPCODE_BINARY_def OPCODE_CLOSE_def OPCODE_PING_def
  OPCODE_PONG_def

lemma small_usize: "n \<le> 125 \<Longrightarrow> n \<le> USIZE_MAX"
  by (simp add: USIZE_MAX_def)

lemma drain_control:
  assumes "control_ok (max_frame_size r) c"
  shows "drain_frames r (control_wire c @ rest) = loop_prepend [] (control_replies c) (drain_frames r rest)"
proof (cases c)
  case (Ping p)
  then show ?thesis
    using assms small_usize [of "length p"] drain_frame [of OPCODE_PING p r True "PingFrame p" r "[]" "[SendPong p]" True rest]
    by (simp add: decode_payload_def opcode_defs opcodes_def)
next
  case (Pong p)
  then show ?thesis
    using assms small_usize [of "length p"] drain_frame [of OPCODE_PONG p r True "PongFrame p" r "[]" "[]" True rest]
    by (simp add: decode_payload_def opcode_defs opcodes_def)
qed

lemma drain_controls:
  "\<forall>c \<in> set cs. control_ok (max_frame_size r) c \<Longrightarrow>
    drain_frames r (controls_wire cs @ rest) = loop_prepend [] (concat (map control_replies cs)) (drain_frames r rest)"
  by (induction cs) (simp_all add: controls_wire_def drain_control)

lemma data_opcode_simps: "data_opcode t \<in> opcodes" "\<not> 8 \<le> data_opcode t" "data_opcode t \<noteq> OPCODE_CONTINUATION"
  "data_opcode t = OPCODE_TEXT \<or> data_opcode t = OPCODE_BINARY" "data_opcode t = OPCODE_TEXT \<longleftrightarrow> t"
  by (simp_all add: data_opcode_def opcode_defs opcodes_def word_le_def)

lemma drain_whole:
  assumes "length p \<le> max_frame_size r" "message_ok (max_message_size r) t p" "fragmented_message r = None"
  shows "drain_frames r (server_frame (data_opcode t) True p @ rest) = loop_prepend [message_event t p] [] (drain_frames r rest)"
  using drain_frame [of "data_opcode t" p r True "if t then TextFrame p else BinaryFrame p" r "[message_event t p]" "[]" True rest]
    assms data_opcode_simps [of t]
  by (simp add: decode_payload_def message_ok_def from_utf8_def message_event_def)

lemma drain_first:
  assumes "length p \<le> max_frame_size r" "length p \<le> max_message_size r" "length p \<le> USIZE_MAX" "fragmented_message r = None"
  shows "drain_frames r (server_frame (data_opcode t) False p @ rest) =
    drain_frames (r\<lparr>fragmented_message := Some \<lparr>is_text = t, frag_bytes = p\<rparr>\<rparr>) rest"
  using drain_fragment [of "data_opcode t" p r False "r\<lparr>fragmented_message := Some \<lparr>is_text = t, frag_bytes = p\<rparr>\<rparr>" rest]
    assms data_opcode_simps [of t]
  by (simp add: decode_payload_def)

lemma drain_continuation:
  assumes "fragmented_message r = Some \<lparr>is_text = t, frag_bytes = p\<rparr>" "length q \<le> max_frame_size r"
    and "length (p @ q) \<le> max_message_size r" "length (p @ q) \<le> USIZE_MAX"
  shows "drain_frames r (server_frame OPCODE_CONTINUATION False q @ rest) =
      drain_frames (r\<lparr>fragmented_message := Some \<lparr>is_text = t, frag_bytes = p @ q\<rparr>\<rparr>) rest"
    and "(t \<longrightarrow> utf8_valid (p @ q)) \<Longrightarrow> drain_frames r (server_frame OPCODE_CONTINUATION True q @ rest) =
      loop_prepend [message_event t (p @ q)] [] (drain_frames (r\<lparr>fragmented_message := None\<rparr>) rest)"
proof -
  have "usize_saturating_add (length p) (length q) = length (p @ q)"
    using assms(4) by (simp add: usize_saturating_add_def)
  note simps = this decode_payload_def opcode_defs opcodes_def word_le_def
  show "drain_frames r (server_frame OPCODE_CONTINUATION False q @ rest) =
      drain_frames (r\<lparr>fragmented_message := Some \<lparr>is_text = t, frag_bytes = p @ q\<rparr>\<rparr>) rest"
    using drain_fragment [of OPCODE_CONTINUATION q r False
        "r\<lparr>fragmented_message := Some \<lparr>is_text = t, frag_bytes = p @ q\<rparr>\<rparr>" rest] assms
    by (simp add: simps)
  show "(t \<longrightarrow> utf8_valid (p @ q)) \<Longrightarrow> drain_frames r (server_frame OPCODE_CONTINUATION True q @ rest) =
      loop_prepend [message_event t (p @ q)] [] (drain_frames (r\<lparr>fragmented_message := None\<rparr>) rest)"
    using drain_frame [of OPCODE_CONTINUATION q r True "if t then TextFrame (p @ q) else BinaryFrame (p @ q)"
        "r\<lparr>fragmented_message := None\<rparr>" "[message_event t (p @ q)]" "[]" True rest] assms
    by (simp add: simps from_utf8_def message_event_def)
qed

lemma drain_parts:
  assumes "fragmented_message r = Some \<lparr>is_text = t, frag_bytes = p\<rparr>"
    and "\<forall>(cs, q) \<in> set (parts @ [final]). length q \<le> max_frame_size r \<and> (\<forall>c \<in> set cs. control_ok (max_frame_size r) c)"
    and "message_ok (max_message_size r) t (all_bytes p (parts @ [final]))"
  shows "drain_frames r (concat (map (part_wire False) parts) @ part_wire True final @ rest) =
    loop_prepend [message_event t (all_bytes p (parts @ [final]))]
      (concat (map control_replies (concat (map fst (parts @ [final]))))) (drain_frames (r\<lparr>fragmented_message := None\<rparr>) rest)"
  using assms
proof (induction parts arbitrary: r p)
  case Nil
  obtain cs q where final: "final = (cs, q)" by (cases final)
  show ?case using Nil drain_continuation(2) [of r t p q rest]
    by (simp add: final drain_controls message_ok_def all_bytes_def)
next
  case (Cons part parts)
  obtain cs q where part: "part = (cs, q)" by (cases part)
  let ?r = "r\<lparr>fragmented_message := Some \<lparr>is_text = t, frag_bytes = p @ q\<rparr>\<rparr>"
  have "drain_frames ?r (concat (map (part_wire False) parts) @ part_wire True final @ rest) =
      loop_prepend [message_event t (all_bytes (p @ q) (parts @ [final]))]
        (concat (map control_replies (concat (map fst (parts @ [final]))))) (drain_frames (?r\<lparr>fragmented_message := None\<rparr>) rest)"
    using Cons.prems by (intro Cons.IH) (auto simp: part all_bytes_def)
  then show ?case
    using Cons.prems drain_continuation(1) [of r t p q "concat (map (part_wire False) parts) @ part_wire True final @ rest"]
    by (simp add: part drain_controls message_ok_def all_bytes_def)
qed

lemma no_fragment [simp]: "fragmented_message r = None \<Longrightarrow> r\<lparr>fragmented_message := None\<rparr> = r"
  by (cases r) simp

lemma drain_item:
  assumes "fragmented_message r = None" "server_item_ok (max_frame_size r) (max_message_size r) item"
  shows "drain_frames r (item_wire item @ rest) = loop_prepend (item_events item) (item_replies item) (drain_frames r rest)"
proof (cases item)
  case (WholeMessage t p)
  then show ?thesis using assms by (simp add: drain_whole)
next
  case (ControlItem c)
  then show ?thesis using assms by (simp add: drain_control)
next
  case (Fragments t p parts final)
  let ?r = "r\<lparr>fragmented_message := Some \<lparr>is_text = t, frag_bytes = p\<rparr>\<rparr>"
  have "length p \<le> max_message_size r" "length p \<le> USIZE_MAX" "length p \<le> max_frame_size r"
    using assms(2) Fragments by (auto simp: message_ok_def all_bytes_def)
  then have "drain_frames r (item_wire item @ rest) =
      drain_frames ?r (concat (map (part_wire False) parts) @ part_wire True final @ rest)"
    using assms(1) Fragments by (simp add: drain_first)
  also have "\<dots> = loop_prepend (item_events item) (item_replies item) (drain_frames (?r\<lparr>fragmented_message := None\<rparr>) rest)"
    using assms(2) Fragments drain_parts [of ?r t p parts final rest] by simp
  finally show ?thesis using assms(1) by simp
qed

lemma drain_items:
  assumes "fragmented_message r = None" "\<forall>item \<in> set items. server_item_ok (max_frame_size r) (max_message_size r) item"
  shows "drain_frames r (concat (map item_wire items) @ rest) =
    loop_prepend (concat (map item_events items)) (concat (map item_replies items)) (drain_frames r rest)"
  using assms by (induction items) (simp_all add: drain_item)

text \<open>A close frame: without a payload, or a code and a reason.\<close>

type_synonym close = "(u16w \<times> u8 list) option"

definition close_wire :: "close \<Rightarrow> u8 list" where
  "close_wire c = server_frame OPCODE_CLOSE True (case c of None \<Rightarrow> [] | Some (code, reason) \<Rightarrow> to_be_bytes 2 (unat code) @ reason)"

text \<open>The codes that must not be in a close frame (RFC 6455 section 7.4.1).\<close>

definition reserved_close_codes :: "u16w set" where
  "reserved_close_codes = {1005, 1006, 1015}"

definition close_fits :: "nat \<Rightarrow> close \<Rightarrow> bool" where
  "close_fits f c \<longleftrightarrow> (case c of None \<Rightarrow> True | Some (code, reason) \<Rightarrow>
     utf8_valid reason \<and> length reason \<le> 123 \<and> length reason + 2 \<le> f)"

definition close_ok :: "nat \<Rightarrow> close \<Rightarrow> bool" where
  "close_ok f c \<longleftrightarrow> close_fits f c \<and> (case c of None \<Rightarrow> True | Some (code, reason) \<Rightarrow> code \<notin> reserved_close_codes)"

definition close_code :: "close \<Rightarrow> u16w" where
  "close_code c = (case c of None \<Rightarrow> 1005 | Some (code, _) \<Rightarrow> code)"

definition close_reason :: "close \<Rightarrow> u8 list" where
  "close_reason c = (case c of None \<Rightarrow> [] | Some (_, reason) \<Rightarrow> reason)"

lemma be16_code: "of_nat (be16 (to_be_bytes 2 (unat code) ! 0) (to_be_bytes 2 (unat code) ! Suc 0)) = (code :: u16w)"
proof -
  have "unat code < 256 ^ 2" using unsigned_less [of code, where 'a = nat] by simp
  then have "be_nat (to_be_bytes 2 (unat code)) = unat code" by (simp add: be_nat_to_be_bytes)
  then show ?thesis using list_of_length(1) [of "to_be_bytes 2 (unat code)"] by (simp add: be16_be_nat)
qed

lemma drain_close:
  assumes "close_fits (max_frame_size r) c"
  shows "drain_frames r (close_wire c @ rest) =
    \<lparr>loop_events = [CloseEvent (close_code c) (close_reason c) True],
     loop_outbound = [SendClose (if close_code c = 1005 then None else Some (close_code c)) []], loop_state = None\<rparr>"
proof (cases c)
  case None
  then show ?thesis
    using drain_frame [of OPCODE_CLOSE "[]" r True "CloseFrame 1005 []" r "[CloseEvent 1005 [] True]" "[SendClose None []]" False rest]
    by (simp add: close_wire_def close_code_def close_reason_def decode_payload_def opcode_defs opcodes_def)
next
  case (Some cr)
  obtain code reason where cr: "c = Some (code, reason)" using Some by (cases cr) auto
  let ?p = "to_be_bytes 2 (unat code) @ reason"
  have p: "?p \<noteq> []" "length ?p \<noteq> Suc 0" "drop 2 ?p = reason" "?p ! 0 = to_be_bytes 2 (unat code) ! 0"
    "?p ! Suc 0 = to_be_bytes 2 (unat code) ! Suc 0" by (auto simp: nth_append simp flip: length_0_conv)
  have "decode_payload r True OPCODE_CLOSE (length ?p) ?p n = (Inr (StepFrame (CloseFrame code reason) n), r)" for n
    using assms cr p be16_code [of code] unfolding decode_payload_def
    by (simp add: opcode_defs close_fits_def from_utf8_def)
  moreover have "length ?p \<le> max_frame_size r" "length ?p \<le> 125" using assms cr by (auto simp: close_fits_def)
  ultimately show ?thesis
    using drain_frame [of OPCODE_CLOSE ?p r True "CloseFrame code reason" r "[CloseEvent code reason True]"
        "[SendClose (if code = 1005 then None else Some code) []]" False rest] cr small_usize [of "length ?p"]
    by (simp add: close_wire_def close_code_def close_reason_def opcode_defs opcodes_def)
qed

subsection \<open>Bounds\<close>

definition reader_bounded :: "nat \<Rightarrow> nat \<Rightarrow> FrameReader \<Rightarrow> bool" where
  "reader_bounded f m r \<longleftrightarrow> max_frame_size r = f \<and> max_message_size r = m \<and>
     (case fragmented_message r of None \<Rightarrow> True | Some frag \<Rightarrow> length (frag_bytes frag) \<le> m)"

fun frame_bounded :: "nat \<Rightarrow> DecodedFrame \<Rightarrow> bool" where
  "frame_bounded m (TextFrame s) = (length s \<le> m)"
| "frame_bounded m (BinaryFrame b) = (length b \<le> m)"
| "frame_bounded m (PingFrame p) = (length p \<le> 125)"
| "frame_bounded m (PongFrame p) = (length p \<le> 125)"
| "frame_bounded m (CloseFrame code reason) = (length reason \<le> 125)"

fun event_bounded :: "nat \<Rightarrow> WsEvent \<Rightarrow> bool" where
  "event_bounded m (MessageText s) = (length s \<le> m)"
| "event_bounded m (MessageBinary b) = (length b \<le> m)"
| "event_bounded m (CloseEvent code reason clean) = (length reason \<le> 125)"
| "event_bounded m (ErrorEvent e) = True"
| "event_bounded m (OpenEvent protocol extensions) = False"

fun outbound_bounded :: "WsFrame \<Rightarrow> bool" where
  "outbound_bounded (SendPong p) = (length p \<le> 125)"
| "outbound_bounded (SendClose code reason) = (reason = [])"
| "outbound_bounded _ = False"

definition result_bounded :: "nat \<Rightarrow> nat \<Rightarrow> LoopResult \<Rightarrow> bool" where
  "result_bounded f m res \<longleftrightarrow> list_all (event_bounded m) (loop_events res) \<and> list_all outbound_bounded (loop_outbound res) \<and>
     (case loop_state res of None \<Rightarrow> True | Some (r, buf) \<Rightarrow> reader_bounded f m r \<and> length buf < f + 10)"

lemma saturating_bound: "m < USIZE_MAX \<Longrightarrow> usize_saturating_add a b \<le> m \<Longrightarrow> a + b \<le> m"
  by (auto simp: usize_saturating_add_def min_def split: if_splits)

lemma decode_payload_bounded:
  assumes "reader_bounded f m r" "m < USIZE_MAX" "length payload = n" "8 \<le> opcode \<Longrightarrow> n \<le> 125"
    and "decode_payload r fin opcode n payload consumed = (x, r')"
  shows "reader_bounded f m r' \<and> (\<forall>frame k. x = Inr (StepFrame frame k) \<longrightarrow> frame_bounded m frame)"
proof (cases "fragmented_message r")
  case None
  then show ?thesis
    using assms unfolding decode_payload_def Let_def
    by (auto simp: reader_bounded_def from_utf8_def opcode_defs word_le_def and_then_Inr split: if_splits)
next
  case (Some frag)
  then show ?thesis
    using assms saturating_bound [OF assms(2), of "length (frag_bytes frag)" n] unfolding decode_payload_def Let_def
    by (auto simp: reader_bounded_def from_utf8_def opcode_defs word_le_def and_then_Inr split: if_splits)
qed

lemma control_opcode: "8 \<le> x AND 0x0F \<Longrightarrow> (x AND 0x0F) AND 0x08 \<noteq> (0 :: u8)"
proof -
  have "(x AND 0x0F) < 16" using word_and_le1 [of x "0x0F"] by (simp add: word_le_def word_less_def)
  moreover have "y < 16 \<Longrightarrow> 8 \<le> y \<Longrightarrow> y \<in> {8, 9, 10, 11, 12, 13, 14, 15}" for y :: u8
    by (auto simp: word_less_def word_le_def word_uint_eq_iff)
  ultimately show "8 \<le> x AND 0x0F \<Longrightarrow> (x AND 0x0F) AND 0x08 \<noteq> 0" by force
qed

lemma decode_step_bounded:
  assumes "reader_bounded f m r" "m < USIZE_MAX" "decode_step r buf = (x, r')"
  shows "reader_bounded f m r' \<and> (\<forall>frame k. x = Inr (StepFrame frame k) \<longrightarrow> frame_bounded m frame) \<and>
    (x = Inr NeedMoreBytes \<longrightarrow> length buf < f + 10)"
proof -
  have h: "h \<le> 10" if "frame_length r (buf ! 1 AND 0x7F) buf = Some (Inr (n, h))" for n h
    using that by (auto simp: frame_length_def Let_def split: if_splits)
  have short: "length buf < 10" if "frame_length r (buf ! 1 AND 0x7F) buf = None"
    using that by (auto simp: frame_length_def Let_def split: if_splits)
  have rest: "reader_bounded f m r' \<and> (\<forall>frame k. x = Inr (StepFrame frame k) \<longrightarrow> frame_bounded m frame) \<and>
      (x = Inr NeedMoreBytes \<longrightarrow> length buf < f + 10)"
    if "step_rest r (buf ! 0) n h buf = (x, r')" "h \<le> 10" for n h
  proof -
    have "max_frame_size r = f" using assms(1) by (simp add: reader_bounded_def)
    moreover have "8 \<le> buf ! 0 AND 0x0F \<Longrightarrow> (buf ! 0 AND 0x0F) AND 0x08 \<noteq> 0" by (rule control_opcode)
    ultimately show ?thesis
      using that assms(1) decode_payload_bounded [OF assms(1,2), of "take n (drop h buf)" n "buf ! 0 AND 0x0F"
          "buf ! 0 AND 0x80 \<noteq> 0" "h + n" x r'] decode_payload_not_more
      by (auto simp: step_rest_def split: if_splits)
  qed
  show ?thesis
    using assms(1,3) short rest h unfolding decode_step_parts
    by (auto split: if_splits option.splits sum.splits prod.splits)
qed

lemma handle_frame_bounded:
  "handle_frame_plain frame = (ev, out, cont) \<Longrightarrow> frame_bounded m frame \<Longrightarrow>
    list_all (event_bounded m) ev \<and> list_all outbound_bounded out"
  by (cases frame) auto

lemma result_bounded_prepend:
  "result_bounded f m (loop_prepend ev out res) \<longleftrightarrow>
    list_all (event_bounded m) ev \<and> list_all outbound_bounded out \<and> result_bounded f m res"
  by (auto simp: result_bounded_def)

lemma drain_frames_bounded:
  assumes "m < USIZE_MAX"
  shows "reader_bounded f m r \<Longrightarrow> result_bounded f m (drain_frames r buf)"
proof (induction r buf rule: drain_frames.induct)
  case (1 r buf)
  obtain x r' where step: "decode_step r buf = (x, r')" by (cases "decode_step r buf")
  note bounded = decode_step_bounded [OF "1.prems" assms step]
  show ?case
  proof (cases x)
    case (Inl e)
    then show ?thesis using step
      by (simp add: drain_frames.simps [of r buf] result_bounded_def fail_events_def)
  next
    case (Inr y)
    show ?thesis
    proof (cases y)
      case (StepFrame frame n)
      obtain ev out cont where h: "handle_frame_plain frame = (ev, out, cont)" by (cases "handle_frame_plain frame")
      have "list_all (event_bounded m) ev \<and> list_all outbound_bounded out"
        using handle_frame_bounded [OF h] bounded Inr StepFrame by blast
      then show ?thesis
        using "1.IH"(1) [OF step [symmetric] Inr StepFrame h [symmetric] refl] step Inr StepFrame h bounded
        by (cases cont) (simp_all add: drain_frames.simps [of r buf] result_bounded_prepend, simp add: result_bounded_def)
    next
      case (NeedMoreContinuation n)
      then show ?thesis
        using "1.IH"(2) [OF step [symmetric] Inr NeedMoreContinuation] step Inr bounded
        by (simp add: drain_frames.simps [of r buf])
    next
      case NeedMoreBytes
      then show ?thesis using step Inr bounded by (simp add: drain_frames.simps [of r buf] result_bounded_def)
    qed
  qed
qed

lemma run_reader_loop_bounded:
  assumes "m < USIZE_MAX"
  shows "reader_bounded f m r \<Longrightarrow> result_bounded f m (run_reader_loop r buf reads)"
proof (induction r buf reads rule: run_reader_loop.induct)
  case (1 r buf)
  then show ?case by (simp add: drain_frames_bounded [OF assms])
next
  case (2 r buf read reads)
  let ?res = "drain_frames r buf"
  have res: "result_bounded f m ?res" using drain_frames_bounded [OF assms "2.prems"] .
  show ?case
  proof (cases "loop_state ?res")
    case None
    then show ?thesis using res by (simp add: Let_def)
  next
    case (Some st)
    obtain r' buf' where st: "st = (r', buf')" by (cases st)
    have r': "reader_bounded f m r'" "list_all (event_bounded m) (loop_events ?res)"
      "list_all outbound_bounded (loop_outbound ?res)" using res Some st by (auto simp: result_bounded_def)
    show ?thesis
    proof (cases read)
      case (ReadOk chunk)
      show ?thesis
      proof (cases "chunk = []")
        case True
        then show ?thesis using Some st r' ReadOk
          by (simp add: Let_def result_bounded_prepend) (simp add: result_bounded_def fail_events_def)
      next
        case False
        then show ?thesis using "2.IH" [OF refl Some [unfolded st] refl ReadOk False r'(1)] Some st r' ReadOk
          by (simp add: Let_def result_bounded_prepend)
      qed
    next
      case ReadErr
      then show ?thesis using Some st r'
        by (simp add: Let_def result_bounded_prepend) (simp add: result_bounded_def fail_events_def)
    qed
  qed
qed

subsection \<open>Frames of the writer\<close>

text \<open>A masked frame as a server reads it (RFC 6455 sections 5.2 and 5.3): the opcode, whether it is final, the payload, and
  the bytes after it. The length is seven bits, or two or eight bytes behind the markers 126 and 127; octet \<open>i\<close> of the
  payload is unmasked with octet \<open>i mod 4\<close> of the key.\<close>

definition client_length :: "u8 list \<Rightarrow> (nat \<times> nat) option" where
  "client_length buf =
     (let marker = unat (buf ! 1 AND 0x7F)
      in if marker \<le> 125 then Some (marker, 2)
         else if marker = 126 then (if length buf < 4 then None else Some (be_nat (take 2 (drop 2 buf)), 4))
         else if length buf < 10 then None else Some (be_nat (take 8 (drop 2 buf)), 10))"

definition unmask :: "u8 list \<Rightarrow> u8 list \<Rightarrow> u8 list" where
  "unmask key octets = map (\<lambda>i. octets ! i XOR key ! (i mod 4)) [0..<length octets]"

definition parse_client_frame :: "u8 list \<Rightarrow> (u8 \<times> bool \<times> u8 list \<times> u8 list) option" where
  "parse_client_frame buf =
     (if length buf < 2 \<or> buf ! 1 AND 0x80 = 0 then None
      else case client_length buf of
        Some (n, h) \<Rightarrow>
          if length buf < h + 4 + n then None
          else Some (buf ! 0 AND 0x0F, buf ! 0 AND 0x80 \<noteq> 0,
                     unmask (take 4 (drop h buf)) (take n (drop (h + 4) buf)), drop (h + 4 + n) buf)
      | None \<Rightarrow> None)"

lemma unmask_masked: "unmask k (mask_payload k p) = p"
  by (rule nth_equalityI) (simp_all add: unmask_def mask_payload_def nth_enumerate_eq xor.assoc)

lemma take_bytes:
  "4 \<le> length buf \<Longrightarrow> take 2 (drop 2 buf) = [buf ! 2, buf ! 3]"
  "10 \<le> length buf \<Longrightarrow> take 8 (drop 2 buf) = [buf ! 2, buf ! 3, buf ! 4, buf ! 5, buf ! 6, buf ! 7, buf ! 8, buf ! 9]"
  by (rule nth_equalityI; auto simp: nth_Cons' less_Suc_eq numeral_eq_Suc)+

lemma client_length_marker:
  assumes "frame_length r (buf ! 1 AND 0x7F) buf = Some (Inr (n, h))"
  shows "client_length buf = Some (n, h)"
proof -
  let ?k = "buf ! 1 AND 0x7F"
  have "?k \<le> 125 \<longleftrightarrow> unat ?k \<le> 125" "?k = 126 \<longleftrightarrow> unat ?k = 126" by (simp_all add: word_le_nat_alt word_unat_eq_iff)
  then show ?thesis using assms
    by (auto simp: client_length_def frame_length_def Let_def be16_be_nat take_bytes split: if_splits)
qed

lemma length_mask_payload [simp]: "length (mask_payload k p) = length p"
  by (simp add: mask_payload_def)

lemma mask_bit:
  fixes x :: u8
  shows "(0x80 OR x) AND 0x80 \<noteq> 0" and "x AND 0x7F = x \<Longrightarrow> (0x80 OR x) AND 0x7F = x"
proof -
  have "(0x80 OR x) AND 0x80 = 0x80" by (simp add: bit.conj_disj_distrib2 and.commute)
  then show "(0x80 OR x) AND 0x80 \<noteq> 0" by simp
  have "(0x80 OR x) AND 0x7F = ((0x80 :: u8) AND 0x7F) OR (x AND 0x7F)" by (rule bit.conj_disj_distrib2)
  then show "x AND 0x7F = x \<Longrightarrow> (0x80 OR x) AND 0x7F = x" by simp
qed

lemma length_bytes_masked: "length_bytes 0x80 n = (0x80 OR length_bytes 0 n ! 0) # tl (length_bytes 0 n)"
  by (simp add: length_bytes_def)

lemma length_bytes_split: "length_bytes 0 n = (length_bytes 0 n ! 0) # tl (length_bytes 0 n)"
  by (cases "length_bytes 0 n") simp_all

lemma length_bytes_low: "length_bytes 0 n ! 0 AND 0x7F = length_bytes 0 n ! 0"
  using small_byte(1) [of n] by (simp add: length_bytes_def)

lemma frame_length_second: "frame_length r k (h0 # h1 # t) = frame_length r' k (h0 # h1' # t)" if "max_frame_size r = max_frame_size r'"
  using that by (simp add: frame_length_def Let_def)

lemma frame_length_client:
  assumes "length payload \<le> USIZE_MAX"
  shows "frame_length r (length_bytes 0x80 (length payload) ! 0 AND 0x7F) (h0 # length_bytes 0x80 (length payload) @ rest) =
    Some (Inr (length payload, Suc (length (length_bytes 0x80 (length payload)))))"
proof -
  let ?l = "length_bytes 0 (length payload)"
  have marker: "length_bytes 0x80 (length payload) ! 0 AND 0x7F = ?l ! 0 AND 0x7F"
    using mask_bit(2) [OF length_bytes_low] by (simp add: length_bytes_masked length_bytes_low)
  have len: "length (length_bytes 0x80 (length payload)) = length ?l"
    by (subst length_bytes_masked, subst (3) length_bytes_split) simp
  have "frame_length r (?l ! 0 AND 0x7F) (h0 # length_bytes 0x80 (length payload) @ rest) =
      frame_length r (?l ! 0 AND 0x7F) (h0 # ?l @ rest)"
    by (subst length_bytes_masked, subst (4) length_bytes_split) (simp add: frame_length_second)
  then show ?thesis unfolding marker len using frame_length_server(2) [OF assms] by simp
qed

lemma encode_with_mask_bytes:
  "encode_with_mask opcode fin payload mkey =
    ((if fin then 0x80 else 0x00) OR (opcode AND 0x0F)) # length_bytes 0x80 (length payload) @ mkey @ mask_payload mkey payload"
  by (simp add: encode_with_mask_def length_bytes_def Let_def)

lemma drop_prefix: "length a = n \<Longrightarrow> drop n (a @ b) = b"
  by simp

lemma parse_encoded:
  assumes "opcode \<in> opcodes" "length mkey = 4" "length payload \<le> USIZE_MAX"
  shows "parse_client_frame (encode_with_mask opcode fin payload mkey @ rest) = Some (opcode, fin, payload, rest)"
proof -
  have op: "opcode AND 0x0F = opcode" using assms(1) by (auto simp: opcodes_def)
  let ?h0 = "(if fin then 0x80 else 0x00) OR opcode" and ?l = "length_bytes 0x80 (length payload)"
  let ?t = "mkey @ mask_payload mkey payload @ rest"
  let ?buf = "?h0 # ?l @ ?t"
  have buf: "encode_with_mask opcode fin payload mkey @ rest = ?buf" by (simp add: encode_with_mask_bytes op)
  have l: "?buf ! 1 = ?l ! 0" "?buf ! 0 = ?h0" by (simp_all add: nth_append)
  have masked: "?l ! 0 AND 0x80 \<noteq> 0" by (simp add: length_bytes_masked mask_bit(1))
  have "drop (Suc (length ?l) + 4) ((?h0 # ?l @ mkey) @ mask_payload mkey payload @ rest) = mask_payload mkey payload @ rest"
    by (rule drop_prefix) (simp add: assms(2))
  moreover have "drop (Suc (length ?l) + 4 + length payload) ((?h0 # ?l @ mkey @ mask_payload mkey payload) @ rest) = rest"
    by (rule drop_prefix) (simp add: assms(2))
  ultimately have drops: "drop (Suc (length ?l)) ?buf = ?t" "drop (Suc (length ?l) + 4) ?buf = mask_payload mkey payload @ rest"
    "drop (Suc (length ?l) + 4 + length payload) ?buf = rest" by simp_all
  have long: "length ?buf = Suc (length ?l) + 4 + length payload + length rest" using assms(2) by simp
  note bits = opcode_bits(2,3) [OF assms(1), of fin]
  have len: "client_length ?buf = Some (length payload, Suc (length ?l))"
    by (rule client_length_marker [of "frame_reader_new 0 0"], unfold l, rule frame_length_client [OF assms(3)])
  show ?thesis
    unfolding buf parse_client_frame_def l len option.case prod.case drops bits
    using long masked assms(2) by (simp add: unmask_masked)
qed

text \<open>What a server should find for a frame of the queue. A blob has no bytes on the wire; the other frames have theirs, with a
  code that is not reserved in a close frame.\<close>

fun carries :: "(u8 \<times> bool \<times> u8 list) \<Rightarrow> WsFrame \<Rightarrow> bool" where
  "carries w (SendText s) \<longleftrightarrow> w = (0x1, True, s)"
| "carries w (SendBinary b) \<longleftrightarrow> w = (0x2, True, b)"
| "carries w (SendBlob blob_size) \<longleftrightarrow> False"
| "carries w (SendPong p) \<longleftrightarrow> w = (0xA, True, p)"
| "carries w (SendClose None reason) \<longleftrightarrow> w = (0x8, True, [])"
| "carries w (SendClose (Some code) reason) \<longleftrightarrow> w = (0x8, True, to_be_bytes 2 (unat code) @ reason)"

fun serialisable :: "WsFrame \<Rightarrow> bool" where
  "serialisable (SendText s) \<longleftrightarrow> length s \<le> USIZE_MAX"
| "serialisable (SendBinary b) \<longleftrightarrow> length b \<le> USIZE_MAX"
| "serialisable (SendBlob blob_size) \<longleftrightarrow> False"
| "serialisable (SendPong p) \<longleftrightarrow> length p \<le> USIZE_MAX"
| "serialisable (SendClose code reason) \<longleftrightarrow> length reason + 2 \<le> USIZE_MAX \<and> (\<forall>c. code = Some c \<longrightarrow> c \<notin> reserved_close_codes)"

text \<open>The writer task over its queue: every frame with the masking key drawn for it.\<close>

fun write_frames :: "(u8 list \<times> WsFrame) list \<Rightarrow> u8 list" where
  "write_frames [] = []"
| "write_frames ((mkey, frame) # frames) = fst (write_frame mkey frame False) @ write_frames frames"

fun parse_client_frames :: "nat \<Rightarrow> u8 list \<Rightarrow> (u8 \<times> bool \<times> u8 list) list option" where
  "parse_client_frames fuel [] = Some []"
| "parse_client_frames 0 (b # bs) = None"
| "parse_client_frames (Suc fuel) (b # bs) =
     (case parse_client_frame (b # bs) of
        None \<Rightarrow> None
      | Some (opcode, fin, payload, rest) \<Rightarrow> map_option (Cons (opcode, fin, payload)) (parse_client_frames fuel rest))"

lemma parse_written_frame:
  assumes "length mkey = 4" "serialisable frame"
  shows "\<exists>opcode fin payload. carries (opcode, fin, payload) frame \<and>
    parse_client_frame (fst (write_frame mkey frame False) @ rest) = Some (opcode, fin, payload, rest)"
proof (cases "(mkey, frame, False)" rule: write_frame.cases)
  case (5 _ code reason)
  then show ?thesis using assms
    by (cases code) (auto simp: encode_close_frame_def parse_encoded opcode_defs opcodes_def)
qed (use assms in \<open>auto simp: encode_text_frame_def encode_binary_frame_def encode_pong_frame_def
  parse_encoded opcode_defs opcodes_def\<close>)

lemma parse_client_frames_step:
  "parse_client_frame buf = Some (opcode, fin, payload, rest) \<Longrightarrow> parse_client_frames fuel rest = Some frames \<Longrightarrow>
    parse_client_frames (Suc fuel) buf = Some ((opcode, fin, payload) # frames)"
  by (cases buf) (simp_all add: parse_client_frame_def)

lemma parse_written_frames:
  "\<forall>(mkey, frame) \<in> set kfs. length mkey = 4 \<and> serialisable frame \<Longrightarrow>
    \<exists>ws. parse_client_frames (length kfs) (write_frames kfs) = Some ws \<and> list_all2 carries ws (map snd kfs)"
proof (induction kfs)
  case (Cons kf kfs)
  obtain mkey frame where kf: "kf = (mkey, frame)" by (cases kf)
  obtain ws where IH: "parse_client_frames (length kfs) (write_frames kfs) = Some ws" "list_all2 carries ws (map snd kfs)"
    using Cons by auto
  obtain opcode fin payload where "carries (opcode, fin, payload) frame"
      "parse_client_frame (fst (write_frame mkey frame False) @ write_frames kfs) = Some (opcode, fin, payload, write_frames kfs)"
    using parse_written_frame [of mkey frame "write_frames kfs"] Cons.prems kf by auto
  then show ?case using parse_client_frames_step [OF _ IH(1)] IH(2) kf by simp
qed simp

subsection \<open>Properties\<close>

text \<open>\<^bold>\<open>C12\<close> Every message the server sends reaches the page. Take any sequence of items a server may send
  within the configured limits: whole messages, messages in fragments with pings and pongs between the fragments, pings
  and pongs. Cut the bytes anywhere into what the handshake left over and what the reads return. The reader loop emits
  exactly the messages, in order and reassembled, and queues one pong with the same payload for every ping, in order.
  When a close frame follows, empty or with a code that is not reserved, the loop reports it with its code and reason (1005
  and none for an empty one), answers with a close frame of the same code, and stops; when none does, the loop is left
  waiting with an empty buffer and no message half read.\<close>

theorem server_messages_are_delivered:
  assumes "\<forall>item \<in> set items. server_item_ok f m item" "\<forall>c \<in> set chunks. c \<noteq> []"
    and "case closing of None \<Rightarrow> True | Some c \<Rightarrow> close_ok f c"
    and "leftover @ concat chunks =
      concat (map item_wire items) @ (case closing of None \<Rightarrow> [] | Some c \<Rightarrow> close_wire c)"
  shows "run_reader_loop (frame_reader_new f m) leftover (map ReadOk chunks) =
    \<lparr>loop_events = concat (map item_events items) @
       (case closing of None \<Rightarrow> [] | Some c \<Rightarrow> [CloseEvent (close_code c) (close_reason c) True]),
     loop_outbound = concat (map item_replies items) @
       (case closing of None \<Rightarrow> []
        | Some c \<Rightarrow> [SendClose (map_option fst c) []]),
     loop_state = (case closing of None \<Rightarrow> Some (frame_reader_new f m, []) | Some c \<Rightarrow> None)\<rparr>"
proof -
  let ?r = "frame_reader_new f m"
  have "run_reader_loop ?r leftover (map ReadOk chunks) =
      loop_prepend (concat (map item_events items)) (concat (map item_replies items))
        (drain_frames ?r (case closing of None \<Rightarrow> [] | Some c \<Rightarrow> close_wire c))"
    using run_reader_loop_drain [OF assms(2)] drain_items [of ?r items] assms(1,4)
    by (simp add: frame_reader_new_def)
  moreover have "drain_frames ?r [] = \<lparr>loop_events = [], loop_outbound = [], loop_state = Some (?r, [])\<rparr>"
    by (simp add: drain_frames.simps [of ?r] decode_step_def)
  moreover have "closing = Some c \<Longrightarrow> drain_frames ?r (close_wire c) =
      \<lparr>loop_events = [CloseEvent (close_code c) (close_reason c) True],
       loop_outbound = [SendClose (map_option fst c) []], loop_state = None\<rparr>" for c
    using drain_close [of ?r c "[]"] assms(3)
    by (auto simp: frame_reader_new_def close_ok_def close_code_def reserved_close_codes_def split: option.splits)
  ultimately show ?thesis by (cases closing) (simp_all add: loop_prepend_def)
qed

lemma server_messages_are_delivered_witness:
  "run_reader_loop (frame_reader_new 64 128) [0x01, 0x02, 0x68]
      (map ReadOk [[0x69], [0x89, 0x01, 0x07, 0x80], [0x01, 0x21, 0x82, 0x02, 0x00, 0xFF, 0x88], [0x02, 0x03, 0xE8]]) =
    \<lparr>loop_events = [MessageText [0x68, 0x69, 0x21], MessageBinary [0x00, 0xFF], CloseEvent 1000 [] True],
     loop_outbound = [SendPong [0x07], SendClose (Some 1000) []], loop_state = None\<rparr>"
proof -
  let ?items = "[Fragments True [0x68, 0x69] [] ([Ping [0x07]], [0x21]), WholeMessage False [0x00, 0xFF]]"
  let ?chunks = "[[0x69], [0x89, 0x01, 0x07, 0x80], [0x01, 0x21, 0x82, 0x02, 0x00, 0xFF, 0x88], [0x02, 0x03, 0xE8]]"
  have ok: "\<forall>item \<in> set ?items. server_item_ok 64 128 item"
    by (simp add: message_ok_def all_bytes_def USIZE_MAX_def)
  have wire: "[0x01, 0x02, 0x68] @ concat ?chunks =
      concat (map item_wire ?items) @ (case Some (Some (1000, [])) of None \<Rightarrow> [] | Some c \<Rightarrow> close_wire c)"
    by code_simp
  show ?thesis
    using server_messages_are_delivered [OF ok _ _ wire]
    by (simp add: close_ok_def close_fits_def reserved_close_codes_def close_code_def close_reason_def message_event_def all_bytes_def)
qed

text \<open>How the network cuts the stream makes no difference, whatever the bytes are: two sequences of
  non-empty reads that carry the same bytes lead the reader loop to the same events, the same outbound frames and the same
  state, valid frames or protocol violations, and whatever part of the bytes came with the handshake.\<close>

theorem chunking_is_invisible:
  assumes "\<forall>c \<in> set chunks. c \<noteq> []" "\<forall>c \<in> set chunks'. c \<noteq> []" "buf @ concat chunks = buf' @ concat chunks'"
  shows "run_reader_loop r buf (map ReadOk chunks) = run_reader_loop r buf' (map ReadOk chunks')"
  using run_reader_loop_drain [OF assms(1), of r buf] run_reader_loop_drain [OF assms(2), of r buf'] assms(3) by simp

lemma chunking_is_invisible_witness:
  "run_reader_loop (frame_reader_new 8 8) [] (map ReadOk [[0x81], [0x01, 0x61, 0xC1], [0x00]]) =
   run_reader_loop (frame_reader_new 8 8) [0x81, 0x01] (map ReadOk [[0x61, 0xC1, 0x00]])"
  by (rule chunking_is_invisible) simp_all

text \<open>\<^bold>\<open>C28\<close> The two decoders of the frame reader agree. \<open>read_one\<close>, which pulls the bytes of a frame
  from a stream, and \<open>decode_step\<close>, which looks at a buffer, give on the same bytes the same frame, the same rest, the
  same error and the same reassembly state; where the buffer holds less than a frame, the stream decoder reports the
  end of the stream.\<close>

theorem both_decoders_agree: "read_one r s = as_read s (decode_step r s)"
  by (rule read_one_agrees)

text \<open>\<^bold>\<open>C26\<close> What a peer can make the reader hold is bounded. With a frame limit \<open>f\<close> and a message limit
  \<open>m\<close> below the largest size, whatever bytes arrive in whatever reads, and also when a read fails: every message event
  carries at most \<open>m\<close> bytes, every pong at most 125, a close is echoed without a reason, and while the loop reads on, the
  message in assembly has at most \<open>m\<close> bytes and the undecoded buffer fewer than \<open>f + 10\<close>.\<close>

theorem reader_memory_is_bounded:
  assumes "m < USIZE_MAX" "run_reader_loop (frame_reader_new f m) leftover reads = res"
  shows "list_all (event_bounded m) (loop_events res) \<and> list_all outbound_bounded (loop_outbound res) \<and>
    (\<forall>r buf. loop_state res = Some (r, buf) \<longrightarrow> length buf < f + 10 \<and>
       (\<forall>frag. fragmented_message r = Some frag \<longrightarrow> length (frag_bytes frag) \<le> m))"
proof -
  have "reader_bounded f m (frame_reader_new f m)" by (simp add: reader_bounded_def frame_reader_new_def)
  from run_reader_loop_bounded [OF assms(1) this] have "result_bounded f m res" using assms(2) by blast
  then show ?thesis by (auto simp: result_bounded_def reader_bounded_def)
qed

lemma reader_memory_is_bounded_witness:
  "let res = run_reader_loop (frame_reader_new 4 6) [] [ReadOk [0x82, 0x04, 1, 2, 3], ReadOk [4, 0x89, 0x01, 9, 0x82, 0x02, 5]]
   in loop_outbound res = [SendPong [9]] \<and> list_all outbound_bounded (loop_outbound res) \<and>
      (\<forall>r buf. loop_state res = Some (r, buf) \<longrightarrow> length buf < 4 + 10)"
proof -
  let ?reads = "[ReadOk [0x82, 0x04, 1, 2, 3], ReadOk [4, 0x89, 0x01, 9, 0x82, 0x02, 5]]"
  let ?res = "run_reader_loop (frame_reader_new 4 6) [] ?reads"
  have limit: "(6 :: nat) < USIZE_MAX" by (simp add: USIZE_MAX_def)
  have out: "loop_outbound ?res = [SendPong [9]]" by code_simp
  show ?thesis unfolding Let_def using out reader_memory_is_bounded [OF limit refl, of 4 "[]" ?reads] by blast
qed

text \<open>\<^bold>\<open>C27\<close> What the writer puts on the wire is what a server reads. Take any queue of text, binary, pong and close frames,
  with no reserved code in a close frame, and any four-byte masking keys. A server that parses masked frames as RFC 6455
  says finds one frame for each of the queue, in order: with its opcode, final, and with exactly its payload after
  unmasking, for payloads of up to 125 bytes, up to 65535 and beyond.\<close>

theorem client_frames_are_read_back:
  assumes "\<forall>(mkey, frame) \<in> set kfs. length mkey = 4 \<and> serialisable frame"
  shows "\<exists>ws. parse_client_frames (length kfs) (write_frames kfs) = Some ws \<and> list_all2 carries ws (map snd kfs)"
  using assms by (rule parse_written_frames)

lemma client_frames_are_read_back_witness:
  "\<exists>ws. parse_client_frames 2 (write_frames
      [([1, 2, 3, 4], SendText [0x68, 0x69, 0x6A, 0x6B, 0x6C]), ([9, 9, 9, 9], SendClose (Some 1000) [])]) = Some ws \<and>
    list_all2 carries ws [SendText [0x68, 0x69, 0x6A, 0x6B, 0x6C], SendClose (Some 1000) []]"
proof -
  let ?kfs = "[([1, 2, 3, 4], SendText [0x68, 0x69, 0x6A, 0x6B, 0x6C]), ([9, 9, 9, 9], SendClose (Some 1000) [])]
    :: (u8 list \<times> WsFrame) list"
  have ok: "\<forall>(mkey, frame) \<in> set ?kfs. length mkey = 4 \<and> serialisable frame"
    by (simp add: USIZE_MAX_def reserved_close_codes_def)
  have eqs: "length ?kfs = 2" "map snd ?kfs = [SendText [0x68, 0x69, 0x6A, 0x6B, 0x6C], SendClose (Some 1000) []]" by simp_all
  from client_frames_are_read_back [OF ok] show ?thesis unfolding eqs .
qed

text \<open>A reserved close code of the peer is put on the wire. The frame writer says its caller must
  enforce that 1005, 1006 and 1015 are never serialised; the reader loop filters only 1005. A server that sends a close
  frame with the code 1006 or 1015 gets a close frame with that very code back, for every masking key.\<close>

theorem reserved_close_code_is_echoed:
  assumes "code = 1006 \<or> code = 1015"
  shows "loop_outbound (drain_frames (frame_reader_new 125 125) (close_wire (Some (code, [])))) = [SendClose (Some code) []] \<and>
    (\<forall>mkey. length mkey = 4 \<longrightarrow>
      parse_client_frame (fst (write_frame mkey (SendClose (Some code) []) False)) = Some (0x8, True, to_be_bytes 2 (unat code), []))"
proof -
  have "parse_client_frame (fst (write_frame mkey (SendClose (Some code) []) False)) = Some (0x8, True, to_be_bytes 2 (unat code), [])"
    if "length mkey = 4" for mkey
    using parse_encoded [of "0x8" mkey "to_be_bytes 2 (unat code)" True "[]"] that
    by (simp add: encode_close_frame_def opcode_defs opcodes_def USIZE_MAX_def)
  moreover have "loop_outbound (drain_frames (frame_reader_new 125 125) (close_wire (Some (code, [])))) = [SendClose (Some code) []]"
    using drain_close [of "frame_reader_new 125 125" "Some (code, [])" "[]"] assms
    by (auto simp: close_fits_def close_code_def frame_reader_new_def)
  ultimately show ?thesis by blast
qed

lemma reserved_close_code_is_echoed_witness:
  "loop_outbound (drain_frames (frame_reader_new 125 125) [0x88, 0x02, 0x03, 0xEE]) = [SendClose (Some 1006) []] \<and>
    fst (write_frame [1, 2, 3, 4] (SendClose (Some 1006) []) False) = [0x88, 0x82, 1, 2, 3, 4, 0x02, 0xEC]"
proof -
  have "close_wire (Some (1006, [])) = [0x88, 0x02, 0x03, 0xEE]" by code_simp
  moreover have "fst (write_frame [1, 2, 3, 4] (SendClose (Some 1006) []) False) = [0x88, 0x82, 1, 2, 3, 4, 0x02, 0xEC]" by code_simp
  ultimately show ?thesis using reserved_close_code_is_echoed [of 1006] by simp
qed

end
