(* ===== verification/WsSocket.thy ===== *)
theory WsSocket
  imports WsProps
begin

text \<open>
  The client WebSocket over plain TCP (\<^verbatim>\<open>web/websocket/mod.rs\<close>, \<^verbatim>\<open>network.rs\<close>, \<^verbatim>\<open>dispatch.rs\<close>,
  \<^verbatim>\<open>algorithms.rs\<close>). Four parties share the state of a socket on one thread: the page, which calls \<open>send\<close> and
  \<open>close\<close>; the pump, which drains the event queue and dispatches; the connect task with the reader it becomes; and the
  writer. Each runs until it awaits, so the model is a state and one action for every stretch between two awaits; a run
  is any sequence of actions.

  Strings are their UTF-8 bytes. \<open>wire\<close>, \<open>dispatched\<close> and \<open>tcp_shut\<close> are what the outside has seen: the bytes
  written, those of a frame whose write failed halfway included, the events handed to the page, and whether the stream was
  shut down. The value given to \<open>send\<close> is what the
  engine finds it to be, with the bytes of its conversion. Wakers, the test event log and the kernel channel of a server
  socket are not modelled.
\<close>

subsection \<open>State\<close>

datatype ReadyState = WsConnecting | WsOpen | WsClosing | WsClosed

datatype SendData =
    DataString "u8 list"
  | DataBlob nat
  | DataBuffer "u8 list"
  | DataView "u8 list"
  | DataOther "u8 list option"

datatype WsOpError = StillConnecting | InvalidCloseCode u16w | ReasonTooLong | NotCoercible

datatype ConnectTask = ConnectSpawned | ConnectRunning | ConnectDone

datatype ReaderTask = ReaderAbsent | ReaderTop FrameReader "u8 list" | ReaderReading FrameReader "u8 list" | ReaderDone

datatype WriterTask = WriterAbsent | WriterIdle | Writing WsFrame | WriterDone

record Socket =
  ready_state :: ReadyState
  send_queue :: "WsFrame list"
  buffered_amount :: nat
  send_full :: bool
  ws_events :: "WsEvent list"
  dispatching :: "WsEvent list"
  dispatched :: "WsEvent list"
  ws_cancel :: bool
  cancel_reason :: "u8 list"
  send_tx :: bool
  channel :: "WsFrame list"
  connect_task :: ConnectTask
  reader_task :: ReaderTask
  writer_task :: WriterTask
  sent_close :: bool
  wire :: "u8 list"
  tcp_shut :: bool

definition socket_new :: Socket where
  "socket_new =
     \<lparr>ready_state = WsConnecting, send_queue = [], buffered_amount = 0, send_full = False, ws_events = [],
      dispatching = [], dispatched = [], ws_cancel = False, cancel_reason = [], send_tx = False, channel = [],
      connect_task = ConnectSpawned, reader_task = ReaderAbsent, writer_task = WriterAbsent, sent_close = False,
      wire = [], tcp_shut = False\<rparr>"

definition MAX_BUFFERED_AMOUNT :: nat where "MAX_BUFFERED_AMOUNT = 16 * 1024 * 1024"
definition MAX_CLOSE_REASON_BYTES :: nat where "MAX_CLOSE_REASON_BYTES = 123"
definition RECV_BACKPRESSURE_CAP :: nat where "RECV_BACKPRESSURE_CAP = 256"

definition amount_saturating_add :: "nat \<Rightarrow> nat \<Rightarrow> nat" where
  "amount_saturating_add a b = min (a + b) (2 ^ 64 - 1)"

subsection \<open>The page\<close>

fun estimate_send_bytes :: "SendData \<Rightarrow> nat" where
  "estimate_send_bytes (DataString s) = length s"
| "estimate_send_bytes (DataBuffer b) = length b"
| "estimate_send_bytes (DataView b) = length b"
| "estimate_send_bytes (DataBlob n) = n"
| "estimate_send_bytes (DataOther _) = 0"

definition queue_text :: "u8 list \<Rightarrow> Socket \<Rightarrow> Socket" where
  "queue_text b s =
     s\<lparr>send_queue := send_queue s @ [SendText b], buffered_amount := amount_saturating_add (buffered_amount s) (length b)\<rparr>"

definition queue_binary :: "u8 list \<Rightarrow> Socket \<Rightarrow> Socket" where
  "queue_binary b s =
     s\<lparr>send_queue := send_queue s @ [SendBinary b], buffered_amount := amount_saturating_add (buffered_amount s) (length b)\<rparr>"

definition queue_blob :: "nat \<Rightarrow> Socket \<Rightarrow> Socket" where
  "queue_blob n s =
     s\<lparr>send_queue := send_queue s @ [SendBlob n], buffered_amount := amount_saturating_add (buffered_amount s) n\<rparr>"

text \<open>A send into the channel fails once the writer is gone; the frames are then dropped.\<close>

definition channel_send :: "WsFrame list \<Rightarrow> Socket \<Rightarrow> Socket" where
  "channel_send frames s = (if writer_task s = WriterDone then s else s\<lparr>channel := channel s @ frames\<rparr>)"

definition flush_v8_send_queue :: "Socket \<Rightarrow> Socket" where
  "flush_v8_send_queue s = (if \<not> send_tx s then s else channel_send (send_queue s) (s\<lparr>send_queue := []\<rparr>))"

definition ws_send :: "SendData \<Rightarrow> Socket \<Rightarrow> WsOpError + Socket" where
  "ws_send data s =
     (if ready_state s = WsConnecting then Inl StillConnecting
      else if ready_state s \<noteq> WsOpen then Inr s
      else if send_full s then Inr s
      else
        let projected = amount_saturating_add (buffered_amount s) (estimate_send_bytes data)
        in if projected > MAX_BUFFERED_AMOUNT then Inr (s\<lparr>send_full := True\<rparr>)
           else (case data of
               DataString b \<Rightarrow> Inr (flush_v8_send_queue (queue_text b s))
             | DataBlob n \<Rightarrow> Inr (flush_v8_send_queue (queue_blob n s))
             | DataBuffer b \<Rightarrow> Inr (flush_v8_send_queue (queue_binary b s))
             | DataView b \<Rightarrow> Inr (flush_v8_send_queue (queue_binary b s))
             | DataOther None \<Rightarrow> Inl NotCoercible
             | DataOther (Some b) \<Rightarrow> Inr (flush_v8_send_queue (queue_text b s))))"

definition validate_close_code_and_reason :: "u16w option \<Rightarrow> u8 list option \<Rightarrow> WsOpError + unit" where
  "validate_close_code_and_reason code reason =
     and_then
       (case code of
          Some c \<Rightarrow> if c \<noteq> 1000 \<and> \<not> (3000 \<le> c \<and> c \<le> 4999) then Inl (InvalidCloseCode c) else Inr ()
        | None \<Rightarrow> Inr ())
       (\<lambda>_. case reason of
          Some r \<Rightarrow> if length r > MAX_CLOSE_REASON_BYTES then Inl ReasonTooLong else Inr ()
        | None \<Rightarrow> Inr ())"

definition cancel_native_ws :: "u8 list \<Rightarrow> Socket \<Rightarrow> Socket" where
  "cancel_native_ws reason s =
     (if ws_cancel s then s else s\<lparr>ws_cancel := True, cancel_reason := reason, send_tx := False\<rparr>)"

definition ws_close :: "u16w option \<Rightarrow> u8 list option \<Rightarrow> Socket \<Rightarrow> WsOpError + Socket" where
  "ws_close code reason s =
     and_then (validate_close_code_and_reason code reason)
       (\<lambda>_. let r = (case reason of None \<Rightarrow> [] | Some r \<Rightarrow> r)
         in case ready_state s of
              WsClosing \<Rightarrow> Inr s
            | WsClosed \<Rightarrow> Inr s
            | WsConnecting \<Rightarrow> Inr (cancel_native_ws r (s\<lparr>ready_state := WsClosing\<rparr>))
            | WsOpen \<Rightarrow> Inr (flush_v8_send_queue
                (s\<lparr>ready_state := WsClosing, send_queue := send_queue s @ [SendClose code r]\<rparr>)))"

subsection \<open>The pump\<close>

definition push_events :: "WsEvent list \<Rightarrow> Socket \<Rightarrow> Socket" where
  "push_events evs s = s\<lparr>ws_events := ws_events s @ evs\<rparr>"

text \<open>The pump takes the whole queue and then dispatches event by event; handlers of the page run between two.\<close>

definition drain_events :: "Socket \<Rightarrow> Socket" where
  "drain_events s = s\<lparr>ws_events := [], dispatching := ws_events s\<rparr>"

fun event_state :: "WsEvent \<Rightarrow> ReadyState \<Rightarrow> ReadyState" where
  "event_state (OpenEvent protocol extensions) _ = WsOpen"
| "event_state (CloseEvent code reason was_clean) _ = WsClosed"
| "event_state _ st = st"

definition dispatch_one :: "WsEvent \<Rightarrow> Socket \<Rightarrow> Socket" where
  "dispatch_one ev s = s\<lparr>ready_state := event_state ev (ready_state s), dispatched := dispatched s @ [ev]\<rparr>"

subsection \<open>The connection\<close>

text \<open>What came of connecting: the bytes after the handshake with the negotiated protocol and extensions, or the
  reason the page gets with the close event.\<close>

datatype ConnectOutcome = Established "u8 list" "u8 list" "u8 list" | ConnectRefused "u8 list"

definition connect_start :: "Socket \<Rightarrow> Socket" where
  "connect_start s =
     (if ws_cancel s
      then push_events [ErrorEvent ConnectAborted, CloseEvent 1006 (cancel_reason s) False] (s\<lparr>connect_task := ConnectDone\<rparr>)
      else s\<lparr>connect_task := ConnectRunning\<rparr>)"

definition connect_finish :: "nat \<Rightarrow> nat \<Rightarrow> ConnectOutcome \<Rightarrow> Socket \<Rightarrow> Socket" where
  "connect_finish f m outcome s =
     (case outcome of
        Established leftover protocol extensions \<Rightarrow>
          (push_events [OpenEvent protocol extensions] s)
            \<lparr>connect_task := ConnectDone, send_tx := True, reader_task := ReaderTop (frame_reader_new f m) leftover,
             writer_task := WriterIdle\<rparr>
      | ConnectRefused reason \<Rightarrow>
          push_events [ErrorEvent ConnectFailed, CloseEvent 1006 reason False] (s\<lparr>connect_task := ConnectDone\<rparr>))"

definition fail_connection :: "FailReason \<Rightarrow> Socket \<Rightarrow> Socket" where
  "fail_connection err s =
     (push_events (fail_events err) s)\<lparr>buffered_amount := 0, send_full := False, send_tx := False\<rparr>"

text \<open>One turn of the reader before it reads: it waits until the queue has room, then handles every frame of the
  buffer. The loop ends at a close frame or by failing; only a failure emits an error.\<close>

fun is_error :: "WsEvent \<Rightarrow> bool" where
  "is_error (ErrorEvent e) = True"
| "is_error _ = False"

definition reader_drain :: "FrameReader \<Rightarrow> u8 list \<Rightarrow> Socket \<Rightarrow> Socket" where
  "reader_drain r buf s =
     (let res = drain_frames r buf;
          s' = channel_send (loop_outbound res) (push_events (loop_events res) s)
      in case loop_state res of
           Some (r', buf') \<Rightarrow> s'\<lparr>reader_task := ReaderReading r' buf'\<rparr>
         | None \<Rightarrow>
             if list_ex is_error (loop_events res)
             then s'\<lparr>buffered_amount := 0, send_full := False, send_tx := False, reader_task := ReaderDone\<rparr>
             else s'\<lparr>reader_task := ReaderDone\<rparr>)"

definition reader_read :: "FrameReader \<Rightarrow> u8 list \<Rightarrow> ReadResult \<Rightarrow> Socket \<Rightarrow> Socket" where
  "reader_read r buf read s =
     (case read of
        ReadErr \<Rightarrow> (fail_connection ReadFailed s)\<lparr>reader_task := ReaderDone\<rparr>
      | ReadOk chunk \<Rightarrow>
          if chunk = [] then (fail_connection EofWithoutClose s)\<lparr>reader_task := ReaderDone\<rparr>
          else s\<lparr>reader_task := ReaderTop r (buf @ chunk)\<rparr>)"

subsection \<open>The writer\<close>

definition decrement_buffered_amount :: "nat \<Rightarrow> Socket \<Rightarrow> Socket" where
  "decrement_buffered_amount n s =
     (let b = buffered_amount s - n
      in s\<lparr>buffered_amount := b, send_full := (if b < MAX_BUFFERED_AMOUNT div 2 then False else send_full s)\<rparr>)"

text \<open>The close flag, set before the write, and the amount do not depend on the masking key.\<close>

definition frame_effect :: "WsFrame \<Rightarrow> bool \<Rightarrow> bool \<times> nat option" where
  "frame_effect frame closed = snd (write_frame [0, 0, 0, 0] frame closed)"

definition writer_take :: "WsFrame \<Rightarrow> WsFrame list \<Rightarrow> Socket \<Rightarrow> Socket" where
  "writer_take frame rest s =
     s\<lparr>channel := rest, writer_task := Writing frame, sent_close := fst (frame_effect frame (sent_close s))\<rparr>"

definition writer_wrote :: "u8 list \<Rightarrow> WsFrame \<Rightarrow> Socket \<Rightarrow> Socket" where
  "writer_wrote mkey frame s =
     (let (bytes, closed, amount) = write_frame mkey frame (sent_close s);
          s' = s\<lparr>wire := wire s @ bytes, writer_task := WriterIdle\<rparr>
      in case amount of
           None \<Rightarrow> s'
         | Some n \<Rightarrow> decrement_buffered_amount n s')"

text \<open>A write that fails has put some of the bytes of the frame on the wire, and not all.\<close>

definition writer_failed :: "u8 list \<Rightarrow> nat \<Rightarrow> WsFrame \<Rightarrow> Socket \<Rightarrow> Socket" where
  "writer_failed mkey n frame s =
     (fail_connection WriteFailed (s\<lparr>wire := wire s @ take n (fst (write_frame mkey frame (sent_close s)))\<rparr>))
       \<lparr>writer_task := WriterDone, channel := []\<rparr>"

subsection \<open>Runs\<close>

datatype WsAction =
    JsSend SendData
  | JsClose "u16w option" "u8 list option"
  | DispatchDrain
  | DispatchOne
  | ConnectStart
  | ConnectFinish ConnectOutcome
  | ReaderDrain
  | ReaderRead ReadResult
  | WriterTake
  | WriterWrote "u8 list"
  | WriterFailed "u8 list" nat
  | WriterEnd
  | DriverEnd

text \<open>A throw leaves the socket as it was. \<open>None\<close>: the action cannot happen now. The turns of the writer carry the four bytes
  of the masking key, and a failing one the number of bytes written before.\<close>

fun ws_step :: "nat \<Rightarrow> nat \<Rightarrow> WsAction \<Rightarrow> Socket \<Rightarrow> Socket option" where
  "ws_step f m (JsSend data) s = Some (case ws_send data s of Inl _ \<Rightarrow> s | Inr s' \<Rightarrow> s')"
| "ws_step f m (JsClose code reason) s = Some (case ws_close code reason s of Inl _ \<Rightarrow> s | Inr s' \<Rightarrow> s')"
| "ws_step f m DispatchDrain s = (if dispatching s = [] then Some (drain_events s) else None)"
| "ws_step f m DispatchOne s =
     (case dispatching s of [] \<Rightarrow> None | ev # evs \<Rightarrow> Some (dispatch_one ev (s\<lparr>dispatching := evs\<rparr>)))"
| "ws_step f m ConnectStart s = (if connect_task s = ConnectSpawned then Some (connect_start s) else None)"
| "ws_step f m (ConnectFinish outcome) s =
     (if connect_task s = ConnectRunning then Some (connect_finish f m outcome s) else None)"
| "ws_step f m ReaderDrain s =
     (case reader_task s of
        ReaderTop r buf \<Rightarrow> if length (ws_events s) < RECV_BACKPRESSURE_CAP then Some (reader_drain r buf s) else None
      | _ \<Rightarrow> None)"
| "ws_step f m (ReaderRead read) s =
     (case reader_task s of ReaderReading r buf \<Rightarrow> Some (reader_read r buf read s) | _ \<Rightarrow> None)"
| "ws_step f m WriterTake s =
     (case (writer_task s, channel s) of (WriterIdle, frame # rest) \<Rightarrow> Some (writer_take frame rest s) | _ \<Rightarrow> None)"
| "ws_step f m (WriterWrote mkey) s =
     (case writer_task s of Writing frame \<Rightarrow> if length mkey = 4 then Some (writer_wrote mkey frame s) else None | _ \<Rightarrow> None)"
| "ws_step f m (WriterFailed mkey n) s =
     (case writer_task s of
        Writing frame \<Rightarrow>
          if length mkey = 4 \<and> n < length (fst (write_frame mkey frame (sent_close s))) then Some (writer_failed mkey n frame s)
          else None
      | _ \<Rightarrow> None)"
| "ws_step f m WriterEnd s =
     (if writer_task s = WriterIdle \<and> channel s = [] \<and> \<not> send_tx s \<and> reader_task s = ReaderDone
      then Some (s\<lparr>writer_task := WriterDone, tcp_shut := True\<rparr>) else None)"
| "ws_step f m DriverEnd s =
     (if reader_task s = ReaderDone \<and> writer_task s = WriterDone then Some (s\<lparr>send_tx := False\<rparr>) else None)"

fun ws_run :: "nat \<Rightarrow> nat \<Rightarrow> WsAction list \<Rightarrow> Socket \<Rightarrow> Socket option" where
  "ws_run f m [] s = Some s"
| "ws_run f m (a # as) s = (case ws_step f m a s of None \<Rightarrow> None | Some s' \<Rightarrow> ws_run f m as s')"

subsection \<open>What a run has done\<close>

text \<open>The reads of a run, the bytes after the handshake, and the frames the page had accepted.\<close>

fun action_reads :: "WsAction \<Rightarrow> ReadResult list" where
  "action_reads (ReaderRead read) = [read]"
| "action_reads _ = []"

fun action_leftover :: "WsAction \<Rightarrow> u8 list" where
  "action_leftover (ConnectFinish (Established leftover protocol extensions)) = leftover"
| "action_leftover _ = []"

definition run_reads :: "WsAction list \<Rightarrow> ReadResult list" where
  "run_reads acts = concat (map action_reads acts)"

definition run_leftover :: "WsAction list \<Rightarrow> u8 list" where
  "run_leftover acts = concat (map action_leftover acts)"

definition run_decoded :: "nat \<Rightarrow> nat \<Rightarrow> WsAction list \<Rightarrow> LoopResult" where
  "run_decoded f m acts = run_reader_loop (frame_reader_new f m) (run_leftover acts) (run_reads acts)"

fun data_frame :: "SendData \<Rightarrow> WsFrame option" where
  "data_frame (DataString b) = Some (SendText b)"
| "data_frame (DataBlob n) = Some (SendBlob n)"
| "data_frame (DataBuffer b) = Some (SendBinary b)"
| "data_frame (DataView b) = Some (SendBinary b)"
| "data_frame (DataOther b) = map_option SendText b"

definition sendable :: "SendData \<Rightarrow> Socket \<Rightarrow> bool" where
  "sendable data s \<longleftrightarrow> ready_state s = WsOpen \<and> \<not> send_full s \<and>
     amount_saturating_add (buffered_amount s) (estimate_send_bytes data) \<le> MAX_BUFFERED_AMOUNT"

fun action_accepted :: "WsAction \<Rightarrow> Socket \<Rightarrow> WsFrame list" where
  "action_accepted (JsSend data) s =
     (if sendable data s then (case data_frame data of None \<Rightarrow> [] | Some frame \<Rightarrow> [frame]) else [])"
| "action_accepted (JsClose code reason) s =
     (if ready_state s = WsOpen \<and> \<not> isl (validate_close_code_and_reason code reason)
      then [SendClose code (case reason of None \<Rightarrow> [] | Some r \<Rightarrow> r)] else [])"
| "action_accepted _ s = []"

fun run_accepted :: "nat \<Rightarrow> nat \<Rightarrow> WsAction list \<Rightarrow> Socket \<Rightarrow> WsFrame list" where
  "run_accepted f m [] s = []"
| "run_accepted f m (a # as) s =
     action_accepted a s @ (case ws_step f m a s of None \<Rightarrow> [] | Some s' \<Rightarrow> run_accepted f m as s')"

definition all_events :: "Socket \<Rightarrow> WsEvent list" where
  "all_events s = dispatched s @ dispatching s @ ws_events s"

fun is_message :: "WsEvent \<Rightarrow> bool" where
  "is_message (MessageText b) = True"
| "is_message (MessageBinary b) = True"
| "is_message _ = False"

abbreviation messages :: "WsEvent list \<Rightarrow> WsEvent list" where
  "messages \<equiv> filter is_message"

definition in_flight :: "Socket \<Rightarrow> WsFrame list" where
  "in_flight s = (case writer_task s of Writing frame \<Rightarrow> [frame] | _ \<Rightarrow> [])"

lemma write_frame_parts:
  "write_frame mkey frame closed = (fst (write_frame mkey frame False), frame_effect frame closed)"
  by (cases "(mkey, frame, closed)" rule: write_frame.cases) (simp_all add: frame_effect_def)

lemma writer_wrote_eq [code]:
  "writer_wrote mkey frame s =
     (let s' = s\<lparr>wire := wire s @ fst (write_frame mkey frame False), writer_task := WriterIdle\<rparr>
      in case snd (frame_effect frame (sent_close s)) of None \<Rightarrow> s' | Some n \<Rightarrow> decrement_buffered_amount n s')"
  by (subst writer_wrote_def, subst write_frame_parts) (simp add: case_prod_unfold)

lemma ws_run_snoc:
  "ws_run f m (as @ [a]) s = (case ws_run f m as s of None \<Rightarrow> None | Some s' \<Rightarrow> ws_step f m a s')"
  by (induction as arbitrary: s) (auto split: option.splits)

lemma run_accepted_snoc:
  "ws_run f m as s = Some s' \<Longrightarrow> run_accepted f m (as @ [a]) s = run_accepted f m as s @ action_accepted a s'"
  by (induction as arbitrary: s) (auto split: option.splits)

lemma run_snoc [simp]:
  "run_reads (as @ [a]) = run_reads as @ action_reads a" "run_leftover (as @ [a]) = run_leftover as @ action_leftover a"
  by (simp_all add: run_reads_def run_leftover_def)

lemma ws_run_induct [consumes 1, case_names start step]:
  assumes "ws_run f m acts socket_new = Some s" "P [] socket_new"
    and "\<And>as a s s'. ws_run f m as socket_new = Some s \<Longrightarrow> P as s \<Longrightarrow> ws_step f m a s = Some s' \<Longrightarrow> P (as @ [a]) s'"
  shows "P acts s"
  using assms(1) by (induction acts arbitrary: s rule: rev_induct) (auto simp: ws_run_snoc assms split: option.splits)

subsection \<open>The effect of the calls of the page\<close>

fun frame_size :: "WsFrame \<Rightarrow> nat" where
  "frame_size (SendText b) = length b"
| "frame_size (SendBinary b) = length b"
| "frame_size (SendBlob n) = n"
| "frame_size _ = 0"

fun is_close :: "WsFrame \<Rightarrow> bool" where
  "is_close (SendClose code reason) = True"
| "is_close _ = False"

fun is_data :: "WsFrame \<Rightarrow> bool" where
  "is_data (SendPong p) = False"
| "is_data (SendClose code reason) = False"
| "is_data _ = True"

definition enqueue :: "WsFrame \<Rightarrow> Socket \<Rightarrow> Socket" where
  "enqueue frame s = s\<lparr>send_queue := send_queue s @ [frame],
     buffered_amount := amount_saturating_add (buffered_amount s) (frame_size frame)\<rparr>"

lemma queue_enqueue:
  "queue_text b s = enqueue (SendText b) s" "queue_binary b s = enqueue (SendBinary b) s" "queue_blob n s = enqueue (SendBlob n) s"
  by (simp_all add: queue_text_def queue_binary_def queue_blob_def enqueue_def)

lemma js_send_cases:
  assumes "ws_step f m (JsSend data) s = Some s'"
  obtains (dropped) "action_accepted (JsSend data) s = []" "s' = s"
    | (filled) "action_accepted (JsSend data) s = []" "s' = s\<lparr>send_full := True\<rparr>"
    | (accepted) frame where "data_frame data = Some frame" "sendable data s" "action_accepted (JsSend data) s = [frame]"
        "is_data frame" "s' = flush_v8_send_queue (enqueue frame s)"
proof (cases "sendable data s")
  case True
  show ?thesis
  proof (cases "data_frame data")
    case None
    then have "data = DataOther None" by (cases data) auto
    then have "s' = s" using assms True by (simp add: ws_send_def sendable_def Let_def)
    then show ?thesis using dropped None by simp
  next
    case (Some frame)
    have "is_data frame" using Some by (cases data) auto
    moreover have "s' = flush_v8_send_queue (enqueue frame s)"
      using assms True Some by (cases data) (auto simp: ws_send_def sendable_def Let_def queue_enqueue)
    ultimately show ?thesis using accepted Some True by simp
  qed
next
  case False
  have "s' = s \<or> s' = s\<lparr>send_full := True\<rparr>"
    using assms False by (auto simp: ws_send_def sendable_def Let_def split: if_splits)
  then show ?thesis using dropped filled False by auto
qed

lemma js_close_cases:
  assumes "ws_step f m (JsClose code reason) s = Some s'"
  obtains (ignored) "action_accepted (JsClose code reason) s = []" "s' = s"
    | (cancelled) r where "action_accepted (JsClose code reason) s = []" "ready_state s = WsConnecting"
        "s' = cancel_native_ws r (s\<lparr>ready_state := WsClosing\<rparr>)"
    | (accepted) r where "action_accepted (JsClose code reason) s = [SendClose code r]" "ready_state s = WsOpen"
        "s' = flush_v8_send_queue (s\<lparr>ready_state := WsClosing, send_queue := send_queue s @ [SendClose code r]\<rparr>)"
proof -
  let ?v = "validate_close_code_and_reason code reason"
  let ?r = "case reason of None \<Rightarrow> [] | Some r \<Rightarrow> r"
  show ?thesis
  proof (cases ?v)
    case (Inl e)
    then have "s' = s" "action_accepted (JsClose code reason) s = []" using assms by (simp_all add: ws_close_def)
    then show ?thesis using ignored by blast
  next
    case (Inr u)
    show ?thesis
    proof (cases "ready_state s")
      case WsConnecting
      then have "s' = cancel_native_ws ?r (s\<lparr>ready_state := WsClosing\<rparr>)" using assms Inr by (simp add: ws_close_def Let_def)
      then show ?thesis using cancelled [of ?r] WsConnecting by simp
    next
      case WsOpen
      then have "s' = flush_v8_send_queue (s\<lparr>ready_state := WsClosing, send_queue := send_queue s @ [SendClose code ?r]\<rparr>)"
        using assms Inr by (simp add: ws_close_def Let_def)
      then show ?thesis using accepted [of ?r] WsOpen Inr by simp
    next
      case WsClosing
      then have "s' = s" using assms Inr by (simp add: ws_close_def Let_def)
      then show ?thesis using ignored WsClosing by simp
    next
      case WsClosed
      then have "s' = s" using assms Inr by (simp add: ws_close_def Let_def)
      then show ?thesis using ignored WsClosed by simp
    qed
  qed
qed

subsection \<open>The tasks\<close>

definition tasks_inv :: "WsAction list \<Rightarrow> Socket \<Rightarrow> bool" where
  "tasks_inv acts s \<longleftrightarrow>
     (connect_task s \<noteq> ConnectDone \<longrightarrow> reader_task s = ReaderAbsent \<and> run_leftover acts = []) \<and>
     (reader_task s = ReaderAbsent \<longleftrightarrow> writer_task s = WriterAbsent) \<and>
     (reader_task s = ReaderAbsent \<longrightarrow> \<not> send_tx s \<and> channel s = [] \<and> run_reads acts = []) \<and>
     (writer_task s = WriterDone \<longrightarrow> \<not> send_tx s \<and> channel s = [])"

lemmas page_defs = flush_v8_send_queue_def channel_send_def enqueue_def cancel_native_ws_def
lemmas task_defs = push_events_def drain_events_def dispatch_one_def connect_start_def connect_finish_def fail_connection_def
  reader_drain_def reader_read_def decrement_buffered_amount_def writer_take_def writer_wrote_eq writer_failed_def

lemma tasks_inv_page:
  assumes "tasks_inv acts s" "ws_step f m a s = Some s'" "a = JsSend data \<or> a = JsClose code reason"
  shows "tasks_inv (acts @ [a]) s'"
  using assms(3)
proof
  assume a: "a = JsSend data"
  from assms(2) [unfolded a] show ?thesis
    by (cases rule: js_send_cases) (use assms(1) a in \<open>auto simp: tasks_inv_def page_defs\<close>)
next
  assume a: "a = JsClose code reason"
  from assms(2) [unfolded a] show ?thesis
    by (cases rule: js_close_cases) (use assms(1) a in \<open>auto simp: tasks_inv_def page_defs\<close>)
qed

lemma tasks_inv_step:
  assumes "tasks_inv acts s" "ws_step f m a s = Some s'"
  shows "tasks_inv (acts @ [a]) s'"
proof (cases a)
  case (ConnectFinish outcome)
  then show ?thesis using assms
    by (cases outcome) (auto simp: tasks_inv_def task_defs split: if_splits)
next
  case (ReaderRead read)
  then show ?thesis using assms
    by (cases read) (auto simp: tasks_inv_def task_defs split: if_splits ReaderTask.splits)
qed (use assms tasks_inv_page [OF assms] in \<open>auto simp: tasks_inv_def task_defs channel_send_def Let_def
  split: if_splits ReaderTask.splits WriterTask.splits list.splits option.splits prod.splits\<close>)

lemma run_tasks_inv: "ws_run f m acts socket_new = Some s \<Longrightarrow> tasks_inv acts s"
proof (induction rule: ws_run_induct)
  case start
  show ?case by (simp add: tasks_inv_def socket_new_def run_reads_def run_leftover_def)
next
  case (step as a s s')
  then show ?case using tasks_inv_step by blast
qed

end
