(* ===== verification/WsRuns.thy ===== *)
theory WsRuns
  imports WsSocket "HOL-Library.Sublist"
begin

text \<open>
  Runs of the client socket: what the page sees of the messages of the server, what the wire sees of the frames of the
  page, and the accounting of the buffered amount, for every order in which the page, the pump, the connect task, the
  reader and the writer take their turns. The last section has runs in which the socket does not do what its comments
  say.
\<close>

subsection \<open>One more read\<close>

definition read_result :: "FrameReader \<Rightarrow> u8 list \<Rightarrow> ReadResult \<Rightarrow> LoopResult" where
  "read_result r buf read =
     (case read of
        ReadErr \<Rightarrow> \<lparr>loop_events = fail_events ReadFailed, loop_outbound = [], loop_state = None\<rparr>
      | ReadOk chunk \<Rightarrow>
          if chunk = [] then \<lparr>loop_events = fail_events EofWithoutClose, loop_outbound = [], loop_state = None\<rparr>
          else drain_frames r (buf @ chunk))"

lemma loop_prepend_state [simp]: "loop_prepend ev out \<lparr>loop_events = e, loop_outbound = t, loop_state = st\<rparr> =
    \<lparr>loop_events = ev @ e, loop_outbound = out @ t, loop_state = st\<rparr>"
  by (simp add: loop_prepend_def)

lemma run_reader_loop_snoc:
  "loop_state (run_reader_loop r b reads) = Some (r', buf') \<Longrightarrow>
    run_reader_loop r b (reads @ [x]) =
      loop_prepend (loop_events (run_reader_loop r b reads)) (loop_outbound (run_reader_loop r b reads)) (read_result r' buf' x)"
proof (induction reads arbitrary: r b)
  case Nil
  then show ?case by (simp add: Let_def read_result_def split: ReadResult.splits)
next
  case (Cons y ys)
  let ?res = "drain_frames r b"
  obtain r1 b1 where st: "loop_state ?res = Some (r1, b1)" using Cons.prems by (cases "loop_state ?res") (auto simp: Let_def)
  obtain chunk where y: "y = ReadOk chunk" "chunk \<noteq> []"
    using Cons.prems st by (cases y) (auto simp: Let_def split: if_splits)
  have "loop_state (run_reader_loop r1 (b1 @ chunk) ys) = Some (r', buf')" using Cons.prems st y by (simp add: Let_def)
  from Cons.IH [OF this] show ?case using st y by (simp add: Let_def)
qed

subsection \<open>Interleavings\<close>

lemma shuffles_append_left: "zs \<in> shuffles xs ys \<Longrightarrow> zs @ q \<in> shuffles (xs @ q) ys"
proof (induction xs ys arbitrary: zs rule: shuffles.induct)
  case (1 ys)
  then show ?case
    by (induction zs arbitrary: ys) (auto simp: Cons_in_shuffles_iff)
next
  case (3 x xs y ys)
  then show ?case by (cases zs) (auto simp: Cons_in_shuffles_iff)
qed (auto simp: Cons_in_shuffles_iff)

lemma shuffles_append_right: "zs \<in> shuffles xs ys \<Longrightarrow> zs @ q \<in> shuffles xs (ys @ q)"
  using shuffles_append_left [of zs ys xs q] by (simp add: shuffles_commutes)

subsection \<open>What the page and the wire see\<close>

definition reader_rel :: "nat \<Rightarrow> nat \<Rightarrow> WsAction list \<Rightarrow> Socket \<Rightarrow> WsEvent list \<Rightarrow> WsFrame list \<Rightarrow> bool" where
  "reader_rel f m acts s ev out \<longleftrightarrow>
     (case reader_task s of
        ReaderAbsent \<Rightarrow> ev = [] \<and> out = []
      | ReaderTop r buf \<Rightarrow> run_decoded f m acts = loop_prepend ev out (drain_frames r buf)
      | ReaderReading r buf \<Rightarrow> run_decoded f m acts = \<lparr>loop_events = ev, loop_outbound = out, loop_state = Some (r, buf)\<rparr>
      | ReaderDone \<Rightarrow> run_decoded f m acts = \<lparr>loop_events = ev, loop_outbound = out, loop_state = None\<rparr>)"

text \<open>The bytes of a frame that was cut off, the first of those that are lost.\<close>

definition cut_off :: "u8 list \<Rightarrow> WsFrame list \<Rightarrow> bool" where
  "cut_off part lost \<longleftrightarrow> part = [] \<or>
     (\<exists>mkey frame lost'. lost = frame # lost' \<and> length mkey = 4 \<and> strict_prefix part (fst (write_frame mkey frame False)))"

definition wire_rel :: "(u8 list \<times> WsFrame) list \<Rightarrow> WsFrame list \<Rightarrow> Socket \<Rightarrow> bool" where
  "wire_rel keyed lost s \<longleftrightarrow> list_all (\<lambda>(mkey, frame). length mkey = 4) keyed \<and>
     (\<exists>part. wire s = write_frames keyed @ part \<and> cut_off part lost \<and> (writer_task s \<noteq> WriterDone \<longrightarrow> part = []))"

definition run_inv :: "nat \<Rightarrow> nat \<Rightarrow> WsAction list \<Rightarrow> Socket \<Rightarrow> WsEvent list \<Rightarrow> WsFrame list \<Rightarrow> WsFrame list \<Rightarrow> WsFrame list \<Rightarrow>
    (u8 list \<times> WsFrame) list \<Rightarrow> bool" where
  "run_inv f m acts s ev out acc lost keyed \<longleftrightarrow>
     reader_rel f m acts s ev out \<and> messages (all_events s) = messages ev \<and>
     run_accepted f m acts socket_new = acc @ send_queue s \<and>
     map snd keyed @ in_flight s @ channel s @ lost \<in> shuffles acc out \<and> (writer_task s \<noteq> WriterDone \<longrightarrow> lost = []) \<and>
     wire_rel keyed lost s"

lemma write_frames_append: "write_frames (kfs @ kfs') = write_frames kfs @ write_frames kfs'"
  by (induction kfs rule: write_frames.induct) simp_all

lemma cut_off_append: "cut_off part lost \<Longrightarrow> cut_off part (lost @ frames)"
  by (auto simp: cut_off_def)

lemma wire_rel_same:
  "wire_rel keyed lost s \<Longrightarrow> wire s' = wire s \<Longrightarrow> (writer_task s' \<noteq> WriterDone \<longrightarrow> writer_task s \<noteq> WriterDone) \<Longrightarrow> wire_rel keyed lost s'"
  by (auto simp: wire_rel_def)

lemma run_decoded_same [simp]:
  "action_reads a = [] \<Longrightarrow> action_leftover a = [] \<Longrightarrow> run_decoded f m (acts @ [a]) = run_decoded f m acts"
  by (simp add: run_decoded_def)

lemma messages_fail [simp]: "messages (fail_events e) = []"
  by (simp add: fail_events_def)

lemma event_fields [simp]:
  "all_events (s\<lparr>send_queue := q\<rparr>) = all_events s" "all_events (s\<lparr>channel := c\<rparr>) = all_events s"
  "all_events (s\<lparr>send_full := b\<rparr>) = all_events s" "all_events (s\<lparr>ready_state := rs\<rparr>) = all_events s"
  "all_events (s\<lparr>buffered_amount := n\<rparr>) = all_events s" "all_events (s\<lparr>send_tx := b\<rparr>) = all_events s"
  "all_events (s\<lparr>ws_cancel := b\<rparr>) = all_events s" "all_events (s\<lparr>cancel_reason := t\<rparr>) = all_events s"
  "all_events (s\<lparr>connect_task := ct\<rparr>) = all_events s" "all_events (s\<lparr>reader_task := rt\<rparr>) = all_events s"
  "all_events (s\<lparr>writer_task := wt\<rparr>) = all_events s" "all_events (s\<lparr>sent_close := b\<rparr>) = all_events s"
  "all_events (s\<lparr>wire := w\<rparr>) = all_events s" "all_events (s\<lparr>tcp_shut := b\<rparr>) = all_events s"
  "all_events (s\<lparr>ws_events := ws_events s @ evs\<rparr>) = all_events s @ evs"
  by (simp_all add: all_events_def)

lemma reader_rel_same:
  "reader_task s' = reader_task s \<Longrightarrow> action_reads a = [] \<Longrightarrow> action_leftover a = [] \<Longrightarrow>
    reader_rel f m (acts @ [a]) s' ev out = reader_rel f m acts s ev out"
  by (simp add: reader_rel_def split: ReaderTask.splits)

text \<open>A turn that queues no frame and touches neither the reader nor the writer, with what it adds to the events.\<close>

lemma run_inv_quiet:
  assumes "run_inv f m acts s ev out acc lost keyed" "ws_run f m acts socket_new = Some s" "action_accepted a s = []"
    and "reader_task s' = reader_task s" "action_reads a = []" "action_leftover a = []"
    and "messages (all_events s') = messages (all_events s)" "send_queue s' = send_queue s"
    and "in_flight s' @ channel s' = in_flight s @ channel s" "wire s' = wire s"
    and "writer_task s' \<noteq> WriterDone \<longrightarrow> writer_task s \<noteq> WriterDone"
  shows "run_inv f m (acts @ [a]) s' ev out acc lost keyed"
proof -
  have eq: "in_flight s' @ channel s' @ lost = in_flight s @ channel s @ lost"
    using arg_cong [OF assms(9), of "\<lambda>xs. xs @ lost"] by simp
  show ?thesis
    unfolding run_inv_def eq using assms reader_rel_same [OF assms(4-6)] run_accepted_snoc [OF assms(2)]
      wire_rel_same [OF _ assms(10,11)]
    by (auto simp: run_inv_def)
qed

text \<open>Frames of the page that go onto the queue, and through it when the channel is there.\<close>

lemma run_inv_flush:
  assumes inv: "run_inv f m acts s ev out acc lost keyed" and run: "ws_run f m acts socket_new = Some s"
    and a: "action_accepted a s = [frame]" "action_reads a = []" "action_leftover a = []"
    and s1: "send_queue s1 = send_queue s @ [frame]" "reader_task s1 = reader_task s" "all_events s1 = all_events s"
      "wire s1 = wire s" "channel s1 = channel s" "writer_task s1 = writer_task s" "send_tx s1 = send_tx s"
  shows "\<exists>acc'. run_inv f m (acts @ [a]) (flush_v8_send_queue s1) ev out acc' lost keyed"
proof (cases "send_tx s")
  case False
  then have "run_inv f m (acts @ [a]) (flush_v8_send_queue s1) ev out acc lost keyed"
    using inv run_accepted_snoc [OF run, of a] a s1 reader_rel_same [OF s1(2) a(2,3)]
    by (simp add: run_inv_def wire_rel_def flush_v8_send_queue_def in_flight_def)
  then show ?thesis by blast
next
  case True
  then have w: "writer_task s \<noteq> WriterDone" using run_tasks_inv [OF run] by (auto simp: tasks_inv_def)
  let ?q = "send_queue s @ [frame]"
  have "lost = []" "map snd keyed @ in_flight s @ channel s \<in> shuffles acc out" using inv w by (auto simp: run_inv_def)
  then have "(map snd keyed @ in_flight s @ channel s) @ ?q \<in> shuffles (acc @ ?q) out" by (intro shuffles_append_left)
  moreover have s': "flush_v8_send_queue s1 = s1\<lparr>send_queue := [], channel := channel s @ ?q\<rparr>"
    using True w s1 by (simp add: flush_v8_send_queue_def channel_send_def)
  moreover have "reader_rel f m (acts @ [a]) (s1\<lparr>send_queue := [], channel := channel s @ ?q\<rparr>) ev out = reader_rel f m acts s ev out"
    using a s1 by (intro reader_rel_same) simp_all
  ultimately have "run_inv f m (acts @ [a]) (flush_v8_send_queue s1) ev out (acc @ ?q) lost keyed"
    using inv run_accepted_snoc [OF run, of a] a s1 \<open>lost = []\<close> w by (simp add: run_inv_def wire_rel_def in_flight_def)
  then show ?thesis by blast
qed

lemma run_inv_page:
  assumes inv: "run_inv f m acts s ev out acc lost keyed" and run: "ws_run f m acts socket_new = Some s"
    and step: "ws_step f m a s = Some s'" and a: "a = JsSend data \<or> a = JsClose code reason"
  shows "\<exists>acc'. run_inv f m (acts @ [a]) s' ev out acc' lost keyed"
  using a
proof
  assume a: "a = JsSend data"
  from step [unfolded a] show ?thesis
  proof (cases rule: js_send_cases)
    case dropped
    then show ?thesis using run_inv_quiet [OF inv run, of a s'] a by auto
  next
    case filled
    then show ?thesis using run_inv_quiet [OF inv run, of a s'] a by (auto simp: in_flight_def)
  next
    case (accepted frame)
    then show ?thesis using run_inv_flush [OF inv run, of a frame "enqueue frame s"] a by (auto simp: enqueue_def)
  qed
next
  assume a: "a = JsClose code reason"
  from step [unfolded a] show ?thesis
  proof (cases rule: js_close_cases)
    case ignored
    then show ?thesis using run_inv_quiet [OF inv run, of a s'] a by auto
  next
    case (cancelled r)
    then show ?thesis using run_inv_quiet [OF inv run, of a s'] a by (auto simp: cancel_native_ws_def in_flight_def)
  next
    case (accepted r)
    then show ?thesis
      using run_inv_flush [OF inv run, of a "SendClose code r" "s\<lparr>ready_state := WsClosing, send_queue := send_queue s @ [SendClose code r]\<rparr>"] a
      by auto
  qed
qed

lemma run_inv_reader_drain:
  assumes inv: "run_inv f m acts s ev out acc lost keyed" and run: "ws_run f m acts socket_new = Some s"
    and top: "reader_task s = ReaderTop r buf"
  shows "\<exists>ev' out' lost'. run_inv f m (acts @ [ReaderDrain]) (reader_drain r buf s) ev' out' acc lost' keyed"
proof -
  let ?res = "drain_frames r buf"
  let ?out = "out @ loop_outbound ?res" and ?ev = "ev @ loop_events ?res"
  let ?lost = "if writer_task s = WriterDone then lost @ loop_outbound ?res else lost"
  have dec: "run_decoded f m (acts @ [ReaderDrain]) = loop_prepend ev out ?res"
    using inv top by (simp add: run_inv_def reader_rel_def)
  have rel: "reader_rel f m (acts @ [ReaderDrain]) (reader_drain r buf s) ?ev ?out"
    using dec by (cases "loop_state ?res")
      (auto simp: reader_drain_def reader_rel_def Let_def loop_prepend_def channel_send_def push_events_def intro: LoopResult.equality)
  have sh: "map snd keyed @ in_flight s @ channel s @ lost \<in> shuffles acc out" "writer_task s \<noteq> WriterDone \<Longrightarrow> lost = []"
    using inv by (auto simp: run_inv_def)
  have fields: "send_queue (reader_drain r buf s) = send_queue s" "wire (reader_drain r buf s) = wire s"
    "writer_task (reader_drain r buf s) = writer_task s"
    "channel (reader_drain r buf s) = (if writer_task s = WriterDone then channel s else channel s @ loop_outbound ?res)"
    "all_events (reader_drain r buf s) = all_events s @ loop_events ?res"
    by (auto simp: reader_drain_def Let_def channel_send_def push_events_def split: option.splits)
  have "map snd keyed @ in_flight s @ channel (reader_drain r buf s) @ ?lost \<in> shuffles acc ?out"
    using shuffles_append_right [OF sh(1), of "loop_outbound ?res"] sh(2) by (auto simp: fields(4))
  moreover have wire: "wire_rel keyed ?lost (reader_drain r buf s)"
    using inv by (auto simp: run_inv_def wire_rel_def fields intro: cut_off_append)
  ultimately have "run_inv f m (acts @ [ReaderDrain]) (reader_drain r buf s) ?ev ?out acc ?lost keyed"
    using rel inv run_accepted_snoc [OF run, of ReaderDrain] wire by (simp add: run_inv_def fields in_flight_def)
  then show ?thesis by blast
qed

lemma run_inv_reader_read:
  assumes inv: "run_inv f m acts s ev out acc lost keyed" and run: "ws_run f m acts socket_new = Some s"
    and reading: "reader_task s = ReaderReading r buf"
  shows "\<exists>ev' out'. run_inv f m (acts @ [ReaderRead read]) (reader_read r buf read s) ev' out' acc lost keyed"
proof -
  let ?s' = "reader_read r buf read s"
  have dec: "run_decoded f m acts = \<lparr>loop_events = ev, loop_outbound = out, loop_state = Some (r, buf)\<rparr>"
    using inv reading by (simp add: run_inv_def reader_rel_def)
  then have "run_decoded f m (acts @ [ReaderRead read]) = loop_prepend ev out (read_result r buf read)"
    using run_reader_loop_snoc [of "frame_reader_new f m" "run_leftover acts" "run_reads acts" r buf read]
    by (simp add: run_decoded_def)
  then have "\<exists>ev'. reader_rel f m (acts @ [ReaderRead read]) ?s' ev' out \<and> messages ev' = messages ev"
    by (cases read) (auto simp: reader_rel_def reader_read_def read_result_def fail_connection_def push_events_def)
  then obtain ev' where ev': "reader_rel f m (acts @ [ReaderRead read]) ?s' ev' out" "messages ev' = messages ev" by blast
  have "send_queue ?s' = send_queue s" "wire ?s' = wire s" "writer_task ?s' = writer_task s" "channel ?s' = channel s"
    "messages (all_events ?s') = messages (all_events s)"
    by (auto simp: reader_read_def fail_connection_def push_events_def split: ReadResult.splits)
  then have "run_inv f m (acts @ [ReaderRead read]) ?s' ev' out acc lost keyed"
    using inv ev' run_accepted_snoc [OF run, of "ReaderRead read"] by (simp add: run_inv_def wire_rel_def in_flight_def)
  then show ?thesis by blast
qed

lemma run_inv_wrote:
  assumes inv: "run_inv f m acts s ev out acc lost keyed" and run: "ws_run f m acts socket_new = Some s"
    and writing: "writer_task s = Writing frame" and key: "length mkey = 4"
  shows "run_inv f m (acts @ [WriterWrote mkey]) (writer_wrote mkey frame s) ev out acc lost (keyed @ [(mkey, frame)])"
proof -
  let ?a = "WriterWrote mkey" and ?s' = "writer_wrote mkey frame s"
  have fields: "reader_task ?s' = reader_task s" "send_queue ?s' = send_queue s" "channel ?s' = channel s"
    "writer_task ?s' = WriterIdle" "all_events ?s' = all_events s" "wire ?s' = wire s @ fst (write_frame mkey frame False)"
    by (auto simp: writer_wrote_eq decrement_buffered_amount_def Let_def split: option.split)
  have "reader_rel f m (acts @ [?a]) ?s' ev out = reader_rel f m acts s ev out"
    by (rule reader_rel_same) (simp_all add: fields)
  moreover have "wire_rel (keyed @ [(mkey, frame)]) lost ?s'"
    using inv writing key by (auto simp: run_inv_def wire_rel_def fields write_frames_append cut_off_def)
  ultimately show ?thesis
    using inv writing run_accepted_snoc [OF run, of ?a] by (auto simp: run_inv_def fields in_flight_def)
qed

lemma run_inv_writer_failed:
  assumes inv: "run_inv f m acts s ev out acc lost keyed" and run: "ws_run f m acts socket_new = Some s"
    and writing: "writer_task s = Writing frame" and key: "length mkey = 4"
    and n: "n < length (fst (write_frame mkey frame (sent_close s)))"
  shows "run_inv f m (acts @ [WriterFailed mkey n]) (writer_failed mkey n frame s) ev out acc (frame # channel s) keyed"
proof -
  let ?a = "WriterFailed mkey n" and ?s' = "writer_failed mkey n frame s"
  let ?bytes = "fst (write_frame mkey frame False)"
  have bytes: "fst (write_frame mkey frame (sent_close s)) = ?bytes" by (subst write_frame_parts) simp
  have fields: "reader_task ?s' = reader_task s" "send_queue ?s' = send_queue s" "channel ?s' = []"
    "writer_task ?s' = WriterDone" "messages (all_events ?s') = messages (all_events s)" "wire ?s' = wire s @ take n ?bytes"
    by (simp_all add: writer_failed_def fail_connection_def push_events_def bytes all_events_def)
  have "strict_prefix (take n ?bytes) ?bytes" using n bytes by (simp add: strict_prefix_def take_is_prefix)
  then have "wire_rel keyed (frame # channel s) ?s'"
    using inv writing key by (auto simp: run_inv_def wire_rel_def fields cut_off_def)
  moreover have "reader_rel f m (acts @ [?a]) ?s' ev out = reader_rel f m acts s ev out"
    by (rule reader_rel_same) (simp_all add: fields)
  ultimately show ?thesis
    using inv writing run_accepted_snoc [OF run, of ?a] by (auto simp: run_inv_def fields in_flight_def)
qed

lemma run_inv_connected:
  assumes inv: "run_inv f m acts s ev out acc lost keyed" and run: "ws_run f m acts socket_new = Some s"
    and running: "connect_task s = ConnectRunning"
  shows "\<exists>ev' out'. run_inv f m (acts @ [ConnectFinish outcome]) (connect_finish f m outcome s) ev' out' acc lost keyed"
proof (cases outcome)
  case (Established leftover protocol extensions)
  let ?a = "ConnectFinish outcome" and ?s' = "connect_finish f m outcome s"
  have absent: "reader_task s = ReaderAbsent" "writer_task s = WriterAbsent" "run_reads acts = []" "run_leftover acts = []"
    using run_tasks_inv [OF run] running by (auto simp: tasks_inv_def)
  then have "ev = []" "out = []" using inv by (auto simp: run_inv_def reader_rel_def)
  moreover have "reader_rel f m (acts @ [?a]) ?s' [] []"
    using absent Established by (simp add: reader_rel_def connect_finish_def run_decoded_def)
  ultimately have "run_inv f m (acts @ [?a]) ?s' [] [] acc lost keyed"
    using inv absent Established run_accepted_snoc [OF run, of ?a]
    by (auto simp: run_inv_def wire_rel_def in_flight_def connect_finish_def push_events_def)
  then show ?thesis by blast
next
  case (ConnectRefused reason)
  then have "run_inv f m (acts @ [ConnectFinish outcome]) (connect_finish f m outcome s) ev out acc lost keyed"
    by (intro run_inv_quiet [OF inv run]) (simp_all add: connect_finish_def push_events_def in_flight_def all_events_def)
  then show ?thesis by blast
qed

lemma run_inv_step:
  assumes inv: "run_inv f m acts s ev out acc lost keyed" and run: "ws_run f m acts socket_new = Some s"
    and step: "ws_step f m a s = Some s'"
  shows "\<exists>ev' out' acc' lost' keyed'. run_inv f m (acts @ [a]) s' ev' out' acc' lost' keyed'"
proof (cases a)
  case (JsSend data)
  then show ?thesis using run_inv_page [OF inv run step] by blast
next
  case (JsClose code reason)
  then show ?thesis using run_inv_page [OF inv run step] by blast
next
  case (ConnectFinish outcome)
  then show ?thesis using run_inv_connected [OF inv run, of outcome] step by (simp split: if_splits) blast
next
  case ReaderDrain
  then show ?thesis using run_inv_reader_drain [OF inv run] step by (simp split: ReaderTask.splits if_splits) blast
next
  case (ReaderRead read)
  then show ?thesis using run_inv_reader_read [OF inv run, of _ _ read] step by (simp split: ReaderTask.splits) blast
next
  case (WriterFailed mkey n)
  then show ?thesis using run_inv_writer_failed [OF inv run] step by (simp split: WriterTask.splits if_splits) blast
next
  case ConnectStart
  then have "run_inv f m (acts @ [a]) s' ev out acc lost keyed"
    using step by (intro run_inv_quiet [OF inv run]) (auto simp: connect_start_def push_events_def in_flight_def all_events_def split: if_splits)
  then show ?thesis by blast
next
  case DispatchDrain
  then have "run_inv f m (acts @ [a]) s' ev out acc lost keyed"
    using step by (intro run_inv_quiet [OF inv run]) (auto simp: drain_events_def in_flight_def all_events_def split: if_splits)
  then show ?thesis by blast
next
  case DispatchOne
  then have "run_inv f m (acts @ [a]) s' ev out acc lost keyed"
    using step by (intro run_inv_quiet [OF inv run]) (auto simp: dispatch_one_def in_flight_def all_events_def split: list.splits)
  then show ?thesis by blast
next
  case WriterTake
  then have "run_inv f m (acts @ [a]) s' ev out acc lost keyed"
    using step by (intro run_inv_quiet [OF inv run])
      (auto simp: writer_take_def in_flight_def all_events_def split: list.splits WriterTask.splits)
  then show ?thesis by blast
next
  case (WriterWrote mkey)
  then show ?thesis using run_inv_wrote [OF inv run] step by (simp split: WriterTask.splits if_splits) blast
next
  case WriterEnd
  then have "run_inv f m (acts @ [a]) s' ev out acc lost keyed"
    using step by (intro run_inv_quiet [OF inv run]) (auto simp: in_flight_def all_events_def split: if_splits)
  then show ?thesis by blast
next
  case DriverEnd
  then have "run_inv f m (acts @ [a]) s' ev out acc lost keyed"
    using step by (intro run_inv_quiet [OF inv run]) (auto simp: in_flight_def all_events_def split: if_splits)
  then show ?thesis by blast
qed

lemma run_has_inv: "ws_run f m acts socket_new = Some s \<Longrightarrow> \<exists>ev out acc lost keyed. run_inv f m acts s ev out acc lost keyed"
proof (induction rule: ws_run_induct)
  case start
  have "run_inv f m [] socket_new [] [] [] [] []"
    by (simp add: run_inv_def wire_rel_def cut_off_def reader_rel_def socket_new_def all_events_def in_flight_def)
  then show ?case by blast
next
  case (step as a s s')
  then show ?case using run_inv_step by blast
qed

subsection \<open>A close is the last frame of the page\<close>

fun is_open :: "WsEvent \<Rightarrow> bool" where
  "is_open (OpenEvent protocol extensions) = True"
| "is_open _ = False"

definition data_then_close :: "WsFrame list \<Rightarrow> bool" where
  "data_then_close frames \<longleftrightarrow> (\<exists>ds cs. frames = ds @ cs \<and> list_all is_data ds \<and> (cs = [] \<or> (\<exists>code reason. cs = [SendClose code reason])))"

definition close_inv :: "WsFrame list \<Rightarrow> Socket \<Rightarrow> bool" where
  "close_inv acc s \<longleftrightarrow>
     (ready_state s = WsOpen \<longrightarrow> filter is_open (dispatched s) \<noteq> []) \<and>
     length (filter is_open (all_events s)) \<le> 1 \<and>
     (connect_task s \<noteq> ConnectDone \<longrightarrow> filter is_open (all_events s) = []) \<and>
     (if ready_state s = WsOpen then list_all is_data acc
      else data_then_close acc \<and> (\<not> list_all is_data acc \<longrightarrow> filter is_open (dispatched s) \<noteq> []))"

lemma drain_frames_all:
  assumes handled: "\<And>frame. list_all P (fst (handle_frame_plain frame)) \<and> list_all Q (fst (snd (handle_frame_plain frame)))"
    and failed: "\<And>e. list_all P (fail_events e)"
  shows "list_all P (loop_events (drain_frames r buf)) \<and> list_all Q (loop_outbound (drain_frames r buf))"
proof (induction r buf rule: drain_frames.induct)
  case (1 r buf)
  obtain x r' where step: "decode_step r buf = (x, r')" by (cases "decode_step r buf")
  show ?case
  proof (cases x)
    case (Inl e)
    then show ?thesis using step failed by (simp add: drain_frames.simps [of r buf])
  next
    case (Inr y)
    show ?thesis
    proof (cases y)
      case (StepFrame frame n)
      obtain ev out cont where h: "handle_frame_plain frame = (ev, out, cont)" by (cases "handle_frame_plain frame")
      then show ?thesis
        using "1.IH"(1) [OF step [symmetric] Inr StepFrame h [symmetric] refl] step Inr StepFrame handled [of frame]
        by (cases cont) (simp_all add: drain_frames.simps [of r buf])
    next
      case (NeedMoreContinuation n)
      then show ?thesis
        using "1.IH"(2) [OF step [symmetric] Inr NeedMoreContinuation] step Inr by (simp add: drain_frames.simps [of r buf])
    next
      case NeedMoreBytes
      then show ?thesis using step Inr by (simp add: drain_frames.simps [of r buf])
    qed
  qed
qed

lemma drain_no_open: "filter is_open (loop_events (drain_frames r buf)) = []"
proof -
  have "list_all (\<lambda>e. \<not> is_open e) (fst (handle_frame_plain frame)) \<and>
      list_all (\<lambda>_. True) (fst (snd (handle_frame_plain frame)))" for frame
    by (cases frame) simp_all
  then have "list_all (\<lambda>e. \<not> is_open e) (loop_events (drain_frames r buf))"
    using drain_frames_all [of "\<lambda>e. \<not> is_open e" "\<lambda>_. True" r buf] by (simp add: fail_events_def)
  then show ?thesis by (auto simp: list_all_iff filter_empty_conv)
qed

lemma data_then_close_snoc:
  "list_all is_data acc \<Longrightarrow> data_then_close acc" "list_all is_data acc \<Longrightarrow> data_then_close (acc @ [SendClose code reason])"
  by (auto simp: data_then_close_def)

lemma close_inv_page:
  assumes inv: "close_inv acc s" and step: "ws_step f m a s = Some s'" and a: "a = JsSend data \<or> a = JsClose code reason"
  shows "close_inv (acc @ action_accepted a s) s'"
  using a
proof
  assume a: "a = JsSend data"
  from step [unfolded a] show ?thesis
  proof (cases rule: js_send_cases)
    case (accepted frame)
    then show ?thesis using inv a by (auto simp: close_inv_def sendable_def page_defs all_events_def)
  qed (use inv a in \<open>auto simp: close_inv_def all_events_def\<close>)
next
  assume a: "a = JsClose code reason"
  from step [unfolded a] show ?thesis
  proof (cases rule: js_close_cases)
    case (accepted r)
    then show ?thesis using inv a by (auto simp: close_inv_def page_defs all_events_def data_then_close_snoc)
  qed (use inv a in \<open>auto simp: close_inv_def page_defs all_events_def data_then_close_snoc\<close>)
qed

text \<open>A turn of another party that adds no open event and leaves the ready state.\<close>

lemma close_inv_quiet:
  assumes "close_inv acc s" "ready_state s' = ready_state s" "dispatched s' = dispatched s"
    and "filter is_open (all_events s') = filter is_open (all_events s)"
    and "connect_task s' \<noteq> ConnectDone \<longrightarrow> connect_task s \<noteq> ConnectDone"
  shows "close_inv acc s'"
  using assms by (auto simp: close_inv_def)

lemma close_inv_dispatch:
  assumes inv: "close_inv acc s" and d: "dispatching s = ev # evs"
  shows "close_inv acc (dispatch_one ev (s\<lparr>dispatching := evs\<rparr>))"
  using inv d by (cases ev) (auto simp: close_inv_def dispatch_one_def all_events_def data_then_close_snoc split: if_splits)

lemma close_inv_step:
  assumes inv: "close_inv acc s" and step: "ws_step f m a s = Some s'"
  shows "close_inv (acc @ action_accepted a s) s'"
proof (cases a)
  case (JsSend data)
  then show ?thesis using close_inv_page [OF inv step] by blast
next
  case (JsClose code reason)
  then show ?thesis using close_inv_page [OF inv step] by blast
next
  case DispatchOne
  then show ?thesis using close_inv_dispatch [OF inv] step by (auto split: list.splits)
next
  case (ConnectFinish outcome)
  then show ?thesis using inv step
    by (cases outcome) (auto simp: close_inv_def connect_finish_def push_events_def all_events_def split: if_splits)
next
  case ReaderDrain
  then show ?thesis using step drain_no_open
    by (auto intro!: close_inv_quiet [OF inv] simp: reader_drain_def Let_def channel_send_def push_events_def all_events_def
      split: ReaderTask.splits option.splits if_splits)
next
  case (ReaderRead read)
  then show ?thesis using step
    by (cases read) (auto intro!: close_inv_quiet [OF inv] simp: task_defs fail_events_def all_events_def
      split: ReaderTask.splits if_splits)
qed (use step in \<open>auto intro!: close_inv_quiet [OF inv] simp: task_defs Let_def fail_events_def all_events_def
  split: if_splits WriterTask.splits list.splits option.splits\<close>)

lemma run_close_inv: "ws_run f m acts socket_new = Some s \<Longrightarrow> close_inv (run_accepted f m acts socket_new) s"
proof (induction rule: ws_run_induct)
  case start
  show ?case by (simp add: close_inv_def socket_new_def all_events_def data_then_close_def)
next
  case (step as a s s')
  then show ?case using close_inv_step [of "run_accepted f m as socket_new" s f m a s'] by (simp add: run_accepted_snoc)
qed

subsection \<open>The buffered amount\<close>

definition pending_bytes :: "Socket \<Rightarrow> nat" where
  "pending_bytes s = sum_list (map frame_size (in_flight s @ channel s @ send_queue s))"

definition socket_failed :: "Socket \<Rightarrow> bool" where
  "socket_failed s \<longleftrightarrow> list_ex is_error (all_events s)"

fun plain_data :: "WsAction \<Rightarrow> bool" where
  "plain_data (JsSend (DataOther b)) = False"
| "plain_data _ = True"

definition amount_inv :: "Socket \<Rightarrow> bool" where
  "amount_inv s \<longleftrightarrow> buffered_amount s \<le> MAX_BUFFERED_AMOUNT \<and> (\<not> socket_failed s \<longrightarrow> buffered_amount s = pending_bytes s)"

lemma frame_effect_amount: "snd (frame_effect frame b) = (if is_data frame then Some (frame_size frame) else None)"
  by (cases frame) (simp_all add: frame_effect_def)

lemma frame_size_control: "\<not> is_data frame \<Longrightarrow> frame_size frame = 0"
  by (cases frame) simp_all

lemma outbound_sizes: "sum_list (map frame_size (loop_outbound (drain_frames r buf))) = 0"
proof -
  have "list_all (\<lambda>_. True) (fst (handle_frame_plain frame)) \<and>
      list_all (\<lambda>x. frame_size x = 0) (fst (snd (handle_frame_plain frame)))" for frame
    by (cases frame) simp_all
  then have "list_all (\<lambda>x. frame_size x = 0) (loop_outbound (drain_frames r buf))"
    using drain_frames_all [of "\<lambda>_. True" "\<lambda>x. frame_size x = 0" r buf] by (simp add: fail_events_def)
  then show ?thesis by (simp add: list_all_iff)
qed

lemma amount_flush:
  assumes "tasks_inv acts s" "writer_task s1 = writer_task s" "send_tx s1 = send_tx s"
  shows "pending_bytes (flush_v8_send_queue s1) = pending_bytes s1"
    "buffered_amount (flush_v8_send_queue s1) = buffered_amount s1" "all_events (flush_v8_send_queue s1) = all_events s1"
  using assms by (auto simp: tasks_inv_def flush_v8_send_queue_def channel_send_def pending_bytes_def in_flight_def)

lemma saturating_within: "amount_saturating_add b n \<le> MAX_BUFFERED_AMOUNT \<Longrightarrow> amount_saturating_add b n = b + n"
  by (simp add: amount_saturating_add_def MAX_BUFFERED_AMOUNT_def min_def split: if_splits)

lemma estimate_is_size: "plain_data (JsSend data) \<Longrightarrow> data_frame data = Some frame \<Longrightarrow> estimate_send_bytes data = frame_size frame"
  by (cases data) auto

lemma amount_inv_page:
  assumes inv: "amount_inv s" "tasks_inv acts s" and step: "ws_step f m a s = Some s'" and plain: "plain_data a"
    and a: "a = JsSend data \<or> a = JsClose code reason"
  shows "amount_inv s'"
  using a
proof
  assume a: "a = JsSend data"
  from step [unfolded a] show ?thesis
  proof (cases rule: js_send_cases)
    case (accepted frame)
    have size: "estimate_send_bytes data = frame_size frame" using plain a accepted(1) estimate_is_size by simp
    let ?s1 = "enqueue frame s"
    have "amount_saturating_add (buffered_amount s) (frame_size frame) \<le> MAX_BUFFERED_AMOUNT"
      using accepted(2) size by (simp add: sendable_def)
    then have "buffered_amount ?s1 = buffered_amount s + frame_size frame" "buffered_amount ?s1 \<le> MAX_BUFFERED_AMOUNT"
      using saturating_within by (simp_all add: enqueue_def)
    moreover have "pending_bytes ?s1 = pending_bytes s + frame_size frame" "all_events ?s1 = all_events s"
      by (simp_all add: enqueue_def pending_bytes_def in_flight_def)
    moreover have "writer_task ?s1 = writer_task s" "send_tx ?s1 = send_tx s" by (simp_all add: enqueue_def)
    ultimately show ?thesis using inv(1) unfolding accepted(5) amount_inv_def socket_failed_def
      by (simp add: amount_flush [OF inv(2), of ?s1])
  qed (use inv in \<open>simp_all add: amount_inv_def socket_failed_def pending_bytes_def in_flight_def\<close>)
next
  assume a: "a = JsClose code reason"
  from step [unfolded a] show ?thesis
  proof (cases rule: js_close_cases)
    case (accepted r)
    let ?s1 = "s\<lparr>ready_state := WsClosing, send_queue := send_queue s @ [SendClose code r]\<rparr>"
    have "pending_bytes ?s1 = pending_bytes s" by (simp add: pending_bytes_def in_flight_def)
    then show ?thesis using inv(1) accepted amount_flush [OF inv(2), of ?s1] by (simp add: amount_inv_def socket_failed_def)
  qed (use inv in \<open>simp_all add: amount_inv_def socket_failed_def pending_bytes_def in_flight_def page_defs\<close>)
qed

lemma amount_inv_failed: "socket_failed s \<Longrightarrow> buffered_amount s = 0 \<Longrightarrow> amount_inv s"
  by (simp add: amount_inv_def)

lemma amount_inv_quiet:
  assumes "amount_inv s" "buffered_amount s' = buffered_amount s" "socket_failed s \<longrightarrow> socket_failed s'"
    and "pending_bytes s' = pending_bytes s"
  shows "amount_inv s'"
  using assms by (auto simp: amount_inv_def)

lemma amount_inv_wrote:
  assumes inv: "amount_inv s" and w: "writer_task s = Writing frame"
  shows "amount_inv (writer_wrote mkey frame s)"
proof -
  let ?s' = "writer_wrote mkey frame s"
  have "buffered_amount ?s' = buffered_amount s - frame_size frame" "all_events ?s' = all_events s"
    by (simp_all add: writer_wrote_eq frame_effect_amount Let_def decrement_buffered_amount_def frame_size_control)
  moreover have "pending_bytes ?s' + frame_size frame = pending_bytes s"
    using w by (simp add: writer_wrote_eq frame_effect_amount Let_def decrement_buffered_amount_def pending_bytes_def in_flight_def)
  ultimately show ?thesis using inv by (auto simp: amount_inv_def socket_failed_def)
qed

lemma amount_inv_drain:
  assumes inv: "amount_inv s"
  shows "amount_inv (reader_drain r buf s)"
proof (cases "loop_state (drain_frames r buf) = None \<and> list_ex is_error (loop_events (drain_frames r buf))")
  case True
  then show ?thesis
    by (intro amount_inv_failed) (auto simp: reader_drain_def Let_def channel_send_def push_events_def socket_failed_def)
next
  case False
  then show ?thesis using outbound_sizes [of r buf]
    by (intro amount_inv_quiet [OF inv]) (auto simp: reader_drain_def Let_def channel_send_def push_events_def
      socket_failed_def pending_bytes_def in_flight_def split: option.splits)
qed

lemma amount_inv_step:
  assumes inv: "amount_inv s" "tasks_inv acts s" and step: "ws_step f m a s = Some s'" and plain: "plain_data a"
  shows "amount_inv s'"
proof (cases a)
  case (JsSend data)
  then show ?thesis using amount_inv_page [OF inv step plain] by blast
next
  case (JsClose code reason)
  then show ?thesis using amount_inv_page [OF inv step plain] by blast
next
  case ReaderDrain
  then show ?thesis using step amount_inv_drain [OF inv(1)] by (auto split: ReaderTask.splits if_splits)
next
  case (ReaderRead read)
  show ?thesis
  proof (cases "read = ReadErr \<or> read = ReadOk []")
    case True
    then show ?thesis using ReaderRead step
      by (intro amount_inv_failed) (auto simp: reader_read_def fail_connection_def push_events_def fail_events_def socket_failed_def
        split: ReaderTask.splits)
  next
    case False
    then show ?thesis using ReaderRead step
      by (intro amount_inv_quiet [OF inv(1)]) (auto simp: reader_read_def pending_bytes_def in_flight_def socket_failed_def
        split: ReaderTask.splits ReadResult.splits)
  qed
next
  case (WriterWrote mkey)
  then show ?thesis using step amount_inv_wrote [OF inv(1)] by (auto split: WriterTask.splits if_splits)
next
  case (WriterFailed mkey n)
  then show ?thesis using step
    by (intro amount_inv_failed) (auto simp: writer_failed_def fail_connection_def push_events_def fail_events_def socket_failed_def all_events_def
      split: WriterTask.splits if_splits)
next
  case (ConnectFinish outcome)
  then have "writer_task s = WriterAbsent" using inv(2) step by (auto simp: tasks_inv_def split: if_splits)
  then show ?thesis using ConnectFinish step
    by (cases outcome) (intro amount_inv_quiet [OF inv(1)]; auto simp: connect_finish_def push_events_def pending_bytes_def
      in_flight_def socket_failed_def all_events_def split: if_splits)+
qed (use step in \<open>auto intro!: amount_inv_quiet [OF inv(1)] simp: connect_start_def drain_events_def dispatch_one_def writer_take_def
  push_events_def pending_bytes_def in_flight_def socket_failed_def all_events_def split: if_splits WriterTask.splits list.splits\<close>)

lemma run_amount_inv:
  "ws_run f m acts socket_new = Some s \<Longrightarrow> list_all plain_data acts \<Longrightarrow> amount_inv s"
proof (induction rule: ws_run_induct)
  case start
  show ?case by (simp add: amount_inv_def socket_new_def pending_bytes_def in_flight_def MAX_BUFFERED_AMOUNT_def)
next
  case (step as a s s')
  then show ?case using amount_inv_step [of s as f m a s'] run_tasks_inv [of f m as s] by simp
qed

subsection \<open>Properties\<close>

text \<open>A socket right after the handshake, with its open event dispatched.\<close>

definition open_acts :: "WsAction list" where
  "open_acts = [ConnectStart, ConnectFinish (Established [] [] []), DispatchDrain, DispatchOne]"

definition open_socket :: Socket where
  "open_socket = socket_new\<lparr>ready_state := WsOpen, dispatched := [OpenEvent [] []], send_tx := True, connect_task := ConnectDone,
     reader_task := ReaderTop (frame_reader_new 64 128) [], writer_task := WriterIdle\<rparr>"

lemma ws_run_append: "ws_run f m (as @ bs) s = (case ws_run f m as s of None \<Rightarrow> None | Some s' \<Rightarrow> ws_run f m bs s')"
  by (induction as arbitrary: s) (auto split: option.splits)

lemma run_open_acts: "ws_run 64 128 (open_acts @ acts) socket_new = ws_run 64 128 acts open_socket"
  by (simp add: ws_run_append open_acts_def open_socket_def socket_new_def connect_start_def connect_finish_def push_events_def
    drain_events_def dispatch_one_def)

text \<open>\<^bold>\<open>C13\<close> The page sees the messages of the server and nothing else. In every run, whatever the turns of
  the page, the pump, the reader and the writer and however reads and writes fail, the message events dispatched, being
  dispatched and queued are together a beginning of the messages the reader loop decodes from the bytes after the
  handshake and the bytes read, in order; and they are all of them whenever the reader is not about to look at new bytes.\<close>

theorem page_sees_what_was_decoded:
  assumes "ws_run f m acts socket_new = Some s"
  shows "prefix (messages (all_events s)) (messages (loop_events (run_decoded f m acts))) \<and>
    ((\<exists>r buf. reader_task s = ReaderReading r buf) \<or> reader_task s = ReaderDone \<longrightarrow>
      messages (all_events s) = messages (loop_events (run_decoded f m acts)))"
proof -
  obtain ev out acc lost keyed where "run_inv f m acts s ev out acc lost keyed" using run_has_inv [OF assms] by blast
  then have "reader_rel f m acts s ev out" "messages (all_events s) = messages ev" by (auto simp: run_inv_def)
  then show ?thesis by (auto simp: reader_rel_def split: ReaderTask.splits)
qed

lemma page_sees_what_was_decoded_witness:
  "\<exists>s. ws_run 64 128 (open_acts @ [ReaderDrain, ReaderRead (ReadOk [0x81, 0x02, 0x68, 0x69]), ReaderDrain]) socket_new = Some s \<and>
    messages (all_events s) = [MessageText [0x68, 0x69]]"
proof -
  let ?acts = "[ReaderDrain, ReaderRead (ReadOk [0x81, 0x02, 0x68, 0x69]), ReaderDrain]"
  let ?s = "open_socket\<lparr>ws_events := [MessageText [0x68, 0x69]], reader_task := ReaderReading (frame_reader_new 64 128) []\<rparr>"
  have run: "ws_run 64 128 (open_acts @ ?acts) socket_new = Some ?s" unfolding run_open_acts by code_simp
  have "messages (all_events ?s) = messages (loop_events (run_decoded 64 128 (open_acts @ ?acts)))"
    using page_sees_what_was_decoded [OF run] by simp
  also have "\<dots> = [MessageText [0x68, 0x69]]" by code_simp
  finally show ?thesis using run by blast
qed

text \<open>What goes onto the wire is stated for runs in which the page sends no blob: the writer drops blobs.\<close>

fun is_blob :: "WsFrame \<Rightarrow> bool" where
  "is_blob (SendBlob n) = True"
| "is_blob _ = False"

fun sends_blob :: "WsAction \<Rightarrow> bool" where
  "sends_blob (JsSend (DataBlob n)) = True"
| "sends_blob _ = False"

lemma no_blob_accepted:
  "list_all (\<lambda>a. \<not> sends_blob a) acts \<Longrightarrow> list_all (\<lambda>x. \<not> is_blob x) (run_accepted f m acts s)"
proof (induction acts arbitrary: s)
  case (Cons a as)
  have "list_all (\<lambda>x. \<not> is_blob x) (action_accepted a s)"
  proof (cases a)
    case (JsSend data)
    then show ?thesis using Cons.prems by (cases data) (auto split: option.splits)
  qed auto
  then show ?case using Cons by (auto split: option.splits)
qed simp

text \<open>\<^bold>\<open>C14\<close> The wire carries what the page sent. In every run in which the page sends no blob, the bytes on the
  wire are the serialisations of a sequence of frames, each under a key of four bytes, and after them, only once a write has
  failed, a strict prefix of the serialisation of the next frame. Those frames, followed by the frame being written, the
  channel and the send queue while the writer runs, are an interleaving of two sequences, each complete and in order: the
  frames \<open>send\<close> and \<open>close\<close> accepted, and a beginning of the answers the reader loop gives to the bytes read. What the page
  had accepted is data frames, and after them at most one close frame.\<close>

theorem wire_carries_what_was_accepted:
  assumes "ws_run f m acts socket_new = Some s" "list_all (\<lambda>a. \<not> sends_blob a) acts"
  shows "data_then_close (run_accepted f m acts socket_new) \<and> list_all (\<lambda>x. \<not> is_blob x) (run_accepted f m acts socket_new) \<and>
    (\<exists>keyed part rest replies. wire s = write_frames keyed @ part \<and> list_all (\<lambda>(mkey, frame). length mkey = 4) keyed \<and>
      map snd keyed @ rest \<in> shuffles (run_accepted f m acts socket_new) replies \<and>
      prefix replies (loop_outbound (run_decoded f m acts)) \<and> cut_off part rest \<and>
      (writer_task s \<noteq> WriterDone \<longrightarrow> part = [] \<and> rest = in_flight s @ channel s @ send_queue s))"
proof (intro conjI)
  show "data_then_close (run_accepted f m acts socket_new)"
    using run_close_inv [OF assms(1)] by (auto simp: close_inv_def data_then_close_snoc split: if_splits)
  show "list_all (\<lambda>x. \<not> is_blob x) (run_accepted f m acts socket_new)" by (rule no_blob_accepted [OF assms(2)])
  obtain ev out acc lost keyed where inv: "run_inv f m acts s ev out acc lost keyed" using run_has_inv [OF assms(1)] by blast
  then obtain part where part: "wire s = write_frames keyed @ part" "cut_off part lost" "writer_task s \<noteq> WriterDone \<longrightarrow> part = []"
      "list_all (\<lambda>(mkey, frame). length mkey = 4) keyed"
    by (auto simp: run_inv_def wire_rel_def)
  let ?rest = "in_flight s @ channel s @ lost @ send_queue s"
  have "(map snd keyed @ in_flight s @ channel s @ lost) @ send_queue s \<in> shuffles (run_accepted f m acts socket_new) out"
    using inv shuffles_append_left [of "map snd keyed @ in_flight s @ channel s @ lost" acc out "send_queue s"]
    by (auto simp: run_inv_def)
  moreover have "prefix out (loop_outbound (run_decoded f m acts))"
    using inv by (auto simp: run_inv_def reader_rel_def split: ReaderTask.splits)
  moreover have "cut_off part ?rest"
  proof (cases "writer_task s = WriterDone")
    case True
    then have "in_flight s = []" "channel s = []" using run_tasks_inv [OF assms(1)] by (auto simp: tasks_inv_def in_flight_def)
    then show ?thesis using part(2) by (simp add: cut_off_append)
  qed (use part(3) in \<open>simp add: cut_off_def\<close>)
  ultimately show "\<exists>keyed part rest replies. wire s = write_frames keyed @ part \<and> list_all (\<lambda>(mkey, frame). length mkey = 4) keyed \<and>
      map snd keyed @ rest \<in> shuffles (run_accepted f m acts socket_new) replies \<and>
      prefix replies (loop_outbound (run_decoded f m acts)) \<and> cut_off part rest \<and>
      (writer_task s \<noteq> WriterDone \<longrightarrow> part = [] \<and> rest = in_flight s @ channel s @ send_queue s)"
    using inv part by (intro exI [of _ keyed] exI [of _ part] exI [of _ ?rest] exI [of _ out]) (auto simp: run_inv_def)
qed

lemma sendable_small: "buffered_amount s = 0 \<Longrightarrow> ready_state s = WsOpen \<Longrightarrow> \<not> send_full s \<Longrightarrow> estimate_send_bytes data \<le> 1024 \<Longrightarrow>
    sendable data s"
  by (simp add: sendable_def amount_saturating_add_def MAX_BUFFERED_AMOUNT_def)

lemmas send_evaluation = open_socket_def socket_new_def ws_send_def sendable_small queue_text_def queue_blob_def flush_v8_send_queue_def
  channel_send_def amount_saturating_add_def MAX_BUFFERED_AMOUNT_def writer_take_def writer_wrote_eq writer_failed_def
  fail_connection_def push_events_def frame_effect_def decrement_buffered_amount_def in_flight_def

text \<open>A text goes out whole, and of the next one three bytes before the write fails.\<close>

definition half_sent :: "WsAction list" where
  "half_sent = [JsSend (DataString [0x68]), JsSend (DataString [0x69]), WriterTake, WriterWrote [1, 2, 3, 4], WriterTake,
     WriterFailed [5, 6, 7, 8] 3]"

lemma wire_carries_what_was_accepted_witness:
  "\<exists>s. ws_run 64 128 (open_acts @ half_sent) socket_new = Some s \<and> wire s = [0x81, 0x81, 1, 2, 3, 4, 0x69, 0x81, 0x81, 5] \<and>
    data_then_close (run_accepted 64 128 (open_acts @ half_sent) socket_new)"
proof -
  have bytes: "fst (write_frame [1, 2, 3, 4] (SendText [0x68]) False) = [0x81, 0x81, 1, 2, 3, 4, 0x69]"
    "take 3 (fst (write_frame [5, 6, 7, 8] (SendText [0x69]) False)) = [0x81, 0x81, 5]"
    "length (fst (write_frame [5, 6, 7, 8] (SendText [0x69]) False)) = 7" by code_simp+
  have "map_option wire (ws_run 64 128 (open_acts @ half_sent) socket_new) = Some [0x81, 0x81, 1, 2, 3, 4, 0x69, 0x81, 0x81, 5]"
    unfolding run_open_acts half_sent_def using bytes by (simp add: send_evaluation)
  then obtain s where s: "ws_run 64 128 (open_acts @ half_sent) socket_new = Some s"
      "wire s = [0x81, 0x81, 1, 2, 3, 4, 0x69, 0x81, 0x81, 5]" by auto
  have "list_all (\<lambda>a. \<not> sends_blob a) (open_acts @ half_sent)" by (simp add: open_acts_def half_sent_def)
  from wire_carries_what_was_accepted [OF s(1) this] s show ?thesis by blast
qed

text \<open>\<^bold>\<open>C25\<close> The buffered amount is exact and capped. In every run in which \<open>send\<close> is given strings, blobs,
  buffers and views, the buffered amount never exceeds 16 MiB, and until the connection fails it is exactly the number of
  bytes of the frames that are queued, in the channel or being written.\<close>

theorem buffered_amount_is_exact_and_capped:
  assumes "ws_run f m acts socket_new = Some s" "list_all plain_data acts"
  shows "buffered_amount s \<le> MAX_BUFFERED_AMOUNT \<and> (\<not> socket_failed s \<longrightarrow> buffered_amount s = pending_bytes s)"
  using run_amount_inv [OF assms] by (simp add: amount_inv_def)

lemma buffered_amount_is_exact_and_capped_witness:
  "\<exists>s. ws_run 64 128 (open_acts @ [JsSend (DataString [0x68])]) socket_new = Some s \<and>
    buffered_amount s = 1 \<and> buffered_amount s \<le> MAX_BUFFERED_AMOUNT \<and> pending_bytes s = 1"
proof -
  let ?s = "open_socket\<lparr>channel := [SendText [0x68]], buffered_amount := 1\<rparr>"
  have run: "ws_run 64 128 (open_acts @ [JsSend (DataString [0x68])]) socket_new = Some ?s"
    unfolding run_open_acts
    by (simp add: open_socket_def socket_new_def ws_send_def queue_text_def flush_v8_send_queue_def channel_send_def
      amount_saturating_add_def MAX_BUFFERED_AMOUNT_def)
  have "list_all plain_data (open_acts @ [JsSend (DataString [0x68])])" by (simp add: open_acts_def)
  from buffered_amount_is_exact_and_capped [OF run this] have "buffered_amount ?s \<le> MAX_BUFFERED_AMOUNT"
    "\<not> socket_failed ?s \<longrightarrow> buffered_amount ?s = pending_bytes ?s" by blast+
  moreover have "\<not> socket_failed ?s" by (simp add: socket_failed_def all_events_def open_socket_def socket_new_def)
  ultimately show ?thesis using run by auto
qed

subsection \<open>Where the socket and its comments part\<close>

text \<open>A close while connecting does not stop the connection: once the connect task has passed its only test of the
  cancel flag, the handshake goes on and its open event opens the socket the page has closed.\<close>

lemma close_while_connecting_can_open:
  "map_option (\<lambda>s. (ready_state s, ws_cancel s, send_tx s))
     (ws_run 64 128 [ConnectStart, JsClose None None, ConnectFinish (Established [] [] []), DispatchDrain, DispatchOne] socket_new) =
   Some (WsOpen, True, True)"
  by code_simp

text \<open>The page closes, the server answers with its close frame, and a second close frame goes out.\<close>

lemma local_close_is_answered_twice:
  "map_option wire (ws_run 64 128
     (open_acts @ [JsClose None None, WriterTake, WriterWrote [1, 2, 3, 4], ReaderDrain,
       ReaderRead (ReadOk [0x88, 0x00]), ReaderDrain, WriterTake, WriterWrote [5, 6, 7, 8]]) socket_new) =
   Some (write_frames [([1, 2, 3, 4], SendClose None []), ([5, 6, 7, 8], SendClose None [])])"
  unfolding run_open_acts by code_simp

text \<open>A blob is accepted and counted, and the writer takes it off the amount without a byte on the wire.\<close>

lemma blob_is_never_written:
  assumes "writer_task s = Writing (SendBlob n)" "length mkey = 4"
  shows "\<exists>s'. ws_step f m (WriterWrote mkey) s = Some s' \<and> wire s' = wire s \<and> writer_task s' = WriterIdle \<and>
    buffered_amount s' = buffered_amount s - n"
  using assms by (simp add: writer_wrote_def decrement_buffered_amount_def Let_def)

lemma blob_is_dropped:
  "map_option (\<lambda>s. (wire s, buffered_amount s)) (ws_run 64 128 (open_acts @ [JsSend (DataBlob 5)]) socket_new) = Some ([], 5)"
  "map_option (\<lambda>s. (wire s, buffered_amount s, in_flight s @ channel s @ send_queue s))
     (ws_run 64 128 (open_acts @ [JsSend (DataBlob 5), WriterTake, WriterWrote [1, 2, 3, 4]]) socket_new) = Some ([], 0, [])"
  unfolding run_open_acts by (simp_all add: send_evaluation)

text \<open>The server closes cleanly and the echo cannot be written: the page gets a second close event, after an error.\<close>

lemma close_event_fires_twice:
  "map_option dispatched (ws_run 64 128
     (open_acts @ [ReaderDrain, ReaderRead (ReadOk [0x88, 0x02, 0x03, 0xE8]), ReaderDrain, WriterTake, WriterFailed [1, 2, 3, 4] 0,
       DispatchDrain, DispatchOne, DispatchOne, DispatchOne]) socket_new) =
   Some [OpenEvent [] [], CloseEvent 1000 [] True, ErrorEvent WriteFailed, CloseEvent 1006 [] False]"
  unfolding run_open_acts by code_simp

text \<open>After a clean close by the server the socket itself keeps a sender of the channel, so the writer never ends and
  the stream is never shut down, unless a write fails.\<close>

definition lingering :: "Socket \<Rightarrow> bool" where
  "lingering s \<longleftrightarrow> reader_task s = ReaderDone \<and> send_tx s \<and> writer_task s \<noteq> WriterDone \<and> \<not> tcp_shut s \<and>
     ready_state s \<noteq> WsConnecting \<and> connect_task s = ConnectDone"

lemma lingering_step:
  assumes "lingering s" "ws_step f m a s = Some s'" "\<And>mkey n. a \<noteq> WriterFailed mkey n"
  shows "lingering s'"
proof (cases a)
  case (JsSend data)
  from assms(2) [unfolded JsSend] show ?thesis
    by (cases rule: js_send_cases) (use assms(1) in \<open>auto simp: lingering_def page_defs\<close>)
next
  case (JsClose code reason)
  from assms(2) [unfolded JsClose] show ?thesis
    by (cases rule: js_close_cases) (use assms(1) in \<open>auto simp: lingering_def page_defs\<close>)
next
  case DispatchOne
  obtain ev evs where "s' = dispatch_one ev (s\<lparr>dispatching := evs\<rparr>)" using assms(2) DispatchOne by (auto split: list.splits)
  then show ?thesis using assms(1) by (cases ev) (simp_all add: lingering_def dispatch_one_def)
qed (use assms in \<open>auto simp: lingering_def drain_events_def writer_take_def writer_wrote_eq decrement_buffered_amount_def Let_def
  split: if_splits WriterTask.splits list.splits option.splits\<close>)

lemma closed_socket_lingers:
  "lingering s \<Longrightarrow> (\<And>mkey n. WriterFailed mkey n \<notin> set acts) \<Longrightarrow> ws_run f m acts s = Some s' \<Longrightarrow> \<not> tcp_shut s' \<and> writer_task s' \<noteq> WriterDone"
proof (induction acts arbitrary: s)
  case Nil
  then show ?case by (auto simp: lingering_def)
next
  case (Cons a as)
  then show ?case using lingering_step [of s f m a] by (auto split: option.splits)
qed

lemma clean_close_lingers:
  "map_option lingering (ws_run 64 128
     (open_acts @ [ReaderDrain, ReaderRead (ReadOk [0x88, 0x00]), ReaderDrain, WriterTake, WriterWrote [1, 2, 3, 4],
       DispatchDrain, DispatchOne]) socket_new) = Some True"
  unfolding run_open_acts by code_simp

text \<open>One message over the cap on an idle socket: it is dropped, the full flag is set, and nothing is queued whose
  writing would clear the flag. As long as the connection lives, every later message is dropped.\<close>

definition wedged :: "Socket \<Rightarrow> bool" where
  "wedged s \<longleftrightarrow> send_full s \<and> list_all (\<lambda>x. \<not> is_data x) (in_flight s @ channel s @ send_queue s)"

lemma drain_outbound_control: "list_all (\<lambda>x. \<not> is_data x) (loop_outbound (drain_frames r buf))"
proof -
  have "list_all (\<lambda>_. True) (fst (handle_frame_plain frame)) \<and>
      list_all (\<lambda>x. \<not> is_data x) (fst (snd (handle_frame_plain frame)))" for frame
    by (cases frame) simp_all
  then show ?thesis using drain_frames_all [of "\<lambda>_. True" "\<lambda>x. \<not> is_data x" r buf] by (simp add: fail_events_def)
qed

lemma page_events:
  assumes "ws_step f m a s = Some s'" "a = JsSend data \<or> a = JsClose code reason"
  shows "all_events s' = all_events s"
  using assms(2)
proof
  assume "a = JsSend data"
  from assms(1) [unfolded this] show ?thesis
    by (cases rule: js_send_cases) (simp_all add: page_defs all_events_def)
next
  assume "a = JsClose code reason"
  from assms(1) [unfolded this] show ?thesis
    by (cases rule: js_close_cases) (simp_all add: page_defs all_events_def)
qed

lemma failed_step:
  assumes step: "ws_step f m a s = Some s'" and failed: "socket_failed s"
  shows "socket_failed s'"
proof (cases a)
  case (JsSend data)
  then show ?thesis using page_events [OF step] failed by (simp add: socket_failed_def)
next
  case (JsClose code reason)
  then show ?thesis using page_events [OF step] failed by (simp add: socket_failed_def)
qed (use assms in \<open>auto simp: socket_failed_def task_defs Let_def channel_send_def all_events_def
  split: if_splits ReaderTask.splits WriterTask.splits list.splits option.splits ConnectOutcome.splits ReadResult.splits\<close>)

lemma wedged_step:
  assumes "wedged s" "ws_step f m a s = Some s'" "\<not> socket_failed s'"
  shows "wedged s' \<and> list_all (\<lambda>x. \<not> is_data x) (action_accepted a s)"
proof (cases a)
  case (JsSend data)
  have "\<not> sendable data s" using assms(1) by (simp add: wedged_def sendable_def)
  from assms(2) [unfolded JsSend] show ?thesis
    by (cases rule: js_send_cases) (use assms(1) \<open>\<not> sendable data s\<close> JsSend in \<open>auto simp: wedged_def in_flight_def\<close>)
next
  case (JsClose code reason)
  from assms(2) [unfolded JsClose] show ?thesis
    by (cases rule: js_close_cases) (use assms(1) JsClose in \<open>auto simp: wedged_def in_flight_def page_defs\<close>)
next
  case ReaderDrain
  then show ?thesis using assms drain_outbound_control
    by (auto simp: wedged_def reader_drain_def Let_def channel_send_def push_events_def in_flight_def socket_failed_def
      split: ReaderTask.splits option.splits if_splits)
next
  case (ReaderRead read)
  then show ?thesis using assms
    by (cases read) (auto simp: wedged_def task_defs fail_events_def in_flight_def socket_failed_def
      split: ReaderTask.splits if_splits)
next
  case (WriterWrote mkey)
  then show ?thesis using assms(1,2)
    by (auto simp: wedged_def writer_wrote_eq frame_effect_amount in_flight_def Let_def split: WriterTask.splits if_splits)
next
  case (WriterFailed mkey n)
  then show ?thesis using assms
    by (auto simp: writer_failed_def fail_connection_def push_events_def fail_events_def socket_failed_def all_events_def
      split: WriterTask.splits if_splits)
next
  case (ConnectFinish outcome)
  then show ?thesis using assms(1,2)
    by (cases outcome) (auto simp: wedged_def connect_finish_def push_events_def in_flight_def split: if_splits WriterTask.splits)
qed (use assms(1,2) in \<open>auto simp: wedged_def connect_start_def drain_events_def dispatch_one_def push_events_def writer_take_def
  in_flight_def split: if_splits WriterTask.splits list.splits\<close>)

lemma wedged_socket_drops_everything:
  "wedged s \<Longrightarrow> ws_run f m acts s = Some s' \<Longrightarrow> \<not> socket_failed s' \<Longrightarrow> list_all (\<lambda>x. \<not> is_data x) (run_accepted f m acts s)"
proof (induction acts arbitrary: s)
  case (Cons a as)
  obtain s1 where s1: "ws_step f m a s = Some s1" "ws_run f m as s1 = Some s'" using Cons.prems(2) by (auto split: option.splits)
  have "socket_failed s1 \<Longrightarrow> socket_failed s'"
    using s1(2) by (induction as arbitrary: s1) (auto dest: failed_step split: option.splits)
  then have "\<not> socket_failed s1" using Cons.prems(3) by blast
  from wedged_step [OF Cons.prems(1) s1(1) this] show ?case using Cons.IH [OF _ s1(2) Cons.prems(3)] s1 by simp
qed simp

lemma oversized_send_wedges:
  "n > MAX_BUFFERED_AMOUNT \<Longrightarrow> ws_run 64 128 (open_acts @ [JsSend (DataBlob n)]) socket_new = Some (open_socket\<lparr>send_full := True\<rparr>)"
  "wedged (open_socket\<lparr>send_full := True\<rparr>)"
  unfolding run_open_acts
  by (simp_all add: wedged_def in_flight_def open_socket_def socket_new_def ws_send_def amount_saturating_add_def MAX_BUFFERED_AMOUNT_def)

text \<open>A value that has to be converted counts as nothing, so it passes the cap whatever its length.\<close>

lemma converted_value_passes_the_cap:
  assumes "length b < 2 ^ 64"
  shows "map_option buffered_amount (ws_run 64 128 (open_acts @ [JsSend (DataOther (Some b))]) socket_new) = Some (length b)"
  using assms unfolding run_open_acts
  by (simp add: open_socket_def socket_new_def ws_send_def queue_text_def flush_v8_send_queue_def channel_send_def
    amount_saturating_add_def MAX_BUFFERED_AMOUNT_def)

end
