(* ===== verification/AuthzPolicy.thy ===== *)
theory AuthzPolicy
  imports CronParse
begin

text \<open>
  The vocabulary of platform authorization and the wrapper policies of bearer tokens
  (\<^verbatim>\<open>crates/zeroship-authz/src/{action,scope,resource,statement,condition,policy,lower}.rs\<close>).

  Policies are evaluated by Cedar. The part of its language the platform uses is modelled: scopes with an action list and
  a resource constraint, conditions with \<^verbatim>\<open>&&\<close> and \<^verbatim>\<open>||\<close> in their short-circuit order, and the rule that an evaluation error
  skips a policy and is recorded. A wrapper policy is lowered to Cedar source, a text. Texts are their UTF-8 bytes, except
  the scope string of a token, which is split at the white space of its characters. Whether an address lies in a range, and
  whether the text of the range is one, is the business of Cedar's address type and an argument.
\<close>

subsection \<open>Actions and scopes\<close>

datatype AuthzAction =
    AppsRead | AppsWrite | AppsDeploy | AppsApproveMigration | AppsArchive | DatabaseRead | DatabaseWrite |
    DatabaseMigrate | DeploymentsRead | EnvRead | EnvWrite | SecretsRead | SecretsWrite | BillingRead |
    BillingWrite | OrganizationCreate | OrganizationRead | OrganizationWrite | OrganizationAdmin |
    OrganizationMembersRead | OrganizationMembersWrite | OrganizationMembersLeave | ProjectCreate |
    ProjectRead | ProjectWrite | ProjectMembersRead | ProjectMembersWrite | AccountRead | AccountWrite

fun cedar_id :: "AuthzAction \<Rightarrow> string" where
  "cedar_id AppsRead = ''apps:read''"
| "cedar_id AppsWrite = ''apps:write''"
| "cedar_id AppsDeploy = ''apps:deploy''"
| "cedar_id AppsApproveMigration = ''migrations:approve''"
| "cedar_id AppsArchive = ''apps:archive''"
| "cedar_id DatabaseRead = ''database:read''"
| "cedar_id DatabaseWrite = ''database:write''"
| "cedar_id DatabaseMigrate = ''database:migrate''"
| "cedar_id DeploymentsRead = ''deployments:read''"
| "cedar_id EnvRead = ''env:read''"
| "cedar_id EnvWrite = ''env:write''"
| "cedar_id SecretsRead = ''secrets:read''"
| "cedar_id SecretsWrite = ''secrets:write''"
| "cedar_id BillingRead = ''billing:read''"
| "cedar_id BillingWrite = ''billing:write''"
| "cedar_id OrganizationCreate = ''organization:create''"
| "cedar_id OrganizationRead = ''organization:read''"
| "cedar_id OrganizationWrite = ''organization:write''"
| "cedar_id OrganizationAdmin = ''organization:admin''"
| "cedar_id OrganizationMembersRead = ''organization:members:read''"
| "cedar_id OrganizationMembersWrite = ''organization:members:write''"
| "cedar_id OrganizationMembersLeave = ''organization:members:leave''"
| "cedar_id ProjectCreate = ''project:create''"
| "cedar_id ProjectRead = ''project:read''"
| "cedar_id ProjectWrite = ''project:write''"
| "cedar_id ProjectMembersRead = ''project:members:read''"
| "cedar_id ProjectMembersWrite = ''project:members:write''"
| "cedar_id AccountRead = ''account:read''"
| "cedar_id AccountWrite = ''account:write''"

definition all_actions :: "AuthzAction list" where
  "all_actions =
     [AppsRead, AppsWrite, AppsDeploy, AppsApproveMigration, AppsArchive, DatabaseRead, DatabaseWrite,
      DatabaseMigrate, DeploymentsRead, EnvRead, EnvWrite, SecretsRead, SecretsWrite, BillingRead, BillingWrite,
      OrganizationCreate, OrganizationRead, OrganizationWrite, OrganizationAdmin, OrganizationMembersRead,
      OrganizationMembersWrite, OrganizationMembersLeave, ProjectCreate, ProjectRead, ProjectWrite,
      ProjectMembersRead, ProjectMembersWrite, AccountRead, AccountWrite]"

definition from_wire :: "string \<Rightarrow> AuthzAction option" where
  "from_wire s = find (\<lambda>a. cedar_id a = s) all_actions"

datatype OAuthScope =
    ScopeAppsRead | ScopeAppsWrite | ScopeAppsDeploy | ScopeAppsArchive | ScopeDatabaseRead |
    ScopeDatabaseWrite | ScopeDatabaseMigrate | ScopeDeploymentsRead | ScopeEnvRead | ScopeEnvWrite |
    ScopeSecretsRead | ScopeSecretsWrite | ScopeBillingRead | ScopeBillingWrite | ScopeOrganizationCreate |
    ScopeOrganizationRead | ScopeOrganizationWrite | ScopeOrganizationAdmin | ScopeOrganizationMembersRead |
    ScopeOrganizationMembersWrite | ScopeOrganizationMembersLeave | ScopeProjectCreate | ScopeProjectRead |
    ScopeProjectWrite | ScopeProjectMembersRead | ScopeProjectMembersWrite | ScopeAccountRead |
    ScopeAccountWrite

fun scope_action :: "OAuthScope \<Rightarrow> AuthzAction" where
  "scope_action ScopeAppsRead = AppsRead"
| "scope_action ScopeAppsWrite = AppsWrite"
| "scope_action ScopeAppsDeploy = AppsDeploy"
| "scope_action ScopeAppsArchive = AppsArchive"
| "scope_action ScopeDatabaseRead = DatabaseRead"
| "scope_action ScopeDatabaseWrite = DatabaseWrite"
| "scope_action ScopeDatabaseMigrate = DatabaseMigrate"
| "scope_action ScopeDeploymentsRead = DeploymentsRead"
| "scope_action ScopeEnvRead = EnvRead"
| "scope_action ScopeEnvWrite = EnvWrite"
| "scope_action ScopeSecretsRead = SecretsRead"
| "scope_action ScopeSecretsWrite = SecretsWrite"
| "scope_action ScopeBillingRead = BillingRead"
| "scope_action ScopeBillingWrite = BillingWrite"
| "scope_action ScopeOrganizationCreate = OrganizationCreate"
| "scope_action ScopeOrganizationRead = OrganizationRead"
| "scope_action ScopeOrganizationWrite = OrganizationWrite"
| "scope_action ScopeOrganizationAdmin = OrganizationAdmin"
| "scope_action ScopeOrganizationMembersRead = OrganizationMembersRead"
| "scope_action ScopeOrganizationMembersWrite = OrganizationMembersWrite"
| "scope_action ScopeOrganizationMembersLeave = OrganizationMembersLeave"
| "scope_action ScopeProjectCreate = ProjectCreate"
| "scope_action ScopeProjectRead = ProjectRead"
| "scope_action ScopeProjectWrite = ProjectWrite"
| "scope_action ScopeProjectMembersRead = ProjectMembersRead"
| "scope_action ScopeProjectMembersWrite = ProjectMembersWrite"
| "scope_action ScopeAccountRead = AccountRead"
| "scope_action ScopeAccountWrite = AccountWrite"

definition all_scopes :: "OAuthScope list" where
  "all_scopes =
     [ScopeAppsRead, ScopeAppsWrite, ScopeAppsDeploy, ScopeAppsArchive, ScopeDatabaseRead, ScopeDatabaseWrite,
      ScopeDatabaseMigrate, ScopeDeploymentsRead, ScopeEnvRead, ScopeEnvWrite, ScopeSecretsRead,
      ScopeSecretsWrite, ScopeBillingRead, ScopeBillingWrite, ScopeOrganizationCreate, ScopeOrganizationRead,
      ScopeOrganizationWrite, ScopeOrganizationAdmin, ScopeOrganizationMembersRead,
      ScopeOrganizationMembersWrite, ScopeOrganizationMembersLeave, ScopeProjectCreate, ScopeProjectRead,
      ScopeProjectWrite, ScopeProjectMembersRead, ScopeProjectMembersWrite, ScopeAccountRead, ScopeAccountWrite]"

definition scope_str :: "OAuthScope \<Rightarrow> string" where
  "scope_str s = cedar_id (scope_action s)"

text \<open>The error carries the unknown token.\<close>

definition scope_parse :: "rtext \<Rightarrow> rtext + OAuthScope" where
  "scope_parse s = (case find (\<lambda>scope. rstr (scope_str scope) = s) all_scopes of Some scope \<Rightarrow> Inr scope | None \<Rightarrow> Inl s)"

fun collect_results :: "('e + 'a) list \<Rightarrow> 'e + 'a list" where
  "collect_results [] = Inr []"
| "collect_results (r # rs) = and_then r (\<lambda>x. and_then (collect_results rs) (\<lambda>xs. Inr (x # xs)))"

definition parse_scope_string :: "rtext \<Rightarrow> rtext + OAuthScope list" where
  "parse_scope_string raw = collect_results (map scope_parse (split_whitespace raw))"

subsection \<open>Resources\<close>

datatype AuthzResource = AppRes string | DatabaseRes string | ProjectRes string | OrganizationRes string | AnyRes

datatype CedarType = AppType | DatabaseType | ProjectType | OrganizationType | ResourceType

fun cedar_type :: "AuthzResource \<Rightarrow> CedarType" where
  "cedar_type (AppRes i) = AppType"
| "cedar_type (DatabaseRes i) = DatabaseType"
| "cedar_type (ProjectRes i) = ProjectType"
| "cedar_type (OrganizationRes i) = OrganizationType"
| "cedar_type AnyRes = ResourceType"

definition is_valid_resource_id :: "string \<Rightarrow> bool" where
  "is_valid_resource_id i \<longleftrightarrow> i \<noteq> [] \<and>
     list_all (\<lambda>c. let n = of_char c :: nat in 48 \<le> n \<and> n \<le> 57 \<or> 65 \<le> n \<and> n \<le> 90 \<or> 97 \<le> n \<and> n \<le> 122 \<or> n = 95 \<or> n = 45) i"

fun validate_ids :: "AuthzResource \<Rightarrow> bool" where
  "validate_ids (AppRes i) = True"
| "validate_ids (DatabaseRes i) = True"
| "validate_ids AnyRes = True"
| "validate_ids (ProjectRes i) = is_valid_resource_id i"
| "validate_ids (OrganizationRes i) = is_valid_resource_id i"

subsection \<open>Wrapper policies\<close>

datatype StatementEffect = AllowEffect | DenyEffect

datatype Condition = IpRange "string list" | TimeWindow string string string

record Statement =
  st_effect :: StatementEffect
  st_actions :: "AuthzAction list"
  st_resources :: "AuthzResource list"
  st_conditions :: "Condition list"

record WrapperPolicy =
  pol_name :: string
  pol_statements :: "Statement list"

definition scopes_to_policy :: "OAuthScope list \<Rightarrow> WrapperPolicy" where
  "scopes_to_policy scopes =
     \<lparr>pol_name = ''oauth_scopes'',
      pol_statements = [\<lparr>st_effect = AllowEffect, st_actions = map scope_action scopes, st_resources = [AnyRes], st_conditions = []\<rparr>]\<rparr>"

subsection \<open>Cedar\<close>

datatype ResourceConstraint = AnyResource | IsType CedarType | IsEntity AuthzResource

datatype Expr =
    BoolLit bool
  | InRange string
  | MinuteGe int
  | MinuteLt int
  | RankGe int
  | BillingGe int
  | ResourceEq AuthzResource
  | AndExpr Expr Expr
  | OrExpr Expr Expr

record CedarPolicy =
  cp_permit :: bool
  cp_actions :: "string list"
  cp_resource :: ResourceConstraint
  cp_when :: "Expr option"

record CedarRequest =
  rq_action :: string
  rq_resource :: AuthzResource
  rq_minute :: int
  rq_ip :: IpAddr
  rq_rank :: int
  rq_billing :: int

text \<open>\<open>None\<close> is an evaluation error, as for a range whose text is not one.\<close>

type_synonym in_range = "IpAddr \<Rightarrow> string \<Rightarrow> bool option"

definition and_then_bool :: "bool option \<Rightarrow> bool option \<Rightarrow> bool option" where
  "and_then_bool a b = (case a of None \<Rightarrow> None | Some False \<Rightarrow> Some False | Some True \<Rightarrow> b)"

definition or_else_bool :: "bool option \<Rightarrow> bool option \<Rightarrow> bool option" where
  "or_else_bool a b = (case a of None \<Rightarrow> None | Some True \<Rightarrow> Some True | Some False \<Rightarrow> b)"

fun eval_expr :: "in_range \<Rightarrow> CedarRequest \<Rightarrow> Expr \<Rightarrow> bool option" where
  "eval_expr ir rq (BoolLit b) = Some b"
| "eval_expr ir rq (InRange cidr) = ir (rq_ip rq) cidr"
| "eval_expr ir rq (MinuteGe n) = Some (rq_minute rq \<ge> n)"
| "eval_expr ir rq (MinuteLt n) = Some (rq_minute rq < n)"
| "eval_expr ir rq (RankGe n) = Some (rq_rank rq \<ge> n)"
| "eval_expr ir rq (BillingGe n) = Some (rq_billing rq \<ge> n)"
| "eval_expr ir rq (ResourceEq r) = Some (rq_resource rq = r)"
| "eval_expr ir rq (AndExpr a b) = and_then_bool (eval_expr ir rq a) (eval_expr ir rq b)"
| "eval_expr ir rq (OrExpr a b) = or_else_bool (eval_expr ir rq a) (eval_expr ir rq b)"

definition in_scope :: "CedarRequest \<Rightarrow> CedarPolicy \<Rightarrow> bool" where
  "in_scope rq p \<longleftrightarrow> rq_action rq \<in> set (cp_actions p) \<and>
     (case cp_resource p of
        AnyResource \<Rightarrow> True
      | IsType t \<Rightarrow> cedar_type (rq_resource rq) = t
      | IsEntity r \<Rightarrow> rq_resource rq = r)"

definition policy_value :: "in_range \<Rightarrow> CedarRequest \<Rightarrow> CedarPolicy \<Rightarrow> bool option" where
  "policy_value ir rq p =
     (if in_scope rq p then (case cp_when p of None \<Rightarrow> Some True | Some e \<Rightarrow> eval_expr ir rq e) else Some False)"

record CedarResponse =
  cr_allow :: bool
  cr_reason :: "nat set"
  cr_errors :: "nat list"

definition indices :: "('a \<Rightarrow> bool) \<Rightarrow> 'a list \<Rightarrow> nat list" where
  "indices P xs = map fst (filter (P \<circ> snd) (enumerate 0 xs))"

text \<open>A request is allowed when a permit is satisfied and no forbid is. The reason is the satisfied forbids, or the
  satisfied permits when there is no such forbid; policies are named by their position.\<close>

definition is_authorized :: "in_range \<Rightarrow> CedarPolicy list \<Rightarrow> CedarRequest \<Rightarrow> CedarResponse" where
  "is_authorized ir ps rq =
     (let forbids = indices (\<lambda>p. \<not> cp_permit p \<and> policy_value ir rq p = Some True) ps;
          permits = indices (\<lambda>p. cp_permit p \<and> policy_value ir rq p = Some True) ps
      in \<lparr>cr_allow = (permits \<noteq> [] \<and> forbids = []),
          cr_reason = set (if forbids \<noteq> [] then forbids else permits),
          cr_errors = indices (\<lambda>p. policy_value ir rq p = None) ps\<rparr>)"

subsection \<open>Lowering\<close>

definition newline :: string where
  "newline = [CHR 0x0A]"

fun join_text :: "string \<Rightarrow> string list \<Rightarrow> string" where
  "join_text sep [] = []"
| "join_text sep [s] = s"
| "join_text sep (s # ss) = s @ sep @ join_text sep ss"

definition cedar_char :: "char \<Rightarrow> string" where
  "cedar_char c =
     (if c = CHR 0x22 then [CHR 0x5C, CHR 0x22]
      else if c = CHR 0x5C then [CHR 0x5C, CHR 0x5C]
      else if c = CHR 0x0A then [CHR 0x5C, CHR ''n'']
      else if c = CHR 0x0D then [CHR 0x5C, CHR ''r'']
      else if c = CHR 0x09 then [CHR 0x5C, CHR ''t'']
      else [c])"

definition cedar_string :: "string \<Rightarrow> string" where
  "cedar_string v = [CHR 0x22] @ concat (map cedar_char v) @ [CHR 0x22]"

fun cedar_uid :: "AuthzResource \<Rightarrow> string" where
  "cedar_uid (AppRes i) = ''App::'' @ cedar_string i"
| "cedar_uid (DatabaseRes i) = ''Database::'' @ cedar_string i"
| "cedar_uid (ProjectRes i) = ''Project::'' @ cedar_string i"
| "cedar_uid (OrganizationRes i) = ''Organization::'' @ cedar_string i"
| "cedar_uid AnyRes = ''*''"

text \<open>\<^verbatim>\<open>str::parse::<u32>\<close>: digits with an optional plus sign.\<close>

definition std_parse_u32 :: "string \<Rightarrow> nat option" where
  "std_parse_u32 s =
     (case read_nat (case s of c # cs \<Rightarrow> if c = CHR ''+'' then cs else s | [] \<Rightarrow> []) of
        None \<Rightarrow> None
      | Some n \<Rightarrow> if n < 2 ^ 32 then Some n else None)"

definition split_once_text :: "char \<Rightarrow> string \<Rightarrow> (string \<times> string) option" where
  "split_once_text c s = (if c \<in> set s then Some (takeWhile (\<lambda>x. x \<noteq> c) s, tl (dropWhile (\<lambda>x. x \<noteq> c) s)) else None)"

definition parse_minute_of_day :: "string \<Rightarrow> nat option" where
  "parse_minute_of_day s =
     (case split_once_text (CHR '':'') s of
        None \<Rightarrow> None
      | Some (h, m) \<Rightarrow>
          (case (std_parse_u32 h, std_parse_u32 m) of
             (Some hour, Some minute) \<Rightarrow> if hour > 23 \<or> minute > 59 then None else Some (hour * 60 + minute)
           | _ \<Rightarrow> None))"

definition lower_time_window :: "string \<Rightarrow> string \<Rightarrow> string \<Rightarrow> string" where
  "lower_time_window start finish tz =
     (if tz \<noteq> ''UTC'' then ''false''
      else case (parse_minute_of_day start, parse_minute_of_day finish) of
        (Some a, Some b) \<Rightarrow>
          if a < b then ''(context.now_minute_utc >= '' @ show_nat a @ '' && context.now_minute_utc < '' @ show_nat b @ '')''
          else if a > b then ''(context.now_minute_utc >= '' @ show_nat a @ '' || context.now_minute_utc < '' @ show_nat b @ '')''
          else ''false''
      | _ \<Rightarrow> ''false'')"

fun lower_condition :: "Condition \<Rightarrow> string" where
  "lower_condition (IpRange cidrs) =
     (if cidrs = [] then ''false''
      else join_text '' || '' (map (\<lambda>cidr. ''context.request_ip.isInRange(ip('' @ cedar_string cidr @ ''))'') cidrs))"
| "lower_condition (TimeWindow start finish tz) = lower_time_window start finish tz"

definition lower_conditions :: "Condition list \<Rightarrow> string" where
  "lower_conditions cs = join_text '' && '' (map lower_condition cs)"

definition lower_actions :: "AuthzAction list \<Rightarrow> string" where
  "lower_actions actions =
     ''action in ['' @ join_text '', '' (map (\<lambda>a. ''Action::'' @ cedar_string (cedar_id a)) actions) @ '']''"

text \<open>The scope and the condition.\<close>

definition lower_resources :: "AuthzResource list \<Rightarrow> string \<times> string option" where
  "lower_resources rs =
     (if AnyRes \<in> set rs then (''resource'', None)
      else case rs of
        [] \<Rightarrow> (''resource'', Some ''false'')
      | [r] \<Rightarrow> (''resource == '' @ cedar_uid r, None)
      | _ \<Rightarrow> (''resource'', Some (''('' @ join_text '' || '' (map (\<lambda>r. ''resource == '' @ cedar_uid r) rs) @ '')'')))"

definition lower_when_clause :: "Statement \<Rightarrow> string option \<Rightarrow> string option" where
  "lower_when_clause st resource_condition =
     (let parts = (case resource_condition of None \<Rightarrow> [] | Some c \<Rightarrow> [c]) @
                  (if st_conditions st = [] then [] else [lower_conditions (st_conditions st)])
      in if parts = [] then None else Some (join_text '' && '' parts))"

definition lower_statement :: "Statement \<Rightarrow> string" where
  "lower_statement st =
     (let (scope, condition) = lower_resources (st_resources st)
      in (case st_effect st of AllowEffect \<Rightarrow> ''permit'' | DenyEffect \<Rightarrow> ''forbid'') @ '' ('' @ newline @
         ''  principal,'' @ newline @
         ''  '' @ lower_actions (st_actions st) @ '','' @ newline @
         ''  '' @ scope @ newline @ '')'' @
         (case lower_when_clause st condition of
            None \<Rightarrow> []
          | Some c \<Rightarrow> newline @ ''when {'' @ newline @ ''  '' @ c @ newline @ ''}'') @
         '';'' @ newline)"

fun drop_comment_ends :: "string \<Rightarrow> string" where
  "drop_comment_ends (a # b # s) =
     (if a = CHR ''*'' \<and> b = CHR ''/'' then drop_comment_ends s else a # drop_comment_ends (b # s))"
| "drop_comment_ends s = s"

definition sanitize_cedar_comment_fragment :: "string \<Rightarrow> string" where
  "sanitize_cedar_comment_fragment s = drop_comment_ends (filter (\<lambda>c. c \<noteq> CHR 0x0A \<and> c \<noteq> CHR 0x0D) s)"

definition lower :: "WrapperPolicy \<Rightarrow> string" where
  "lower policy =
     ''// Policy: '' @ sanitize_cedar_comment_fragment (pol_name policy) @ newline @
     join_text newline (map lower_statement (pol_statements policy))"

end
