(* ===== verification/CedarSyntax.thy ===== *)
theory CedarSyntax
  imports AuthzPolicy "HOL-Library.Monad_Syntax"
begin

text \<open>
  The syntax of Cedar as far as the platform writes it: the tokens of a source text, and the grammar of policies on them. White space and
  line comments separate tokens, a comment ends at a line feed or a carriage return, and a string literal knows the escapes
  of Rust; the numeric escapes and an escaped line break, which the platform never writes, are refused. In
  conditions \<^verbatim>\<open>&&\<close> binds tighter than \<^verbatim>\<open>||\<close>.
\<close>

subsection \<open>Tokens\<close>

datatype CedarToken =
    TWord string
  | TNum int
  | TStr string
  | TOpen | TClose | TOpenList | TCloseList | TOpenBody | TCloseBody
  | TComma | TSemicolon | TDot | TPath | TEq | TGe | TLt | TAnd | TOr

definition is_digit :: "char \<Rightarrow> bool" where
  "is_digit c \<longleftrightarrow> (let n = of_char c :: nat in 48 \<le> n \<and> n \<le> 57)"

definition is_word_char :: "char \<Rightarrow> bool" where
  "is_word_char c \<longleftrightarrow> (let n = of_char c :: nat in 48 \<le> n \<and> n \<le> 57 \<or> 65 \<le> n \<and> n \<le> 90 \<or> 97 \<le> n \<and> n \<le> 122 \<or> n = 95)"

definition is_space :: "char \<Rightarrow> bool" where
  "is_space c \<longleftrightarrow> (let n = of_char c :: nat in 9 \<le> n \<and> n \<le> 13 \<or> n = 32)"

definition is_line_end :: "char \<Rightarrow> bool" where
  "is_line_end c \<longleftrightarrow> c = CHR 0x0A \<or> c = CHR 0x0D"

definition unescape :: "char \<Rightarrow> char option" where
  "unescape c =
     (if c = CHR ''n'' then Some (CHR 0x0A)
      else if c = CHR ''r'' then Some (CHR 0x0D)
      else if c = CHR ''t'' then Some (CHR 0x09)
      else if c = CHR ''0'' then Some (CHR 0x00)
      else if c = CHR 0x5C \<or> c = CHR 0x22 \<or> c = CHR 0x27 then Some c
      else None)"

text \<open>The value of a string literal whose opening quote has been read, and what follows its closing quote.\<close>

fun scan_string :: "string \<Rightarrow> (string \<times> string) option" where
  "scan_string [] = None"
| "scan_string (c # cs) =
     (if c = CHR 0x22 then Some ([], cs)
      else if c = CHR 0x5C then
        (case cs of
           [] \<Rightarrow> None
         | e # es \<Rightarrow> do { x \<leftarrow> unescape e; (v, rest) \<leftarrow> scan_string es; Some (x # v, rest) })
      else if c = CHR 0x0D then None
      else do { (v, rest) \<leftarrow> scan_string cs; Some (c # v, rest) })"

definition double_symbols :: "(string \<times> CedarToken) list" where
  "double_symbols = [(''::'', TPath), (''=='', TEq), (''>='', TGe), (''&&'', TAnd), (''||'', TOr)]"

definition single_symbols :: "(char \<times> CedarToken) list" where
  "single_symbols =
     [(CHR ''('', TOpen), (CHR '')'', TClose), (CHR ''['', TOpenList), (CHR '']'', TCloseList), (CHR ''{'', TOpenBody),
      (CHR ''}'', TCloseBody), (CHR '','', TComma), (CHR '';'', TSemicolon), (CHR ''.'', TDot), (CHR ''<'', TLt)]"

lemma scan_string_shorter: "scan_string s = Some (v, rest) \<Longrightarrow> length rest < length s"
proof (induction s arbitrary: v rule: scan_string.induct)
  case (2 c cs)
  then show ?case by (fastforce split: if_splits list.splits Option.bind_splits)
qed simp

function (sequential) cedar_tokens :: "string \<Rightarrow> CedarToken list option" where
  "cedar_tokens [] = Some []"
| "cedar_tokens (c # cs) =
     (if is_space c then cedar_tokens cs
      else if is_digit c then
        do { k \<leftarrow> parse_i64 (takeWhile is_digit (c # cs)); ts \<leftarrow> cedar_tokens (dropWhile is_digit cs); Some (TNum k # ts) }
      else if is_word_char c then
        map_option (Cons (TWord (takeWhile is_word_char (c # cs)))) (cedar_tokens (dropWhile is_word_char cs))
      else if c = CHR 0x22 then
        (case scan_string cs of None \<Rightarrow> None | Some (v, rest) \<Rightarrow> map_option (Cons (TStr v)) (cedar_tokens rest))
      else if take 2 (c # cs) = ''//'' then cedar_tokens (dropWhile (\<lambda>x. \<not> is_line_end x) cs)
      else case map_of double_symbols (take 2 (c # cs)) of
        Some t \<Rightarrow> map_option (Cons t) (cedar_tokens (tl cs))
      | None \<Rightarrow>
          (case map_of single_symbols c of Some t \<Rightarrow> map_option (Cons t) (cedar_tokens cs) | None \<Rightarrow> None))"
  by pat_completeness auto
termination
  by (relation "measure length") (auto simp: le_imp_less_Suc length_dropWhile_le dest: scan_string_shorter)

declare cedar_tokens.simps [simp del]

subsection \<open>Grammar\<close>

text \<open>The tokens that have to come next.\<close>

fun eat :: "CedarToken list \<Rightarrow> CedarToken list \<Rightarrow> CedarToken list option" where
  "eat [] ts = Some ts"
| "eat (p # ps) (t # ts) = (if t = p then eat ps ts else None)"
| "eat (p # ps) [] = None"

fun parse_word :: "CedarToken list \<Rightarrow> (string \<times> CedarToken list) option" where
  "parse_word (TWord w # ts) = Some (w, ts)"
| "parse_word _ = None"

fun parse_num :: "CedarToken list \<Rightarrow> (int \<times> CedarToken list) option" where
  "parse_num (TNum k # ts) = Some (k, ts)"
| "parse_num _ = None"

fun parse_str :: "CedarToken list \<Rightarrow> (string \<times> CedarToken list) option" where
  "parse_str (TStr v # ts) = Some (v, ts)"
| "parse_str _ = None"

definition parse_entity :: "CedarToken list \<Rightarrow> ((string \<times> string) \<times> CedarToken list) option" where
  "parse_entity ts = do { (w, ts) \<leftarrow> parse_word ts; ts \<leftarrow> eat [TPath] ts; (v, ts) \<leftarrow> parse_str ts; Some ((w, v), ts) }"

definition entity_resource :: "string \<times> string \<Rightarrow> AuthzResource option" where
  "entity_resource e =
     (if fst e = ''App'' then Some (AppRes (snd e))
      else if fst e = ''Database'' then Some (DatabaseRes (snd e))
      else if fst e = ''Project'' then Some (ProjectRes (snd e))
      else if fst e = ''Organization'' then Some (OrganizationRes (snd e))
      else None)"

definition parse_resource :: "CedarToken list \<Rightarrow> (AuthzResource \<times> CedarToken list) option" where
  "parse_resource ts = do { (e, ts) \<leftarrow> parse_entity ts; r \<leftarrow> entity_resource e; Some (r, ts) }"

definition parse_minute :: "CedarToken list \<Rightarrow> (Expr \<times> CedarToken list) option" where
  "parse_minute ts =
     (case eat [TGe] ts of
        Some ts \<Rightarrow> do { (k, ts) \<leftarrow> parse_num ts; Some (MinuteGe k, ts) }
      | None \<Rightarrow> do { ts \<leftarrow> eat [TLt] ts; (k, ts) \<leftarrow> parse_num ts; Some (MinuteLt k, ts) })"

definition parse_in_range :: "CedarToken list \<Rightarrow> (Expr \<times> CedarToken list) option" where
  "parse_in_range ts =
     do { ts \<leftarrow> eat [TDot, TWord ''isInRange'', TOpen, TWord ''ip'', TOpen] ts; (v, ts) \<leftarrow> parse_str ts;
          ts \<leftarrow> eat [TClose, TClose] ts; Some (InRange v, ts) }"

text \<open>Literals, and the comparisons and calls on the context and the resource.\<close>

definition parse_relation :: "CedarToken list \<Rightarrow> (Expr \<times> CedarToken list) option" where
  "parse_relation ts =
     do { (w, ts) \<leftarrow> parse_word ts;
          if w = ''true'' then Some (BoolLit True, ts)
          else if w = ''false'' then Some (BoolLit False, ts)
          else if w = ''resource'' then do { ts \<leftarrow> eat [TEq] ts; (r, ts) \<leftarrow> parse_resource ts; Some (ResourceEq r, ts) }
          else if w = ''context'' then
            do { ts \<leftarrow> eat [TDot] ts; (attr, ts) \<leftarrow> parse_word ts;
                 if attr = ''now_minute_utc'' then parse_minute ts else if attr = ''request_ip'' then parse_in_range ts else None }
          else None }"

fun parse_or :: "nat \<Rightarrow> CedarToken list \<Rightarrow> (Expr \<times> CedarToken list) option"
  and parse_and :: "nat \<Rightarrow> CedarToken list \<Rightarrow> (Expr \<times> CedarToken list) option"
  and parse_primary :: "nat \<Rightarrow> CedarToken list \<Rightarrow> (Expr \<times> CedarToken list) option" where
  "parse_or 0 ts = None"
| "parse_or (Suc n) ts =
     do { (e, rest) \<leftarrow> parse_and n ts;
          case eat [TOr] rest of
            None \<Rightarrow> Some (e, rest)
          | Some rest \<Rightarrow> do { (e', rest) \<leftarrow> parse_or n rest; Some (OrExpr e e', rest) } }"
| "parse_and 0 ts = None"
| "parse_and (Suc n) ts =
     do { (e, rest) \<leftarrow> parse_primary n ts;
          case eat [TAnd] rest of
            None \<Rightarrow> Some (e, rest)
          | Some rest \<Rightarrow> do { (e', rest) \<leftarrow> parse_and n rest; Some (AndExpr e e', rest) } }"
| "parse_primary 0 ts = None"
| "parse_primary (Suc n) ts =
     (case eat [TOpen] ts of
        None \<Rightarrow> parse_relation ts
      | Some ts \<Rightarrow> do { (e, ts) \<leftarrow> parse_or n ts; ts \<leftarrow> eat [TClose] ts; Some (e, ts) })"

text \<open>Three calls per token are enough.\<close>

definition parse_expr :: "CedarToken list \<Rightarrow> (Expr \<times> CedarToken list) option" where
  "parse_expr ts = parse_or (3 * length ts + 3) ts"

fun parse_action_list :: "nat \<Rightarrow> CedarToken list \<Rightarrow> (string list \<times> CedarToken list) option" where
  "parse_action_list 0 ts = None"
| "parse_action_list (Suc n) ts =
     do { ((w, a), ts) \<leftarrow> parse_entity ts;
          if w \<noteq> ''Action'' then None
          else case eat [TComma] ts of
            None \<Rightarrow> do { ts \<leftarrow> eat [TCloseList] ts; Some ([a], ts) }
          | Some ts \<Rightarrow> do { (as, ts) \<leftarrow> parse_action_list n ts; Some (a # as, ts) } }"

definition parse_actions :: "CedarToken list \<Rightarrow> (string list \<times> CedarToken list) option" where
  "parse_actions ts = (case eat [TCloseList] ts of Some ts \<Rightarrow> Some ([], ts) | None \<Rightarrow> parse_action_list (length ts) ts)"

definition parse_effect :: "CedarToken list \<Rightarrow> (bool \<times> CedarToken list) option" where
  "parse_effect ts =
     do { (w, ts) \<leftarrow> parse_word ts; if w = ''permit'' then Some (True, ts) else if w = ''forbid'' then Some (False, ts) else None }"

definition parse_constraint :: "CedarToken list \<Rightarrow> (ResourceConstraint \<times> CedarToken list) option" where
  "parse_constraint ts =
     (case eat [TEq] ts of None \<Rightarrow> Some (AnyResource, ts) | Some ts \<Rightarrow> do { (r, ts) \<leftarrow> parse_resource ts; Some (IsEntity r, ts) })"

definition parse_when :: "CedarToken list \<Rightarrow> (Expr option \<times> CedarToken list) option" where
  "parse_when ts =
     (case eat [TWord ''when'', TOpenBody] ts of
        None \<Rightarrow> Some (None, ts)
      | Some ts \<Rightarrow> do { (e, ts) \<leftarrow> parse_expr ts; ts \<leftarrow> eat [TCloseBody] ts; Some (Some e, ts) })"

definition parse_policy :: "CedarToken list \<Rightarrow> (CedarPolicy \<times> CedarToken list) option" where
  "parse_policy ts =
     do { (permit, ts) \<leftarrow> parse_effect ts;
          ts \<leftarrow> eat [TOpen, TWord ''principal'', TComma, TWord ''action'', TWord ''in'', TOpenList] ts;
          (actions, ts) \<leftarrow> parse_actions ts;
          ts \<leftarrow> eat [TComma, TWord ''resource''] ts;
          (constraint, ts) \<leftarrow> parse_constraint ts;
          ts \<leftarrow> eat [TClose] ts;
          (cond, ts) \<leftarrow> parse_when ts;
          ts \<leftarrow> eat [TSemicolon] ts;
          Some (\<lparr>cp_permit = permit, cp_actions = actions, cp_resource = constraint, cp_when = cond\<rparr>, ts) }"

fun parse_policies :: "nat \<Rightarrow> CedarToken list \<Rightarrow> CedarPolicy list option" where
  "parse_policies n [] = Some []"
| "parse_policies 0 (t # ts) = None"
| "parse_policies (Suc n) (t # ts) = do { (p, ts) \<leftarrow> parse_policy (t # ts); ps \<leftarrow> parse_policies n ts; Some (p # ps) }"

text \<open>A policy takes more than one token.\<close>

definition parse_policy_set :: "string \<Rightarrow> CedarPolicy list option" where
  "parse_policy_set source = do { ts \<leftarrow> cedar_tokens source; parse_policies (length ts) ts }"

definition policy_set_from_policy :: "WrapperPolicy \<Rightarrow> CedarPolicy list option" where
  "policy_set_from_policy policy = parse_policy_set (lower policy)"

end
