(* ===== verification/Authz.thy ===== *)
theory Authz
  imports CedarSyntax "HOL-Library.Char_ord" "HOL-Library.List_Lexorder"
begin

text \<open>
  Platform authorization (\<^verbatim>\<open>crates/zeroship-authz/src/{authority,eval}.rs\<close> and the policy bands
  \<^verbatim>\<open>deploy/policies/**/*.cedar\<close> that \<^verbatim>\<open>engine.rs\<close> embeds).

  The platform database is its tables, a fault for each query by its number, and the audit rows. A table is an association
  list on its unique key, so a join on that key finds at most one row. The text order of \<^verbatim>\<open>ORDER BY\<close> is the order of bytes.
  Cedar's address type says which printed addresses it accepts and which lie in a range. Cedar accepts the identifiers of
  entities and the integers of the context, and the schema declares every action at every resource type, so the address is
  what can make a request fail. The attributes of the user entity are read by no band and no lowered statement.
\<close>

subsection \<open>The bands\<close>

definition band :: "string list \<Rightarrow> CedarType \<Rightarrow> Expr option \<Rightarrow> CedarPolicy" where
  "band actions t cond = \<lparr>cp_permit = True, cp_actions = actions, cp_resource = IsType t, cp_when = cond\<rparr>"

definition self_service_band :: "CedarPolicy list" where
  "self_service_band =
     [band [''apps:read'', ''organization:read'', ''organization:create'', ''account:read'', ''account:write'']
        ResourceType None]"

definition read_band :: "CedarPolicy list" where
  "read_band =
     [band [''apps:read'', ''env:read'', ''deployments:read''] AppType (Some (RankGe 10)),
      band [''database:read''] DatabaseType (Some (RankGe 10)),
      band [''apps:read'', ''env:read'', ''deployments:read'', ''database:read'', ''project:read'', ''project:members:read'']
        ProjectType (Some (RankGe 10)),
      band [''organization:read'', ''organization:members:read''] OrganizationType (Some (RankGe 10))]"

definition depart_band :: "CedarPolicy list" where
  "depart_band = [band [''organization:members:leave''] OrganizationType (Some (RankGe 10))]"

definition develop_band :: "CedarPolicy list" where
  "develop_band =
     [band [''apps:write'', ''apps:deploy'', ''apps:archive'', ''env:write'', ''secrets:read'', ''secrets:write'']
        AppType (Some (RankGe 20)),
      band [''database:write'', ''database:migrate''] DatabaseType (Some (RankGe 20)),
      band [''apps:write'', ''apps:deploy'', ''apps:archive'', ''env:write'', ''secrets:read'', ''secrets:write'',
            ''database:write'', ''database:migrate''] ProjectType (Some (RankGe 20))]"

definition administer_band :: "CedarPolicy list" where
  "administer_band =
     [band [''organization:members:write'', ''project:create''] OrganizationType (Some (RankGe 30)),
      band [''project:write'', ''project:members:write''] ProjectType (Some (RankGe 30))]"

definition own_band :: "CedarPolicy list" where
  "own_band = [band [''organization:write'', ''organization:admin''] OrganizationType (Some (RankGe 40))]"

definition billing_band :: "CedarPolicy list" where
  "billing_band =
     [band [''billing:read''] OrganizationType (Some (BillingGe 10)),
      band [''billing:write''] OrganizationType (Some (BillingGe 20))]"

definition platform_policies :: "CedarPolicy list" where
  "platform_policies =
     self_service_band @ read_band @ depart_band @ develop_band @ administer_band @ own_band @ billing_band"

subsection \<open>The platform database\<close>

datatype AuthzError =
  CedarParse | CedarValidation | CedarEntities | CedarRequest | CedarEval | AuthzDb | PolicyJsonShape | AuthzValidation

datatype AuthzDecision = AllowDecision | DenyDecision

record UserRow =
  email_verified_at :: "int option"
  locked_until :: "int option"

record Tables =
  t_users :: "(string \<times> UserRow) list"
  t_roles :: "(string \<times> int \<times> int) list"
  t_members :: "((string \<times> string) \<times> string) list"
  t_projects :: "(string \<times> string) list"
  t_project_members :: "((string \<times> string) \<times> string) list"
  t_apps :: "(string \<times> string) list"
  t_databases :: "(string \<times> string) list"
  t_now :: int

record AuditRow =
  au_actor :: string
  au_action :: string
  au_resource_type :: string
  au_resource_id :: "string option"
  au_decision :: string
  au_matched :: "nat set"
  au_ip :: "IpAddr option"
  au_request_id :: "rtext option"

record Pg =
  pg_tables :: Tables
  pg_fails :: "nat \<Rightarrow> bool"
  pg_queries :: nat
  pg_audit :: "AuditRow list"

definition pg_query :: "Pg \<Rightarrow> (Tables \<Rightarrow> AuthzError + 'a) \<Rightarrow> (AuthzError + 'a) \<times> Pg" where
  "pg_query pg f =
     ((if pg_fails pg (pg_queries pg) then Inl AuthzDb else f (pg_tables pg)), pg\<lparr>pg_queries := Suc (pg_queries pg)\<rparr>)"

subsection \<open>Authority\<close>

record Authority =
  email_verified :: bool
  account_locked :: bool
  effective_rank :: int
  billing_rank :: int

definition authority_unranked :: "bool \<Rightarrow> bool \<Rightarrow> Authority" where
  "authority_unranked verified locked =
     \<lparr>email_verified = verified, account_locked = locked, effective_rank = 0, billing_rank = 0\<rparr>"

definition PROJECT_WIDE_ROLE :: string where
  "PROJECT_WIDE_ROLE = ''admin''"

definition effective_project_rank :: "int option \<Rightarrow> int option \<Rightarrow> int option \<Rightarrow> int" where
  "effective_project_rank organization_rank project_rank admin_rank =
     (case organization_rank of
        None \<Rightarrow> 0
      | Some org \<Rightarrow>
          if (case admin_rank of None \<Rightarrow> False | Some adm \<Rightarrow> org \<ge> adm) then org
          else (case project_rank of None \<Rightarrow> 0 | Some prj \<Rightarrow> min org prj))"

definition user_attrs :: "Tables \<Rightarrow> UserRow \<Rightarrow> bool \<times> bool" where
  "user_attrs t u =
     (email_verified_at u \<noteq> None, (case locked_until u of None \<Rightarrow> False | Some l \<Rightarrow> l > t_now t))"

definition principal_row :: "Tables \<Rightarrow> string \<Rightarrow> AuthzError + UserRow" where
  "principal_row t u = (case map_of (t_users t) u of None \<Rightarrow> Inl AuthzValidation | Some row \<Rightarrow> Inr row)"

definition role_of :: "Tables \<Rightarrow> string option \<Rightarrow> (int \<times> int) option" where
  "role_of t role = Option.bind role (map_of (t_roles t))"

definition member_role :: "Tables \<Rightarrow> string option \<Rightarrow> string \<Rightarrow> (int \<times> int) option" where
  "member_role t org u = role_of t (Option.bind org (\<lambda>g. map_of (t_members t) (g, u)))"

definition resolve_unranked :: "Tables \<Rightarrow> string \<Rightarrow> AuthzError + Authority" where
  "resolve_unranked t u =
     and_then (principal_row t u) (\<lambda>row. Inr (authority_unranked (fst (user_attrs t row)) (snd (user_attrs t row))))"

definition resolve_organization :: "Tables \<Rightarrow> string \<Rightarrow> string \<Rightarrow> AuthzError + Authority" where
  "resolve_organization t u org =
     and_then (principal_row t u) (\<lambda>row.
       let role = member_role t (Some org) u
       in Inr \<lparr>email_verified = fst (user_attrs t row), account_locked = snd (user_attrs t row),
               effective_rank = (case role of None \<Rightarrow> 0 | Some (rank, billing) \<Rightarrow> rank),
               billing_rank = (case role of None \<Rightarrow> 0 | Some (rank, billing) \<Rightarrow> billing)\<rparr>)"

datatype Narrowed = NarrowedProject string | NarrowedApp string | NarrowedDatabase string

fun owning_project :: "Tables \<Rightarrow> Narrowed \<Rightarrow> string option" where
  "owning_project t (NarrowedProject i) = Some i"
| "owning_project t (NarrowedApp i) = map_of (t_apps t) i"
| "owning_project t (NarrowedDatabase i) = map_of (t_databases t) i"

text \<open>The joined project row, when there is one, is the pair of its identifier and its organization.\<close>

definition joined_project :: "Tables \<Rightarrow> Narrowed \<Rightarrow> (string \<times> string) option" where
  "joined_project t n =
     Option.bind (owning_project t n) (\<lambda>p. map_option (\<lambda>org. (p, org)) (map_of (t_projects t) p))"

definition resolve_narrowed :: "Tables \<Rightarrow> string \<Rightarrow> Narrowed \<Rightarrow> AuthzError + Authority" where
  "resolve_narrowed t u n =
     and_then (principal_row t u) (\<lambda>row.
       let p = joined_project t n;
           organization_role = member_role t (map_option snd p) u;
           project_role = role_of t (Option.bind p (\<lambda>(i, org). map_of (t_project_members t) (i, u)));
           admin_rank = map_option fst (map_of (t_roles t) PROJECT_WIDE_ROLE)
       in Inr \<lparr>email_verified = fst (user_attrs t row), account_locked = snd (user_attrs t row),
               effective_rank = effective_project_rank (map_option fst organization_role) (map_option fst project_role) admin_rank,
               billing_rank = (case organization_role of None \<Rightarrow> 0 | Some (rank, billing) \<Rightarrow> billing)\<rparr>)"

fun resolve_at :: "Tables \<Rightarrow> string \<Rightarrow> AuthzResource \<Rightarrow> AuthzError + Authority" where
  "resolve_at t u AnyRes = resolve_unranked t u"
| "resolve_at t u (OrganizationRes i) = resolve_organization t u i"
| "resolve_at t u (ProjectRes i) = resolve_narrowed t u (NarrowedProject i)"
| "resolve_at t u (AppRes i) = resolve_narrowed t u (NarrowedApp i)"
| "resolve_at t u (DatabaseRes i) = resolve_narrowed t u (NarrowedDatabase i)"

definition resolve :: "Pg \<Rightarrow> string \<Rightarrow> AuthzResource \<Rightarrow> (AuthzError + Authority) \<times> Pg" where
  "resolve pg u r = pg_query pg (\<lambda>t. resolve_at t u r)"

definition validated :: "AuthzResource \<Rightarrow> AuthzError + AuthzResource" where
  "validated r = (if validate_ids r then Inr r else Inl AuthzValidation)"

definition organization_resources :: "Pg \<Rightarrow> string \<Rightarrow> (AuthzError + AuthzResource list) \<times> Pg" where
  "organization_resources pg u =
     pg_query pg (\<lambda>t.
       collect_results (map (validated \<circ> OrganizationRes)
         (sort (map (fst \<circ> fst) (filter (\<lambda>((org, member), role). member = u) (t_members t))))))"

text \<open>The first project of an organization by its identifier.\<close>

definition representative :: "Tables \<Rightarrow> string \<Rightarrow> string list" where
  "representative t org = take 1 (sort (map fst (filter (\<lambda>(p, g). g = org) (t_projects t))))"

definition covers_projects :: "Tables \<Rightarrow> string \<Rightarrow> bool" where
  "covers_projects t role =
     (case (map_of (t_roles t) role, map_of (t_roles t) PROJECT_WIDE_ROLE) of
        (Some (rank, b), Some (adm, b')) \<Rightarrow> rank \<ge> adm
      | _ \<Rightarrow> False)"

definition project_probes :: "Tables \<Rightarrow> string \<Rightarrow> string list" where
  "project_probes t u =
     sort (remdups
       (map (fst \<circ> fst) (filter (\<lambda>((p, member), role). member = u) (t_project_members t)) @
        concat (map (\<lambda>((org, member), role). if member = u \<and> covers_projects t role then representative t org else [])
          (t_members t))))"

definition project_probe_resources :: "Pg \<Rightarrow> string \<Rightarrow> (AuthzError + AuthzResource list) \<times> Pg" where
  "project_probe_resources pg u = pg_query pg (\<lambda>t. collect_results (map (validated \<circ> ProjectRes) (project_probes t u)))"

subsection \<open>Enforcement\<close>

record AuthzContext =
  principal_id :: string
  token_policy :: "WrapperPolicy option"
  ctx_action :: AuthzAction
  ctx_resource :: AuthzResource
  ctx_now :: int
  request_ip :: "IpAddr option"
  request_id :: "rtext option"

record CedarIp =
  ip_accepts :: "IpAddr \<Rightarrow> bool"
  ip_in_range :: in_range

definition utc_minute_of_day :: "int \<Rightarrow> int" where
  "utc_minute_of_day now = now mod 86400 div 60"

definition context_ip :: "AuthzContext \<Rightarrow> IpAddr" where
  "context_ip ctx = (case request_ip ctx of None \<Rightarrow> V4 (Ipv4 0 0 0 0) | Some ip \<Rightarrow> ip)"

definition build_request :: "CedarIp \<Rightarrow> AuthzContext \<Rightarrow> Authority \<Rightarrow> AuthzError + CedarRequest" where
  "build_request ce ctx authority =
     (if \<not> ip_accepts ce (context_ip ctx) then Inl CedarRequest
      else Inr \<lparr>rq_action = cedar_id (ctx_action ctx), rq_resource = ctx_resource ctx,
                rq_minute = utc_minute_of_day (ctx_now ctx), rq_ip = context_ip ctx,
                rq_rank = effective_rank authority, rq_billing = billing_rank authority\<rparr>)"

definition refuse_on_evaluation_error :: "CedarResponse \<Rightarrow> AuthzError + CedarResponse" where
  "refuse_on_evaluation_error response = (if cr_errors response = [] then Inr response else Inl CedarEval)"

text \<open>One evaluation: the request, Cedar's answer, and the refusal of an answer with errors.\<close>

definition cedar_pass :: "CedarIp \<Rightarrow> AuthzContext \<Rightarrow> Authority \<Rightarrow> CedarPolicy list \<Rightarrow> AuthzError + CedarResponse" where
  "cedar_pass ce ctx authority policies =
     and_then (build_request ce ctx authority) (\<lambda>req.
       refuse_on_evaluation_error (is_authorized (ip_in_range ce) policies req))"

fun audit_resource :: "AuthzResource \<Rightarrow> string \<times> string option" where
  "audit_resource (AppRes i) = (''app'', Some i)"
| "audit_resource (DatabaseRes i) = (''database'', Some i)"
| "audit_resource (ProjectRes i) = (''project'', Some i)"
| "audit_resource (OrganizationRes i) = (''organization'', Some i)"
| "audit_resource AnyRes = (''any'', None)"

definition audit_row :: "AuthzContext \<Rightarrow> AuthzDecision \<Rightarrow> nat set \<Rightarrow> AuditRow" where
  "audit_row ctx decision matched =
     \<lparr>au_actor = principal_id ctx, au_action = cedar_id (ctx_action ctx),
      au_resource_type = fst (audit_resource (ctx_resource ctx)), au_resource_id = snd (audit_resource (ctx_resource ctx)),
      au_decision = (case decision of AllowDecision \<Rightarrow> ''allow'' | DenyDecision \<Rightarrow> ''deny''),
      au_matched = matched, au_ip = request_ip ctx, au_request_id = request_id ctx\<rparr>"

text \<open>A failed insert is only logged.\<close>

definition audit_decision :: "Pg \<Rightarrow> AuthzContext \<Rightarrow> AuthzDecision \<Rightarrow> nat set \<Rightarrow> Pg" where
  "audit_decision pg ctx decision matched =
     (let pg' = pg\<lparr>pg_queries := Suc (pg_queries pg)\<rparr>
      in if pg_fails pg (pg_queries pg) then pg'
         else pg'\<lparr>pg_audit := pg_audit pg @ [audit_row ctx decision matched]\<rparr>)"

definition final_pass :: "CedarIp \<Rightarrow> CedarPolicy list \<Rightarrow> AuthzContext \<Rightarrow> Authority \<Rightarrow> AuthzError + CedarResponse" where
  "final_pass ce platform ctx authority =
     and_then
       (case token_policy ctx of
          None \<Rightarrow> Inr platform
        | Some policy \<Rightarrow> (case policy_set_from_policy policy of None \<Rightarrow> Inl CedarParse | Some ps \<Rightarrow> Inr ps))
       (cedar_pass ce ctx authority)"

definition decided :: "Pg \<Rightarrow> AuthzContext \<Rightarrow> AuthzError + CedarResponse \<Rightarrow> (AuthzError + AuthzDecision) \<times> Pg" where
  "decided pg ctx result =
     (case result of
        Inl e \<Rightarrow> (Inl e, pg)
      | Inr response \<Rightarrow>
          (let decision = (if cr_allow response then AllowDecision else DenyDecision)
           in (Inr decision, audit_decision pg ctx decision (cr_reason response))))"

definition enforce :: "CedarIp \<Rightarrow> Pg \<Rightarrow> CedarPolicy list \<Rightarrow> AuthzContext \<Rightarrow> (AuthzError + AuthzDecision) \<times> Pg" where
  "enforce ce pg platform ctx =
     (case resolve pg (principal_id ctx) (ctx_resource ctx) of
        (Inl e, pg') \<Rightarrow> (Inl e, pg')
      | (Inr authority, pg') \<Rightarrow>
          if token_policy ctx = None then decided pg' ctx (final_pass ce platform ctx authority)
          else (case cedar_pass ce ctx authority platform of
                  Inl e \<Rightarrow> (Inl e, pg')
                | Inr response \<Rightarrow>
                    if \<not> cr_allow response then (Inr DenyDecision, audit_decision pg' ctx DenyDecision (cr_reason response))
                    else decided pg' ctx (final_pass ce platform ctx authority)))"

fun probe_resources :: "CedarIp \<Rightarrow> Pg \<Rightarrow> CedarPolicy list \<Rightarrow> AuthzContext \<Rightarrow> AuthzResource list \<Rightarrow> (AuthzError + bool) \<times> Pg" where
  "probe_resources ce pg platform ctx [] = (Inr False, pg)"
| "probe_resources ce pg platform ctx (r # rs) =
     (case enforce ce pg platform (ctx\<lparr>token_policy := None, ctx_resource := r\<rparr>) of
        (Inl e, pg') \<Rightarrow> (Inl e, pg')
      | (Inr AllowDecision, pg') \<Rightarrow> (Inr True, pg')
      | (Inr DenyDecision, pg') \<Rightarrow> probe_resources ce pg' platform ctx rs)"

definition is_authorized_anywhere :: "CedarIp \<Rightarrow> Pg \<Rightarrow> CedarPolicy list \<Rightarrow> AuthzContext \<Rightarrow> (AuthzError + bool) \<times> Pg" where
  "is_authorized_anywhere ce pg platform ctx =
     (case organization_resources pg (principal_id ctx) of
        (Inl e, pg1) \<Rightarrow> (Inl e, pg1)
      | (Inr orgs, pg1) \<Rightarrow>
          (case project_probe_resources pg1 (principal_id ctx) of
             (Inl e, pg2) \<Rightarrow> (Inl e, pg2)
           | (Inr projects, pg2) \<Rightarrow> probe_resources ce pg2 platform ctx (AnyRes # orgs @ projects)))"

end
