(* ===== verification/AuthzLower.thy ===== *)
theory AuthzLower
  imports CedarSyntax
begin

text \<open>
  What the lowering of a wrapper policy means. The text of every policy has the tokens of its statements, whatever the name of
  the policy and the texts in it; they parse; and the condition of a statement has the value of its resources and
  conditions as long as a range list of two or more addresses stands alone in its clause.
\<close>

subsection \<open>From text to tokens\<close>

definition word_ends :: "string \<Rightarrow> bool" where
  "word_ends rest \<longleftrightarrow> rest = [] \<or> \<not> is_word_char (hd rest)"

text \<open>A text that has these tokens whatever follows, and one that has them when no word is continued.\<close>

definition lexes :: "string \<Rightarrow> CedarToken list \<Rightarrow> bool" where
  "lexes s ts \<longleftrightarrow> (\<forall>rest. cedar_tokens (s @ rest) = map_option (\<lambda>us. ts @ us) (cedar_tokens rest))"

definition lexes_word :: "string \<Rightarrow> CedarToken list \<Rightarrow> bool" where
  "lexes_word s ts \<longleftrightarrow> (\<forall>rest. word_ends rest \<longrightarrow> cedar_tokens (s @ rest) = map_option (\<lambda>us. ts @ us) (cedar_tokens rest))"

lemmas char_classes = is_space_def is_digit_def is_word_char_def is_line_end_def Let_def double_symbols_def single_symbols_def
lemmas lex_literal = lexes_def lexes_word_def cedar_tokens.simps char_classes newline_def option.map_comp o_def

lemma lexes_imp_word: "lexes s ts \<Longrightarrow> lexes_word s ts"
  by (simp add: lexes_def lexes_word_def)

lemma lexes_Nil: "lexes [] []"
  by (simp add: lexes_def option.map_ident)

lemma lexes_append: "lexes s ts \<Longrightarrow> lexes s' ts' \<Longrightarrow> lexes (s @ s') (ts @ ts')"
  by (simp add: lexes_def option.map_comp o_def)

lemma lexes_append_word: "lexes s ts \<Longrightarrow> lexes_word s' ts' \<Longrightarrow> lexes_word (s @ s') (ts @ ts')"
  by (simp add: lexes_def lexes_word_def option.map_comp o_def)

lemma word_ends_append: "s \<noteq> [] \<Longrightarrow> word_ends (s @ rest) \<longleftrightarrow> word_ends s"
  by (simp add: word_ends_def)

lemma lexes_word_append: "lexes_word s ts \<Longrightarrow> s' \<noteq> [] \<and> word_ends s' \<Longrightarrow> lexes s' ts' \<Longrightarrow> lexes (s @ s') (ts @ ts')"
  by (simp add: lexes_def lexes_word_def word_ends_append option.map_comp o_def)

lemma lexes_word_append_word:
  "lexes_word s ts \<Longrightarrow> s' \<noteq> [] \<and> word_ends s' \<Longrightarrow> lexes_word s' ts' \<Longrightarrow> lexes_word (s @ s') (ts @ ts')"
  by (simp add: lexes_word_def word_ends_append option.map_comp o_def)

lemma scan_cedar_string: "scan_string (concat (map cedar_char v) @ CHR 0x22 # rest) = Some (v, rest)"
  by (induction v) (simp_all add: cedar_char_def unescape_def)

lemma lexes_cedar_string: "lexes (cedar_string v) [TStr v]"
  by (simp add: lexes_def cedar_string_def cedar_tokens.simps scan_cedar_string char_classes)

lemma show_nat_is_digits: "list_all is_digit (show_nat n)"
proof (induction n rule: show_nat.induct)
  case (1 n)
  have "is_digit (digit_char d)" if "d < 10" for d using that by (simp add: is_digit_def digit_char_def)
  then show ?case using 1 by (subst show_nat.simps) simp
qed

lemma digit_is_word: "is_digit c \<Longrightarrow> is_word_char c \<and> \<not> is_space c"
  by (auto simp: char_classes)

lemma lexes_show_nat:
  assumes "in_i64 (int n)"
  shows "lexes_word (show_nat n) [TNum (int n)]"
proof -
  have "cedar_tokens (show_nat n @ rest) = map_option (\<lambda>us. TNum (int n) # us) (cedar_tokens rest)" if "word_ends rest" for rest
  proof -
    have rest: "takeWhile is_digit rest = []" "dropWhile is_digit rest = rest"
      using that digit_is_word by (cases rest; auto simp: word_ends_def)+
    have digits: "\<forall>x \<in> set (show_nat n). is_digit x" using show_nat_is_digits by (simp add: list_all_iff)
    obtain c cs where c: "show_nat n = c # cs" using show_nat_nonempty by (cases "show_nat n") auto
    have "takeWhile is_digit (c # cs @ rest) = show_nat n" "dropWhile is_digit (cs @ rest) = rest"
      using digits c rest takeWhile_append2 [of "c # cs" is_digit rest] dropWhile_append2 [of cs is_digit rest] by auto
    moreover have "parse_i64 (show_nat n) = Some (int n)" using assms by (simp add: parse_i64_show_nat check_i64_def)
    ultimately show ?thesis using digits c digit_is_word [of c]
      by (cases "cedar_tokens rest") (simp_all add: cedar_tokens.simps(2))
  qed
  then show ?thesis by (simp add: lexes_word_def)
qed

fun join_tokens :: "CedarToken \<Rightarrow> CedarToken list list \<Rightarrow> CedarToken list" where
  "join_tokens sep [] = []"
| "join_tokens sep [ts] = ts"
| "join_tokens sep (ts # tss) = ts @ sep # join_tokens sep tss"

lemma lexes_join:
  "list_all2 lexes ss tss \<Longrightarrow> lexes sep [t] \<Longrightarrow> lexes (join_text sep ss) (join_tokens t tss)"
proof (induction ss tss rule: list_all2_induct)
  case (Cons s ss ts tss)
  then show ?case
    using lexes_append [OF Cons.hyps(1) lexes_append [OF Cons.prems Cons.IH]] by (cases ss; cases tss) auto
qed (simp add: lexes_Nil)

lemma lexes_join_word:
  "list_all2 lexes_word ss tss \<Longrightarrow> lexes sep [t] \<Longrightarrow> sep \<noteq> [] \<and> word_ends sep \<Longrightarrow> ss \<noteq> [] \<Longrightarrow>
   lexes_word (join_text sep ss) (join_tokens t tss)"
proof (induction ss tss rule: list_all2_induct)
  case (Cons s ss ts tss)
  show ?case
  proof (cases ss)
    case Nil
    then show ?thesis using Cons.hyps by auto
  next
    case (Cons s' ss')
    then obtain ts' tss' where tss: "tss = ts' # tss'" using Cons.hyps(2) by (cases tss) auto
    have "lexes_word (join_text sep ss) (join_tokens t tss)" using Cons.IH Cons.prems Cons by simp
    from lexes_word_append_word [OF Cons.hyps(1) _ lexes_append_word [OF Cons.prems(1) this]]
    have "lexes_word (s @ sep @ join_text sep ss) (ts @ [t] @ join_tokens t tss)"
      using Cons.prems(2) by (simp add: word_ends_append)
    then show ?thesis using Cons tss by simp
  qed
qed simp

subsection \<open>The tokens of a statement\<close>

definition range_tokens :: "string \<Rightarrow> CedarToken list" where
  "range_tokens v =
     [TWord ''context'', TDot, TWord ''request_ip'', TDot, TWord ''isInRange'', TOpen, TWord ''ip'', TOpen, TStr v, TClose, TClose]"

definition minute_tokens :: "CedarToken \<Rightarrow> nat \<Rightarrow> CedarToken list" where
  "minute_tokens comparison n = [TWord ''context'', TDot, TWord ''now_minute_utc'', comparison, TNum (int n)]"

definition time_window_tokens :: "string \<Rightarrow> string \<Rightarrow> string \<Rightarrow> CedarToken list" where
  "time_window_tokens start finish tz =
     (if tz \<noteq> ''UTC'' then [TWord ''false'']
      else case (parse_minute_of_day start, parse_minute_of_day finish) of
        (Some a, Some b) \<Rightarrow>
          if a < b then [TOpen] @ minute_tokens TGe a @ [TAnd] @ minute_tokens TLt b @ [TClose]
          else if a > b then [TOpen] @ minute_tokens TGe a @ [TOr] @ minute_tokens TLt b @ [TClose]
          else [TWord ''false'']
      | _ \<Rightarrow> [TWord ''false''])"

fun condition_tokens :: "Condition \<Rightarrow> CedarToken list" where
  "condition_tokens (IpRange cidrs) = (if cidrs = [] then [TWord ''false''] else join_tokens TOr (map range_tokens cidrs))"
| "condition_tokens (TimeWindow start finish tz) = time_window_tokens start finish tz"

definition conditions_tokens :: "Condition list \<Rightarrow> CedarToken list" where
  "conditions_tokens cs = join_tokens TAnd (map condition_tokens cs)"

fun uid_tokens :: "AuthzResource \<Rightarrow> CedarToken list" where
  "uid_tokens (AppRes i) = [TWord ''App'', TPath, TStr i]"
| "uid_tokens (DatabaseRes i) = [TWord ''Database'', TPath, TStr i]"
| "uid_tokens (ProjectRes i) = [TWord ''Project'', TPath, TStr i]"
| "uid_tokens (OrganizationRes i) = [TWord ''Organization'', TPath, TStr i]"
| "uid_tokens AnyRes = []"

definition equals_tokens :: "AuthzResource \<Rightarrow> CedarToken list" where
  "equals_tokens r = [TWord ''resource'', TEq] @ uid_tokens r"

text \<open>The constraint in the scope, and the clause.\<close>

definition resource_constraint :: "AuthzResource list \<Rightarrow> ResourceConstraint" where
  "resource_constraint rs = (case rs of [r] \<Rightarrow> if r = AnyRes then AnyResource else IsEntity r | _ \<Rightarrow> AnyResource)"

fun constraint_tokens :: "ResourceConstraint \<Rightarrow> CedarToken list" where
  "constraint_tokens (IsEntity r) = equals_tokens r"
| "constraint_tokens _ = [TWord ''resource'']"

definition resource_clause :: "AuthzResource list \<Rightarrow> CedarToken list option" where
  "resource_clause rs =
     (if AnyRes \<in> set rs then None
      else case rs of
        [] \<Rightarrow> Some [TWord ''false'']
      | [r] \<Rightarrow> None
      | _ \<Rightarrow> Some ([TOpen] @ join_tokens TOr (map equals_tokens rs) @ [TClose]))"

definition when_tokens :: "Statement \<Rightarrow> CedarToken list option" where
  "when_tokens st =
     (let parts = (case resource_clause (st_resources st) of None \<Rightarrow> [] | Some c \<Rightarrow> [c]) @
                  (if st_conditions st = [] then [] else [conditions_tokens (st_conditions st)])
      in if parts = [] then None else Some (join_tokens TAnd parts))"

definition action_tokens :: "AuthzAction list \<Rightarrow> CedarToken list" where
  "action_tokens as = join_tokens TComma (map (\<lambda>a. [TWord ''Action'', TPath, TStr (cedar_id a)]) as)"

definition statement_tokens :: "Statement \<Rightarrow> CedarToken list" where
  "statement_tokens st =
     [TWord (case st_effect st of AllowEffect \<Rightarrow> ''permit'' | DenyEffect \<Rightarrow> ''forbid''), TOpen, TWord ''principal'', TComma,
      TWord ''action'', TWord ''in'', TOpenList] @ action_tokens (st_actions st) @ [TCloseList, TComma] @
     constraint_tokens (resource_constraint (st_resources st)) @ [TClose] @
     (case when_tokens st of None \<Rightarrow> [] | Some ts \<Rightarrow> [TWord ''when'', TOpenBody] @ ts @ [TCloseBody]) @ [TSemicolon]"

lemma lexes_keyword:
  assumes "w \<noteq> []" "list_all is_word_char w" "\<not> is_digit (hd w)"
  shows "lexes_word w [TWord w]"
proof -
  have "cedar_tokens (w @ rest) = map_option (\<lambda>us. TWord w # us) (cedar_tokens rest)" if "word_ends rest" for rest
  proof -
    have rest: "takeWhile is_word_char rest = []" "dropWhile is_word_char rest = rest"
      using that by (cases rest; auto simp: word_ends_def)+
    obtain c cs where c: "w = c # cs" using assms(1) by (cases w) auto
    have "\<forall>x \<in> set w. is_word_char x" using assms(2) by (simp add: list_all_iff)
    then have "takeWhile is_word_char (c # cs @ rest) = w" "dropWhile is_word_char (cs @ rest) = rest" "is_word_char c"
      using c rest takeWhile_append2 [of "c # cs" is_word_char rest] dropWhile_append2 [of cs is_word_char rest] by auto
    moreover have "\<not> is_space c" using \<open>is_word_char c\<close> by (auto simp: char_classes)
    ultimately show ?thesis using assms(3) c by (simp add: cedar_tokens.simps(2))
  qed
  then show ?thesis by (simp add: lexes_word_def)
qed

lemma lexes_keywords: "lexes_word ''false'' [TWord ''false'']" "lexes_word ''resource'' [TWord ''resource'']"
  by (rule lexes_keyword; simp add: char_classes)+

lemma lexes_operators:
  "lexes '' && '' [TAnd]" "lexes '' || '' [TOr]" "lexes '', '' [TComma]" "lexes ''('' [TOpen]" "lexes '')'' [TClose]"
  "lexes ''resource == '' [TWord ''resource'', TEq]" "lexes ''Action::'' [TWord ''Action'', TPath]"
  by (simp_all add: lex_literal)

lemma lexes_range: "lexes (''context.request_ip.isInRange(ip('' @ cedar_string cidr @ ''))'') (range_tokens cidr)"
proof -
  have "lexes ''context.request_ip.isInRange(ip('' [TWord ''context'', TDot, TWord ''request_ip'', TDot, TWord ''isInRange'', TOpen, TWord ''ip'', TOpen]"
    "lexes ''))'' [TClose, TClose]" by (simp_all add: lex_literal)
  from lexes_append [OF this(1) lexes_append [OF lexes_cedar_string this(2)]] show ?thesis by (simp add: range_tokens_def)
qed

lemma minute_of_day_bound: "parse_minute_of_day s = Some n \<Longrightarrow> in_i64 (int n)"
  by (auto simp: parse_minute_of_day_def in_i64_def i64_min_def i64_max_def split: option.splits if_splits)

lemma lexes_minutes:
  assumes "in_i64 (int a)" "in_i64 (int b)"
  shows "lexes (''(context.now_minute_utc >= '' @ show_nat a @ '' && context.now_minute_utc < '' @ show_nat b @ '')'')
      ([TOpen] @ minute_tokens TGe a @ [TAnd] @ minute_tokens TLt b @ [TClose])" (is ?thesis1)
    and "lexes (''(context.now_minute_utc >= '' @ show_nat a @ '' || context.now_minute_utc < '' @ show_nat b @ '')'')
      ([TOpen] @ minute_tokens TGe a @ [TOr] @ minute_tokens TLt b @ [TClose])" (is ?thesis2)
proof -
  let ?minute = "[TWord ''context'', TDot, TWord ''now_minute_utc'']"
  have lits: "lexes ''(context.now_minute_utc >= '' (TOpen # ?minute @ [TGe])" "lexes '')'' [TClose]"
    "lexes '' && context.now_minute_utc < '' (TAnd # ?minute @ [TLt])" "lexes '' || context.now_minute_utc < '' (TOr # ?minute @ [TLt])"
    by (simp_all add: lex_literal)
  have last: "lexes (show_nat b @ '')'') ([TNum (int b)] @ [TClose])"
    by (rule lexes_word_append [OF lexes_show_nat [OF assms(2)] _ lits(2)]) (simp add: word_ends_def char_classes)
  have "lexes (show_nat a @ '' && context.now_minute_utc < '' @ show_nat b @ '')'')
      ([TNum (int a)] @ (TAnd # ?minute @ [TLt]) @ [TNum (int b)] @ [TClose])"
    by (rule lexes_word_append [OF lexes_show_nat [OF assms(1)] _ lexes_append [OF lits(3) last]]) (simp add: word_ends_def char_classes)
  from lexes_append [OF lits(1) this] show ?thesis1 by (simp add: minute_tokens_def)
  have "lexes (show_nat a @ '' || context.now_minute_utc < '' @ show_nat b @ '')'')
      ([TNum (int a)] @ (TOr # ?minute @ [TLt]) @ [TNum (int b)] @ [TClose])"
    by (rule lexes_word_append [OF lexes_show_nat [OF assms(1)] _ lexes_append [OF lits(4) last]]) (simp add: word_ends_def char_classes)
  from lexes_append [OF lits(1) this] show ?thesis2 by (simp add: minute_tokens_def)
qed

lemma list_all2_self_map: "list_all2 P (map f xs) (map g xs) \<longleftrightarrow> (\<forall>x \<in> set xs. P (f x) (g x))"
  by (simp add: list.rel_map list_all2_same)

lemma lexes_condition: "lexes_word (lower_condition c) (condition_tokens c)"
proof (cases c)
  case (IpRange cidrs)
  then show ?thesis using lexes_range lexes_operators(2)
    by (auto simp: lexes_keywords list_all2_self_map intro!: lexes_imp_word lexes_join)
next
  case (TimeWindow start finish tz)
  then show ?thesis
    by (auto simp: lower_time_window_def time_window_tokens_def lexes_keywords split: option.splits
        simp del: append.simps intro!: lexes_imp_word lexes_minutes minute_of_day_bound)
qed

lemma spaced_operators: "'' && '' \<noteq> [] \<and> word_ends '' && ''" "'' || '' \<noteq> [] \<and> word_ends '' || ''"
  by (simp_all add: word_ends_def char_classes)

lemma lexes_conditions: "cs \<noteq> [] \<Longrightarrow> lexes_word (lower_conditions cs) (conditions_tokens cs)"
  unfolding lower_conditions_def conditions_tokens_def
  by (rule lexes_join_word [OF _ lexes_operators(1) spaced_operators(1)]) (auto simp: list_all2_self_map lexes_condition)

lemma lexes_uid: "r \<noteq> AnyRes \<Longrightarrow> lexes (cedar_uid r) (uid_tokens r)"
proof -
  have "lexes ''App::'' [TWord ''App'', TPath]" "lexes ''Database::'' [TWord ''Database'', TPath]"
    "lexes ''Project::'' [TWord ''Project'', TPath]" "lexes ''Organization::'' [TWord ''Organization'', TPath]"
    by (simp_all add: lex_literal)
  from this [THEN lexes_append [OF _ lexes_cedar_string]] show "r \<noteq> AnyRes \<Longrightarrow> ?thesis" by (cases r) auto
qed

lemma lexes_equals: "r \<noteq> AnyRes \<Longrightarrow> lexes (''resource == '' @ cedar_uid r) (equals_tokens r)"
  unfolding equals_tokens_def by (intro lexes_append lexes_operators lexes_uid)

lemma lexes_resources:
  "lexes_word (fst (lower_resources rs)) (constraint_tokens (resource_constraint rs)) \<and>
   rel_option lexes_word (snd (lower_resources rs)) (resource_clause rs)"
proof -
  consider "AnyRes \<in> set rs" | "AnyRes \<notin> set rs" "rs = []" | r where "AnyRes \<notin> set rs" "rs = [r]"
    | r r' rs' where "AnyRes \<notin> set rs" "rs = r # r' # rs'"
    by (cases rs; cases "tl rs") auto
  then show ?thesis
  proof cases
    case 1
    then show ?thesis by (auto simp: lower_resources_def resource_constraint_def resource_clause_def lexes_keywords split: list.split)
  next
    case 2
    then show ?thesis by (simp add: lower_resources_def resource_constraint_def resource_clause_def lexes_keywords)
  next
    case 3
    then show ?thesis using lexes_imp_word [OF lexes_equals [of r]]
      by (auto simp: lower_resources_def resource_constraint_def resource_clause_def)
  next
    case 4
    have "lexes (join_text '' || '' (map (\<lambda>r. ''resource == '' @ cedar_uid r) rs)) (join_tokens TOr (map equals_tokens rs))"
      using 4(1) by (intro lexes_join lexes_operators) (auto simp: list_all2_self_map simp del: append.simps intro!: lexes_equals)
    from lexes_append [OF lexes_operators(4) lexes_append [OF this lexes_operators(5)]]
    have "lexes_word (''('' @ join_text '' || '' (map (\<lambda>r. ''resource == '' @ cedar_uid r) rs) @ '')'')
        ([TOpen] @ join_tokens TOr (map equals_tokens rs) @ [TClose])" by (rule lexes_imp_word)
    then show ?thesis using 4
      by (simp add: lower_resources_def resource_constraint_def resource_clause_def lexes_keywords)
  qed
qed

lemma lexes_when:
  "rel_option lexes_word (lower_when_clause st (snd (lower_resources (st_resources st)))) (when_tokens st)"
proof (cases "resource_clause (st_resources st)")
  case None
  then have "snd (lower_resources (st_resources st)) = None" using lexes_resources [of "st_resources st"] by auto
  then show ?thesis using None by (simp add: lower_when_clause_def when_tokens_def lexes_conditions)
next
  case (Some ts)
  then obtain c where c: "snd (lower_resources (st_resources st)) = Some c" "lexes_word c ts"
    using lexes_resources [of "st_resources st"] by (auto simp: option_rel_Some2)
  have "lexes_word (join_text '' && '' [c, lower_conditions (st_conditions st)]) (join_tokens TAnd [ts, conditions_tokens (st_conditions st)])"
    if "st_conditions st \<noteq> []"
    using c(2) that by (intro lexes_join_word lexes_operators spaced_operators) (auto intro: lexes_conditions)
  then show ?thesis using Some c by (auto simp: lower_when_clause_def when_tokens_def)
qed

lemma lexes_actions: "lexes (lower_actions as) ([TWord ''action'', TWord ''in'', TOpenList] @ action_tokens as @ [TCloseList])"
proof -
  have "lexes ''action in ['' [TWord ''action'', TWord ''in'', TOpenList]" "lexes '']'' [TCloseList]" by (simp_all add: lex_literal)
  moreover have "lexes (''Action::'' @ cedar_string v) [TWord ''Action'', TPath, TStr v]" for v
    using lexes_append [OF lexes_operators(7) lexes_cedar_string] by simp
  then have "lexes (join_text '', '' (map (\<lambda>a. ''Action::'' @ cedar_string (cedar_id a)) as)) (action_tokens as)"
    unfolding action_tokens_def by (intro lexes_join lexes_operators) (simp add: list_all2_self_map)
  ultimately show ?thesis unfolding lower_actions_def by (intro lexes_append)
qed

lemma lexes_statement: "lexes (lower_statement st) (statement_tokens st)"
proof -
  let ?scope = "fst (lower_resources (st_resources st))"
  let ?eff = "case st_effect st of AllowEffect \<Rightarrow> ''permit'' | DenyEffect \<Rightarrow> ''forbid''"
  let ?when = "lower_when_clause st (snd (lower_resources (st_resources st)))"
  let ?body = "case ?when of None \<Rightarrow> [] | Some c \<Rightarrow> newline @ ''when {'' @ newline @ ''  '' @ c @ newline @ ''}''"
  let ?body_tokens = "case when_tokens st of None \<Rightarrow> [] | Some ts \<Rightarrow> [TWord ''when'', TOpenBody] @ ts @ [TCloseBody]"
  have lits: "lexes (?eff @ '' ('' @ newline @ ''  principal,'' @ newline @ ''  '') [TWord ?eff, TOpen, TWord ''principal'', TComma]"
    "lexes ('','' @ newline @ ''  '') [TComma]" "lexes (newline @ '')'') [TClose]" "lexes ('';'' @ newline) [TSemicolon]"
    "lexes (newline @ ''when {'' @ newline @ ''  '') [TWord ''when'', TOpenBody]" "lexes (newline @ ''}'') [TCloseBody]"
    by (cases "st_effect st"; simp add: lex_literal) (simp_all add: lex_literal)
  have body: "lexes ?body ?body_tokens"
  proof (cases "when_tokens st")
    case None
    then show ?thesis using lexes_when [of st] by (auto simp: lexes_Nil)
  next
    case (Some ts)
    then obtain c where c: "?when = Some c" "lexes_word c ts" using lexes_when [of st] by (auto simp: option_rel_Some2)
    have "lexes (c @ newline @ ''}'') (ts @ [TCloseBody])"
      by (rule lexes_word_append [OF c(2) _ lits(6)]) (simp add: word_ends_def newline_def char_classes)
    from lexes_append [OF lits(5) this] show ?thesis using Some c by simp
  qed
  have "lexes (?scope @ newline @ '')'') (constraint_tokens (resource_constraint (st_resources st)) @ [TClose])"
    by (rule lexes_word_append [OF _ _ lits(3)]) (simp_all add: lexes_resources word_ends_def newline_def char_classes)
  from lexes_append [OF lits(1) lexes_append [OF lexes_actions [of "st_actions st"] lexes_append [OF lits(2) lexes_append [OF this lexes_append [OF body lits(4)]]]]]
  show ?thesis
    unfolding lower_statement_def statement_tokens_def Let_def case_prod_unfold by (simp only: append_assoc append.simps)
qed

lemma lexes_statements: "lexes (join_text newline (map lower_statement sts)) (concat (map statement_tokens sts))"
proof (induction sts)
  case (Cons st sts)
  have "lexes newline []" by (simp add: lex_literal option.map_ident)
  from lexes_append [OF lexes_statement lexes_append [OF this Cons.IH]] show ?case
    using lexes_statement by (cases sts) simp_all
qed (simp add: lexes_Nil)

lemma sanitized_name_has_no_line_end: "x \<in> set (sanitize_cedar_comment_fragment s) \<Longrightarrow> \<not> is_line_end x"
proof -
  have "set (drop_comment_ends t) \<subseteq> set t" for t by (induction t rule: drop_comment_ends.induct) auto
  then show "x \<in> set (sanitize_cedar_comment_fragment s) \<Longrightarrow> ?thesis"
    by (fastforce simp: sanitize_cedar_comment_fragment_def is_line_end_def)
qed

lemma tokens_of_lowered: "cedar_tokens (lower policy) = Some (concat (map statement_tokens (pol_statements policy)))"
proof -
  let ?name = "sanitize_cedar_comment_fragment (pol_name policy)"
  have "dropWhile (\<lambda>x. \<not> is_line_end x) (''/ Policy: '' @ ?name @ CHR 0x0A # rest) = CHR 0x0A # rest" for rest
    using sanitized_name_has_no_line_end by (simp add: dropWhile_append2 is_line_end_def)
  then have "cedar_tokens (''// Policy: '' @ ?name @ newline @ rest) = cedar_tokens rest" for rest
    by (simp add: cedar_tokens.simps(2) newline_def char_classes)
  then show ?thesis using lexes_statements [of "pol_statements policy"] unfolding lower_def lexes_def
    by (metis append_Nil2 cedar_tokens.simps(1) option.map(2))
qed

subsection \<open>Reading tokens back\<close>

definition ends_at :: "CedarToken list \<Rightarrow> CedarToken list \<Rightarrow> bool" where
  "ends_at seps rest \<longleftrightarrow> (case rest of [] \<Rightarrow> True | t # ts \<Rightarrow> t \<notin> set seps)"

definition parses_primary :: "CedarToken list \<Rightarrow> Expr \<Rightarrow> bool" where
  "parses_primary ts e \<longleftrightarrow> ts \<noteq> [] \<and> (\<forall>n rest. 3 * length ts \<le> n + 2 \<longrightarrow> parse_primary (Suc n) (ts @ rest) = Some (e, rest))"

definition parses :: "CedarToken list \<Rightarrow> Expr \<Rightarrow> bool" where
  "parses ts e \<longleftrightarrow> ts \<noteq> [] \<and>
     (\<forall>n rest. ends_at [TAnd, TOr] rest \<longrightarrow> 3 * length ts \<le> n \<longrightarrow> parse_or (Suc n) (ts @ rest) = Some (e, rest))"

lemma ends_at_simps [simp]: "ends_at seps []" "ends_at seps (t # ts) \<longleftrightarrow> t \<notin> set seps"
  by (simp_all add: ends_at_def)

lemma ends_at_less: "ends_at seps rest \<Longrightarrow> set seps' \<subseteq> set seps \<Longrightarrow> ends_at seps' rest"
  by (cases rest) auto

lemma eat_ends [simp]: "ends_at [t] rest \<Longrightarrow> eat [t] rest = None"
  by (cases rest) auto

lemma eat_one [simp]: "eat [t] (t # rest) = Some rest"
  by simp

lemma parse_resource_uid: "r \<noteq> AnyRes \<Longrightarrow> parse_resource (uid_tokens r @ rest) = Some (r, rest)"
  by (cases r) (simp_all add: parse_resource_def parse_entity_def entity_resource_def)

lemma parses_atom:
  "parses_primary [TWord ''false''] (BoolLit False)"
  "parses_primary (range_tokens v) (InRange v)"
  "parses_primary (minute_tokens TGe k) (MinuteGe (int k))"
  "parses_primary (minute_tokens TLt k) (MinuteLt (int k))"
  "r \<noteq> AnyRes \<Longrightarrow> parses_primary (equals_tokens r) (ResourceEq r)"
  by (simp_all add: parses_primary_def parse_relation_def range_tokens_def minute_tokens_def equals_tokens_def parse_in_range_def
      parse_minute_def parse_resource_uid)

lemma parses_primaryD:
  "parses_primary ts e \<Longrightarrow> 3 * length ts \<le> n + 2 \<Longrightarrow> parse_primary (Suc n) (ts @ rest) = Some (e, rest)"
  by (simp add: parses_primary_def)

lemma parse_and_last: "parse_primary n ts = Some (e, rest) \<Longrightarrow> ends_at [TAnd] rest \<Longrightarrow> parse_and (Suc n) ts = Some (e, rest)"
  by simp

lemma parse_and_more:
  "parse_primary n ts = Some (e, TAnd # us) \<Longrightarrow> parse_and n us = Some (e', rest) \<Longrightarrow> parse_and (Suc n) ts = Some (AndExpr e e', rest)"
  by simp

lemma parse_or_last: "parse_and n ts = Some (e, rest) \<Longrightarrow> ends_at [TOr] rest \<Longrightarrow> parse_or (Suc n) ts = Some (e, rest)"
  by simp

lemma parse_or_more:
  "parse_and n ts = Some (e, TOr # us) \<Longrightarrow> parse_or n us = Some (e', rest) \<Longrightarrow> parse_or (Suc n) ts = Some (OrExpr e e', rest)"
  by simp

lemma parse_primary_parens:
  "parse_or n ts = Some (e, TClose # rest) \<Longrightarrow> parse_primary (Suc n) (TOpen # ts) = Some (e, rest)"
  by simp

declare parse_or.simps [simp del] parse_and.simps [simp del] parse_primary.simps [simp del]

text \<open>A sequence of primaries joined by either operator.\<close>

inductive operand_chain :: "CedarToken list \<Rightarrow> bool" where
  chain_one: "parses_primary ts e \<Longrightarrow> operand_chain ts"
| chain_and: "parses_primary ts e \<Longrightarrow> operand_chain ts' \<Longrightarrow> operand_chain (ts @ TAnd # ts')"
| chain_or: "parses_primary ts e \<Longrightarrow> operand_chain ts' \<Longrightarrow> operand_chain (ts @ TOr # ts')"

lemma operand_chain_nonempty: "operand_chain ts \<Longrightarrow> ts \<noteq> []"
  by (induction rule: operand_chain.induct) (auto simp: parses_primary_def)

lemma operand_chain_append:
  "operand_chain ts \<Longrightarrow> operand_chain us \<Longrightarrow> sep = TAnd \<or> sep = TOr \<Longrightarrow> operand_chain (ts @ sep # us)"
  by (induction rule: operand_chain.induct) (auto intro: operand_chain.intros)

lemma operand_chain_join:
  "tss \<noteq> [] \<Longrightarrow> list_all operand_chain tss \<Longrightarrow> sep = TAnd \<or> sep = TOr \<Longrightarrow> operand_chain (join_tokens sep tss)"
  by (induction sep tss rule: join_tokens.induct) (auto intro: operand_chain_append)

text \<open>The conjunction at the front of a chain, and the rest of the chain behind it.\<close>

lemma parse_and_chain:
  "operand_chain ts \<Longrightarrow> \<exists>e us. (us = [] \<or> (\<exists>vs. us = TOr # vs \<and> operand_chain vs)) \<and> length us < length ts \<and>
     (\<forall>n rest. ends_at [TAnd] rest \<longrightarrow> 3 * length ts \<le> n + 1 \<longrightarrow> parse_and (Suc n) (ts @ rest) = Some (e, us @ rest))"
proof (induction rule: operand_chain.induct)
  case (chain_one ts e)
  have "parse_and (Suc n) (ts @ rest) = Some (e, rest)" if ends: "ends_at [TAnd] rest" and n: "3 * length ts \<le> n + 1" for n rest
  proof -
    obtain k where "n = Suc k" using chain_one n by (cases n; cases ts) (auto simp: parses_primary_def)
    then show ?thesis using chain_one ends n parses_primaryD [of ts e k rest] by (auto intro: parse_and_last)
  qed
  moreover have "ts \<noteq> []" using chain_one by (simp add: parses_primary_def)
  ultimately show ?case by (intro exI [of _ e] exI [of _ "[]"]) simp
next
  case (chain_and ts e ts')
  then obtain e' us where us: "us = [] \<or> (\<exists>vs. us = TOr # vs \<and> operand_chain vs)" "length us < length ts'"
    "\<And>n rest. ends_at [TAnd] rest \<Longrightarrow> 3 * length ts' \<le> n + 1 \<Longrightarrow> parse_and (Suc n) (ts' @ rest) = Some (e', us @ rest)" by blast
  have "parse_and (Suc n) (ts @ TAnd # ts' @ rest) = Some (AndExpr e e', us @ rest)"
    if ends: "ends_at [TAnd] rest" and fuel: "3 * (length ts + length ts') + 2 \<le> n" for n rest
  proof -
    obtain k where n: "n = Suc k" using fuel by (cases n) auto
    have "parse_primary (Suc k) (ts @ TAnd # ts' @ rest) = Some (e, TAnd # ts' @ rest)"
      using chain_and.hyps(1) fuel n by (intro parses_primaryD) simp_all
    moreover have "parse_and (Suc k) (ts' @ rest) = Some (e', us @ rest)" using ends fuel n by (intro us(3)) simp_all
    ultimately show ?thesis unfolding n by (rule parse_and_more)
  qed
  then show ?case using us(1,2) by (intro exI [of _ "AndExpr e e'"] exI [of _ us]) auto
next
  case (chain_or ts e ts')
  have "parse_and (Suc n) (ts @ TOr # ts' @ rest) = Some (e, TOr # ts' @ rest)" if fuel: "3 * (length ts + length ts') + 2 \<le> n" for n rest
  proof -
    obtain k where n: "n = Suc k" using fuel by (cases n) auto
    have "parse_primary (Suc k) (ts @ TOr # ts' @ rest) = Some (e, TOr # ts' @ rest)"
      using chain_or.hyps(1) fuel n by (intro parses_primaryD) simp_all
    then show ?thesis unfolding n by (rule parse_and_last) simp
  qed
  moreover have "ts \<noteq> []" using chain_or.hyps(1) by (simp add: parses_primary_def)
  ultimately show ?case using chain_or.hyps(2) by (intro exI [of _ e] exI [of _ "TOr # ts'"]) auto
qed

lemma chain_parses: "operand_chain ts \<Longrightarrow> \<exists>e. parses ts e"
proof (induction "length ts" arbitrary: ts rule: less_induct)
  case less
  obtain e us where us: "us = [] \<or> (\<exists>vs. us = TOr # vs \<and> operand_chain vs)" "length us < length ts"
    "\<And>n rest. ends_at [TAnd] rest \<Longrightarrow> 3 * length ts \<le> n + 1 \<Longrightarrow> parse_and (Suc n) (ts @ rest) = Some (e, us @ rest)"
    using parse_and_chain [OF less.prems] by blast
  have front: "\<exists>k. n = Suc k \<and> parse_and n (ts @ rest) = Some (e, us @ rest)"
    if "ends_at [TAnd, TOr] rest" "3 * length ts \<le> n" for n rest
    using that us(2) us(3) [of rest "n - 1"] ends_at_less [OF that(1), of "[TAnd]"] by (cases n) auto
  show ?case
  proof (cases "us = []")
    case True
    have "parse_or (Suc n) (ts @ rest) = Some (e, rest)" if "ends_at [TAnd, TOr] rest" "3 * length ts \<le> n" for n rest
      using front [OF that] True that(1) by (auto intro!: parse_or_last intro: ends_at_less)
    then show ?thesis using us(2) by (intro exI [of _ e]) (auto simp: parses_def)
  next
    case False
    then obtain vs e' where vs: "us = TOr # vs" "parses vs e'" using us(1,2) less.hyps by force
    have "parse_or (Suc n) (ts @ rest) = Some (OrExpr e e', rest)" if ends: "ends_at [TAnd, TOr] rest" and fuel: "3 * length ts \<le> n" for n rest
    proof -
      obtain k where k: "n = Suc k" "parse_and n (ts @ rest) = Some (e, TOr # vs @ rest)" using front [OF ends fuel] vs(1) by auto
      have "parse_or n (vs @ rest) = Some (e', rest)" using vs us(2) ends fuel k(1) by (simp add: parses_def)
      with k(2) show ?thesis by (rule parse_or_more)
    qed
    then show ?thesis using us(2) by (intro exI [of _ "OrExpr e e'"]) (auto simp: parses_def)
  qed
qed

text \<open>A parenthesised expression is a primary.\<close>

lemma parses_parens:
  assumes "parses ts e"
  shows "parses_primary (TOpen # ts @ [TClose]) e"
proof -
  have "parse_primary (Suc n) (TOpen # ts @ TClose # rest) = Some (e, rest)" if fuel: "3 * length ts + 4 \<le> n" for n rest
  proof -
    obtain k where n: "n = Suc k" using fuel by (cases n) auto
    have "parse_or (Suc k) (ts @ TClose # rest) = Some (e, TClose # rest)" using assms fuel n by (simp add: parses_def)
    then show ?thesis unfolding n by (rule parse_primary_parens)
  qed
  then show ?thesis by (simp add: parses_primary_def)
qed

subsection \<open>The value of joined operands\<close>

fun and_expr :: "Expr list \<Rightarrow> Expr" where
  "and_expr [] = BoolLit True"
| "and_expr [e] = e"
| "and_expr (e # es) = AndExpr e (and_expr es)"

fun or_expr :: "Expr list \<Rightarrow> Expr" where
  "or_expr [] = BoolLit False"
| "or_expr [e] = e"
| "or_expr (e # es) = OrExpr e (or_expr es)"

lemma parse_and_join:
  "list_all2 parses_primary tss es \<Longrightarrow> tss \<noteq> [] \<Longrightarrow> ends_at [TAnd] rest \<Longrightarrow> 3 * length (join_tokens TAnd tss) \<le> n + 1 \<Longrightarrow>
   parse_and (Suc n) (join_tokens TAnd tss @ rest) = Some (and_expr es, rest)"
proof (induction tss es arbitrary: n rule: list_all2_induct)
  case Nil
  then show ?case by simp
next
  case (Cons ts tss e es)
  have "ts \<noteq> []" using Cons.hyps(1) by (simp add: parses_primary_def)
  then obtain k where n: "n = Suc k" using Cons.prems(3) by (cases n; cases ts; cases tss) auto
  show ?case
  proof (cases tss)
    case Nil
    then show ?thesis using Cons n parses_primaryD [of ts e k rest] by (auto intro: parse_and_last)
  next
    case (Cons ts' tss')
    then obtain e' es' where es: "es = e' # es'" using Cons.hyps(2) by (cases es) auto
    let ?us = "join_tokens TAnd tss"
    have "parse_primary (Suc k) (ts @ TAnd # ?us @ rest) = Some (e, TAnd # ?us @ rest)"
      using Cons.hyps(1) Cons.prems(3) n Cons by (intro parses_primaryD) simp_all
    moreover have "parse_and (Suc k) (?us @ rest) = Some (and_expr es, rest)"
      using Cons.prems n Cons by (intro Cons.IH) simp_all
    ultimately show ?thesis unfolding n using Cons es by (simp add: parse_and_more)
  qed
qed

lemma parse_or_join:
  "list_all2 parses_primary tss es \<Longrightarrow> tss \<noteq> [] \<Longrightarrow> ends_at [TAnd, TOr] rest \<Longrightarrow> 3 * length (join_tokens TOr tss) \<le> n \<Longrightarrow>
   parse_or (Suc n) (join_tokens TOr tss @ rest) = Some (or_expr es, rest)"
proof (induction tss es arbitrary: n rule: list_all2_induct)
  case Nil
  then show ?case by simp
next
  case (Cons ts tss e es)
  have "ts \<noteq> []" using Cons.hyps(1) by (simp add: parses_primary_def)
  then obtain j where j: "n = Suc (Suc j)" using Cons.prems(3) by (cases n; cases "n - 1"; cases ts; cases tss) auto
  have ends: "ends_at [TAnd] rest" "ends_at [TOr] rest" using Cons.prems(2) by (auto intro: ends_at_less)
  show ?case
  proof (cases tss)
    case Nil
    then have "parse_primary (Suc j) (ts @ rest) = Some (e, rest)"
      using Cons.hyps(1) Cons.prems(3) j by (intro parses_primaryD) simp_all
    then show ?thesis using Nil Cons.hyps(2) ends by (simp add: j parse_and_last parse_or_last)
  next
    case (Cons ts' tss')
    then obtain e' es' where es: "es = e' # es'" using Cons.hyps(2) by (cases es) auto
    let ?us = "join_tokens TOr tss"
    have "parse_primary (Suc j) (ts @ TOr # ?us @ rest) = Some (e, TOr # ?us @ rest)"
      using Cons.hyps(1) Cons.prems(3) j Cons by (intro parses_primaryD) simp_all
    then have "parse_and (Suc (Suc j)) (ts @ TOr # ?us @ rest) = Some (e, TOr # ?us @ rest)"
      by (rule parse_and_last) simp
    moreover have "parse_or (Suc (Suc j)) (?us @ rest) = Some (or_expr es, rest)"
      using Cons.prems j Cons by (intro Cons.IH) simp_all
    ultimately show ?thesis unfolding j using Cons es by (simp add: parse_or_more)
  qed
qed

lemma join_tokens_nonempty: "list_all2 parses_primary tss es \<Longrightarrow> tss \<noteq> [] \<Longrightarrow> join_tokens sep tss \<noteq> []"
  by (cases "(sep, tss)" rule: join_tokens.cases) (auto simp: parses_primary_def list_all2_Cons1)

lemma parses_or: "list_all2 parses_primary tss es \<Longrightarrow> tss \<noteq> [] \<Longrightarrow> parses (join_tokens TOr tss) (or_expr es)"
  by (simp add: parses_def parse_or_join join_tokens_nonempty)

lemma parses_and:
  assumes "list_all2 parses_primary tss es" "tss \<noteq> []"
  shows "parses (join_tokens TAnd tss) (and_expr es)"
proof -
  let ?ts = "join_tokens TAnd tss"
  have ts: "?ts \<noteq> []" by (rule join_tokens_nonempty [OF assms])
  have "parse_or (Suc n) (?ts @ rest) = Some (and_expr es, rest)" if ends: "ends_at [TAnd, TOr] rest" and n: "3 * length ?ts \<le> n" for n rest
  proof -
    obtain k where "n = Suc k" using n ts by (cases n) auto
    then show ?thesis using ends n parse_and_join [OF assms, of rest k] ends_at_less [OF ends, of "[TAnd]"] by (intro parse_or_last) (auto intro: ends_at_less)
  qed
  with ts show ?thesis by (simp add: parses_def)
qed

fun and_all :: "bool option list \<Rightarrow> bool option" where
  "and_all [] = Some True"
| "and_all (v # vs) = and_then_bool v (and_all vs)"

fun or_any :: "bool option list \<Rightarrow> bool option" where
  "or_any [] = Some False"
| "or_any (v # vs) = or_else_bool v (or_any vs)"

lemma bool_operator_units [simp]: "and_then_bool v (Some True) = v" "or_else_bool v (Some False) = v"
  by (auto simp: and_then_bool_def or_else_bool_def split: option.splits bool.splits)

lemma eval_and_expr: "eval_expr ir rq (and_expr es) = and_all (map (eval_expr ir rq) es)"
  by (induction es rule: and_expr.induct) simp_all

lemma eval_or_expr: "eval_expr ir rq (or_expr es) = or_any (map (eval_expr ir rq) es)"
  by (induction es rule: or_expr.induct) simp_all

lemma join_tokens_nested: "tss \<noteq> [] \<Longrightarrow> join_tokens sep [ts, join_tokens sep tss] = join_tokens sep (ts # tss)"
  by (cases tss) simp_all

subsection \<open>What a statement asks for\<close>

definition time_window_value :: "CedarRequest \<Rightarrow> string \<Rightarrow> string \<Rightarrow> string \<Rightarrow> bool" where
  "time_window_value rq start finish tz \<longleftrightarrow> tz = ''UTC'' \<and>
     (case (parse_minute_of_day start, parse_minute_of_day finish) of
        (Some a, Some b) \<Rightarrow>
          (if a \<le> b then int a \<le> rq_minute rq \<and> rq_minute rq < int b else int a \<le> rq_minute rq \<or> rq_minute rq < int b)
      | _ \<Rightarrow> False)"

fun condition_value :: "in_range \<Rightarrow> CedarRequest \<Rightarrow> Condition \<Rightarrow> bool option" where
  "condition_value ir rq (IpRange cidrs) = or_any (map (ir (rq_ip rq)) cidrs)"
| "condition_value ir rq (TimeWindow start finish tz) = Some (time_window_value rq start finish tz)"

definition resource_named :: "CedarRequest \<Rightarrow> AuthzResource list \<Rightarrow> bool" where
  "resource_named rq rs \<longleftrightarrow> AnyRes \<in> set rs \<or> rq_resource rq \<in> set rs"

text \<open>Action, resource, then the conditions in order.\<close>

definition statement_value :: "in_range \<Rightarrow> CedarRequest \<Rightarrow> Statement \<Rightarrow> bool option" where
  "statement_value ir rq st =
     (if rq_action rq \<in> cedar_id ` set (st_actions st) \<and> resource_named rq (st_resources st)
      then and_all (map (condition_value ir rq) (st_conditions st)) else Some False)"

fun is_range_list :: "Condition \<Rightarrow> bool" where
  "is_range_list (IpRange cidrs) \<longleftrightarrow> 2 \<le> length cidrs"
| "is_range_list (TimeWindow start finish tz) \<longleftrightarrow> False"

text \<open>A range list of two or more addresses is the only condition, and the resources add no clause of their own.\<close>

definition range_list_stands_alone :: "Statement \<Rightarrow> bool" where
  "range_list_stands_alone st \<longleftrightarrow>
     list_ex is_range_list (st_conditions st) \<longrightarrow>
       length (st_conditions st) = 1 \<and> (AnyRes \<in> set (st_resources st) \<or> length (st_resources st) = 1)"

fun condition_expr :: "Condition \<Rightarrow> Expr" where
  "condition_expr (IpRange cidrs) = or_expr (map InRange cidrs)"
| "condition_expr (TimeWindow start finish tz) =
     (if tz \<noteq> ''UTC'' then BoolLit False
      else case (parse_minute_of_day start, parse_minute_of_day finish) of
        (Some a, Some b) \<Rightarrow>
          if a < b then AndExpr (MinuteGe (int a)) (MinuteLt (int b))
          else if a > b then OrExpr (MinuteGe (int a)) (MinuteLt (int b)) else BoolLit False
      | _ \<Rightarrow> BoolLit False)"

lemma eval_condition_expr: "eval_expr ir rq (condition_expr c) = condition_value ir rq c"
  by (cases c)
    (auto simp: eval_or_expr o_def time_window_value_def and_then_bool_def or_else_bool_def split: option.splits bool.splits)

lemma parses_minutes:
  "parses_primary ([TOpen] @ minute_tokens TGe a @ [TAnd] @ minute_tokens TLt b @ [TClose]) (AndExpr (MinuteGe (int a)) (MinuteLt (int b)))"
  "parses_primary ([TOpen] @ minute_tokens TGe a @ [TOr] @ minute_tokens TLt b @ [TClose]) (OrExpr (MinuteGe (int a)) (MinuteLt (int b)))"
  using parses_parens [OF parses_and [of "[minute_tokens TGe a, minute_tokens TLt b]" "[MinuteGe (int a), MinuteLt (int b)]"]]
    parses_parens [OF parses_or [of "[minute_tokens TGe a, minute_tokens TLt b]" "[MinuteGe (int a), MinuteLt (int b)]"]]
  by (simp_all add: parses_atom)

lemma parses_condition: "\<not> is_range_list c \<Longrightarrow> parses_primary (condition_tokens c) (condition_expr c)"
proof (cases c)
  case (IpRange cidrs)
  assume "\<not> is_range_list c"
  then have "cidrs = [] \<or> (\<exists>a. cidrs = [a])" using IpRange by (cases cidrs; cases "tl cidrs") auto
  then show ?thesis using IpRange by (auto simp: parses_atom)
next
  case (TimeWindow start finish tz)
  then show ?thesis
    by (auto simp: time_window_tokens_def parses_atom parses_minutes simp del: append.simps split: option.splits)
qed

lemma parses_resources:
  "rs \<noteq> [] \<Longrightarrow> AnyRes \<notin> set rs \<Longrightarrow>
   parses_primary ([TOpen] @ join_tokens TOr (map equals_tokens rs) @ [TClose]) (or_expr (map ResourceEq rs))"
  using parses_parens [OF parses_or [of "map equals_tokens rs" "map ResourceEq rs"]]
  by (fastforce simp: list_all2_self_map intro!: parses_atom)

lemma or_any_equals: "or_any (map (\<lambda>r. Some (x = r)) rs) = Some (x \<in> set rs)"
  by (induction rs) (auto simp: or_else_bool_def split: bool.splits)

text \<open>The clause of the resources, when they have one.\<close>

lemma resource_clause_cases:
  obtains (scoped) "resource_clause rs = None" "AnyRes \<in> set rs \<or> length rs = 1"
      "\<And>rq p. cp_resource p = resource_constraint rs \<Longrightarrow> in_scope rq p \<longleftrightarrow> rq_action rq \<in> set (cp_actions p) \<and> resource_named rq rs"
  | (clause) ts e where "resource_clause rs = Some ts" "resource_constraint rs = AnyResource" "\<not> (AnyRes \<in> set rs \<or> length rs = 1)"
      "parses_primary ts e" "\<And>ir rq. eval_expr ir rq e = Some (resource_named rq rs)"
proof -
  consider "AnyRes \<in> set rs" | "AnyRes \<notin> set rs" "rs = []" | r where "AnyRes \<notin> set rs" "rs = [r]"
    | r r' rs' where "AnyRes \<notin> set rs" "rs = r # r' # rs'"
    by (cases rs; cases "tl rs") auto
  then show thesis
  proof cases
    case 1
    then show thesis by (intro scoped) (auto simp: resource_clause_def resource_constraint_def in_scope_def resource_named_def split: list.splits)
  next
    case 2
    then show thesis
      by (intro clause [of "[TWord ''false'']" "BoolLit False"])
        (auto simp: resource_clause_def resource_constraint_def parses_atom resource_named_def)
  next
    case 3
    then show thesis by (intro scoped) (auto simp: resource_clause_def resource_constraint_def in_scope_def resource_named_def)
  next
    case 4
    have "eval_expr ir rq (or_expr (map ResourceEq rs)) = Some (resource_named rq rs)" for ir rq
      using 4(1) by (simp add: eval_or_expr o_def or_any_equals resource_named_def)
    then show thesis using 4 parses_resources [of rs]
      by (intro clause [of _ "or_expr (map ResourceEq rs)"]) (auto simp: resource_clause_def resource_constraint_def)
  qed
qed

lemma parses_lone_range_list:
  "list_ex is_range_list cs \<Longrightarrow> length cs = 1 \<Longrightarrow> parses (conditions_tokens cs) (and_expr (map condition_expr cs))"
proof -
  assume "list_ex is_range_list cs" "length cs = 1"
  then obtain cidrs where "cs = [IpRange cidrs]" "2 \<le> length cidrs" by (cases cs; cases "hd cs") auto
  then show ?thesis using parses_or [of "map range_tokens cidrs" "map InRange cidrs"]
    by (auto simp: conditions_tokens_def list_all2_self_map parses_atom)
qed

lemma parses_conditions:
  "cs \<noteq> [] \<Longrightarrow> list_ex is_range_list cs \<longrightarrow> length cs = 1 \<Longrightarrow> parses (conditions_tokens cs) (and_expr (map condition_expr cs))"
  using parses_and [of "map condition_tokens cs" "map condition_expr cs"] parses_lone_range_list [of cs]
  by (cases "list_ex is_range_list cs")
    (auto simp: conditions_tokens_def list_all2_self_map list_ex_iff intro: parses_condition)

lemma parses_guarded_conditions:
  "\<not> list_ex is_range_list cs \<Longrightarrow> parses_primary ts e \<Longrightarrow> cs \<noteq> [] \<Longrightarrow>
   parses (join_tokens TAnd [ts, conditions_tokens cs]) (and_expr (e # map condition_expr cs))"
  using parses_and [of "ts # map condition_tokens cs" "e # map condition_expr cs"]
  by (auto simp: conditions_tokens_def join_tokens_nested list_all2_self_map list_ex_iff
      simp del: join_tokens.simps and_expr.simps intro: parses_condition)

subsection \<open>The policy of a statement\<close>

definition read_condition :: "CedarToken list \<Rightarrow> Expr" where
  "read_condition ts = (case parse_expr ts of Some (e, rest) \<Rightarrow> e | None \<Rightarrow> BoolLit False)"

definition statement_policy :: "Statement \<Rightarrow> CedarPolicy" where
  "statement_policy st =
     \<lparr>cp_permit = (st_effect st = AllowEffect), cp_actions = map cedar_id (st_actions st),
      cp_resource = resource_constraint (st_resources st), cp_when = map_option read_condition (when_tokens st)\<rparr>"

lemma parse_expr_parses: "parses ts e \<Longrightarrow> ends_at [TAnd, TOr] rest \<Longrightarrow> parse_expr (ts @ rest) = Some (e, rest)"
  by (simp add: parse_expr_def parses_def eval_nat_numeral)

lemma read_parses: "parses ts e \<Longrightarrow> read_condition ts = e"
  using parse_expr_parses [of ts e "[]"] by (simp add: read_condition_def)

lemma parse_action_list_tokens:
  "as \<noteq> [] \<Longrightarrow> length as \<le> n \<Longrightarrow> parse_action_list n (action_tokens as @ TCloseList # rest) = Some (map cedar_id as, rest)"
proof (induction as arbitrary: n)
  case (Cons a as)
  then obtain k where n: "n = Suc k" "length as \<le> k" by (cases n) auto
  show ?case
  proof (cases as)
    case Nil
    then show ?thesis using n(1) by (simp add: action_tokens_def parse_entity_def)
  next
    case (Cons b bs)
    then have "action_tokens (a # as) = [TWord ''Action'', TPath, TStr (cedar_id a), TComma] @ action_tokens as"
      by (simp add: action_tokens_def)
    then show ?thesis using Cons.IH [OF _ n(2)] Cons n(1) by (simp add: parse_entity_def)
  qed
qed simp

lemma length_action_tokens: "length as \<le> length (action_tokens as)"
proof (induction as)
  case (Cons a as)
  then show ?case by (cases as) (simp_all add: action_tokens_def)
qed simp

lemma parse_actions_tokens: "parse_actions (action_tokens as @ TCloseList # rest) = Some (map cedar_id as, rest)"
proof (cases as)
  case Nil
  then show ?thesis by (simp add: parse_actions_def action_tokens_def)
next
  case (Cons a as')
  then have "eat [TCloseList] (action_tokens as @ TCloseList # rest) = None" by (cases as') (simp_all add: action_tokens_def)
  then show ?thesis using Cons length_action_tokens [of as] parse_action_list_tokens [of as "length (action_tokens as) + Suc (length rest)" rest]
    by (simp add: parse_actions_def)
qed

lemma operand_chain_condition: "operand_chain (condition_tokens c)"
proof (cases c)
  case (IpRange cidrs)
  then show ?thesis
    by (auto intro!: operand_chain_join intro: chain_one [OF parses_atom(1)] chain_one [OF parses_atom(2)] simp: list_all_iff)
next
  case (TimeWindow start finish tz)
  then show ?thesis using parses_condition [of c] by (auto intro: chain_one)
qed

lemma operand_chain_conditions: "cs \<noteq> [] \<Longrightarrow> operand_chain (conditions_tokens cs)"
  unfolding conditions_tokens_def by (intro operand_chain_join) (auto simp: list_all_iff operand_chain_condition)

lemma when_parses: "when_tokens st = Some ts \<Longrightarrow> \<exists>e. parses ts e"
proof (cases rule: resource_clause_cases [of "st_resources st"])
  case scoped
  assume "when_tokens st = Some ts"
  then have "st_conditions st \<noteq> []" "ts = conditions_tokens (st_conditions st)" using scoped(1)
    by (auto simp: when_tokens_def split: if_splits)
  then show ?thesis using chain_parses [OF operand_chain_conditions] by blast
next
  case (clause us e)
  assume "when_tokens st = Some ts"
  then have "ts = join_tokens TAnd (us # (if st_conditions st = [] then [] else [conditions_tokens (st_conditions st)]))"
    using clause(1) by (auto simp: when_tokens_def split: if_splits)
  then have "operand_chain ts"
    using clause(4) by (auto intro: chain_one chain_and operand_chain_conditions)
  then show ?thesis by (rule chain_parses)
qed

lemma parse_constraint_tokens:
  "\<exists>ts. constraint_tokens (resource_constraint rs) = TWord ''resource'' # ts \<and>
     (\<forall>rest. parse_constraint (ts @ TClose # rest) = Some (resource_constraint rs, TClose # rest))"
proof -
  consider r where "rs = [r]" "r \<noteq> AnyRes" | "resource_constraint rs = AnyResource"
    by (cases rs; cases "tl rs"; cases "hd rs = AnyRes") (auto simp: resource_constraint_def)
  then show ?thesis
    by cases (auto simp: resource_constraint_def equals_tokens_def parse_constraint_def parse_resource_uid)
qed

lemma parse_statement_tokens: "parse_policy (statement_tokens st @ rest) = Some (statement_policy st, rest)"
proof -
  obtain cs where cs: "constraint_tokens (resource_constraint (st_resources st)) = TWord ''resource'' # cs"
    "\<And>rest. parse_constraint (cs @ TClose # rest) = Some (resource_constraint (st_resources st), TClose # rest)"
    using parse_constraint_tokens by blast
  let ?body = "(case when_tokens st of None \<Rightarrow> [] | Some ts \<Rightarrow> [TWord ''when'', TOpenBody] @ ts @ [TCloseBody]) @ TSemicolon # rest"
  have "parse_when ?body = Some (map_option read_condition (when_tokens st), TSemicolon # rest)"
  proof (cases "when_tokens st")
    case None
    then show ?thesis by (simp add: parse_when_def)
  next
    case (Some ts)
    then obtain e where "parses ts e" using when_parses by blast
    then show ?thesis using Some parse_expr_parses [of ts e "TCloseBody # TSemicolon # rest"] by (simp add: parse_when_def read_parses)
  qed
  then show ?thesis
    by (cases "st_effect st") (simp_all add: statement_tokens_def statement_policy_def parse_policy_def parse_effect_def
      parse_actions_tokens cs)
qed

lemma parse_policies_tokens:
  "length sts \<le> n \<Longrightarrow> parse_policies n (concat (map statement_tokens sts)) = Some (map statement_policy sts)"
proof (induction sts arbitrary: n)
  case (Cons st sts)
  then obtain k where n: "n = Suc k" "length sts \<le> k" by (cases n) auto
  obtain t ts where t: "statement_tokens st = t # ts" by (simp add: statement_tokens_def)
  have "parse_policy (t # ts @ concat (map statement_tokens sts)) = Some (statement_policy st, concat (map statement_tokens sts))"
    using parse_statement_tokens [of st] t by simp
  then show ?case using Cons.IH [OF n(2)] n(1) t by simp
qed simp

lemma policy_set_from_policy_eq: "policy_set_from_policy policy = Some (map statement_policy (pol_statements policy))"
proof -
  have "length sts \<le> length (concat (map statement_tokens sts))" for sts
    by (induction sts) (auto simp: statement_tokens_def)
  then show ?thesis by (simp add: policy_set_from_policy_def parse_policy_set_def tokens_of_lowered parse_policies_tokens)
qed

lemma policy_value_statement:
  assumes "range_list_stands_alone st"
  shows "policy_value ir rq (statement_policy st) = statement_value ir rq st"
proof (cases rule: resource_clause_cases [of "st_resources st"])
  case scoped
  have cond: "cp_when (statement_policy st) =
      (if st_conditions st = [] then None else Some (and_expr (map condition_expr (st_conditions st))))"
    using assms scoped(1) read_parses [OF parses_conditions [of "st_conditions st"]]
    by (auto simp: statement_policy_def when_tokens_def range_list_stands_alone_def)
  have "in_scope rq (statement_policy st) \<longleftrightarrow> rq_action rq \<in> cedar_id ` set (st_actions st) \<and> resource_named rq (st_resources st)"
    using scoped(3) [of "statement_policy st" rq] by (simp add: statement_policy_def)
  then show ?thesis
    by (auto simp: policy_value_def statement_value_def cond eval_and_expr eval_condition_expr o_def)
next
  case (clause ts e)
  have "\<not> list_ex is_range_list (st_conditions st)" using assms clause(3) by (auto simp: range_list_stands_alone_def)
  then have cond: "cp_when (statement_policy st) = Some (and_expr (e # map condition_expr (st_conditions st)))"
    using clause(1,4) read_parses [OF parses_guarded_conditions [of "st_conditions st" ts e]] read_parses [OF parses_and [of "[ts]" "[e]"]]
    by (auto simp: statement_policy_def when_tokens_def)
  have "in_scope rq (statement_policy st) \<longleftrightarrow> rq_action rq \<in> cedar_id ` set (st_actions st)"
    using clause(2) by (simp add: statement_policy_def in_scope_def)
  then show ?thesis using clause(5) [of ir rq]
    by (auto simp: policy_value_def statement_value_def cond eval_and_expr eval_condition_expr o_def and_then_bool_def split: bool.splits)
qed

subsection \<open>Properties\<close>

text \<open>\<^bold>\<open>C23\<close>: the texts in a policy cannot change its statements. Whatever the name of a wrapper policy, its address ranges,
  times and identifiers, quotes, backslashes and line breaks included, the source it is lowered to reads back as one Cedar policy per statement,
  in order, with the effect, the actions and the scope constraint of its statement; and the policies are the same for every
  other name.\<close>

theorem lowered_source_is_well_formed:
  "\<exists>ps. policy_set_from_policy policy = Some ps \<and>
        (\<forall>name. policy_set_from_policy (policy\<lparr>pol_name := name\<rparr>) = Some ps) \<and>
        map cp_permit ps = map (\<lambda>st. st_effect st = AllowEffect) (pol_statements policy) \<and>
        map cp_actions ps = map (\<lambda>st. map cedar_id (st_actions st)) (pol_statements policy) \<and>
        map cp_resource ps =
          map (\<lambda>st. case st_resources st of [r] \<Rightarrow> if r = AnyRes then AnyResource else IsEntity r | _ \<Rightarrow> AnyResource) (pol_statements policy)"
  by (simp add: policy_set_from_policy_eq statement_policy_def resource_constraint_def)

text \<open>\<^bold>\<open>C17\<close>: where no list of two or more address ranges shares its clause with another condition or a resource list, the
  lowered policies mean what the statements say: on every request, each has the value of its statement's actions, resources
  and conditions taken together, errors of the address type included.\<close>

theorem lowered_policies_mean_their_statements:
  assumes "\<forall>st \<in> set (pol_statements policy). range_list_stands_alone st"
  shows "\<exists>ps. policy_set_from_policy policy = Some ps \<and>
    list_all2 (\<lambda>cp st. \<forall>ir rq. policy_value ir rq cp = statement_value ir rq st) ps (pol_statements policy)"
  using assms by (simp add: policy_set_from_policy_eq list.rel_map list_all2_same policy_value_statement)

definition office_hours :: WrapperPolicy where
  "office_hours =
     \<lparr>pol_name = ''office hours'',
      pol_statements = [\<lparr>st_effect = AllowEffect, st_actions = [AppsRead, AppsDeploy],
        st_resources = [AppRes ''app_1'', ProjectRes ''prj_1''],
        st_conditions = [IpRange [''10.0.0.0/8''], TimeWindow ''22:30'' ''06:00'' ''UTC'']\<rparr>]\<rparr>"

theorem lowered_policies_mean_their_statements_witness:
  "\<exists>ps. policy_set_from_policy office_hours = Some ps \<and>
    list_all2 (\<lambda>cp st. \<forall>ir rq. policy_value ir rq cp = statement_value ir rq st) ps (pol_statements office_hours)"
  by (rule lowered_policies_mean_their_statements) code_simp

text \<open>Without that restriction the lowering widens: beside a time window, the first range of a list is enough at any hour,
  because the alternatives are not parenthesised.\<close>

definition two_offices :: Statement where
  "two_offices =
     \<lparr>st_effect = AllowEffect, st_actions = [AppsRead], st_resources = [AnyRes],
      st_conditions = [IpRange [''10.0.0.0/8'', ''192.168.0.0/16''], TimeWindow ''09:00'' ''17:00'' ''UTC'']\<rparr>"

definition at_midnight :: CedarRequest where
  "at_midnight =
     \<lparr>rq_action = ''apps:read'', rq_resource = AppRes ''app_1'', rq_minute = 0, rq_ip = V4 (Ipv4 10 0 0 1), rq_rank = 0, rq_billing = 0\<rparr>"

lemma office_minutes: "parse_minute_of_day ''09:00'' = Some 540" "parse_minute_of_day ''17:00'' = Some 1020"
  by (simp_all add: parse_minute_of_day_def split_once_text_def std_parse_u32_def read_nat_def char_digit_def)

lemma two_offices_policy:
  "cp_when (statement_policy two_offices) =
     Some (OrExpr (InRange ''10.0.0.0/8'') (AndExpr (InRange ''192.168.0.0/16'') (AndExpr (MinuteGe 540) (MinuteLt 1020))))"
proof -
  let ?ts = "range_tokens ''10.0.0.0/8'' @ TOr # range_tokens ''192.168.0.0/16'' @
    [TAnd, TOpen, TWord ''context'', TDot, TWord ''now_minute_utc'', TGe, TNum 540, TAnd,
     TWord ''context'', TDot, TWord ''now_minute_utc'', TLt, TNum 1020, TClose]"
  have "when_tokens two_offices = Some ?ts"
    by (simp add: when_tokens_def two_offices_def resource_clause_def conditions_tokens_def time_window_tokens_def minute_tokens_def
        office_minutes)
  moreover have "read_condition ?ts =
      OrExpr (InRange ''10.0.0.0/8'') (AndExpr (InRange ''192.168.0.0/16'') (AndExpr (MinuteGe 540) (MinuteLt 1020)))" by code_simp
  ultimately show ?thesis by (simp add: statement_policy_def)
qed

lemma range_list_escapes_its_window:
  "(let ir = (\<lambda>ip cidr. Some (cidr = ''10.0.0.0/8''))
    in statement_value ir at_midnight two_offices = Some False \<and>
       map_option (map (policy_value ir at_midnight)) (policy_set_from_policy \<lparr>pol_name = name, pol_statements = [two_offices]\<rparr>) =
         Some [Some True])"
proof -
  let ?ir = "\<lambda>ip cidr. Some (cidr = ''10.0.0.0/8'')"
  have "in_scope at_midnight (statement_policy two_offices)"
    by (simp add: in_scope_def statement_policy_def two_offices_def at_midnight_def resource_constraint_def)
  then have "policy_value ?ir at_midnight (statement_policy two_offices) = Some True"
    by (simp add: policy_value_def two_offices_policy or_else_bool_def)
  moreover have "statement_value ?ir at_midnight two_offices = Some False"
    by (simp add: statement_value_def two_offices_def at_midnight_def resource_named_def time_window_value_def office_minutes
        and_then_bool_def or_else_bool_def)
  ultimately show ?thesis by (simp add: policy_set_from_policy_eq)
qed

end
