(* ===== verification/AuthzProps.thy ===== *)
theory AuthzProps
  imports Authz AuthzLower
begin

text \<open>
  What platform authorization promises: a token allows what its user may do and its words name and nothing more, authority
  over a resource comes from a seat in the organization that owns it, the consent probe is exact, and every decision leaves
  one audit row.
\<close>

subsection \<open>What the bands ask for\<close>

datatype Need = NoRank | NeedsRank int | NeedsBilling int

fun meets :: "Need \<Rightarrow> int \<Rightarrow> int \<Rightarrow> bool" where
  "meets NoRank rank billing \<longleftrightarrow> True"
| "meets (NeedsRank n) rank billing \<longleftrightarrow> n \<le> rank"
| "meets (NeedsBilling n) rank billing \<longleftrightarrow> n \<le> billing"

fun needs :: "CedarType \<Rightarrow> AuthzAction \<Rightarrow> Need option" where
  "needs ResourceType a =
     (if a \<in> set [AppsRead, OrganizationRead, OrganizationCreate, AccountRead, AccountWrite] then Some NoRank else None)"
| "needs AppType a =
     (if a \<in> set [AppsRead, EnvRead, DeploymentsRead] then Some (NeedsRank 10)
      else if a \<in> set [AppsWrite, AppsDeploy, AppsArchive, EnvWrite, SecretsRead, SecretsWrite] then Some (NeedsRank 20)
      else None)"
| "needs DatabaseType a =
     (if a = DatabaseRead then Some (NeedsRank 10)
      else if a \<in> set [DatabaseWrite, DatabaseMigrate] then Some (NeedsRank 20) else None)"
| "needs ProjectType a =
     (if a \<in> set [AppsRead, EnvRead, DeploymentsRead, DatabaseRead, ProjectRead, ProjectMembersRead] then Some (NeedsRank 10)
      else if a \<in> set [AppsWrite, AppsDeploy, AppsArchive, EnvWrite, SecretsRead, SecretsWrite, DatabaseWrite, DatabaseMigrate]
        then Some (NeedsRank 20)
      else if a \<in> set [ProjectWrite, ProjectMembersWrite] then Some (NeedsRank 30) else None)"
| "needs OrganizationType a =
     (if a \<in> set [OrganizationRead, OrganizationMembersRead, OrganizationMembersLeave] then Some (NeedsRank 10)
      else if a \<in> set [OrganizationMembersWrite, ProjectCreate] then Some (NeedsRank 30)
      else if a \<in> set [OrganizationWrite, OrganizationAdmin] then Some (NeedsRank 40)
      else if a = BillingRead then Some (NeedsBilling 10) else if a = BillingWrite then Some (NeedsBilling 20) else None)"

definition permitted :: "CedarType \<Rightarrow> AuthzAction \<Rightarrow> int \<Rightarrow> int \<Rightarrow> bool" where
  "permitted t a rank billing \<longleftrightarrow> (case needs t a of None \<Rightarrow> False | Some need \<Rightarrow> meets need rank billing)"

lemma indices_Nil: "indices P xs = [] \<longleftrightarrow> (\<forall>x \<in> set xs. \<not> P x)"
proof -
  have "set xs = snd ` set (enumerate 0 xs)" by (simp flip: set_map)
  then show ?thesis by (auto simp: indices_def filter_empty_conv)
qed

lemma platform_policies_permit: "\<forall>p \<in> set platform_policies. cp_permit p"
  by (simp add: platform_policies_def self_service_band_def read_band_def depart_band_def develop_band_def administer_band_def
      own_band_def billing_band_def band_def)

text \<open>The statements that name an action at a resource type, found by evaluation.\<close>

fun need_clauses :: "Need option \<Rightarrow> Expr option list" where
  "need_clauses None = []"
| "need_clauses (Some NoRank) = [None]"
| "need_clauses (Some (NeedsRank n)) = [Some (RankGe n)]"
| "need_clauses (Some (NeedsBilling n)) = [Some (BillingGe n)]"

lemma bands_follow_the_table:
  "\<forall>t \<in> set [AppType, DatabaseType, ProjectType, OrganizationType, ResourceType]. \<forall>a \<in> set all_actions.
     map cp_when (filter (\<lambda>p. cedar_id a \<in> set (cp_actions p) \<and> cp_resource p = IsType t) platform_policies) =
     need_clauses (needs t a)"
  by code_simp

lemma platform_policies_typed: "\<forall>p \<in> set platform_policies. \<exists>t. cp_resource p = IsType t"
  by (simp add: platform_policies_def self_service_band_def read_band_def depart_band_def develop_band_def administer_band_def
      own_band_def billing_band_def band_def)

lemma all_actions_complete: "a \<in> set all_actions"
  by (cases a) (simp_all add: all_actions_def)

lemma platform_clauses:
  "{cp_when p |p. p \<in> set platform_policies \<and> cedar_id a \<in> set (cp_actions p) \<and> cp_resource p = IsType t} =
   set (need_clauses (needs t a))"
proof -
  have "map cp_when (filter (\<lambda>p. cedar_id a \<in> set (cp_actions p) \<and> cp_resource p = IsType t) platform_policies) =
        need_clauses (needs t a)"
    using bands_follow_the_table all_actions_complete [of a] by (cases t) simp_all
  from arg_cong [OF this, of set] show ?thesis by (auto simp: image_def)
qed

lemma platform_in_scope:
  "p \<in> set platform_policies \<Longrightarrow>
   in_scope rq p \<longleftrightarrow> rq_action rq \<in> set (cp_actions p) \<and> cp_resource p = IsType (cedar_type (rq_resource rq))"
  using platform_policies_typed by (fastforce simp: in_scope_def)

lemma clause_value:
  "rq_action rq = cedar_id a \<Longrightarrow> p \<in> set platform_policies \<Longrightarrow> in_scope rq p \<Longrightarrow>
   cp_when p \<in> set (need_clauses (needs (cedar_type (rq_resource rq)) a))"
  unfolding platform_clauses [symmetric] by (auto simp: platform_in_scope)

lemma need_clauses_value:
  "c \<in> set (need_clauses n) \<Longrightarrow>
   (case c of None \<Rightarrow> Some True | Some e \<Rightarrow> eval_expr ir rq e) =
     Some (case n of None \<Rightarrow> False | Some need \<Rightarrow> meets need (rq_rank rq) (rq_billing rq))"
  by (cases n rule: need_clauses.cases) auto

lemma platform_policies_total:
  "rq_action rq = cedar_id a \<Longrightarrow> p \<in> set platform_policies \<Longrightarrow>
   policy_value ir rq p =
     Some (in_scope rq p \<and> permitted (cedar_type (rq_resource rq)) a (rq_rank rq) (rq_billing rq))"
  using clause_value [of rq a p] need_clauses_value [of "cp_when p" "needs (cedar_type (rq_resource rq)) a" ir rq]
  by (auto simp: policy_value_def permitted_def)

lemma platform_permits:
  assumes "rq_action rq = cedar_id a"
  shows "(\<exists>p \<in> set platform_policies. policy_value ir rq p = Some True) \<longleftrightarrow>
    permitted (cedar_type (rq_resource rq)) a (rq_rank rq) (rq_billing rq)"
proof -
  let ?t = "cedar_type (rq_resource rq)"
  have "\<exists>p \<in> set platform_policies. in_scope rq p" if "permitted ?t a (rq_rank rq) (rq_billing rq)"
  proof -
    have "set (need_clauses (needs ?t a)) \<noteq> {}" using that by (cases "needs ?t a" rule: need_clauses.cases) (auto simp: permitted_def)
    then show ?thesis unfolding platform_clauses [symmetric] using assms by (auto simp: platform_in_scope)
  qed
  then show ?thesis using platform_policies_total [OF assms] by auto
qed

text \<open>What enforcement relies on in the platform policies: they only permit, none of them fails, and the answer depends on the
  type of the resource, the action and the two ranks.\<close>

locale ranked_policies =
  fixes policies :: "CedarPolicy list" and grants :: "CedarType \<Rightarrow> AuthzAction \<Rightarrow> int \<Rightarrow> int \<Rightarrow> bool"
  assumes permit_only: "p \<in> set policies \<Longrightarrow> cp_permit p"
    and never_fails: "rq_action rq = cedar_id a \<Longrightarrow> p \<in> set policies \<Longrightarrow> policy_value ir rq p \<noteq> None"
    and satisfied: "rq_action rq = cedar_id a \<Longrightarrow>
      (\<exists>p \<in> set policies. policy_value ir rq p = Some True) \<longleftrightarrow> grants (cedar_type (rq_resource rq)) a (rq_rank rq) (rq_billing rq)"
begin

lemma pass_answers:
  "cedar_pass ce ctx authority policies =
     (if ip_accepts ce (context_ip ctx)
      then Inr (is_authorized (ip_in_range ce) policies (projr (build_request ce ctx authority)))
      else Inl CedarRequest)"
  using never_fails [of _ "ctx_action ctx"]
  by (auto simp: cedar_pass_def build_request_def refuse_on_evaluation_error_def is_authorized_def Let_def indices_Nil)

lemma pass_allows:
  "ip_accepts ce (context_ip ctx) \<Longrightarrow>
   cr_allow (is_authorized ir policies (projr (build_request ce ctx authority))) \<longleftrightarrow>
   grants (cedar_type (ctx_resource ctx)) (ctx_action ctx) (effective_rank authority) (billing_rank authority)"
proof -
  assume "ip_accepts ce (context_ip ctx)"
  then obtain rq where rq: "build_request ce ctx authority = Inr rq" "rq_action rq = cedar_id (ctx_action ctx)"
      "rq_resource rq = ctx_resource ctx" "rq_rank rq = effective_rank authority" "rq_billing rq = billing_rank authority"
    by (simp add: build_request_def)
  have "cr_allow (is_authorized ir policies rq) \<longleftrightarrow> (\<exists>p \<in> set policies. policy_value ir rq p = Some True)"
    using permit_only by (auto simp: is_authorized_def Let_def indices_Nil)
  then show ?thesis using satisfied [OF rq(2), of ir] rq by simp
qed

end

interpretation bands: ranked_policies platform_policies permitted
proof unfold_locales
  show "cp_permit p" if "p \<in> set platform_policies" for p using that platform_policies_permit by blast
  show "policy_value ir rq p \<noteq> None" if "rq_action rq = cedar_id a" "p \<in> set platform_policies" for rq a p ir
    using platform_policies_total [OF that] by simp
  show "(\<exists>p \<in> set platform_policies. policy_value ir rq p = Some True) \<longleftrightarrow>
      permitted (cedar_type (rq_resource rq)) a (rq_rank rq) (rq_billing rq)" if "rq_action rq = cedar_id a" for rq a ir
    by (rule platform_permits [OF that])
qed

subsection \<open>A decision without a token\<close>

definition user_decision :: "CedarIp \<Rightarrow> AuthzContext \<Rightarrow> AuthzError + Authority \<Rightarrow> AuthzError + AuthzDecision" where
  "user_decision ce ctx resolved =
     and_then resolved (\<lambda>authority.
       if \<not> ip_accepts ce (context_ip ctx) then Inl CedarRequest
       else Inr (if permitted (cedar_type (ctx_resource ctx)) (ctx_action ctx) (effective_rank authority) (billing_rank authority)
                 then AllowDecision else DenyDecision))"

lemma fst_decided: "fst (decided pg ctx result) = and_then result (\<lambda>r. Inr (if cr_allow r then AllowDecision else DenyDecision))"
  by (cases result) (simp_all add: decided_def Let_def)

lemma enforce_untokened:
  "token_policy ctx = None \<Longrightarrow>
   fst (enforce ce pg platform_policies ctx) = user_decision ce ctx (fst (resolve pg (principal_id ctx) (ctx_resource ctx)))"
  by (cases "resolve pg (principal_id ctx) (ctx_resource ctx)"; cases "fst (resolve pg (principal_id ctx) (ctx_resource ctx))")
    (simp_all add: enforce_def user_decision_def fst_decided final_pass_def bands.pass_answers bands.pass_allows)

lemma enforce_tokened:
  "token_policy ctx = Some policy \<Longrightarrow> policy_set_from_policy policy = Some ps \<Longrightarrow>
   fst (enforce ce pg platform_policies ctx) =
     and_then (fst (resolve pg (principal_id ctx) (ctx_resource ctx))) (\<lambda>authority.
       and_then (user_decision ce ctx (Inr authority)) (\<lambda>d.
         if d = DenyDecision then Inr DenyDecision
         else and_then (cedar_pass ce ctx authority ps) (\<lambda>r. Inr (if cr_allow r then AllowDecision else DenyDecision))))"
  by (cases "resolve pg (principal_id ctx) (ctx_resource ctx)"; cases "fst (resolve pg (principal_id ctx) (ctx_resource ctx))")
    (auto simp add: enforce_def user_decision_def fst_decided final_pass_def bands.pass_answers bands.pass_allows)

lemma user_decision_token [simp]: "user_decision ce (ctx\<lparr>token_policy := p\<rparr>) r = user_decision ce ctx r"
  by (cases r) (auto simp: user_decision_def context_ip_def)

lemma context_ip_token [simp]: "context_ip (ctx\<lparr>token_policy := p\<rparr>) = context_ip ctx"
  by (simp add: context_ip_def)

subsection \<open>Scopes\<close>

lemma all_scopes_complete: "s \<in> set all_scopes"
  by (cases s) (simp_all add: all_scopes_def)

lemma of_char_u32_inject: "(of_char c :: u32) = of_char d \<longleftrightarrow> c = d"
proof -
  have "unat (of_char c :: u32) = of_char c" for c
  proof -
    have "(of_char c :: nat) < 256" using range_nat_of_char by auto
    then have "(of_char c :: nat) < 2 ^ 32" by (rule less_trans) simp
    from take_bit_nat_eq_self [OF this] have "unat (of_nat (of_char c) :: u32) = of_char c" by (simp add: unsigned_of_nat)
    then show ?thesis by (simp only: of_nat_of_char)
  qed
  then show ?thesis by (metis of_char_eq_iff)
qed

lemma rstr_inject: "rstr s = rstr t \<longleftrightarrow> s = t"
  unfolding rstr_def by (intro inj_map_eq_map) (simp add: inj_def of_char_u32_inject)

lemma from_wire_cedar_id: "from_wire (cedar_id a) = Some a"
  by (cases a) (simp_all add: from_wire_def all_actions_def)

lemma cedar_id_inject: "cedar_id a = cedar_id b \<longleftrightarrow> a = b"
  by (metis from_wire_cedar_id option.inject)

lemma scope_parse_word: "scope_parse w = Inr s \<Longrightarrow> w = rstr (cedar_id (scope_action s))"
  by (auto simp: scope_parse_def scope_str_def find_Some_iff split: option.splits)

lemma collect_results_Inr: "collect_results rs = Inr xs \<longleftrightarrow> rs = map Inr xs"
  by (induction rs arbitrary: xs) (auto simp: and_then_Inr)

lemma parse_scope_string_words:
  "parse_scope_string raw = Inr scopes \<Longrightarrow> split_whitespace raw = map (\<lambda>s. rstr (cedar_id (scope_action s))) scopes"
proof -
  assume "parse_scope_string raw = Inr scopes"
  then have "map scope_parse (split_whitespace raw) = map Inr scopes" by (simp add: parse_scope_string_def collect_results_Inr)
  moreover have "map scope_parse ws = map Inr ss \<Longrightarrow> ws = map (\<lambda>s. rstr (cedar_id (scope_action s))) ss" for ws ss
    by (induction ws arbitrary: ss) (auto simp: Cons_eq_map_conv scope_parse_word)
  ultimately show ?thesis by blast
qed

lemma scopes_policy_set:
  "policy_set_from_policy (scopes_to_policy scopes) =
     Some [\<lparr>cp_permit = True, cp_actions = map (cedar_id \<circ> scope_action) scopes, cp_resource = AnyResource, cp_when = None\<rparr>]"
  by (simp add: policy_set_from_policy_eq scopes_to_policy_def statement_policy_def resource_constraint_def when_tokens_def
      resource_clause_def)

lemma scopes_pass:
  assumes "policy_set_from_policy (scopes_to_policy scopes) = Some ps" "ip_accepts ce (context_ip ctx)"
  obtains r where "cedar_pass ce ctx authority ps = Inr r" "cr_allow r \<longleftrightarrow> ctx_action ctx \<in> scope_action ` set scopes"
proof -
  obtain rq where rq: "build_request ce ctx authority = Inr rq" "rq_action rq = cedar_id (ctx_action ctx)"
    using assms(2) by (simp add: build_request_def)
  have permit: "policy_value ir rq p = Some (ctx_action ctx \<in> scope_action ` set scopes) \<and> cp_permit p" if "p \<in> set ps" for p ir
    using assms(1) that rq(2) by (auto simp: scopes_policy_set policy_value_def in_scope_def cedar_id_inject)
  have "ps \<noteq> []" using assms(1) by (auto simp: scopes_policy_set)
  then obtain p where "p \<in> set ps" by (cases ps) auto
  then have "cr_errors (is_authorized (ip_in_range ce) ps rq) = []"
      "cr_allow (is_authorized (ip_in_range ce) ps rq) \<longleftrightarrow> ctx_action ctx \<in> scope_action ` set scopes"
    using permit by (auto simp: is_authorized_def Let_def indices_Nil)
  then show thesis using rq(1) by (intro that [of "is_authorized (ip_in_range ce) ps rq"])
    (simp_all add: cedar_pass_def refuse_on_evaluation_error_def)
qed

lemma enforce_scopes:
  "fst (enforce ce pg platform_policies (ctx\<lparr>token_policy := Some (scopes_to_policy scopes)\<rparr>)) =
     and_then (fst (enforce ce pg platform_policies (ctx\<lparr>token_policy := None\<rparr>))) (\<lambda>d.
       Inr (if d = AllowDecision \<and> ctx_action ctx \<in> scope_action ` set scopes then AllowDecision else DenyDecision))"
proof -
  let ?ctx = "ctx\<lparr>token_policy := Some (scopes_to_policy scopes)\<rparr>"
  obtain ps where ps: "policy_set_from_policy (scopes_to_policy scopes) = Some ps" by (simp add: scopes_policy_set)
  note forms = enforce_tokened [of ?ctx, OF _ ps] enforce_untokened [of "ctx\<lparr>token_policy := None\<rparr>"]
  show ?thesis
  proof (cases "fst (resolve pg (principal_id ctx) (ctx_resource ctx))")
    case (Inl e)
    then show ?thesis using forms by (simp add: user_decision_def)
  next
    case (Inr authority)
    show ?thesis
    proof (cases "ip_accepts ce (context_ip ctx)")
      case True
      then have "ip_accepts ce (context_ip ?ctx)" by simp
      from scopes_pass [OF ps this, of authority] obtain r where
        "cedar_pass ce ?ctx authority ps = Inr r" "cr_allow r \<longleftrightarrow> ctx_action ctx \<in> scope_action ` set scopes" by auto
      then show ?thesis using Inr True forms by (auto simp: user_decision_def)
    next
      case False
      then show ?thesis using Inr forms by (simp add: user_decision_def)
    qed
  qed
qed

text \<open>Any wrapper policy, not only one from scopes, is bounded by its user.\<close>

lemma no_token_exceeds_its_user:
  assumes "fst (enforce ce pg platform_policies ctx) = Inr AllowDecision"
  shows "fst (enforce ce pg platform_policies (ctx\<lparr>token_policy := None\<rparr>)) = Inr AllowDecision"
proof (cases "token_policy ctx")
  case None
  then show ?thesis using assms by (metis AuthzContext.surjective AuthzContext.update_convs(2))
next
  case (Some policy)
  then have form: "fst (enforce ce pg platform_policies ctx) =
      and_then (fst (resolve pg (principal_id ctx) (ctx_resource ctx))) (\<lambda>authority.
        and_then (user_decision ce ctx (Inr authority)) (\<lambda>d.
          if d = DenyDecision then Inr DenyDecision
          else and_then (cedar_pass ce ctx authority (map statement_policy (pol_statements policy)))
            (\<lambda>r. Inr (if cr_allow r then AllowDecision else DenyDecision))))"
    using enforce_tokened policy_set_from_policy_eq by blast
  from trans [OF form [symmetric] assms]
  obtain authority d where "fst (resolve pg (principal_id ctx) (ctx_resource ctx)) = Inr authority"
      "user_decision ce ctx (Inr authority) = Inr d" "d \<noteq> DenyDecision"
    by (auto simp: and_then_Inr split: if_splits)
  moreover from this have "d = AllowDecision" by (cases d) simp_all
  ultimately show ?thesis using enforce_untokened [of "ctx\<lparr>token_policy := None\<rparr>"] by simp
qed

subsection \<open>Seats\<close>

fun narrowed_of :: "AuthzResource \<Rightarrow> Narrowed option" where
  "narrowed_of (ProjectRes i) = Some (NarrowedProject i)"
| "narrowed_of (AppRes i) = Some (NarrowedApp i)"
| "narrowed_of (DatabaseRes i) = Some (NarrowedDatabase i)"
| "narrowed_of (OrganizationRes i) = None"
| "narrowed_of AnyRes = None"

fun owning_organization :: "Tables \<Rightarrow> AuthzResource \<Rightarrow> string option" where
  "owning_organization t (OrganizationRes i) = Some i"
| "owning_organization t (ProjectRes i) = map_of (t_projects t) i"
| "owning_organization t (AppRes i) = Option.bind (map_of (t_apps t) i) (map_of (t_projects t))"
| "owning_organization t (DatabaseRes i) = Option.bind (map_of (t_databases t) i) (map_of (t_projects t))"
| "owning_organization t AnyRes = None"

lemma joined_project_organization:
  "narrowed_of r = Some n \<Longrightarrow> map_option snd (joined_project t n) = owning_organization t r"
  by (cases r) (auto simp: joined_project_def Option.bind_map_option option.map_comp o_def option.map_ident split: bind_splits)

text \<open>A project grants and ceilings; it never widens.\<close>

lemma effective_project_rank_le:
  "effective_project_rank (Some org) project admin_rank \<noteq> 0 \<Longrightarrow> effective_project_rank (Some org) project admin_rank \<le> org"
  by (auto simp: effective_project_rank_def split: option.splits)

lemma resolve_at_seat:
  assumes "resolve_at t u r = Inr authority"
  shows "case member_role t (owning_organization t r) u of
      None \<Rightarrow> effective_rank authority = 0 \<and> billing_rank authority = 0
    | Some (rank, billing) \<Rightarrow> (effective_rank authority \<le> rank \<or> effective_rank authority = 0) \<and> billing_rank authority = billing"
proof (cases "narrowed_of r")
  case (Some n)
  then have "resolve_narrowed t u n = Inr authority" using assms by (cases r) auto
  then show ?thesis using joined_project_organization [OF Some, of t]
    by (auto intro: effective_project_rank_le simp: resolve_narrowed_def and_then_Inr Let_def effective_project_rank_def [of None] split: option.splits)
next
  case None
  then show ?thesis using assms
    by (cases r) (auto simp: resolve_organization_def resolve_unranked_def authority_unranked_def and_then_Inr Let_def
        member_role_def role_of_def split: option.splits)
qed

lemma needs_positive: "needs t a = Some need \<Longrightarrow> t \<noteq> ResourceType \<Longrightarrow> \<not> meets need 0 billing \<or> (\<exists>n > 0. need = NeedsBilling n)"
  by (cases t) (auto split: if_splits)

lemma permitted_needs_a_seat:
  assumes "resolve_at t u r = Inr authority" "permitted (cedar_type r) a (effective_rank authority) (billing_rank authority)"
    "r \<noteq> AnyRes"
  obtains need rank billing where "member_role t (owning_organization t r) u = Some (rank, billing)"
    "needs (cedar_type r) a = Some need" "meets need rank billing"
proof -
  obtain need where need: "needs (cedar_type r) a = Some need" "meets need (effective_rank authority) (billing_rank authority)"
    using assms(2) by (auto simp: permitted_def split: option.splits)
  have "cedar_type r \<noteq> ResourceType" using assms(3) by (cases r) auto
  from needs_positive [OF need(1) this] resolve_at_seat [OF assms(1)] need(2)
  obtain rank billing where "member_role t (owning_organization t r) u = Some (rank, billing)" "meets need rank billing"
    by (cases need; cases "member_role t (owning_organization t r) u") auto
  then show thesis using need(1) that by blast
qed

lemma permitted_member:
  "resolve_at t u r = Inr authority \<Longrightarrow> permitted (cedar_type r) a (effective_rank authority) (billing_rank authority) \<Longrightarrow>
   r \<noteq> AnyRes \<Longrightarrow> \<exists>ranks. member_role t (owning_organization t r) u = Some ranks"
  by (blast elim: permitted_needs_a_seat)

lemma resolve_fault_free: "fst (resolve pg u r) = Inr authority \<Longrightarrow> resolve_at (pg_tables pg) u r = Inr authority"
  by (auto simp: resolve_def pg_query_def split: if_splits)

subsection \<open>The consent probe\<close>

definition tables_ok :: "Tables \<Rightarrow> bool" where
  "tables_ok t \<longleftrightarrow> distinct (map fst (t_projects t)) \<and>
     list_all (\<lambda>((org, member), role). is_valid_resource_id org) (t_members t) \<and>
     list_all (\<lambda>(p, org). is_valid_resource_id p) (t_projects t) \<and>
     list_all (\<lambda>((p, member), role). is_valid_resource_id p) (t_project_members t)"

definition allowed_at :: "Tables \<Rightarrow> string \<Rightarrow> AuthzAction \<Rightarrow> AuthzResource \<Rightarrow> bool" where
  "allowed_at t u a r \<longleftrightarrow>
     (case resolve_at t u r of
        Inl e \<Rightarrow> False
      | Inr authority \<Rightarrow> permitted (cedar_type r) a (effective_rank authority) (billing_rank authority))"

lemma resolve_at_user: "map_of (t_users t) u \<noteq> None \<Longrightarrow> \<exists>authority. resolve_at t u r = Inr authority"
  by (cases r) (auto simp: resolve_unranked_def resolve_organization_def resolve_narrowed_def principal_row_def Let_def)

lemma enforce_quiet:
  assumes "\<And>n. \<not> pg_fails pg n" "ip_accepts ce (context_ip ctx)" "map_of (t_users (pg_tables pg)) (principal_id ctx) \<noteq> None"
    "token_policy ctx = None"
  shows "fst (enforce ce pg platform_policies ctx) =
    Inr (if allowed_at (pg_tables pg) (principal_id ctx) (ctx_action ctx) (ctx_resource ctx) then AllowDecision else DenyDecision)"
  using assms(1,2) resolve_at_user [OF assms(3), of "ctx_resource ctx"] enforce_untokened [OF assms(4), of ce pg]
  by (auto simp: resolve_def pg_query_def user_decision_def allowed_at_def)

lemma enforce_keeps: "pg_tables (snd (enforce ce pg platform ctx)) = pg_tables pg" "pg_fails (snd (enforce ce pg platform ctx)) = pg_fails pg"
  by (auto simp: enforce_def resolve_def pg_query_def decided_def audit_decision_def Let_def split: sum.splits)

lemma probe_resources_quiet:
  assumes "\<And>n. \<not> pg_fails pg n" "ip_accepts ce (context_ip ctx)" "map_of (t_users (pg_tables pg)) (principal_id ctx) \<noteq> None"
  shows "fst (probe_resources ce pg platform_policies ctx rs) =
    Inr (list_ex (allowed_at (pg_tables pg) (principal_id ctx) (ctx_action ctx)) rs)"
  using assms
proof (induction rs arbitrary: pg)
  case (Cons r rs)
  let ?ctx = "ctx\<lparr>token_policy := None, ctx_resource := r\<rparr>"
  obtain res pg' where run: "enforce ce pg platform_policies ?ctx = (res, pg')" by force
  have "pg_tables pg' = pg_tables pg" "pg_fails pg' = pg_fails pg" using enforce_keeps [of ce pg platform_policies ?ctx] run by auto
  moreover have "res = Inr (if allowed_at (pg_tables pg) (principal_id ctx) (ctx_action ctx) r then AllowDecision else DenyDecision)"
    using enforce_quiet [of pg ce ?ctx] Cons.prems run by (simp add: context_ip_def)
  ultimately show ?case using Cons.IH [of pg'] Cons.prems run by simp
qed simp

lemma collect_validated: "list_all validate_ids rs \<Longrightarrow> collect_results (map validated rs) = Inr rs"
  by (induction rs) (simp_all add: validated_def)

lemma list_ex_probe_order: "list_ex P (map f (sort xs)) \<longleftrightarrow> (\<exists>x \<in> set xs. P (f x))"
  by (simp add: list_ex_iff)

text \<open>An allowed organization is one of the memberships.\<close>

lemma allowed_organization_is_a_membership:
  "allowed_at t u a (OrganizationRes org) \<Longrightarrow> \<exists>role. ((org, u), role) \<in> set (t_members t)"
proof -
  assume "allowed_at t u a (OrganizationRes org)"
  then obtain authority where "resolve_at t u (OrganizationRes org) = Inr authority"
      "permitted OrganizationType a (effective_rank authority) (billing_rank authority)"
    by (auto simp: allowed_at_def split: sum.splits)
  then obtain ranks where "member_role t (Some org) u = Some ranks"
    using permitted_member [of t u "OrganizationRes org" authority a] by auto
  then show ?thesis by (auto simp: member_role_def role_of_def bind_eq_Some_conv dest: map_of_SomeD)
qed

text \<open>What is allowed on an app or a database is allowed on its project.\<close>

lemma needs_project: "needs t a = Some need \<Longrightarrow> t = AppType \<or> t = DatabaseType \<Longrightarrow> needs ProjectType a = Some need"
  by (auto split: if_splits)

lemma allowed_inside_a_project:
  assumes "allowed_at t u a r" "r = AppRes i \<or> r = DatabaseRes i"
  shows "\<exists>p. allowed_at t u a (ProjectRes p)"
proof -
  obtain n where n: "narrowed_of r = Some n" "resolve_at t u r = resolve_narrowed t u n" using assms(2) by auto
  then obtain authority where au: "resolve_narrowed t u n = Inr authority"
      "permitted (cedar_type r) a (effective_rank authority) (billing_rank authority)"
    using assms(1) by (auto simp: allowed_at_def split: sum.splits)
  then obtain ranks where "member_role t (map_option snd (joined_project t n)) u = Some ranks"
    using permitted_member [of t u r authority a] joined_project_organization [OF n(1), of t] n(2) assms(2) by fastforce
  then obtain p org where p: "joined_project t n = Some (p, org)" by (auto simp: member_role_def role_of_def bind_eq_Some_conv)
  then have "joined_project t (NarrowedProject p) = joined_project t n" by (auto simp: joined_project_def bind_eq_Some_conv)
  then have "resolve_at t u (ProjectRes p) = Inr authority" using au(1) by (simp add: resolve_narrowed_def)
  moreover have "permitted ProjectType a (effective_rank authority) (billing_rank authority)"
    using au(2) needs_project [of "cedar_type r" a] assms(2) by (auto simp: permitted_def split: option.splits)
  ultimately have "allowed_at t u a (ProjectRes p)" by (simp add: allowed_at_def)
  then show ?thesis by blast
qed

text \<open>What is allowed on a project is allowed on a probed one: the project itself, or the first of its organization.\<close>

lemma allowed_at_project:
  "allowed_at t u a (ProjectRes p) \<longleftrightarrow> map_of (t_users t) u \<noteq> None \<and>
     permitted ProjectType a
       (effective_project_rank
          (map_option fst (member_role t (map_of (t_projects t) p) u))
          (map_option fst (role_of t (Option.bind (map_of (t_projects t) p) (\<lambda>org. map_of (t_project_members t) (p, u)))))
          (map_option fst (map_of (t_roles t) PROJECT_WIDE_ROLE))) 0"
proof -
  have "permitted ProjectType a rank billing \<longleftrightarrow> permitted ProjectType a rank 0" for rank billing
    by (auto simp: permitted_def)
  moreover have "map_option snd (joined_project t (NarrowedProject p)) = map_of (t_projects t) p"
    by (simp add: joined_project_organization [of "ProjectRes p"])
  ultimately show ?thesis
    by (cases "map_of (t_projects t) p"; cases "map_of (t_users t) u")
      (auto simp: allowed_at_def resolve_narrowed_def principal_row_def Let_def joined_project_def)
qed

lemma permitted_project_rank: "permitted ProjectType a rank 0 \<Longrightarrow> rank \<noteq> 0"
  by (auto simp: permitted_def split: if_splits)

lemma representative_project:
  assumes "distinct (map fst (t_projects t))" "map_of (t_projects t) p = Some org"
  obtains q where "representative t org = [q]" "map_of (t_projects t) q = Some org"
proof -
  let ?ps = "sort (map fst (filter (\<lambda>(p, g). g = org) (t_projects t)))"
  have "p \<in> set ?ps" using map_of_SomeD [OF assms(2)] by force
  then obtain q qs where q: "?ps = q # qs" by (cases ?ps) auto
  then have "q \<in> set ?ps" by simp
  then have "(q, org) \<in> set (t_projects t)" by auto
  then show thesis using q assms(1) by (intro that [of q]) (simp_all add: representative_def)
qed

lemma allowed_project_is_probed:
  assumes "tables_ok t" "allowed_at t u a (ProjectRes p)"
  shows "\<exists>q \<in> set (project_probes t u). allowed_at t u a (ProjectRes q)"
proof -
  let ?adm = "map_option fst (map_of (t_roles t) PROJECT_WIDE_ROLE)"
  have user: "map_of (t_users t) u \<noteq> None" using assms(2) by (simp add: allowed_at_project)
  from assms(2) obtain org rank billing where org: "map_of (t_projects t) p = Some org" "member_role t (Some org) u = Some (rank, billing)"
    using permitted_project_rank [of a]
    by (cases "map_of (t_projects t) p"; cases "member_role t (map_of (t_projects t) p) u")
      (fastforce simp: allowed_at_project effective_project_rank_def member_role_def role_of_def)+
  obtain role where role: "map_of (t_members t) (org, u) = Some role" "map_of (t_roles t) role = Some (rank, billing)"
    using org(2) by (auto simp: member_role_def role_of_def bind_eq_Some_conv)
  show ?thesis
  proof (cases "covers_projects t role")
    case True
    obtain q where q: "representative t org = [q]" "map_of (t_projects t) q = Some org"
      using assms(1) representative_project [OF _ org(1)] by (auto simp: tables_ok_def)
    have "effective_project_rank (Some rank) prj ?adm = rank" for prj
      using True role(2) by (auto simp: covers_projects_def effective_project_rank_def split: option.splits prod.splits)
    then have "allowed_at t u a (ProjectRes q)" using assms(2) org q(2) by (simp add: allowed_at_project)
    moreover have "q \<in> set (project_probes t u)"
      using map_of_SomeD [OF role(1)] True q(1) by (auto simp: project_probes_def intro!: bexI [of _ "((org, u), role)"])
    ultimately show ?thesis by blast
  next
    case False
    then have "\<not> (case ?adm of None \<Rightarrow> False | Some adm \<Rightarrow> rank \<ge> adm)"
      using role(2) by (auto simp: covers_projects_def split: option.splits)
    then have "map_of (t_project_members t) (p, u) \<noteq> None"
      using assms(2) org permitted_project_rank [of a]
      by (cases "map_of (t_project_members t) (p, u)") (fastforce simp: allowed_at_project effective_project_rank_def role_of_def)+
    then have "p \<in> set (project_probes t u)" by (force simp: project_probes_def dest: map_of_SomeD)
    then show ?thesis using assms(2) by blast
  qed
qed

lemma some_probe_is_allowed:
  assumes "tables_ok t" "allowed_at t u a r"
  shows "allowed_at t u a AnyRes \<or>
    (\<exists>org. (\<exists>role. ((org, u), role) \<in> set (t_members t)) \<and> allowed_at t u a (OrganizationRes org)) \<or>
    (\<exists>q \<in> set (project_probes t u). allowed_at t u a (ProjectRes q))"
proof (cases r)
  case (AppRes i)
  then show ?thesis using assms allowed_inside_a_project [of t u a r i] allowed_project_is_probed [of t u a] by blast
next
  case (DatabaseRes i)
  then show ?thesis using assms allowed_inside_a_project [of t u a r i] allowed_project_is_probed [of t u a] by blast
next
  case (ProjectRes p)
  then show ?thesis using assms allowed_project_is_probed [of t u a p] by blast
next
  case (OrganizationRes org)
  then show ?thesis using assms allowed_organization_is_a_membership [of t u a org] by blast
next
  case AnyRes
  then show ?thesis using assms by blast
qed

lemma probe_lists:
  assumes "tables_ok t"
  shows "collect_results (map (validated \<circ> OrganizationRes)
      (sort (map (fst \<circ> fst) (filter (\<lambda>((org, member), role). member = u) (t_members t))))) =
    Inr (map OrganizationRes (sort (map (fst \<circ> fst) (filter (\<lambda>((org, member), role). member = u) (t_members t)))))"
    and "collect_results (map (validated \<circ> ProjectRes) (project_probes t u)) = Inr (map ProjectRes (project_probes t u))"
proof -
  have "list_all validate_ids (map OrganizationRes (sort (map (fst \<circ> fst) (filter (\<lambda>((org, member), role). member = u) (t_members t)))))"
    using assms by (fastforce simp: tables_ok_def list_all_iff)
  from collect_validated [OF this] show "collect_results (map (validated \<circ> OrganizationRes)
      (sort (map (fst \<circ> fst) (filter (\<lambda>((org, member), role). member = u) (t_members t))))) =
    Inr (map OrganizationRes (sort (map (fst \<circ> fst) (filter (\<lambda>((org, member), role). member = u) (t_members t)))))" by simp
  have "q \<in> fst ` set (t_projects t)" if "q \<in> set (representative t org)" for q org
    using set_take_subset that by (force simp: representative_def)
  then have "list_all validate_ids (map ProjectRes (project_probes t u))"
    using assms by (fastforce simp: tables_ok_def list_all_iff project_probes_def split: if_splits)
  from collect_validated [OF this]
  show "collect_results (map (validated \<circ> ProjectRes) (project_probes t u)) = Inr (map ProjectRes (project_probes t u))" by simp
qed

lemma anywhere_quiet:
  assumes "tables_ok (pg_tables pg)" "\<And>n. \<not> pg_fails pg n" "ip_accepts ce (context_ip ctx)"
    "map_of (t_users (pg_tables pg)) (principal_id ctx) \<noteq> None"
  shows "fst (is_authorized_anywhere ce pg platform_policies ctx) =
    Inr (\<exists>r. allowed_at (pg_tables pg) (principal_id ctx) (ctx_action ctx) r)"
proof -
  let ?t = "pg_tables pg" and ?u = "principal_id ctx"
  let ?P = "allowed_at ?t ?u (ctx_action ctx)"
  let ?orgs = "sort (map (fst \<circ> fst) (filter (\<lambda>((org, member), role). member = ?u) (t_members ?t)))"
  let ?rs = "AnyRes # map OrganizationRes ?orgs @ map ProjectRes (project_probes ?t ?u)"
  have "fst (is_authorized_anywhere ce pg platform_policies ctx) = Inr (list_ex ?P ?rs)"
    using assms probe_lists [OF assms(1), of ?u]
    by (simp add: is_authorized_anywhere_def organization_resources_def project_probe_resources_def pg_query_def
        probe_resources_quiet del: probe_resources.simps)
  moreover have "list_ex ?P ?rs \<longleftrightarrow> (\<exists>r. ?P r)"
  proof
    assume "list_ex ?P ?rs"
    then show "\<exists>r. ?P r" by (auto simp: list_ex_iff)
  next
    assume "\<exists>r. ?P r"
    then consider (platform) "?P AnyRes"
      | (seat) org role where "((org, ?u), role) \<in> set (t_members ?t)" "?P (OrganizationRes org)"
      | (probe) q where "q \<in> set (project_probes ?t ?u)" "?P (ProjectRes q)"
      using some_probe_is_allowed [OF assms(1), of ?u "ctx_action ctx"] by blast
    then show "list_ex ?P ?rs"
    proof cases
      case (seat org role)
      then have "org \<in> set ?orgs" by (force simp: image_iff)
      then show ?thesis using seat(2) by (auto simp: list_ex_iff)
    qed (auto simp: list_ex_iff)
  qed
  ultimately show ?thesis by simp
qed

subsection \<open>Properties\<close>

text \<open>\<^bold>\<open>C4\<close>: a bearer token decides as its user does, narrowed to the words of its scope string. With the tables as they are at the
  request, the answer under the token is the answer without it - the same errors included - except that an allowed action
  whose name is not one of the words is denied.\<close>

theorem token_narrows_its_user_to_its_words:
  assumes "parse_scope_string raw = Inr scopes"
  shows "fst (enforce ce pg platform_policies (ctx\<lparr>token_policy := Some (scopes_to_policy scopes)\<rparr>)) =
    (case fst (enforce ce pg platform_policies (ctx\<lparr>token_policy := None\<rparr>)) of
       Inl e \<Rightarrow> Inl e
     | Inr d \<Rightarrow> Inr (if d = AllowDecision \<and> rstr (cedar_id (ctx_action ctx)) \<in> set (split_whitespace raw)
                     then AllowDecision else DenyDecision))"
proof -
  have "rstr (cedar_id (ctx_action ctx)) \<in> set (split_whitespace raw) \<longleftrightarrow> ctx_action ctx \<in> scope_action ` set scopes"
    unfolding parse_scope_string_words [OF assms] by (auto simp: rstr_inject cedar_id_inject)
  then show ?thesis by (simp add: enforce_scopes and_then_def split: sum.split)
qed

definition small_platform :: Tables where
  "small_platform =
     \<lparr>t_users = [(''usr_1'', \<lparr>email_verified_at = Some 5, locked_until = None\<rparr>)],
      t_roles = [(''viewer'', 10, 0), (''developer'', 20, 0), (''billing'', 10, 20), (''admin'', 30, 10), (''owner'', 40, 20)],
      t_members = [((''org_1'', ''usr_1''), ''developer''), ((''org_2'', ''usr_1''), ''admin'')],
      t_projects = [(''prj_1'', ''org_1''), (''prj_2'', ''org_2''), (''prj_3'', ''org_2'')],
      t_project_members = [((''prj_1'', ''usr_1''), ''viewer'')],
      t_apps = [(''app_1'', ''prj_1''), (''app_3'', ''prj_3'')],
      t_databases = [(''dbs_1'', ''prj_1'')],
      t_now = 1000\<rparr>"

definition small_pg :: Pg where
  "small_pg = \<lparr>pg_tables = small_platform, pg_fails = (\<lambda>n. False), pg_queries = 0, pg_audit = []\<rparr>"

definition any_ip :: CedarIp where
  "any_ip = \<lparr>ip_accepts = (\<lambda>ip. True), ip_in_range = (\<lambda>ip cidr. Some False)\<rparr>"

definition asks :: "AuthzAction \<Rightarrow> AuthzResource \<Rightarrow> AuthzContext" where
  "asks a r =
     \<lparr>principal_id = ''usr_1'', token_policy = None, ctx_action = a, ctx_resource = r, ctx_now = 1000, request_ip = None, request_id = None\<rparr>"

theorem token_narrows_its_user_to_its_words_witness:
  "fst (enforce any_ip small_pg platform_policies
     ((asks AppsDeploy (AppRes ''app_3''))\<lparr>token_policy := Some (scopes_to_policy [ScopeAppsRead, ScopeAppsDeploy])\<rparr>)) = Inr AllowDecision"
proof -
  have "parse_scope_string (rstr ''apps:read apps:deploy'') = Inr [ScopeAppsRead, ScopeAppsDeploy]" by code_simp
  moreover have "fst (enforce any_ip small_pg platform_policies ((asks AppsDeploy (AppRes ''app_3''))\<lparr>token_policy := None\<rparr>)) = Inr AllowDecision"
    by code_simp
  moreover have "rstr (cedar_id AppsDeploy) \<in> set (split_whitespace (rstr ''apps:read apps:deploy''))" by code_simp
  ultimately show ?thesis
    using token_narrows_its_user_to_its_words [of "rstr ''apps:read apps:deploy''" _ any_ip small_pg "asks AppsDeploy (AppRes ''app_3'')"]
    by (simp add: asks_def)
qed

text \<open>\<^bold>\<open>C7\<close>: authority comes from a seat. Whoever is allowed an action on an app, a database, a project or an organization - with
  any token policy or none - has a membership row in the organization that owns it, in a role whose own ranks reach what the
  bands ask for that action at that type of resource. A project role can lower the rank and never raise it.\<close>

theorem authority_comes_from_a_seat:
  assumes "fst (enforce ce pg platform_policies ctx) = Inr AllowDecision" "ctx_resource ctx \<noteq> AnyRes"
  shows "\<exists>org role rank billing need.
    owning_organization (pg_tables pg) (ctx_resource ctx) = Some org \<and>
    map_of (t_members (pg_tables pg)) (org, principal_id ctx) = Some role \<and>
    map_of (t_roles (pg_tables pg)) role = Some (rank, billing) \<and>
    needs (cedar_type (ctx_resource ctx)) (ctx_action ctx) = Some need \<and> meets need rank billing"
proof -
  let ?ctx = "ctx\<lparr>token_policy := None\<rparr>"
  have "user_decision ce ctx (fst (resolve pg (principal_id ctx) (ctx_resource ctx))) = Inr AllowDecision"
    using no_token_exceeds_its_user [OF assms(1)] enforce_untokened [of ?ctx] by simp
  then obtain authority where "fst (resolve pg (principal_id ctx) (ctx_resource ctx)) = Inr authority"
      "permitted (cedar_type (ctx_resource ctx)) (ctx_action ctx) (effective_rank authority) (billing_rank authority)"
    by (auto simp: user_decision_def and_then_Inr split: if_splits)
  from permitted_needs_a_seat [OF resolve_fault_free [OF this(1)] this(2) assms(2)]
  obtain need rank billing where
    "member_role (pg_tables pg) (owning_organization (pg_tables pg) (ctx_resource ctx)) (principal_id ctx) = Some (rank, billing)"
    "needs (cedar_type (ctx_resource ctx)) (ctx_action ctx) = Some need" "meets need rank billing" .
  then show ?thesis by (auto simp: member_role_def role_of_def bind_eq_Some_conv)
qed

theorem authority_comes_from_a_seat_witness:
  "\<exists>org role rank billing need.
    owning_organization small_platform (AppRes ''app_1'') = Some org \<and>
    map_of (t_members small_platform) (org, ''usr_1'') = Some role \<and>
    map_of (t_roles small_platform) role = Some (rank, billing) \<and>
    needs AppType EnvRead = Some need \<and> meets need rank billing"
proof -
  have "fst (enforce any_ip small_pg platform_policies (asks EnvRead (AppRes ''app_1''))) = Inr AllowDecision" by code_simp
  from authority_comes_from_a_seat [OF this] show ?thesis by (simp add: asks_def small_pg_def)
qed

text \<open>\<^bold>\<open>C10\<close>: the consent probe is exact. On tables within their constraints, with queries that succeed, a known principal and an
  address Cedar accepts, the probe over the platform resource, the memberships and the representative projects says yes
  exactly if some resource at all - any app, database, project or organization - would be allowed.\<close>

theorem consent_probe_is_exact:
  assumes "tables_ok (pg_tables pg)" "\<And>n. \<not> pg_fails pg n" "ip_accepts ce (context_ip ctx)"
    "map_of (t_users (pg_tables pg)) (principal_id ctx) \<noteq> None"
  shows "fst (is_authorized_anywhere ce pg platform_policies ctx) =
    Inr (\<exists>r. fst (enforce ce pg platform_policies (ctx\<lparr>token_policy := None, ctx_resource := r\<rparr>)) = Inr AllowDecision)"
proof -
  have "fst (enforce ce pg platform_policies (ctx\<lparr>token_policy := None, ctx_resource := r\<rparr>)) = Inr AllowDecision \<longleftrightarrow>
      allowed_at (pg_tables pg) (principal_id ctx) (ctx_action ctx) r" for r
    using enforce_quiet [of pg ce "ctx\<lparr>token_policy := None, ctx_resource := r\<rparr>"] assms by (simp add: context_ip_def)
  then show ?thesis using anywhere_quiet [OF assms] by simp
qed

theorem consent_probe_is_exact_witness:
  "fst (is_authorized_anywhere any_ip small_pg platform_policies (asks SecretsWrite AnyRes)) =
   Inr (\<exists>r. fst (enforce any_ip small_pg platform_policies
     ((asks SecretsWrite AnyRes)\<lparr>token_policy := None, ctx_resource := r\<rparr>)) = Inr AllowDecision)"
proof (rule consent_probe_is_exact)
  show "tables_ok (pg_tables small_pg)" by code_simp
  show "\<not> pg_fails small_pg n" for n by (simp add: small_pg_def)
  show "ip_accepts any_ip (context_ip (asks SecretsWrite AnyRes))" by (simp add: any_ip_def)
  show "map_of (t_users (pg_tables small_pg)) (principal_id (asks SecretsWrite AnyRes)) \<noteq> None" by code_simp
qed

text \<open>The answer of one set of policies and the policies it rests on, by position: an error if one of them fails, a denial by the
  satisfied forbids, else a grant by the satisfied permits.\<close>

definition satisfied_at :: "in_range \<Rightarrow> CedarRequest \<Rightarrow> CedarPolicy list \<Rightarrow> bool \<Rightarrow> nat set" where
  "satisfied_at ir rq ps permit = {i. i < length ps \<and> cp_permit (ps ! i) = permit \<and> policy_value ir rq (ps ! i) = Some True}"

definition pass_verdict :: "in_range \<Rightarrow> CedarRequest \<Rightarrow> CedarPolicy list \<Rightarrow> AuthzError + AuthzDecision \<times> nat set" where
  "pass_verdict ir rq ps =
     (if \<exists>p \<in> set ps. policy_value ir rq p = None then Inl CedarEval
      else if satisfied_at ir rq ps False \<noteq> {} then Inr (DenyDecision, satisfied_at ir rq ps False)
      else if satisfied_at ir rq ps True \<noteq> {} then Inr (AllowDecision, satisfied_at ir rq ps True)
      else Inr (DenyDecision, {}))"

text \<open>The platform decides first; a grant is then put to the policies of the token.\<close>

definition verdict :: "in_range \<Rightarrow> CedarPolicy list \<Rightarrow> AuthzContext \<Rightarrow> CedarRequest \<Rightarrow> AuthzError + AuthzDecision \<times> nat set" where
  "verdict ir platform ctx rq =
     (case (pass_verdict ir rq platform, token_policy ctx) of
        (Inr (AllowDecision, matched), Some policy) \<Rightarrow> pass_verdict ir rq (the (policy_set_from_policy policy))
      | (v, _) \<Rightarrow> v)"

definition request_of :: "AuthzContext \<Rightarrow> Authority \<Rightarrow> CedarRequest" where
  "request_of ctx authority =
     \<lparr>rq_action = cedar_id (ctx_action ctx), rq_resource = ctx_resource ctx, rq_minute = ctx_now ctx mod 86400 div 60,
      rq_ip = (case request_ip ctx of None \<Rightarrow> V4 (Ipv4 0 0 0 0) | Some ip \<Rightarrow> ip),
      rq_rank = effective_rank authority, rq_billing = billing_rank authority\<rparr>"

definition outcome :: "CedarIp \<Rightarrow> Pg \<Rightarrow> CedarPolicy list \<Rightarrow> AuthzContext \<Rightarrow> AuthzError + AuthzDecision \<times> nat set" where
  "outcome ce pg platform ctx =
     (if pg_fails pg (pg_queries pg) then Inl AuthzDb
      else case resolve_at (pg_tables pg) (principal_id ctx) (ctx_resource ctx) of
        Inl e \<Rightarrow> Inl e
      | Inr authority \<Rightarrow>
          (let rq = request_of ctx authority
           in if \<not> ip_accepts ce (rq_ip rq) then Inl CedarRequest else verdict (ip_in_range ce) platform ctx rq))"

text \<open>The resource an audit row names, read from its two columns.\<close>

definition row_resource :: "AuditRow \<Rightarrow> AuthzResource option" where
  "row_resource row =
     (if au_resource_type row = ''any'' then (if au_resource_id row = None then Some AnyRes else None)
      else if au_resource_type row = ''app'' then map_option AppRes (au_resource_id row)
      else if au_resource_type row = ''database'' then map_option DatabaseRes (au_resource_id row)
      else if au_resource_type row = ''project'' then map_option ProjectRes (au_resource_id row)
      else if au_resource_type row = ''organization'' then map_option OrganizationRes (au_resource_id row)
      else None)"

definition records_decision :: "AuthzContext \<Rightarrow> AuthzDecision \<Rightarrow> nat set \<Rightarrow> AuditRow \<Rightarrow> bool" where
  "records_decision ctx d matched row \<longleftrightarrow>
     au_actor row = principal_id ctx \<and> from_wire (au_action row) = Some (ctx_action ctx) \<and>
     row_resource row = Some (ctx_resource ctx) \<and> au_decision row = (if d = AllowDecision then ''allow'' else ''deny'') \<and>
     au_matched row = matched \<and> au_ip row = request_ip ctx \<and> au_request_id row = request_id ctx"

lemma set_indices: "set (indices P xs) = {i. i < length xs \<and> P (xs ! i)}"
  by (force simp: indices_def in_set_enumerate_eq image_iff)

lemma build_request_of:
  "build_request ce ctx authority = (if ip_accepts ce (context_ip ctx) then Inr (request_of ctx authority) else Inl CedarRequest)"
  by (simp add: build_request_def request_of_def context_ip_def utc_minute_of_day_def)

lemma request_of_ip: "rq_ip (request_of ctx authority) = context_ip ctx"
  by (simp add: request_of_def context_ip_def)

lemma cedar_pass_verdict:
  assumes "ip_accepts ce (context_ip ctx)"
  shows "and_then (cedar_pass ce ctx authority ps) (\<lambda>r. Inr (if cr_allow r then AllowDecision else DenyDecision, cr_reason r)) =
    pass_verdict (ip_in_range ce) (request_of ctx authority) ps"
proof -
  let ?rq = "request_of ctx authority" and ?ir = "ip_in_range ce"
  let ?forbids = "indices (\<lambda>p. \<not> cp_permit p \<and> policy_value ?ir ?rq p = Some True) ps"
  let ?permits = "indices (\<lambda>p. cp_permit p \<and> policy_value ?ir ?rq p = Some True) ps"
  have sets: "set ?forbids = satisfied_at ?ir ?rq ps False" "set ?permits = satisfied_at ?ir ?rq ps True"
    by (auto simp: set_indices satisfied_at_def)
  then have "?forbids = [] \<longleftrightarrow> satisfied_at ?ir ?rq ps False = {}" "?permits = [] \<longleftrightarrow> satisfied_at ?ir ?rq ps True = {}"
    by (metis set_empty)+
  with sets show ?thesis using assms
    by (auto simp: cedar_pass_def build_request_of refuse_on_evaluation_error_def is_authorized_def Let_def indices_Nil pass_verdict_def)
qed

lemma audit_decision_records:
  "if pg_fails pg (pg_queries pg) then pg_audit (audit_decision pg ctx d matched) = pg_audit pg
   else \<exists>row. pg_audit (audit_decision pg ctx d matched) = pg_audit pg @ [row] \<and> records_decision ctx d matched row"
  by (cases "ctx_resource ctx"; cases d)
    (simp_all add: audit_decision_def Let_def records_decision_def row_resource_def audit_row_def from_wire_cedar_id)

text \<open>An answer and the audit of the database after it.\<close>

definition decision_answers :: "Pg \<Rightarrow> AuthzContext \<Rightarrow> AuthzError + AuthzDecision \<times> nat set \<Rightarrow> (AuthzError + AuthzDecision) \<times> Pg \<Rightarrow> bool" where
  "decision_answers pg ctx v result \<longleftrightarrow>
     (case v of
        Inl e \<Rightarrow> fst result = Inl e \<and> pg_audit (snd result) = pg_audit pg
      | Inr (d, matched) \<Rightarrow> fst result = Inr d \<and>
          (if pg_fails pg (pg_queries pg) then pg_audit (snd result) = pg_audit pg
           else \<exists>row. pg_audit (snd result) = pg_audit pg @ [row] \<and> records_decision ctx d matched row))"

lemma decided_answers:
  assumes "ip_accepts ce (context_ip ctx)"
  shows "decision_answers pg ctx (pass_verdict (ip_in_range ce) (request_of ctx authority) ps) (decided pg ctx (cedar_pass ce ctx authority ps))"
  using cedar_pass_verdict [OF assms, of authority ps, symmetric] audit_decision_records [of pg ctx]
  by (cases "cedar_pass ce ctx authority ps") (auto simp: decision_answers_def decided_def Let_def)

lemma enforce_answers:
  assumes "ip_accepts ce (context_ip ctx)" "resolve pg (principal_id ctx) (ctx_resource ctx) = (Inr authority, pg')"
  shows "decision_answers pg' ctx (verdict (ip_in_range ce) platform ctx (request_of ctx authority)) (enforce ce pg platform ctx)"
proof (cases "token_policy ctx")
  case None
  then show ?thesis using decided_answers [OF assms(1), of pg' authority platform] assms(2)
    by (auto simp: enforce_def final_pass_def verdict_def split: sum.splits prod.splits AuthzDecision.splits)
next
  case (Some policy)
  let ?v = "pass_verdict (ip_in_range ce) (request_of ctx authority)"
  obtain ps where ps: "policy_set_from_policy policy = Some ps" by (simp add: policy_set_from_policy_eq)
  show ?thesis
  proof (cases "cedar_pass ce ctx authority platform")
    case (Inl e)
    then have "?v platform = Inl e" using cedar_pass_verdict [OF assms(1), of authority platform] by simp
    then show ?thesis using Some Inl assms(2) by (simp add: enforce_def verdict_def decision_answers_def)
  next
    case (Inr response)
    then have v: "?v platform = Inr (if cr_allow response then AllowDecision else DenyDecision, cr_reason response)"
      using cedar_pass_verdict [OF assms(1), of authority platform] by simp
    show ?thesis
    proof (cases "cr_allow response")
      case True
      then show ?thesis using Some Inr v ps assms(2) decided_answers [OF assms(1), of pg' authority ps]
        by (simp add: enforce_def verdict_def final_pass_def)
    next
      case False
      then show ?thesis using Some Inr v assms(2) audit_decision_records [of pg' ctx DenyDecision "cr_reason response"]
        by (simp add: enforce_def verdict_def decision_answers_def)
    qed
  qed
qed

text \<open>\<^bold>\<open>C21\<close>: every decision is the one of its policies and leaves its audit row. Whatever the policies, the request and the faults,
  the outcome of an enforcement is a failed query or an unresolved principal, a refused address, the error of a policy that
  cannot be evaluated, or the decision of the first set of policies that denies and else of the last one, with the policies
  it rests on: the satisfied forbids, else the satisfied permits. An error leaves no row. A decision appends exactly one row,
  unless the insert itself fails, and from that row the actor, the action, the resource, the decision, those policies, the
  address and the request identifier can be read back.\<close>

theorem every_decision_leaves_its_audit_row:
  "case outcome ce pg platform ctx of
     Inl e \<Rightarrow> fst (enforce ce pg platform ctx) = Inl e \<and> pg_audit (snd (enforce ce pg platform ctx)) = pg_audit pg
   | Inr (d, matched) \<Rightarrow> fst (enforce ce pg platform ctx) = Inr d \<and>
       (if pg_fails pg (Suc (pg_queries pg)) then pg_audit (snd (enforce ce pg platform ctx)) = pg_audit pg
        else \<exists>row. pg_audit (snd (enforce ce pg platform ctx)) = pg_audit pg @ [row] \<and> records_decision ctx d matched row)"
proof -
  obtain resolved pg' where run: "resolve pg (principal_id ctx) (ctx_resource ctx) = (resolved, pg')"
      "resolved = (if pg_fails pg (pg_queries pg) then Inl AuthzDb else resolve_at (pg_tables pg) (principal_id ctx) (ctx_resource ctx))"
      "pg_audit pg' = pg_audit pg" "pg_fails pg' (pg_queries pg') = pg_fails pg (Suc (pg_queries pg))"
    by (simp add: resolve_def pg_query_def)
  show ?thesis
  proof (cases resolved)
    case (Inl e)
    then have "outcome ce pg platform ctx = Inl e" using run(2) by (auto simp: outcome_def split: if_splits)
    then show ?thesis using Inl run(1,3) by (simp add: enforce_def)
  next
    case (Inr authority)
    have out: "outcome ce pg platform ctx =
        (if \<not> ip_accepts ce (context_ip ctx) then Inl CedarRequest else verdict (ip_in_range ce) platform ctx (request_of ctx authority))"
      using Inr run(2) by (auto simp: outcome_def request_of_ip Let_def split: if_splits)
    show ?thesis
    proof (cases "ip_accepts ce (context_ip ctx)")
      case True
      then show ?thesis using enforce_answers [OF True, of pg authority pg' platform] run(1,3,4) Inr out
        by (auto simp: decision_answers_def split: sum.splits prod.splits if_splits)
    next
      case False
      then show ?thesis using out run(1,3) Inr
        by (cases "token_policy ctx") (simp_all add: enforce_def final_pass_def cedar_pass_def build_request_of decided_def policy_set_from_policy_eq)
    qed
  qed
qed

end
