(* ===== verification/Spec2Isabelle.thy ===== *)
theory Spec2Isabelle
  imports TxLaneRuns PolInject TypedId OpBreaker Egress KvRuns CronProps WsRuns AuthzProps
begin

text \<open>
  A verification library for Zeroship, a platform that hosts applications of many tenants: each app runs in an isolate of a
  JavaScript runtime, with a database, a key-value store, workflows and outgoing connections, behind a gateway, and is
  managed through a control plane. File names below are relative to \<^verbatim>\<open>src/\<close>.

  \<^bold>\<open>The parts and how they interact.\<close> A database transaction of an app is decided by a pure \<^emph>\<open>reducer\<close>; the per-thread
  \<^emph>\<open>lanes\<close> hold it with its session and queue of change events, and a driver performs its actions. A schema migration is
  admitted under a \<^emph>\<open>policy\<close> composed of a trusted charter and an untrusted draft. Outgoing connections of an app pass the
  \<^emph>\<open>egress\<close> rules and the address floor; a \<^emph>\<open>WebSocket\<close> is one such connection. The \<^emph>\<open>key-value store\<close> gives each app a
  namespace of one table. The \<^emph>\<open>calendar\<close> says when a workflow schedule fires. \<^emph>\<open>Typed identifiers\<close> name every entity,
  \<^emph>\<open>authorization\<close> decides what a user or a token may do to one, and the gateway asks the identity provider through a
  \<^emph>\<open>circuit breaker\<close>.

  \<^bold>\<open>Conventions.\<close> \<open>Prelude\<close> has the shared vocabulary: words for machine integers where wrapping matters, \<open>'e + 'a\<close> for
  \<^verbatim>\<open>Result\<close> with \<open>Inl\<close> for \<^verbatim>\<open>Err\<close>, \<open>None\<close> for a panic where one is reachable, and the locale \<open>inductive_invariant\<close> for runs.
  Text is a list of bytes or of Unicode scalar values, as the code at hand looks at it (\<open>Decimal\<close> has the number formats of
  the standard library). Code of other projects is an argument of the definitions that use it; its documented behaviour is a
  locale or a named hypothesis, interpreted or instantiated by a concrete function.

  \<^bold>\<open>Transactions\<close> (\<^verbatim>\<open>crates/zeroship-data-orm/src/transaction/reducer/\<close>, \<^verbatim>\<open>tx_lanes.rs\<close>, parts of \<^verbatim>\<open>transaction/driver.rs\<close>).
  \<^item> \<open>TxIdentity\<close> (\<^verbatim>\<open>identity.rs\<close>: \<^verbatim>\<open>classify\<close>, the mask ceiling), \<open>TxDeadline\<close> (\<^verbatim>\<open>deadline.rs\<close>: the one-shot slot, locale
    \<open>one_shot_timer\<close>), \<open>TxFrames\<close> (\<^verbatim>\<open>frames.rs\<close>: the savepoint stack with a buffer per frame) and \<open>TxReducer\<close> (\<^verbatim>\<open>mod.rs\<close>: one
    definition per handler, \<open>apply_event\<close> and \<open>queue_effect\<close> the entry points). \<open>EffectBuffer\<close> is the contract of a buffer with
    nested frames, interpreted for the stack, the reducer and the lane queue.
  \<^item> \<open>TxProtocol\<close> defines runs; \<open>TxGate\<close> proves what holds for any calls in any order: a forced cleanup is final, the
    admission claim is released exactly once, effects are published at most once and only for a confirmed commit.
  \<^item> \<open>TxDriver\<close> and \<open>TxRuns\<close> add that completions answer their command: no call panics and two timers settle anything.
    \<open>TxEffects\<close> composes the reducer with a driven body: what commits is what survives the rollbacks.
  \<^item> \<open>TxLanes\<close> and \<open>TxLaneRuns\<close> are the lanes: routes do not interfere, sessions are conserved, and the flat queue agrees
    with the frame stack.

  \<^bold>\<open>Migration policy\<close> (\<^verbatim>\<open>crates/zeroship-migrate-policy/src/\<close>).
  \<^item> \<open>PolGlob\<close>, \<open>PolPattern\<close> and \<open>PolScope\<close> (\<^verbatim>\<open>scope/\<close>): globs, patterns and the scope lattice with the set of objects as
    ground truth (locale \<open>scope_algebra\<close>); cover and intersection are exact and the difference never loses an object.
  \<^item> \<open>PolKnob\<close> (\<^verbatim>\<open>knob.rs\<close>, \<^verbatim>\<open>value_order.rs\<close>, \<^verbatim>\<open>registry.rs\<close>; locale \<open>value_lattice\<close>), \<open>PolRule\<close> (\<^verbatim>\<open>rule.rs\<close>, conflicts), \<open>PolCompose\<close> and
    \<open>PolGrants\<close> (\<^verbatim>\<open>compose.rs\<close>: layers, grant model, overlay, restrict, finalize).
  \<^item> \<open>PolAdmit\<close> (\<^verbatim>\<open>boundary.rs\<close>) and \<open>PolSafety\<close>: an admitted draft, alone or in a chain, grants nowhere more than the charter,
    and obligations survive. \<open>PolRegion\<close> and \<open>PolInject\<close>: the region query, the creatable-scope check, restrict, and the
    absence of contradicting injected shapes.

  \<^bold>\<open>Authorization\<close> (\<^verbatim>\<open>crates/zeroship-authz/src/\<close>, \<^verbatim>\<open>deploy/policies/\<close>).
  \<^item> \<open>AuthzPolicy\<close> (\<^verbatim>\<open>action.rs\<close>, \<^verbatim>\<open>scope.rs\<close>, \<^verbatim>\<open>resource.rs\<close>, \<^verbatim>\<open>lower.rs\<close>): the vocabulary, the evaluation of the part of Cedar the platform
    writes, and the lowering of a wrapper policy to source text. \<open>CedarSyntax\<close> has the tokens and the grammar of that part.
    \<open>AuthzLower\<close>: no text in a policy changes the statements its source reads back as, and the policies read mean the
    statements unless a list of address ranges shares its clause.
  \<^item> \<open>Authz\<close> (\<^verbatim>\<open>authority.rs\<close>, \<^verbatim>\<open>eval.rs\<close>, the policy bands) and \<open>AuthzProps\<close>: a token narrows its user to its words, authority
    comes from a seat in the owning organization, the consent probe is exact, a decision is the one of its policies and its
    audit row can be read back. The locale \<open>ranked_policies\<close> is what enforcement relies on in the bands.

  \<^bold>\<open>Egress\<close> (\<open>NetAddr\<close>: \<^verbatim>\<open>crates/zeroship-runtime/src/transport/ssrf.rs\<close>; \<open>Egress\<close>: \<^verbatim>\<open>transport/{net_policy,egress}.rs\<close> and
  \<^verbatim>\<open>crates/zeroship-core/src/net_policy.rs\<close>): the floor as the table of ranges its comments list, outside the two
  ranges in which one row differs from its comment, and the evaluator: every address used is granted
  and above the floor, and the order of rules does not matter.

  \<^bold>\<open>WebSocket client\<close> (\<^verbatim>\<open>crates/zeroship-runtime/src/web/websocket/\<close>): \<open>WsFrames\<close> (\<^verbatim>\<open>frame_writer.rs\<close>, \<^verbatim>\<open>frame_reader.rs\<close>, the loops
  of \<^verbatim>\<open>network.rs\<close>), \<open>WsProps\<close> (decoding what a server sends, agreement of both decoders, bounded memory, frames read back by a server's parser),
  \<open>WsSocket\<close> (\<^verbatim>\<open>mod.rs\<close>, \<^verbatim>\<open>network.rs\<close>, \<^verbatim>\<open>dispatch.rs\<close>: the socket shared by page, pump, reader and writer) and \<open>WsRuns\<close> (every
  interleaving of their turns: what the page sees, the bytes on the wire, the buffered amount). A blob is queued and counted but
  has no bytes, so the statement about the wire is for runs that send none.

  \<^bold>\<open>Key-value store\<close> (\<open>KvStore\<close>, \<open>KvProps\<close>, \<open>KvRuns\<close>: \<^verbatim>\<open>crates/zeroship-kv/src/\<close>): runs refine a map whose entries expire,
  namespaces are isolated, pages list every live key; the table is the locale \<open>ordered_table\<close>.

  \<^bold>\<open>Calendar\<close> (\<open>CronParse\<close>, \<open>CronNext\<close>, \<open>CronProps\<close>: \<^verbatim>\<open>crates/zeroship-workflow-calendar/src/\<close>): printed schedules are parsed, the
  next occurrence is the first, an accepted schedule has one; locales \<open>civil_calendar\<close> and \<open>time_zone\<close>, interpreted for
  the Gregorian calendar, UTC and a zone with both clock changes.

  \<^bold>\<open>Typed identifiers\<close> (\<open>TypedId\<close>: \<^verbatim>\<open>crates/zeroship-id/src/\<close>): one spelling per identifier. \<^bold>\<open>Circuit breaker\<close> (\<open>OpBreaker\<close>:
  \<^verbatim>\<open>crates/zeroship-gateway/src/op_client.rs\<close>): under every schedule of atomic steps one probe at most, and no wedge.

  \<^bold>\<open>Bounds and fuel.\<close> Loops of the code are functions with a termination proof. The search of the calendar keeps the bounds of
  the source, \<open>366 * 8\<close> days and \<open>48 * 60\<close> minutes for a gap, and an accepted schedule is proved to fire within them. Fuel is
  taken by \<open>kv_pages\<close>, which follows a cursor, where more fuel than live keys reaches the end; by \<open>parse_client_frames\<close>, the
  server's reading of a stream, where the number of frames is enough; and by the parsers of \<open>CedarSyntax\<close>, where the number
  of tokens, and three calls per token in a condition, are proved to be enough for everything the lowering writes.

  \<^bold>\<open>Not modelled.\<close>
  \<^item> HTTP services and pages, command line, worker supervision, storage, mail, metering and stream transport: I/O around
    calls of other services (\<^verbatim>\<open>zeroship-{auth,authn,control,cli,worker,storage,mailer,metering,stream}\<close>, the rest of
    \<^verbatim>\<open>zeroship-gateway\<close>). Where they ask for a decision, the decision is modelled.
  \<^item> The bindings of the JavaScript engine, TLS, the opening handshake and socket pairs of a WebSocket, and generated code.
  \<^item> The query compiler and the backends of the ORM, the planner and the backends of the migration engine, the journal and
    the services of workflows: large components over databases that would each be a development of their own.
  \<^item> The interpreter loop of the transaction driver, the loader of policy documents, the networked key-value backend and the
    token revocation cache; what the modelled code relies on there is a hypothesis (\<open>driver_event\<close>, \<open>doc_valid\<close>).
  \<^item> Protocol clients under \<^verbatim>\<open>libs/\<close>, TypeScript packages, database migrations, test kits and build tasks.
  \<^item> Memory ordering weaker than sequential consistency, texts of errors, logs and metrics.
\<close>

end
